(* ===== verification/Prelude.thy ===== *)
theory Prelude
  imports Main "HOL-Library.Word" "HOL-Library.Monad_Syntax"
begin

unbundle bit_operations_syntax

text \<open>
  Shared material of the development: the machine types of \<^verbatim>\<open>include/type.h\<close>, the
  memory model of C objects, the little-endian layout of 16- and 32-bit integers, and the
  generic facts on lists, options and words that the component theories use.

  \<^item> A C object of \<open>n\<close> bytes or cells is a list of length \<open>n\<close>. A pointer into an object is the
    list of the cells from the pointed-to cell to the end of the object, or an index.
  \<^item> A computation that may touch memory outside an object, follow a null pointer, use a
    value that was never set, or fail to return, has an option type: \<open>None\<close> is that failure,
    \<open>Some\<close> the result. The \<open>do\<close> notation is the option monad.
\<close>

section \<open>Machine types\<close>

type_synonym u8 = "8 word"
type_synonym u16 = "16 word"
type_synonym u32 = "32 word"

named_theorems mem_simps \<open>reads over writes of C objects\<close>
named_theorems layout_simps \<open>sizes and offsets of the on-disk structures\<close>

section \<open>Options as failures\<close>

definition guard :: "bool \<Rightarrow> unit option" where
  "guard b = (if b then Some () else None)"

lemma guard_simps [simp]:
  "guard True = Some ()" "guard False = None"
  "guard b = Some u \<longleftrightarrow> b" "guard b = None \<longleftrightarrow> \<not> b"
  by (auto simp: guard_def)

lemma guard_bind [simp]: "Option.bind (guard b) f = (if b then f () else None)"
  by (simp add: guard_def)

lemma map_option_eq_bind: "map_option f x = Option.bind x (\<lambda>y. Some (f y))"
  by (cases x) auto

section \<open>Cells of an object\<close>

definition load :: "'a list \<Rightarrow> nat \<Rightarrow> 'a option" where
  "load xs i = (if i < length xs then Some (xs ! i) else None)"

definition store :: "'a list \<Rightarrow> nat \<Rightarrow> 'a \<Rightarrow> 'a list option" where
  "store xs i v = (if i < length xs then Some (xs[i := v]) else None)"

lemma load_in [simp]: "i < length xs \<Longrightarrow> load xs i = Some (xs ! i)"
  by (simp add: load_def)

lemma store_in [simp]: "i < length xs \<Longrightarrow> store xs i v = Some (xs[i := v])"
  by (simp add: store_def)

lemma store_length: "store xs i v = Some ys \<Longrightarrow> length ys = length xs"
  by (auto simp: store_def split: if_splits)

lemma load_store: "store xs i v = Some ys \<Longrightarrow> load ys j = (if i = j then Some v else load xs j)"
  by (auto simp: store_def load_def split: if_splits)

text \<open>Copying a run of cells into an object.\<close>

definition splice :: "'a list \<Rightarrow> nat \<Rightarrow> 'a list \<Rightarrow> 'a list" where
  "splice xs off ys = take off xs @ ys @ drop (off + length ys) xs"

definition slice :: "'a list \<Rightarrow> nat \<Rightarrow> nat \<Rightarrow> 'a list" where
  "slice xs off n = take n (drop off xs)"

lemma length_splice [simp]:
  "off + length ys \<le> length xs \<Longrightarrow> length (splice xs off ys) = length xs"
  by (simp add: splice_def)

lemma length_slice [simp]: "length (slice xs off n) = min n (length xs - off)"
  by (simp add: slice_def)

lemma slice_splice_same [mem_simps]:
  "off + length ys \<le> length xs \<Longrightarrow> n = length ys \<Longrightarrow> slice (splice xs off ys) off n = ys"
  by (simp add: slice_def splice_def)

lemma nth_splice:
  assumes "off + length ys \<le> length xs" "i < length xs"
  shows "splice xs off ys ! i = (if off \<le> i \<and> i < off + length ys then ys ! (i - off) else xs ! i)"
  using assms by (auto simp: splice_def nth_append min_def)

lemma nth_slice: "i < n \<Longrightarrow> off + i < length xs \<Longrightarrow> slice xs off n ! i = xs ! (off + i)"
  by (simp add: slice_def)

lemma slice_splice_other [mem_simps]:
  assumes "off + length ys \<le> length xs" and "off' + n \<le> off \<or> off + length ys \<le> off'"
    and "off' + n \<le> length xs"
  shows "slice (splice xs off ys) off' n = slice xs off' n"
  using assms by (intro nth_equalityI) (auto simp: nth_slice nth_splice)

section \<open>Searching upwards\<close>

text \<open>
  The loops \<^verbatim>\<open>while (!stop(i)) { i++; if (i >= n) return; }\<close> of the kernel: the first index from
  \<open>i\<close> on at which the condition holds, \<open>None\<close> when the bound is reached.
\<close>

function scan_up :: "(nat \<Rightarrow> bool) \<Rightarrow> nat \<Rightarrow> nat \<Rightarrow> nat option" where
  "scan_up stop n i = (if n \<le> i then None else if stop i then Some i else scan_up stop n (i + 1))"
  by pat_completeness auto
termination by (relation "measure (\<lambda>(_, n, i). n - i)") auto

declare scan_up.simps [simp del]

lemma scan_up_Some:
  "scan_up stop n i = Some j \<Longrightarrow> i \<le> j \<and> j < n \<and> stop j \<and> (\<forall>k. i \<le> k \<and> k < j \<longrightarrow> \<not> stop k)"
proof (induction stop n i rule: scan_up.induct)
  case (1 stop n i)
  show ?case
  proof (cases "n \<le> i \<or> stop i")
    case True
    then show ?thesis using "1.prems" by (subst (asm) scan_up.simps) (auto split: if_splits)
  next
    case False
    then have "scan_up stop n (i + 1) = Some j" using "1.prems" by (subst (asm) scan_up.simps) simp
    then have "i + 1 \<le> j \<and> j < n \<and> stop j \<and> (\<forall>k. i + 1 \<le> k \<and> k < j \<longrightarrow> \<not> stop k)"
      using False "1.IH" by auto
    then show ?thesis using False by (metis Suc_eq_plus1 Suc_leD le_antisym not_less_eq_eq)
  qed
qed

lemma scan_up_None: "scan_up stop n i = None \<Longrightarrow> i \<le> k \<Longrightarrow> k < n \<Longrightarrow> \<not> stop k"
proof (induction stop n i rule: scan_up.induct)
  case (1 stop n i)
  then show ?case
    by (subst (asm) (2) scan_up.simps)
      (metis Suc_eq_plus1 le_antisym le_trans not_less_eq_eq not_less option.distinct(1))
qed

section \<open>Counting loops\<close>

text \<open>The loops \<^verbatim>\<open>for (i = lo; i < n; i++)\<close>.\<close>

function for_range :: "nat \<Rightarrow> nat \<Rightarrow> (nat \<Rightarrow> 's \<Rightarrow> 's option) \<Rightarrow> 's \<Rightarrow> 's option" where
  "for_range i n f s = (if i < n then do { s \<leftarrow> f i s; for_range (i + 1) n f s } else Some s)"
  by pat_completeness auto
termination
  by (relation "measure (\<lambda>(i, n, _). n - i)") auto

declare for_range.simps [simp del]

lemma for_range_inv:
  assumes "P lo s" "lo \<le> n"
    and "\<And>i s. lo \<le> i \<Longrightarrow> i < n \<Longrightarrow> P i s \<Longrightarrow> \<exists>s'. f i s = Some s' \<and> P (Suc i) s'"
  shows "\<exists>s'. for_range lo n f s = Some s' \<and> P n s'"
  using assms
proof (induction lo n f s rule: for_range.induct)
  case (1 i n f s)
  show ?case
  proof (cases "i < n")
    case True
    then obtain s' where s': "f i s = Some s'" "P (Suc i) s'" using "1.prems"(3) [of i s] "1.prems"(1) by auto
    have "\<exists>s''. for_range (i + 1) n f s' = Some s'' \<and> P n s''"
    proof (rule "1.IH" [OF True s'(1)])
      show "P (i + 1) s'" "i + 1 \<le> n" using s'(2) True by simp_all
      show "\<exists>s'. f k t = Some s' \<and> P (Suc k) s'" if "i + 1 \<le> k" "k < n" "P k t" for k t
        using "1.prems"(3) [of k t] that by simp
    qed
    then show ?thesis using True s'(1) by (subst for_range.simps) simp
  next
    case False
    then show ?thesis using "1.prems" by (subst for_range.simps) simp
  qed
qed

section \<open>Little-endian integers\<close>

definition le16 :: "u16 \<Rightarrow> u8 list" where
  "le16 w = [ucast w, ucast (drop_bit 8 w)]"

definition le32 :: "u32 \<Rightarrow> u8 list" where
  "le32 w = [ucast w, ucast (drop_bit 8 w), ucast (drop_bit 16 w), ucast (drop_bit 24 w)]"

definition of_le16 :: "u8 list \<Rightarrow> u16" where
  "of_le16 bs = ucast (bs ! 0) OR push_bit 8 (ucast (bs ! 1))"

definition of_le32 :: "u8 list \<Rightarrow> u32" where
  "of_le32 bs = ucast (bs ! 0) OR push_bit 8 (ucast (bs ! 1))
     OR push_bit 16 (ucast (bs ! 2)) OR push_bit 24 (ucast (bs ! 3))"

lemma length_le16 [simp]: "length (le16 w) = 2"
  by (simp add: le16_def)

lemma length_le32 [simp]: "length (le32 w) = 4"
  by (simp add: le32_def)

lemma of_le16_le16 [simp]: "of_le16 (le16 w) = w"
  by (rule bit_word_eqI)
    (auto simp: of_le16_def le16_def bit_simps)

lemma of_le32_le32 [simp]: "of_le32 (le32 w) = w"
proof (rule bit_word_eqI)
  fix n :: nat
  assume "n < LENGTH(32)"
  then show "bit (of_le32 (le32 w)) n = bit w n"
    by (cases "n < 8"; cases "n < 16"; cases "n < 24") (auto simp: of_le32_def le32_def bit_simps)
qed

lemma of_le32_append [simp]: "length a = 4 \<Longrightarrow> of_le32 (a @ b) = of_le32 a"
  by (simp add: of_le32_def nth_append)

lemma of_le16_append [simp]: "length a = 2 \<Longrightarrow> of_le16 (a @ b) = of_le16 a"
  by (simp add: of_le16_def nth_append)

text \<open>Reading and writing a \<^verbatim>\<open>uint32_t\<close> cell of a byte buffer.\<close>

definition get32 :: "u8 list \<Rightarrow> nat \<Rightarrow> u32" where
  "get32 buf off = of_le32 (slice buf off 4)"

definition put32 :: "u8 list \<Rightarrow> nat \<Rightarrow> u32 \<Rightarrow> u8 list" where
  "put32 buf off w = splice buf off (le32 w)"

lemma length_put32 [simp]: "off + 4 \<le> length buf \<Longrightarrow> length (put32 buf off w) = length buf"
  by (simp add: put32_def)

lemma get32_put32_same [mem_simps]: "off + 4 \<le> length buf \<Longrightarrow> get32 (put32 buf off w) off = w"
  by (simp add: get32_def put32_def mem_simps)

lemma get32_put32_other [mem_simps]:
  "off + 4 \<le> length buf \<Longrightarrow> off' + 4 \<le> length buf \<Longrightarrow> off' + 4 \<le> off \<or> off + 4 \<le> off' \<Longrightarrow>
   get32 (put32 buf off w) off' = get32 buf off'"
  by (simp add: get32_def put32_def mem_simps)

lemma get32_replicate [simp]: "off + 4 \<le> n \<Longrightarrow> get32 (replicate n 0) off = 0"
  by (simp add: get32_def of_le32_def nth_slice)

end
