(* ===== verification/Queue.thy ===== *)
theory Queue
  imports Prelude
begin

text \<open>
  The tasks of the kernel and the queues that link them: the types of \<^verbatim>\<open>include/os/sched.h\<close> and
  \<^verbatim>\<open>include/os/queue.h\<close>, and the operations of \<^verbatim>\<open>kernel/sched/queue.c\<close>.

  A task control block has a name (\<open>pcb_id\<close>) in place of an address, and a pointer to one is an
  option, \<open>None\<close> being the null pointer. The \<^verbatim>\<open>queue_t\<close> objects that live inside other structures
  (in a control block, a mutex, a semaphore, a condition, a barrier) are kept in one store indexed by
  \<open>qid\<close>, the place of the object. Following a null pointer is \<open>None\<close> of the option monad.

  The links \<^verbatim>\<open>prev\<close> and \<^verbatim>\<open>next\<close> are inside the control block, so a task can be on one queue only.
  The predicate \<open>queues_rep\<close> says that the store represents a family of lists, one for each queue,
  without a common element; every operation is proved to act on these lists, and to leave the rest of
  the state (\<open>view\<close>) as it was. The locale \<open>task_queues\<close> is the contract the other components use.
\<close>

section \<open>Types of sched.h, queue.h and lock.h\<close>

datatype pcb_id = Pcb nat | PcbInit

datatype mutex_id = Lock1 | Lock2 | MboxLock nat | UserLock nat

datatype sem_id = MboxSend nat | MboxRecv nat | UserSem nat

datatype qid = ReadyQ | BlockQ | SleepingQ | RecvBlockQ | WaitingQ pcb_id
  | MutexQ mutex_id | SemQ sem_id | CondQ nat | BarrierQ nat

datatype task_status_t = TASK_BLOCKED | TASK_RUNNING | TASK_READY | TASK_EXITED
  | TASK_CREATED | TASK_SLEEPING

datatype task_type_t = KERNEL_PROCESS | KERNEL_THREAD | USER_PROCESS | USER_THREAD

datatype task_mode_t = KERNEL_MODE | USER_MODE

datatype lock_status_t = UNLOCKED | LOCKED

record regs_context_t =
  regs :: "u32 list"
  cp0_status :: u32
  hi :: u32
  lo :: u32
  cp0_badvaddr :: u32
  cp0_cause :: u32
  cp0_epc :: u32
  pc :: u32

record pcb_t =
  kernel_context :: regs_context_t
  user_context :: regs_context_t
  kernel_stack_top :: u32
  user_stack_top :: u32
  pid :: u32
  mode :: task_mode_t
  entry_point :: u32
  prev_ptr :: "pcb_id option"
  next_ptr :: "pcb_id option"
  task_type :: task_type_t
  status :: task_status_t
  cursor_x :: u32
  cursor_y :: u32
  wait_time :: u32
  priority :: u32
  lock :: "mutex_id option list"
  lock_num :: u32
  sleeping_deadline :: u32
  page_table_base_addr :: u32

record process_show_t =
  show_num :: u32
  show_pid :: u32
  show_status :: task_status_t

record queue_t =
  head :: "pcb_id option"
  tail :: "pcb_id option"

text \<open>
  What a task does when it is switched to again: \<open>Acquire l\<close> when it called the scheduler from inside
  the loop of \<^verbatim>\<open>do_mutex_lock_acquire\<close>; nothing when the call was the last statement of its system
  call. It stands for the saved return address of \<^verbatim>\<open>do_scheduler\<close>.
\<close>

datatype pending = Return | Acquire mutex_id

record kernel =
  pcbs :: "pcb_id \<Rightarrow> pcb_t"
  queues :: "qid \<Rightarrow> queue_t"
  current_running :: pcb_id
  resume_at :: "pcb_id \<Rightarrow> pending"
  time_elapsed :: u32
  PID :: u32
  STACK_TOP :: u32
  USER_STACK_TOP :: u32
  cp0_entryhi :: u32
  screen_cursor_x :: u32
  screen_cursor_y :: u32
  ProcessShow :: "process_show_t list"
  Lock :: "mutex_id list"
  mutex_status :: "mutex_id \<Rightarrow> lock_status_t"
  sem_value :: "sem_id \<Rightarrow> u32"
  max_num :: "nat \<Rightarrow> u32"
  not_arrive_num :: "nat \<Rightarrow> u32"

abbreviation "NUM_MAX_TASK \<equiv> 40 :: nat"
abbreviation "LOCK_MAX_NUM \<equiv> 10 :: nat"
abbreviation "MAX_LOCK_NUM_TOTAL \<equiv> 34 :: nat"

definition upd_pcb :: "pcb_id \<Rightarrow> (pcb_t \<Rightarrow> pcb_t) \<Rightarrow> kernel \<Rightarrow> kernel" where
  "upd_pcb i f s = s\<lparr>pcbs := (pcbs s)(i := f (pcbs s i))\<rparr>"

definition upd_queue :: "qid \<Rightarrow> (queue_t \<Rightarrow> queue_t) \<Rightarrow> kernel \<Rightarrow> kernel" where
  "upd_queue q f s = s\<lparr>queues := (queues s)(q := f (queues s q))\<rparr>"

abbreviation set_next :: "pcb_id \<Rightarrow> pcb_id option \<Rightarrow> kernel \<Rightarrow> kernel" where
  "set_next i p \<equiv> upd_pcb i (\<lambda>t. t\<lparr>next_ptr := p\<rparr>)"

abbreviation set_prev :: "pcb_id \<Rightarrow> pcb_id option \<Rightarrow> kernel \<Rightarrow> kernel" where
  "set_prev i p \<equiv> upd_pcb i (\<lambda>t. t\<lparr>prev_ptr := p\<rparr>)"

abbreviation set_status :: "pcb_id \<Rightarrow> task_status_t \<Rightarrow> kernel \<Rightarrow> kernel" where
  "set_status i st \<equiv> upd_pcb i (\<lambda>t. t\<lparr>status := st\<rparr>)"

abbreviation set_head :: "qid \<Rightarrow> pcb_id option \<Rightarrow> kernel \<Rightarrow> kernel" where
  "set_head q p \<equiv> upd_queue q (\<lambda>r. r\<lparr>head := p\<rparr>)"

abbreviation set_tail :: "qid \<Rightarrow> pcb_id option \<Rightarrow> kernel \<Rightarrow> kernel" where
  "set_tail q p \<equiv> upd_queue q (\<lambda>r. r\<lparr>tail := p\<rparr>)"

section \<open>The operations of queue.c\<close>

definition queue_init :: "qid \<Rightarrow> kernel \<Rightarrow> kernel" where
  "queue_init q s = set_head q None (set_tail q None s)"

definition queue_is_empty :: "qid \<Rightarrow> kernel \<Rightarrow> bool" where
  "queue_is_empty q s = (head (queues s q) = None)"

definition queue_push :: "qid \<Rightarrow> pcb_id \<Rightarrow> kernel \<Rightarrow> kernel option" where
  "queue_push q item s =
     (if head (queues s q) = None then do {
        let s = set_head q (Some item) s;
        let s = set_tail q (Some item) s;
        let s = set_next item None s;
        Some (set_prev item None s)
      }
      else do {
        t \<leftarrow> tail (queues s q);
        let s = set_next t (Some item) s;
        let s = set_next item None s;
        let s = set_prev item (tail (queues s q)) s;
        Some (set_tail q (Some item) s)
      })"

definition queue_dequeue :: "qid \<Rightarrow> kernel \<Rightarrow> (pcb_id \<times> kernel) option" where
  "queue_dequeue q s = do {
     temp \<leftarrow> head (queues s q);
     s \<leftarrow> (case next_ptr (pcbs s temp) of
            None \<Rightarrow> Some (set_head q None (set_tail q None s))
          | Some n \<Rightarrow> Some (set_prev n None (set_head q (Some n) s)));
     let s = set_prev temp None s;
     let s = set_next temp None s;
     Some (temp, s)
   }"

text \<open>The walk of \<^verbatim>\<open>check_in_queue\<close> along the \<^verbatim>\<open>next\<close> links; it need not end on a cyclic chain.\<close>

partial_function (option) find_from :: "pcb_id option \<Rightarrow> pcb_id \<Rightarrow> kernel \<Rightarrow> bool option" where
  "find_from p item s =
     (case p of
        None \<Rightarrow> Some False
      | Some i \<Rightarrow> if i = item then Some True else find_from (next_ptr (pcbs s i)) item s)"

definition check_in_queue :: "qid \<Rightarrow> pcb_id \<Rightarrow> kernel \<Rightarrow> bool option" where
  "check_in_queue q item s = find_from (head (queues s q)) item s"

partial_function (option) clear_waiting_queue :: "qid \<Rightarrow> kernel \<Rightarrow> kernel option" where
  "clear_waiting_queue q s =
     (if queue_is_empty q s then Some s
      else do {
        (h, s) \<leftarrow> queue_dequeue q s;
        let s = set_status h TASK_READY s;
        s \<leftarrow> queue_push ReadyQ h s;
        clear_waiting_queue q s
      })"

definition queue_remove :: "qid \<Rightarrow> pcb_id \<Rightarrow> kernel \<Rightarrow> (pcb_id option \<times> kernel) option" where
  "queue_remove q item s = do {
     let nxt = next_ptr (pcbs s item);
     s \<leftarrow> (if Some item = head (queues s q) \<and> Some item = tail (queues s q) then
             Some (set_tail q None (set_head q None s))
           else if Some item = head (queues s q) then do {
             h \<leftarrow> next_ptr (pcbs s item);
             Some (set_prev h None (set_head q (Some h) s))
           }
           else if Some item = tail (queues s q) then do {
             t \<leftarrow> prev_ptr (pcbs s item);
             Some (set_next t None (set_tail q (Some t) s))
           }
           else do {
             p \<leftarrow> prev_ptr (pcbs s item);
             let s = set_next p (next_ptr (pcbs s item)) s;
             n \<leftarrow> next_ptr (pcbs s item);
             Some (set_prev n (prev_ptr (pcbs s item)) s)
           });
     let s = set_prev item None s;
     let s = set_next item None s;
     Some (nxt, s)
   }"

definition enqueue :: "qid \<Rightarrow> pcb_id \<Rightarrow> kernel \<Rightarrow> kernel option" where
  "enqueue q item s =
     (case head (queues s q) of
        None \<Rightarrow> do {
          let s = set_head q (Some item) s;
          let s = set_tail q (Some item) s;
          let s = set_next item None s;
          Some (set_prev item None s)
        }
      | Some h \<Rightarrow> do {
          let s = set_prev h (Some item) s;
          let s = set_prev item None s;
          let s = set_next item (head (queues s q)) s;
          Some (set_head q (Some item) s)
        })"

section \<open>Lists represented by linked control blocks\<close>

text \<open>The first and the last element of a list as pointers, with the value for the empty list.\<close>

definition first_ptr :: "'a list \<Rightarrow> 'a option \<Rightarrow> 'a option" where
  "first_ptr xs n = (case xs of [] \<Rightarrow> n | x # _ \<Rightarrow> Some x)"

definition last_ptr :: "'a list \<Rightarrow> 'a option \<Rightarrow> 'a option" where
  "last_ptr xs p = (if xs = [] then p else Some (last xs))"

lemma first_ptr_simps [simp]:
  "first_ptr [] n = n" "first_ptr (x # xs) n = Some x" "first_ptr (ys @ x # xs) n = first_ptr ys (Some x)"
  by (auto simp: first_ptr_def split: list.splits)

lemma last_ptr_simps [simp]:
  "last_ptr [] p = p" "last_ptr (x # xs) p = last_ptr xs (Some x)"
  "last_ptr (ys @ x # xs) p = last_ptr xs (Some x)"
  by (auto simp: last_ptr_def)

lemma first_ptr_None [simp]: "first_ptr xs None = None \<longleftrightarrow> xs = []"
  by (auto simp: first_ptr_def split: list.splits)

lemma last_ptr_None [simp]: "last_ptr xs None = None \<longleftrightarrow> xs = []"
  by (auto simp: last_ptr_def)

lemma first_ptr_append: "first_ptr (xs @ ys) n = first_ptr xs (first_ptr ys n)"
  by (auto simp: first_ptr_def split: list.splits)

lemma last_ptr_append: "last_ptr (xs @ ys) p = last_ptr ys (last_ptr xs p)"
  by (auto simp: last_ptr_def)

lemma first_ptr_Some [simp]: "first_ptr xs (Some y) \<noteq> None"
  by (auto simp: first_ptr_def split: list.splits)

fun dseg :: "(pcb_id \<Rightarrow> pcb_t) \<Rightarrow> pcb_id option \<Rightarrow> pcb_id list \<Rightarrow> pcb_id option \<Rightarrow> bool" where
  "dseg P p [] n = True"
| "dseg P p (x # xs) n =
     (prev_ptr (P x) = p \<and> next_ptr (P x) = first_ptr xs n \<and> dseg P (Some x) xs n)"

lemma dseg_append [simp]:
  "dseg P p (xs @ ys) n \<longleftrightarrow> dseg P p xs (first_ptr ys n) \<and> dseg P (last_ptr xs p) ys n"
  by (induction xs arbitrary: p) (auto simp: first_ptr_append)

lemma dseg_cong:
  "(\<And>x. x \<in> set xs \<Longrightarrow> prev_ptr (P x) = prev_ptr (P' x) \<and> next_ptr (P x) = next_ptr (P' x)) \<Longrightarrow>
   dseg P p xs n = dseg P' p xs n"
  by (induction xs arbitrary: p) auto

lemma dseg_upd [simp]: "x \<notin> set xs \<Longrightarrow> dseg (P(x := v)) p xs n = dseg P p xs n"
  by (rule dseg_cong) auto

definition queue_rep :: "(pcb_id \<Rightarrow> pcb_t) \<Rightarrow> queue_t \<Rightarrow> pcb_id list \<Rightarrow> bool" where
  "queue_rep P r xs \<longleftrightarrow> distinct xs \<and> head r = first_ptr xs None \<and> tail r = last_ptr xs None \<and>
     dseg P None xs None"

definition queues_rep :: "kernel \<Rightarrow> (qid \<Rightarrow> pcb_id list) \<Rightarrow> bool" where
  "queues_rep s A \<longleftrightarrow> (\<forall>q. queue_rep (pcbs s) (queues s q) (A q)) \<and>
     (\<forall>q r. q \<noteq> r \<longrightarrow> set (A q) \<inter> set (A r) = {})"

definition queued :: "(qid \<Rightarrow> pcb_id list) \<Rightarrow> pcb_id set" where
  "queued A = (\<Union>q. set (A q))"

text \<open>The state without the links and the queue objects.\<close>

definition view :: "kernel \<Rightarrow> kernel" where
  "view s = s\<lparr>queues := (\<lambda>_. \<lparr>head = None, tail = None\<rparr>),
     pcbs := (\<lambda>i. (pcbs s i)\<lparr>prev_ptr := None, next_ptr := None\<rparr>)\<rparr>"

lemma queue_rep_frame:
  assumes "queue_rep P r xs"
    and "\<And>x. x \<in> set xs \<Longrightarrow> prev_ptr (P x) = prev_ptr (P' x) \<and> next_ptr (P x) = next_ptr (P' x)"
  shows "queue_rep P' r xs"
  using assms dseg_cong [of xs P P' None None] by (simp add: queue_rep_def)

text \<open>Replacing the list of one queue: the other queues keep their links.\<close>

lemma queues_rep_update:
  assumes rep: "queues_rep s A"
    and new: "queue_rep (pcbs s') (queues s' q) xs"
    and others: "\<And>r. r \<noteq> q \<Longrightarrow> queues s' r = queues s r"
    and links: "\<And>i. i \<notin> set (A q) \<union> set xs \<Longrightarrow>
        prev_ptr (pcbs s' i) = prev_ptr (pcbs s i) \<and> next_ptr (pcbs s' i) = next_ptr (pcbs s i)"
    and fresh: "\<And>r. r \<noteq> q \<Longrightarrow> set xs \<inter> set (A r) = {}"
  shows "queues_rep s' (A(q := xs))"
proof -
  have "queue_rep (pcbs s') (queues s' r) (A r)" if r: "r \<noteq> q" for r
  proof (rule queue_rep_frame)
    show "queue_rep (pcbs s) (queues s' r) (A r)"
      using rep others [OF r] by (simp add: queues_rep_def)
    show "prev_ptr (pcbs s i) = prev_ptr (pcbs s' i) \<and> next_ptr (pcbs s i) = next_ptr (pcbs s' i)"
      if "i \<in> set (A r)" for i
      using that rep fresh [OF r] links [of i] r unfolding queues_rep_def by fastforce
  qed
  then show ?thesis
    using rep new fresh unfolding queues_rep_def by (auto simp: Int_commute)
qed

lemma queues_repD:
  assumes "queues_rep s A"
  shows "distinct (A q)" and "head (queues s q) = first_ptr (A q) None"
    and "tail (queues s q) = last_ptr (A q) None" and "dseg (pcbs s) None (A q) None"
    and "q \<noteq> r \<Longrightarrow> set (A q) \<inter> set (A r) = {}"
  using assms by (auto simp: queues_rep_def queue_rep_def)

lemma view_eqI:
  assumes "\<And>i. (pcbs s' i)\<lparr>prev_ptr := None, next_ptr := None\<rparr> =
      (pcbs s i)\<lparr>prev_ptr := None, next_ptr := None\<rparr>"
    and "s' = s\<lparr>pcbs := pcbs s', queues := queues s'\<rparr>"
  shows "view s' = view s"
proof -
  have "view s' = view (s\<lparr>pcbs := pcbs s', queues := queues s'\<rparr>)" using assms(2) by simp
  also have "\<dots> = view s" using assms(1) by (simp add: view_def)
  finally show ?thesis .
qed

lemmas upd_defs = upd_pcb_def upd_queue_def Let_def

section \<open>The operations act on the lists\<close>

lemma queue_is_empty_rep: "queues_rep s A \<Longrightarrow> queue_is_empty q s \<longleftrightarrow> A q = []"
  by (simp add: queue_is_empty_def queues_repD(2))

lemma queue_push_rep:
  assumes rep: "queues_rep s A" and x: "x \<notin> queued A"
  obtains s' where "queue_push q x s = Some s'" and "queues_rep s' (A(q := A q @ [x]))"
    and "view s' = view s"
proof -
  note R = queues_repD [OF rep]
  have xq: "x \<notin> set (A r)" for r using x by (auto simp: queued_def)
  show thesis
  proof (cases "A q" rule: rev_cases)
    case Nil
    let ?s = "upd_pcb x (\<lambda>t. t\<lparr>next_ptr := None, prev_ptr := None\<rparr>)
        (upd_queue q (\<lambda>r. r\<lparr>head := Some x, tail := Some x\<rparr>) s)"
    show thesis
    proof
      show "queue_push q x s = Some ?s"
        using R(2) [of q] Nil by (simp add: queue_push_def upd_defs)
      show "queues_rep ?s (A(q := A q @ [x]))"
        using rep by (rule queues_rep_update) (use Nil xq in \<open>auto simp: queue_rep_def upd_defs\<close>)
      show "view ?s = view s"
        by (rule view_eqI) (auto simp: upd_defs)
    qed
  next
    case (snoc ys t)
    have xt: "x \<noteq> t" using xq [of q] snoc by auto
    let ?s = "upd_queue q (\<lambda>r. r\<lparr>tail := Some x\<rparr>) (upd_pcb x (\<lambda>u. u\<lparr>next_ptr := None, prev_ptr := Some t\<rparr>)
        (upd_pcb t (\<lambda>u. u\<lparr>next_ptr := Some x\<rparr>) s))"
    show thesis
    proof
      show "queue_push q x s = Some ?s"
        using R(2,3) [of q] snoc xt by (simp add: queue_push_def upd_defs fun_upd_twist)
      show "queues_rep ?s (A(q := A q @ [x]))"
        using rep
      proof (rule queues_rep_update)
        show "queue_rep (pcbs ?s) (queues ?s q) (A q @ [x])"
          using R(1-4) [of q] snoc xt xq [of q] by (auto simp: queue_rep_def upd_defs)
        show "set (A q @ [x]) \<inter> set (A r) = {}" if "r \<noteq> q" for r
          using R(5) [of r q] xq that by auto
      qed (use snoc xt in \<open>auto simp: upd_defs\<close>)
      show "view ?s = view s"
        by (rule view_eqI) (auto simp: upd_defs)
    qed
  qed
qed

lemma queue_dequeue_rep:
  assumes rep: "queues_rep s A" and q: "A q = x # xs"
  obtains s' where "queue_dequeue q s = Some (x, s')" and "queues_rep s' (A(q := xs))"
    and "view s' = view s"
proof -
  note R = queues_repD [OF rep]
  show thesis
  proof (cases xs)
    case Nil
    let ?s = "upd_pcb x (\<lambda>t. t\<lparr>prev_ptr := None, next_ptr := None\<rparr>)
        (upd_queue q (\<lambda>r. r\<lparr>tail := None, head := None\<rparr>) s)"
    show thesis
    proof
      show "queue_dequeue q s = Some (x, ?s)"
        using R(2,4) [of q] Nil q by (simp add: queue_dequeue_def upd_defs)
      show "queues_rep ?s (A(q := xs))"
        using rep by (rule queues_rep_update) (use Nil q in \<open>auto simp: queue_rep_def upd_defs\<close>)
      show "view ?s = view s"
        by (rule view_eqI) (auto simp: upd_defs)
    qed
  next
    case (Cons y ys)
    have xy: "x \<noteq> y" "x \<notin> set ys" "y \<notin> set ys" using R(1) [of q] q Cons by auto
    let ?s = "upd_pcb x (\<lambda>t. t\<lparr>prev_ptr := None, next_ptr := None\<rparr>)
        (upd_pcb y (\<lambda>t. t\<lparr>prev_ptr := None\<rparr>) (upd_queue q (\<lambda>r. r\<lparr>head := Some y\<rparr>) s))"
    show thesis
    proof
      show "queue_dequeue q s = Some (x, ?s)"
        using R(2,4) [of q] Cons q xy by (simp add: queue_dequeue_def upd_defs fun_upd_twist)
      show "queues_rep ?s (A(q := xs))"
        using rep
      proof (rule queues_rep_update)
        show "queue_rep (pcbs ?s) (queues ?s q) xs"
          using R(1-4) [of q] Cons q xy by (auto simp: queue_rep_def upd_defs)
        show "set xs \<inter> set (A r) = {}" if "r \<noteq> q" for r
          using R(5) [of r q] q that by auto
      qed (use Cons q in \<open>auto simp: upd_defs\<close>)
      show "view ?s = view s"
        by (rule view_eqI) (auto simp: upd_defs)
    qed
  qed
qed

lemma enqueue_rep:
  assumes rep: "queues_rep s A" and x: "x \<notin> queued A"
  obtains s' where "enqueue q x s = Some s'" and "queues_rep s' (A(q := x # A q))"
    and "view s' = view s"
proof -
  note R = queues_repD [OF rep]
  have xq: "x \<notin> set (A r)" for r using x by (auto simp: queued_def)
  show thesis
  proof (cases "A q")
    case Nil
    let ?s = "upd_pcb x (\<lambda>t. t\<lparr>next_ptr := None, prev_ptr := None\<rparr>)
        (upd_queue q (\<lambda>r. r\<lparr>head := Some x, tail := Some x\<rparr>) s)"
    show thesis
    proof
      show "enqueue q x s = Some ?s"
        using R(2) [of q] Nil by (simp add: enqueue_def upd_defs)
      show "queues_rep ?s (A(q := x # A q))"
        using rep by (rule queues_rep_update) (use Nil xq in \<open>auto simp: queue_rep_def upd_defs\<close>)
      show "view ?s = view s"
        by (rule view_eqI) (auto simp: upd_defs)
    qed
  next
    case (Cons h ys)
    have xt: "x \<noteq> h" using xq [of q] Cons by auto
    let ?s = "upd_queue q (\<lambda>r. r\<lparr>head := Some x\<rparr>) (upd_pcb x (\<lambda>u. u\<lparr>prev_ptr := None, next_ptr := Some h\<rparr>)
        (upd_pcb h (\<lambda>u. u\<lparr>prev_ptr := Some x\<rparr>) s))"
    show thesis
    proof
      show "enqueue q x s = Some ?s"
        using R(2,3) [of q] Cons xt by (simp add: enqueue_def upd_defs fun_upd_twist)
      show "queues_rep ?s (A(q := x # A q))"
        using rep
      proof (rule queues_rep_update)
        show "queue_rep (pcbs ?s) (queues ?s q) (x # A q)"
          using R(1-4) [of q] Cons xt xq [of q] by (auto simp: queue_rep_def upd_defs)
        show "set (x # A q) \<inter> set (A r) = {}" if "r \<noteq> q" for r
          using R(5) [of r q] xq that by auto
      qed (use Cons xt in \<open>auto simp: upd_defs\<close>)
      show "view ?s = view s"
        by (rule view_eqI) (auto simp: upd_defs)
    qed
  qed
qed

text \<open>
  The new links after a removal: the neighbours point at each other, the removed block at nothing.
\<close>

definition unlink :: "qid \<Rightarrow> pcb_id list \<Rightarrow> pcb_id \<Rightarrow> pcb_id list \<Rightarrow> kernel \<Rightarrow> kernel" where
  "unlink q ys x zs s =
     (let s = (if ys = [] then set_head q (first_ptr zs None) s
               else set_next (last ys) (first_ptr zs None) s);
          s = (if zs = [] then set_tail q (last_ptr ys None) s
               else set_prev (hd zs) (last_ptr ys None) s)
      in set_next x None (set_prev x None s))"

lemma queue_remove_unlink:
  assumes rep: "queues_rep s A" and q: "A q = ys @ x # zs"
  shows "queue_remove q x s = Some (first_ptr zs None, unlink q ys x zs s)"
proof -
  note R = queues_repD [OF rep]
  have d: "x \<notin> set ys" "x \<notin> set zs" "distinct (ys @ zs)" using R(1) [of q] q by auto
  have L: "prev_ptr (pcbs s x) = last_ptr ys None" "next_ptr (pcbs s x) = first_ptr zs None"
    using R(4) [of q] q by auto
  have H: "head (queues s q) = Some x \<longleftrightarrow> ys = []"
    using R(2) [of q] q d by (cases ys) auto
  have T: "tail (queues s q) = Some x \<longleftrightarrow> zs = []"
    using R(3) [of q] q d by (cases zs rule: rev_cases) auto
  show ?thesis
    using H T L d unfolding queue_remove_def unlink_def upd_defs
    by (cases ys rule: rev_cases; cases zs) (auto simp: eq_commute [of "Some x"])
qed

lemma unlink_rep:
  assumes rep: "queues_rep s A" and q: "A q = ys @ x # zs"
  shows "queues_rep (unlink q ys x zs s) (A(q := ys @ zs))"
  using rep
proof (rule queues_rep_update)
  note R = queues_repD [OF rep]
  show "queue_rep (pcbs (unlink q ys x zs s)) (queues (unlink q ys x zs s) q) (ys @ zs)"
    using R(1-4) [of q] q
    by (cases ys rule: rev_cases; cases zs)
      (auto simp: queue_rep_def unlink_def upd_defs first_ptr_append last_ptr_append)
  show "queues (unlink q ys x zs s) r = queues s r" if "r \<noteq> q" for r
    using that by (simp add: unlink_def upd_defs)
  show "set (ys @ zs) \<inter> set (A r) = {}" if "r \<noteq> q" for r
    using R(5) [of r q] q that by auto
  show "prev_ptr (pcbs (unlink q ys x zs s) i) = prev_ptr (pcbs s i) \<and>
      next_ptr (pcbs (unlink q ys x zs s) i) = next_ptr (pcbs s i)"
    if "i \<notin> set (A q) \<union> set (ys @ zs)" for i
    using that q by (cases ys rule: rev_cases; cases zs) (auto simp: unlink_def upd_defs)
qed

lemma unlink_view: "view (unlink q ys x zs s) = view s"
  by (rule view_eqI) (auto simp: unlink_def upd_defs)

lemma queue_remove_rep:
  assumes rep: "queues_rep s A" and x: "x \<in> set (A q)"
  obtains n s' where "queue_remove q x s = Some (n, s')" and "queues_rep s' (A(q := remove1 x (A q)))"
    and "view s' = view s"
proof -
  obtain ys zs where q: "A q = ys @ x # zs" and "x \<notin> set ys" using x by (meson split_list_first)
  then have "remove1 x (A q) = ys @ zs" by (simp add: remove1_append)
  then show thesis
    using queue_remove_unlink [OF rep q] unlink_rep [OF rep q] unlink_view that by metis
qed

lemma find_from_rep:
  "dseg (pcbs s) p xs None \<Longrightarrow> find_from (first_ptr xs None) x s = Some (x \<in> set xs)"
  by (induction xs arbitrary: p) (subst find_from.simps; auto)+

lemma check_in_queue_rep: "queues_rep s A \<Longrightarrow> check_in_queue q x s = Some (x \<in> set (A q))"
  using queues_repD(2,4) [of s A q] by (simp add: check_in_queue_def find_from_rep)

lemma queue_init_rep:
  assumes "queues_rep s A"
  shows "queues_rep (queue_init q s) (A(q := []))" and "view (queue_init q s) = view s"
proof -
  show "queues_rep (queue_init q s) (A(q := []))"
    using assms
    by (rule queues_rep_update) (auto simp: queue_init_def queue_rep_def upd_defs)
  show "view (queue_init q s) = view s"
    by (rule view_eqI) (auto simp: queue_init_def upd_defs)
qed

section \<open>Updates that leave the links alone\<close>

lemma queues_rep_upd_pcb [simp]:
  assumes "\<And>t. prev_ptr (f t) = prev_ptr t" and "\<And>t. next_ptr (f t) = next_ptr t"
  shows "queues_rep (upd_pcb i f s) A = queues_rep s A"
proof -
  have "dseg (pcbs (upd_pcb i f s)) p xs n = dseg (pcbs s) p xs n" for p xs n
    by (rule dseg_cong) (simp add: upd_pcb_def assms)
  then show ?thesis by (simp add: queues_rep_def queue_rep_def) (simp add: upd_pcb_def)
qed

lemma view_upd_pcb [simp]:
  assumes "\<And>t. (f t)\<lparr>prev_ptr := None, next_ptr := None\<rparr> = f (t\<lparr>prev_ptr := None, next_ptr := None\<rparr>)"
  shows "view (upd_pcb i f s) = upd_pcb i f (view s)"
  by (simp add: view_def upd_pcb_def assms fun_upd_def if_distrib cong: if_cong)

lemma pcbs_upd_pcb [simp]: "pcbs (upd_pcb i f s) j = (if j = i then f (pcbs s i) else pcbs s j)"
  by (simp add: upd_pcb_def)

lemma upd_pcb_sel [simp]:
  "current_running (upd_pcb i f s) = current_running s" "resume_at (upd_pcb i f s) = resume_at s"
  "time_elapsed (upd_pcb i f s) = time_elapsed s" "PID (upd_pcb i f s) = PID s"
  "STACK_TOP (upd_pcb i f s) = STACK_TOP s" "USER_STACK_TOP (upd_pcb i f s) = USER_STACK_TOP s"
  "cp0_entryhi (upd_pcb i f s) = cp0_entryhi s" "ProcessShow (upd_pcb i f s) = ProcessShow s"
  "screen_cursor_x (upd_pcb i f s) = screen_cursor_x s"
  "screen_cursor_y (upd_pcb i f s) = screen_cursor_y s"
  "Lock (upd_pcb i f s) = Lock s" "mutex_status (upd_pcb i f s) = mutex_status s"
  "sem_value (upd_pcb i f s) = sem_value s" "max_num (upd_pcb i f s) = max_num s"
  "not_arrive_num (upd_pcb i f s) = not_arrive_num s" "queues (upd_pcb i f s) = queues s"
  by (simp_all add: upd_pcb_def)

lemma queues_rep_fields [simp]:
  "queues_rep (s\<lparr>current_running := c\<rparr>) A = queues_rep s A"
  "queues_rep (s\<lparr>resume_at := g\<rparr>) A = queues_rep s A"
  "queues_rep (s\<lparr>time_elapsed := w\<rparr>) A = queues_rep s A"
  "queues_rep (s\<lparr>PID := w\<rparr>) A = queues_rep s A"
  "queues_rep (s\<lparr>STACK_TOP := w\<rparr>) A = queues_rep s A"
  "queues_rep (s\<lparr>USER_STACK_TOP := w\<rparr>) A = queues_rep s A"
  "queues_rep (s\<lparr>cp0_entryhi := w\<rparr>) A = queues_rep s A"
  "queues_rep (s\<lparr>screen_cursor_x := w\<rparr>) A = queues_rep s A"
  "queues_rep (s\<lparr>screen_cursor_y := w\<rparr>) A = queues_rep s A"
  "queues_rep (s\<lparr>ProcessShow := ps\<rparr>) A = queues_rep s A"
  "queues_rep (s\<lparr>Lock := ls\<rparr>) A = queues_rep s A"
  "queues_rep (s\<lparr>mutex_status := ms\<rparr>) A = queues_rep s A"
  "queues_rep (s\<lparr>sem_value := sv\<rparr>) A = queues_rep s A"
  "queues_rep (s\<lparr>max_num := bv\<rparr>) A = queues_rep s A"
  "queues_rep (s\<lparr>not_arrive_num := bv\<rparr>) A = queues_rep s A"
  by (simp_all add: queues_rep_def)

lemma view_fields [simp]:
  "view (s\<lparr>current_running := c\<rparr>) = (view s)\<lparr>current_running := c\<rparr>"
  "view (s\<lparr>resume_at := g\<rparr>) = (view s)\<lparr>resume_at := g\<rparr>"
  "view (s\<lparr>time_elapsed := w\<rparr>) = (view s)\<lparr>time_elapsed := w\<rparr>"
  "view (s\<lparr>PID := w\<rparr>) = (view s)\<lparr>PID := w\<rparr>"
  "view (s\<lparr>STACK_TOP := w\<rparr>) = (view s)\<lparr>STACK_TOP := w\<rparr>"
  "view (s\<lparr>USER_STACK_TOP := w\<rparr>) = (view s)\<lparr>USER_STACK_TOP := w\<rparr>"
  "view (s\<lparr>cp0_entryhi := w\<rparr>) = (view s)\<lparr>cp0_entryhi := w\<rparr>"
  "view (s\<lparr>screen_cursor_x := w\<rparr>) = (view s)\<lparr>screen_cursor_x := w\<rparr>"
  "view (s\<lparr>screen_cursor_y := w\<rparr>) = (view s)\<lparr>screen_cursor_y := w\<rparr>"
  "view (s\<lparr>ProcessShow := ps\<rparr>) = (view s)\<lparr>ProcessShow := ps\<rparr>"
  "view (s\<lparr>Lock := ls\<rparr>) = (view s)\<lparr>Lock := ls\<rparr>"
  "view (s\<lparr>mutex_status := ms\<rparr>) = (view s)\<lparr>mutex_status := ms\<rparr>"
  "view (s\<lparr>sem_value := sv\<rparr>) = (view s)\<lparr>sem_value := sv\<rparr>"
  "view (s\<lparr>max_num := bv\<rparr>) = (view s)\<lparr>max_num := bv\<rparr>"
  "view (s\<lparr>not_arrive_num := bv\<rparr>) = (view s)\<lparr>not_arrive_num := bv\<rparr>"
  by (simp_all add: view_def)

text \<open>Two states with the same view agree on everything but links and queue objects.\<close>

lemma view_sel [simp]:
  "current_running (view s) = current_running s" "resume_at (view s) = resume_at s"
  "time_elapsed (view s) = time_elapsed s" "PID (view s) = PID s"
  "STACK_TOP (view s) = STACK_TOP s" "USER_STACK_TOP (view s) = USER_STACK_TOP s"
  "cp0_entryhi (view s) = cp0_entryhi s" "screen_cursor_x (view s) = screen_cursor_x s"
  "screen_cursor_y (view s) = screen_cursor_y s" "ProcessShow (view s) = ProcessShow s"
  "Lock (view s) = Lock s" "mutex_status (view s) = mutex_status s"
  "sem_value (view s) = sem_value s" "max_num (view s) = max_num s"
  "not_arrive_num (view s) = not_arrive_num s"
  "status (pcbs (view s) i) = status (pcbs s i)" "priority (pcbs (view s) i) = priority (pcbs s i)"
  "pid (pcbs (view s) i) = pid (pcbs s i)" "mode (pcbs (view s) i) = mode (pcbs s i)"
  "entry_point (pcbs (view s) i) = entry_point (pcbs s i)"
  "sleeping_deadline (pcbs (view s) i) = sleeping_deadline (pcbs s i)"
  "lock (pcbs (view s) i) = lock (pcbs s i)" "lock_num (pcbs (view s) i) = lock_num (pcbs s i)"
  "cursor_x (pcbs (view s) i) = cursor_x (pcbs s i)" "cursor_y (pcbs (view s) i) = cursor_y (pcbs s i)"
  "user_context (pcbs (view s) i) = user_context (pcbs s i)"
  "kernel_context (pcbs (view s) i) = kernel_context (pcbs s i)"
  by (simp_all add: view_def)

lemma view_view [simp]: "view (view s) = view s"
  by (simp add: view_def)

section \<open>The contract of the queues\<close>

locale task_queues =
  fixes rep :: "'s \<Rightarrow> ('q \<Rightarrow> 'p list) \<Rightarrow> bool"
    and is_empty :: "'q \<Rightarrow> 's \<Rightarrow> bool"
    and push :: "'q \<Rightarrow> 'p \<Rightarrow> 's \<Rightarrow> 's option"
    and dequeue :: "'q \<Rightarrow> 's \<Rightarrow> ('p \<times> 's) option"
    and remove :: "'q \<Rightarrow> 'p \<Rightarrow> 's \<Rightarrow> ('p option \<times> 's) option"
    and member :: "'q \<Rightarrow> 'p \<Rightarrow> 's \<Rightarrow> bool option"
    and rest :: "'s \<Rightarrow> 'v"
    and mark :: "'p \<Rightarrow> 's \<Rightarrow> 's"
    and mark_rest :: "'p \<Rightarrow> 'v \<Rightarrow> 'v"
  assumes lists: "rep s A \<Longrightarrow> distinct (A q) \<and> (q \<noteq> r \<longrightarrow> set (A q) \<inter> set (A r) = {})"
    and is_empty_list: "rep s A \<Longrightarrow> is_empty q s \<longleftrightarrow> A q = []"
    and push_list: "rep s A \<Longrightarrow> (\<And>r. x \<notin> set (A r)) \<Longrightarrow>
      \<exists>s'. push q x s = Some s' \<and> rep s' (A(q := A q @ [x])) \<and> rest s' = rest s"
    and dequeue_list: "rep s A \<Longrightarrow> A q = x # xs \<Longrightarrow>
      \<exists>s'. dequeue q s = Some (x, s') \<and> rep s' (A(q := xs)) \<and> rest s' = rest s"
    and remove_list: "rep s A \<Longrightarrow> x \<in> set (A q) \<Longrightarrow>
      \<exists>n s'. remove q x s = Some (n, s') \<and> rep s' (A(q := remove1 x (A q))) \<and> rest s' = rest s"
    and member_list: "rep s A \<Longrightarrow> member q x s = Some (x \<in> set (A q))"
    and mark_list: "rep s A \<Longrightarrow> rep (mark x s) A \<and> rest (mark x s) = mark_rest x (rest s)"
begin

text \<open>Waking the first task of a queue: dequeue it, mark it, push it on another queue.\<close>

lemma wake_first:
  assumes "rep s A" and "A q = x # xs" and "q \<noteq> r"
  shows "\<exists>s1 s2. dequeue q s = Some (x, s1) \<and> push r x (mark x s1) = Some s2 \<and>
    rep s2 (A(q := xs, r := A r @ [x])) \<and> rest s2 = mark_rest x (rest s)"
proof -
  obtain s1 where s1: "dequeue q s = Some (x, s1)" "rep s1 (A(q := xs))" "rest s1 = rest s"
    using dequeue_list assms by blast
  have "distinct (A q)" using assms(1) lists by blast
  then have "x \<notin> set ((A(q := xs)) r')" for r'
    using lists [OF assms(1), of q r'] assms(2) by auto
  then obtain s2 where "push r x (mark x s1) = Some s2"
    "rep s2 ((A(q := xs))(r := (A(q := xs)) r @ [x]))" "rest s2 = rest (mark x s1)"
    using push_list [of "mark x s1" "A(q := xs)" x r] mark_list s1(2) by blast
  then show ?thesis using s1 assms(3) mark_list [OF s1(2)] by auto
qed

text \<open>A loop that wakes first tasks until the queue is empty ends and keeps their order.\<close>

lemma wake_all:
  assumes loop: "\<And>s. wake s = (if is_empty q s then Some s
      else Option.bind (dequeue q s) (\<lambda>(x, s1). Option.bind (push r x (mark x s1)) wake))"
    and "rep s A" and "q \<noteq> r"
  shows "\<exists>s'. wake s = Some s' \<and> rep s' (A(q := [], r := A r @ A q)) \<and>
    rest s' = fold mark_rest (A q) (rest s)"
  using assms(2)
proof (induction "A q" arbitrary: s A)
  case Nil
  have q: "A q = []" using Nil by simp
  have "A(q := [], r := A r @ A q) = A" using q by auto
  moreover have "wake s = Some s" using q is_empty_list [OF Nil(2), of q] loop [of s] by simp
  ultimately show ?case using Nil(2) q by (metis fold_simps(1))
next
  case (Cons x xs)
  then have e: "\<not> is_empty q s" using is_empty_list [OF Cons.prems, of q] by auto
  obtain s1 s2 where s: "dequeue q s = Some (x, s1)" "push r x (mark x s1) = Some s2"
    "rep s2 (A(q := xs, r := A r @ [x]))" "rest s2 = mark_rest x (rest s)"
    using wake_first [OF Cons.prems, of q x xs r] Cons.hyps(2) assms(3) by auto
  let ?A = "A(q := xs, r := A r @ [x])"
  have q: "?A q = xs" "?A r = A r @ [x]" using assms(3) by auto
  obtain s' where s': "wake s2 = Some s'" "rep s' (?A(q := [], r := ?A r @ ?A q))"
    "rest s' = fold mark_rest (?A q) (rest s2)"
    using Cons.hyps(1) [of ?A s2] s(3) q(1) by auto
  have "?A(q := [], r := ?A r @ ?A q) = A(q := [], r := A r @ A q)"
    using assms(3) Cons.hyps(2) q by (auto simp: fun_eq_iff)
  then show ?case
    using s s' e q Cons.hyps(2) [symmetric] loop [of s] by auto
qed

end

lemma queued_iff: "x \<notin> queued A \<longleftrightarrow> (\<forall>q. x \<notin> set (A q))"
  by (auto simp: queued_def)

interpretation kq: task_queues queues_rep queue_is_empty queue_push queue_dequeue queue_remove
  check_in_queue view "\<lambda>x. set_status x TASK_READY" "\<lambda>x. set_status x TASK_READY"
proof unfold_locales
  fix s A q r x xs
  assume rep: "queues_rep s A"
  show "distinct (A q) \<and> (q \<noteq> r \<longrightarrow> set (A q) \<inter> set (A r) = {})"
    using queues_repD(1,5) [OF rep] by blast
  show "queue_is_empty q s = (A q = [])" using rep by (rule queue_is_empty_rep)
  show "\<exists>s'. queue_push q x s = Some s' \<and> queues_rep s' (A(q := A q @ [x])) \<and> view s' = view s"
    if "\<And>r. x \<notin> set (A r)"
    using that queue_push_rep [OF rep, of x q] by (auto simp: queued_iff)
  show "\<exists>s'. queue_dequeue q s = Some (x, s') \<and> queues_rep s' (A(q := xs)) \<and> view s' = view s"
    if "A q = x # xs"
    using queue_dequeue_rep [OF rep that] by blast
  show "\<exists>n s'. queue_remove q x s = Some (n, s') \<and> queues_rep s' (A(q := remove1 x (A q))) \<and>
      view s' = view s" if "x \<in> set (A q)"
    using queue_remove_rep [OF rep that] by blast
  show "check_in_queue q x s = Some (x \<in> set (A q))" using rep by (rule check_in_queue_rep)
  show "queues_rep (set_status x TASK_READY s) A \<and>
      view (set_status x TASK_READY s) = set_status x TASK_READY (view s)"
    using rep by simp
qed

text \<open>The ready mark on every task of a list.\<close>

definition ready_all :: "pcb_id list \<Rightarrow> kernel \<Rightarrow> kernel" where
  "ready_all xs s = fold (\<lambda>x. set_status x TASK_READY) xs s"

lemma status_ready_all [simp]:
  "status (pcbs (ready_all xs s) x) = (if x \<in> set xs then TASK_READY else status (pcbs s x))"
  unfolding ready_all_def by (induction xs arbitrary: s) (auto simp: upd_pcb_def)

lemma clear_waiting_queue_rep:
  assumes "queues_rep s A" and "q \<noteq> ReadyQ"
  obtains s' where "clear_waiting_queue q s = Some s'"
    and "queues_rep s' (A(q := [], ReadyQ := A ReadyQ @ A q))"
    and "view s' = ready_all (A q) (view s)"
proof -
  have "clear_waiting_queue q s = (if queue_is_empty q s then Some s
      else Option.bind (queue_dequeue q s) (\<lambda>(x, s1).
        Option.bind (queue_push ReadyQ x (set_status x TASK_READY s1)) (clear_waiting_queue q)))" for s
    by (subst clear_waiting_queue.simps) (simp add: Let_def split_def)
  from kq.wake_all [OF this assms] show thesis using that by (auto simp: ready_all_def)
qed

section \<open>The state before initialisation\<close>

definition zero_context :: regs_context_t where
  "zero_context = \<lparr>regs = replicate 32 0, cp0_status = 0, hi = 0, lo = 0, cp0_badvaddr = 0,
     cp0_cause = 0, cp0_epc = 0, pc = 0\<rparr>"

definition zero_pcb :: pcb_t where
  "zero_pcb = \<lparr>kernel_context = zero_context, user_context = zero_context, kernel_stack_top = 0,
     user_stack_top = 0, pid = 0, mode = KERNEL_MODE, entry_point = 0, prev_ptr = None,
     next_ptr = None, task_type = KERNEL_PROCESS, status = TASK_BLOCKED, cursor_x = 0, cursor_y = 0,
     wait_time = 0, priority = 0, lock = replicate LOCK_MAX_NUM None, lock_num = 0,
     sleeping_deadline = 0, page_table_base_addr = 0\<rparr>"

text \<open>The static data of the kernel image before \<^verbatim>\<open>_start\<close>: everything is zero.\<close>

definition zero_kernel :: kernel where
  "zero_kernel = \<lparr>pcbs = (\<lambda>_. zero_pcb), queues = (\<lambda>_. \<lparr>head = None, tail = None\<rparr>),
     current_running = PcbInit, resume_at = (\<lambda>_. Return), time_elapsed = 0, PID = 0,
     STACK_TOP = 0xa0f00000, USER_STACK_TOP = 0x60000000, cp0_entryhi = 0, screen_cursor_x = 0,
     screen_cursor_y = 0, ProcessShow = replicate 40 \<lparr>show_num = 0, show_pid = 0, show_status = TASK_BLOCKED\<rparr>,
     Lock = [], mutex_status = (\<lambda>_. UNLOCKED), sem_value = (\<lambda>_. 0), max_num = (\<lambda>_. 0),
     not_arrive_num = (\<lambda>_. 0)\<rparr>"

lemma zero_kernel_rep: "queues_rep zero_kernel (\<lambda>_. [])"
  by (simp add: queues_rep_def queue_rep_def zero_kernel_def)

lemma one_queued_rep:
  "queues_rep (the (queue_push q (Pcb 1) zero_kernel)) ((\<lambda>_. [])(q := [Pcb 1]))"
  using kq.push_list [OF zero_kernel_rep, of "Pcb 1" q] by auto

section \<open>Properties\<close>



text \<open>
  Claim C15. \<^verbatim>\<open>clear_waiting_queue\<close> ends on every well-linked queue other than the ready queue; it
  empties the queue, appends its tasks in order to the ready queue, and makes each of them ready.
\<close>

theorem clear_waiting_queue_wakes_all:
  assumes "queues_rep s A" and "q \<noteq> ReadyQ"
  shows "\<exists>s'. clear_waiting_queue q s = Some s' \<and>
    queues_rep s' (A(q := [], ReadyQ := A ReadyQ @ A q)) \<and> view s' = ready_all (A q) (view s) \<and>
    (\<forall>x. status (pcbs s' x) = (if x \<in> set (A q) then TASK_READY else status (pcbs s x)))"
proof -
  obtain s' where s': "clear_waiting_queue q s = Some s'"
    "queues_rep s' (A(q := [], ReadyQ := A ReadyQ @ A q))" "view s' = ready_all (A q) (view s)"
    using assms by (rule clear_waiting_queue_rep)
  have "status (pcbs s' x) = status (pcbs (ready_all (A q) (view s)) x)" for x
    using s'(3) by (metis view_sel(16))
  with s' show ?thesis by (simp add: status_ready_all)
qed

theorem clear_waiting_queue_wakes_all_witness:
  "\<exists>s'. clear_waiting_queue BlockQ (the (queue_push BlockQ (Pcb 1) zero_kernel)) = Some s' \<and>
     queues_rep s' ((\<lambda>_. [])(ReadyQ := [Pcb 1])) \<and> status (pcbs s' (Pcb 1)) = TASK_READY"
proof -
  have "((\<lambda>_. [])(BlockQ := [Pcb 1]))(BlockQ := [], ReadyQ := [Pcb 1]) =
      (\<lambda>_. [])(ReadyQ := [Pcb 1])" by auto
  then show ?thesis
    using clear_waiting_queue_wakes_all [OF one_queued_rep [of BlockQ], of BlockQ] by auto
qed

end
