(* ===== verification/Sched.thy ===== *)
theory Sched
  imports Queue "HOL-Library.Multiset"
begin

text \<open>
  The scheduler of \<^verbatim>\<open>kernel/sched/sched.c\<close> and the clock of \<^verbatim>\<open>kernel/sched/time.c\<close>: waking
  sleepers, choosing the next task, sleeping, blocking, unblocking, the process list and spawning.
  (\<^verbatim>\<open>do_exit\<close>, \<^verbatim>\<open>do_waitpid\<close> and \<^verbatim>\<open>do_kill\<close>, which release mutexes, are in \<open>Process\<close>.)

  \<^verbatim>\<open>do_scheduler\<close> of \<^verbatim>\<open>entry.S\<close> saves the registers of the running task, calls
  \<^verbatim>\<open>scheduler\<close> and restores the registers of the new one; what is left of its effect on the model
  is the call. Interrupts are closed in the kernel, so the clock does not move inside an operation:
  a loop that waits for it does not end, which is \<open>None\<close>.

  \<open>sched_spec\<close> is the scheduler over lists, with no pointers and no loops; \<open>scheduler_refines\<close> shows
  that the code computes it, failures included. \<open>kernel_inv\<close> is the invariant that every task
  is where its status says, and every operation here is shown to keep it.
\<close>

section \<open>The clock\<close>

definition get_ticks :: "kernel \<Rightarrow> u32" where
  "get_ticks s = time_elapsed s"

definition get_timer :: "kernel \<Rightarrow> u32" where
  "get_timer s = time_elapsed s div 5000"

section \<open>The scheduler\<close>

partial_function (option) check_sleeping_from :: "pcb_id option \<Rightarrow> u32 \<Rightarrow> kernel \<Rightarrow> kernel option" where
  "check_sleeping_from p current_time s =
     (case p of
        None \<Rightarrow> Some s
      | Some temp \<Rightarrow>
          if sleeping_deadline (pcbs s temp) < current_time then do {
            (_, s) \<leftarrow> queue_remove SleepingQ temp s;
            let s = set_status temp TASK_READY s;
            queue_push ReadyQ temp s
          }
          else check_sleeping_from (next_ptr (pcbs s temp)) current_time s)"

definition check_sleeping :: "kernel \<Rightarrow> kernel option" where
  "check_sleeping s =
     (if queue_is_empty SleepingQ s then Some s
      else check_sleeping_from (head (queues s SleepingQ)) (get_timer s) s)"

partial_function (option) wait_ready :: "kernel \<Rightarrow> kernel option" where
  "wait_ready s =
     (if queue_is_empty ReadyQ s then
        if queue_is_empty SleepingQ s then Some s
        else do { s \<leftarrow> check_sleeping s; wait_ready s }
      else Some s)"

text \<open>The loop that follows rising priorities, common to \<^verbatim>\<open>scheduler\<close> and \<^verbatim>\<open>do_unblock_one\<close>.\<close>

partial_function (option) climb :: "qid \<Rightarrow> pcb_id option \<Rightarrow> kernel \<Rightarrow> pcb_id option option" where
  "climb q cur s =
     (if cur = tail (queues s q) then Some cur
      else do {
        c \<leftarrow> cur;
        n \<leftarrow> next_ptr (pcbs s c);
        if sint (priority (pcbs s c)) < sint (priority (pcbs s n)) then climb q (Some n) s
        else Some cur
      })"

text \<open>The three parts of \<^verbatim>\<open>scheduler\<close>: put the running task back, wait for a ready task, pick one.\<close>

definition scheduler_save :: "kernel \<Rightarrow> kernel option" where
  "scheduler_save s = do {
     let s = upd_pcb (current_running s) (\<lambda>t. t\<lparr>cursor_x := screen_cursor_x s\<rparr>) s;
     let s = upd_pcb (current_running s) (\<lambda>t. t\<lparr>cursor_y := screen_cursor_y s\<rparr>) s;
     if status (pcbs s (current_running s)) = TASK_RUNNING then do {
       let s = set_status (current_running s) TASK_READY s;
       if entry_point (pcbs s (current_running s)) \<noteq> 0
       then queue_push ReadyQ (current_running s) s else Some s
     }
     else Some s
   }"

definition scheduler_pick :: "kernel \<Rightarrow> kernel option" where
  "scheduler_pick s = do {
     cur \<leftarrow> climb ReadyQ (head (queues s ReadyQ)) s;
     let s = upd_pcb (current_running s) (\<lambda>t. t\<lparr>priority := priority t - 1\<rparr>) s;
     n \<leftarrow> cur;
     let s = s\<lparr>current_running := n\<rparr>;
     (_, s) \<leftarrow> queue_remove ReadyQ n s;
     let s = set_status (current_running s) TASK_RUNNING s;
     let s = s\<lparr>screen_cursor_x := cursor_x (pcbs s (current_running s))\<rparr>;
     Some (s\<lparr>screen_cursor_y := cursor_y (pcbs s (current_running s))\<rparr>)
   }"

definition scheduler :: "kernel \<Rightarrow> kernel option" where
  "scheduler s = do {
     s \<leftarrow> scheduler_save s;
     s \<leftarrow> check_sleeping s;
     s \<leftarrow> wait_ready s;
     scheduler_pick s
   }"

definition do_scheduler :: "kernel \<Rightarrow> kernel option" where
  "do_scheduler s = scheduler s"

definition do_sleep :: "u32 \<Rightarrow> kernel \<Rightarrow> kernel option" where
  "do_sleep sleep_time s = do {
     let c = current_running s;
     s \<leftarrow> (if status (pcbs s c) = TASK_RUNNING then do {
             let s = set_status c TASK_SLEEPING s;
             let s = upd_pcb c (\<lambda>t. t\<lparr>sleeping_deadline := get_timer s + sleep_time\<rparr>) s;
             queue_push SleepingQ c s
           }
           else Some s);
     do_scheduler s
   }"

definition do_block :: "qid \<Rightarrow> kernel \<Rightarrow> kernel option" where
  "do_block q s = do {
     let c = current_running s;
     s \<leftarrow> (if status (pcbs s c) = TASK_RUNNING then do {
             let s = set_status c TASK_BLOCKED s;
             queue_push q c s
           }
           else Some s);
     do_scheduler s
   }"

definition do_unblock_one :: "qid \<Rightarrow> kernel \<Rightarrow> kernel option" where
  "do_unblock_one q s =
     (if \<not> queue_is_empty q s then do {
        cur \<leftarrow> climb q (head (queues s q)) s;
        u \<leftarrow> cur;
        (_, s) \<leftarrow> queue_remove q u s;
        let s = set_status u TASK_READY s;
        queue_push ReadyQ u s
      }
      else Some s)"

partial_function (option) do_unblock_all :: "qid \<Rightarrow> kernel \<Rightarrow> kernel option" where
  "do_unblock_all q s =
     (if \<not> queue_is_empty q s then do { s \<leftarrow> do_unblock_one q s; do_unblock_all q s }
      else Some s)"

section \<open>The process list\<close>

definition show_entry :: "nat \<Rightarrow> pcb_t \<Rightarrow> process_show_t" where
  "show_entry i t = \<lparr>show_num = of_nat i, show_pid = pid t, show_status = status t\<rparr>"

text \<open>One of the three loops of \<^verbatim>\<open>do_ps\<close>: list the tasks with a given status from slot \<open>i\<close> on.\<close>

fun ps_loop :: "task_status_t \<Rightarrow> nat list \<Rightarrow> nat \<Rightarrow> kernel \<Rightarrow> (nat \<times> kernel) option" where
  "ps_loop st [] i s = Some (i, s)"
| "ps_loop st (j # js) i s =
     (if status (pcbs s (Pcb j)) = st then do {
        ps \<leftarrow> store (ProcessShow s) i (show_entry i (pcbs s (Pcb j)));
        ps_loop st js (i + 1) (s\<lparr>ProcessShow := ps\<rparr>)
      }
      else ps_loop st js i s)"

definition do_ps :: "kernel \<Rightarrow> kernel option" where
  "do_ps s = do {
     ps \<leftarrow> store (ProcessShow s) 0 (show_entry 0 (pcbs s (current_running s)));
     let s = s\<lparr>ProcessShow := ps\<rparr>;
     (i, s) \<leftarrow> ps_loop TASK_READY [0..<NUM_MAX_TASK] 1 s;
     (i, s) \<leftarrow> ps_loop TASK_SLEEPING [0..<NUM_MAX_TASK] i s;
     (i, s) \<leftarrow> ps_loop TASK_BLOCKED [0..<NUM_MAX_TASK] i s;
     e \<leftarrow> load (ProcessShow s) i;
     ps \<leftarrow> store (ProcessShow s) i (e\<lparr>show_num := - 1\<rparr>);
     Some (s\<lparr>ProcessShow := ps\<rparr>)
   }"

section \<open>Spawning\<close>

record task_info_t =
  task_name :: "u8 list"
  info_entry_point :: u32
  info_type :: task_type_t

abbreviation "STACK_SIZE \<equiv> 0x80000 :: u32"
abbreviation "VM_STACK_SIZE \<equiv> 0x1000 :: u32"
abbreviation "CP0_STATUS_INIT \<equiv> 0x10008000 :: u32"
abbreviation "INITIAL_PRIORITY \<equiv> 4 :: u32"

text \<open>\<^verbatim>\<open>set_entryhi_asid\<close> of \<^verbatim>\<open>entry.S\<close>: the low byte of \<^verbatim>\<open>CP0_ENTRYHI\<close> is replaced.\<close>

definition set_entryhi_asid :: "u32 \<Rightarrow> kernel \<Rightarrow> kernel" where
  "set_entryhi_asid a s = s\<lparr>cp0_entryhi := (cp0_entryhi s AND 0xffffff00) OR a\<rparr>"

text \<open>The first slot whose task has exited, \<open>None\<close> when the search passes the table.\<close>

definition find_exited :: "kernel \<Rightarrow> nat option" where
  "find_exited s = scan_up (\<lambda>i. status (pcbs s (Pcb i)) = TASK_EXITED) NUM_MAX_TASK 0"

text \<open>The fields that \<^verbatim>\<open>do_spawn\<close> writes, in its order; \<^verbatim>\<open>first_entry\<close> is the address of the
  assembly routine of that name.\<close>

definition spawn_pcb :: "u32 \<Rightarrow> task_info_t \<Rightarrow> u32 \<Rightarrow> u32 \<Rightarrow> pcb_t \<Rightarrow> pcb_t" where
  "spawn_pcb first_entry info stk new_pid t =
     (let t = t\<lparr>kernel_context := zero_context, user_context := zero_context\<rparr>;
          t = t\<lparr>lock := replicate LOCK_MAX_NUM None\<rparr>;
          kc = (kernel_context t)\<lparr>regs := (regs (kernel_context t))[29 := stk, 30 := stk, 31 := first_entry]\<rparr>;
          uc = (user_context t)\<lparr>regs := (regs (user_context t))
                  [29 := stk + STACK_SIZE, 30 := stk + STACK_SIZE]\<rparr>;
          kc = kc\<lparr>cp0_status := CP0_STATUS_INIT, cp0_epc := info_entry_point info\<rparr>;
          uc = uc\<lparr>cp0_status := CP0_STATUS_INIT, cp0_epc := info_entry_point info\<rparr>
      in t\<lparr>kernel_context := kc, user_context := uc,
           kernel_stack_top := stk, user_stack_top := stk + STACK_SIZE,
           prev_ptr := None, next_ptr := None, pid := new_pid, task_type := info_type info,
           status := TASK_CREATED, cursor_x := 0, cursor_y := 0,
           entry_point := info_entry_point info, mode := USER_MODE, priority := INITIAL_PRIORITY,
           wait_time := 0, sleeping_deadline := 0, lock_num := 0\<rparr>)"

definition do_spawn :: "u32 \<Rightarrow> task_info_t \<Rightarrow> kernel \<Rightarrow> kernel option" where
  "do_spawn first_entry info s = do {
     let s = s\<lparr>PID := PID s + 1\<rparr>;
     case find_exited s of
       None \<Rightarrow> Some s
     | Some i \<Rightarrow> do {
         let s = set_entryhi_asid (PID s) s;
         let s = queue_init (WaitingQ (Pcb i)) s;
         let stk = STACK_TOP s;
         let s = s\<lparr>USER_STACK_TOP := USER_STACK_TOP s + VM_STACK_SIZE * 2\<rparr>;
         let s = s\<lparr>STACK_TOP := STACK_TOP s + STACK_SIZE * 2\<rparr>;
         let s = upd_pcb (Pcb i) (spawn_pcb first_entry info stk (PID s)) s;
         queue_push ReadyQ (Pcb i) s
       }
   }"

section \<open>The scheduler over lists\<close>

text \<open>The last element of the first strictly rising run.\<close>

fun peak :: "('a \<Rightarrow> int) \<Rightarrow> 'a list \<Rightarrow> 'a" where
  "peak f [] = undefined"
| "peak f [x] = x"
| "peak f (x # y # zs) = (if f x < f y then peak f (y # zs) else x)"

lemma peak_in: "xs \<noteq> [] \<Longrightarrow> peak f xs \<in> set xs"
  by (induction f xs rule: peak.induct) auto

lemma peak_split:
  "xs \<noteq> [] \<Longrightarrow> \<exists>ys zs. xs = ys @ peak f xs # zs \<and> sorted_wrt (\<lambda>a b. f a < f b) (ys @ [peak f xs]) \<and>
     (zs \<noteq> [] \<longrightarrow> f (hd zs) \<le> f (peak f xs))"
proof (induction f xs rule: peak.induct)
  case (3 f x y zs)
  show ?case
  proof (cases "f x < f y")
    case True
    then obtain ys us where IH: "y # zs = ys @ peak f (y # zs) # us"
      "sorted_wrt (\<lambda>a b. f a < f b) (ys @ [peak f (y # zs)])"
      "us \<noteq> [] \<longrightarrow> f (hd us) \<le> f (peak f (y # zs))"
      using 3 by blast
    have "f y \<le> f b" if "b \<in> set (ys @ [peak f (y # zs)])" for b
      using IH(1,2) that by (cases ys) (auto simp: less_imp_le)
    then have "sorted_wrt (\<lambda>a b. f a < f b) ((x # ys) @ [peak f (y # zs)])"
      using IH(2) True by fastforce
    then show ?thesis using IH True by (intro exI [of _ "x # ys"] exI [of _ us]) auto
  next
    case False
    then show ?thesis by (intro exI [of _ "[]"] exI [of _ "y # zs"]) auto
  qed
next
  case (2 f x)
  show ?case by (intro exI [of _ "[]"]) simp
qed auto

abbreviation task_priority :: "kernel \<Rightarrow> pcb_id \<Rightarrow> int" where
  "task_priority s i \<equiv> sint (priority (pcbs s i))"

lemma climb_seg:
  assumes "dseg (pcbs s) p xs None" and "xs \<noteq> []" and "tail (queues s q) = Some (last xs)" and "distinct xs"
  shows "climb q (Some (hd xs)) s = Some (Some (peak (task_priority s) xs))"
  using assms
proof (induction "task_priority s" xs arbitrary: p rule: peak.induct)
  case (3 x y zs)
  then have "x \<noteq> last (y # zs)" by auto
  then show ?case using 3 by (subst climb.simps) auto
qed (auto simp: climb.simps)

lemma climb_rep:
  assumes "queues_rep s A" and "A q \<noteq> []"
  shows "climb q (head (queues s q)) s = Some (Some (peak (task_priority s) (A q)))"
proof -
  have "head (queues s q) = Some (hd (A q))" and "tail (queues s q) = Some (last (A q))"
    using queues_repD(2,3) [OF assms(1), of q] assms(2) by (auto simp: first_ptr_def last_ptr_def split: list.splits)
  then show ?thesis
    using climb_seg queues_repD(1,4) [OF assms(1), of q] assms(2) by metis
qed

lemma climb_empty: "queues_rep s A \<Longrightarrow> A q = [] \<Longrightarrow> climb q (head (queues s q)) s = Some None"
  using queues_repD(2,3) [of s A q] by (simp add: climb.simps)

definition expired :: "kernel \<Rightarrow> pcb_id \<Rightarrow> bool" where
  "expired s x = (sleeping_deadline (pcbs s x) < get_timer s)"

lemma get_timer_view [simp]: "get_timer (view s) = get_timer s"
  by (simp add: get_timer_def)

lemma expired_view [simp]: "expired (view s) = expired s"
  by (rule ext) (simp add: expired_def)

lemma check_sleeping_from_rep:
  assumes "dseg (pcbs s) p xs None"
  shows "check_sleeping_from (first_ptr xs None) (get_timer s) s =
    (case find (expired s) xs of
       None \<Rightarrow> Some s
     | Some x \<Rightarrow> Option.bind (queue_remove SleepingQ x s) (\<lambda>(_, s1).
         queue_push ReadyQ x (set_status x TASK_READY s1)))"
  using assms
proof (induction xs arbitrary: p)
  case (Cons x xs)
  then show ?case
    by (subst check_sleeping_from.simps) (auto simp: expired_def [symmetric] Let_def)
qed (simp add: check_sleeping_from.simps)

text \<open>The effect of \<^verbatim>\<open>check_sleeping\<close>: the first sleeper whose time has come becomes ready.\<close>

definition awake :: "kernel \<Rightarrow> (qid \<Rightarrow> pcb_id list) \<Rightarrow> kernel \<times> (qid \<Rightarrow> pcb_id list)" where
  "awake v A = (case find (expired v) (A SleepingQ) of
     None \<Rightarrow> (v, A)
   | Some x \<Rightarrow> (set_status x TASK_READY v,
       A(SleepingQ := remove1 x (A SleepingQ), ReadyQ := A ReadyQ @ [x])))"

lemma check_sleeping_rep:
  assumes rep: "queues_rep s A"
  obtains s' where "check_sleeping s = Some s'" and "queues_rep s' (snd (awake (view s) A))"
    and "view s' = fst (awake (view s) A)"
proof -
  have h: "head (queues s SleepingQ) = first_ptr (A SleepingQ) None"
    "dseg (pcbs s) None (A SleepingQ) None" "queue_is_empty SleepingQ s \<longleftrightarrow> A SleepingQ = []"
    using queues_repD [OF rep] queue_is_empty_rep [OF rep] by auto
  show thesis
  proof (cases "find (expired s) (A SleepingQ)")
    case None
    then have "check_sleeping s = Some s"
      using h check_sleeping_from_rep [OF h(2)] by (simp add: check_sleeping_def)
    with None that [of s] rep show thesis by (simp add: awake_def)
  next
    case (Some x)
    then have x: "x \<in> set (A SleepingQ)" by (auto simp: find_Some_iff)
    let ?A = "A(SleepingQ := remove1 x (A SleepingQ))"
    obtain n s1 where s1: "queue_remove SleepingQ x s = Some (n, s1)" "queues_rep s1 ?A" "view s1 = view s"
      using kq.remove_list [OF rep x] by auto
    have "x \<notin> set (?A r)" for r
      using queues_repD(1) [OF rep, of SleepingQ] queues_repD(5) [OF rep, of SleepingQ r] x by auto
    then obtain s2 where s2: "queue_push ReadyQ x (set_status x TASK_READY s1) = Some s2"
      "queues_rep s2 (?A(ReadyQ := ?A ReadyQ @ [x]))" "view s2 = view (set_status x TASK_READY s1)"
      using kq.push_list [of "set_status x TASK_READY s1" ?A x ReadyQ] s1(2) by auto
    have "check_sleeping s = Some s2"
      using h Some x check_sleeping_from_rep [OF h(2)] s1(1) s2(1) by (auto simp: check_sleeping_def)
    with s1(3) s2(2,3) that [of s2] Some show thesis by (simp add: awake_def)
  qed
qed

text \<open>
  Choosing the next task from a state and its lists: the running task goes to the end of the ready
  queue, one sleeper is woken, and the peak of the ready queue is taken. There is no result
  when no task is ready.
\<close>

definition requeue :: "kernel \<Rightarrow> (qid \<Rightarrow> pcb_id list) \<Rightarrow> kernel \<times> (qid \<Rightarrow> pcb_id list)" where
  "requeue v A =
     (let c = current_running v;
          v1 = upd_pcb c (\<lambda>t. t\<lparr>cursor_y := screen_cursor_y v\<rparr>)
                 (upd_pcb c (\<lambda>t. t\<lparr>cursor_x := screen_cursor_x v\<rparr>) v)
      in if status (pcbs v c) = TASK_RUNNING
         then (set_status c TASK_READY v1,
               if entry_point (pcbs v c) \<noteq> 0 then A(ReadyQ := A ReadyQ @ [c]) else A)
         else (v1, A))"

definition switch_to :: "pcb_id \<Rightarrow> kernel \<Rightarrow> kernel" where
  "switch_to n v =
     (let v = upd_pcb (current_running v) (\<lambda>t. t\<lparr>priority := priority t - 1\<rparr>) v;
          v = set_status n TASK_RUNNING (v\<lparr>current_running := n\<rparr>)
      in v\<lparr>screen_cursor_x := cursor_x (pcbs v n), screen_cursor_y := cursor_y (pcbs v n)\<rparr>)"

definition sched_spec ::
    "kernel \<Rightarrow> (qid \<Rightarrow> pcb_id list) \<Rightarrow> (kernel \<times> (qid \<Rightarrow> pcb_id list)) option" where
  "sched_spec v A =
     (let (v, A) = requeue v A;
          (v, A) = awake v A;
          n = peak (task_priority v) (A ReadyQ)
      in if A ReadyQ = [] then None
         else Some (switch_to n v, A(ReadyQ := remove1 n (A ReadyQ))))"

text \<open>With no ready task and no expired sleeper the wait never ends.\<close>

lemma wait_ready_stuck:
  assumes "queues_rep s A" and "A ReadyQ = []" and "A SleepingQ \<noteq> []"
    and "find (expired s) (A SleepingQ) = None"
  shows "wait_ready s = None"
proof (rule ccontr)
  assume "wait_ready s \<noteq> None"
  then obtain r where "wait_ready s = Some r" by blast
  then have "\<not> (\<exists>A. queues_rep s A \<and> A ReadyQ = [] \<and> A SleepingQ \<noteq> [] \<and>
      find (expired s) (A SleepingQ) = None)"
  proof (rule wait_ready.raw_induct [rotated])
    fix loop x y
    assume IH: "\<And>z r. loop z = Some r \<Longrightarrow> \<not> (\<exists>A. queues_rep z A \<and> A ReadyQ = [] \<and> A SleepingQ \<noteq> [] \<and>
        find (expired z) (A SleepingQ) = None)"
      and step: "(if queue_is_empty ReadyQ x then if queue_is_empty SleepingQ x then Some x
          else check_sleeping x \<bind> loop else Some x) = Some y"
    show "\<not> (\<exists>A. queues_rep x A \<and> A ReadyQ = [] \<and> A SleepingQ \<noteq> [] \<and>
        find (expired x) (A SleepingQ) = None)"
    proof
      assume "\<exists>A. queues_rep x A \<and> A ReadyQ = [] \<and> A SleepingQ \<noteq> [] \<and>
        find (expired x) (A SleepingQ) = None"
      then obtain A where A: "queues_rep x A" "A ReadyQ = []" "A SleepingQ \<noteq> []"
        "find (expired x) (A SleepingQ) = None" by blast
      have "check_sleeping x = Some x"
        using check_sleeping_from_rep [OF queues_repD(4) [OF A(1)]] A queues_repD(2) [OF A(1)]
          queue_is_empty_rep [OF A(1)] by (simp add: check_sleeping_def)
      then have "loop x = Some y" using step A queue_is_empty_rep [OF A(1)] by simp
      with IH A show False by blast
    qed
  qed
  with assms show False by blast
qed

lemma scheduler_save_rep:
  assumes rep: "queues_rep s A"
    and c: "status (pcbs s (current_running s)) = TASK_RUNNING \<Longrightarrow> current_running s \<notin> queued A"
  obtains s' where "scheduler_save s = Some s'"
    and "queues_rep s' (snd (requeue (view s) A))" and "view s' = fst (requeue (view s) A)"
proof -
  let ?c = "current_running s"
  let ?s1 = "upd_pcb ?c (\<lambda>t. t\<lparr>cursor_y := screen_cursor_y s\<rparr>)
      (upd_pcb ?c (\<lambda>t. t\<lparr>cursor_x := screen_cursor_x s\<rparr>) s)"
  let ?s2 = "set_status ?c TASK_READY ?s1"
  show thesis
  proof (cases "status (pcbs s ?c) = TASK_RUNNING \<and> entry_point (pcbs s ?c) \<noteq> 0")
    case True
    then have "?c \<notin> set (A r)" for r using c by (auto simp: queued_iff)
    then obtain s3 where "queue_push ReadyQ ?c ?s2 = Some s3"
      "queues_rep s3 (A(ReadyQ := A ReadyQ @ [?c]))" "view s3 = view ?s2"
      using kq.push_list [of ?s2 A ?c ReadyQ] rep by auto
    then show thesis using True that [of s3] by (simp add: scheduler_save_def requeue_def Let_def)
  next
    case False
    show thesis
    proof (cases "status (pcbs s ?c) = TASK_RUNNING")
      case True
      then show thesis using False rep that [of ?s2] by (simp add: scheduler_save_def requeue_def Let_def)
    next
      case False
      then show thesis using rep that [of ?s1] by (simp add: scheduler_save_def requeue_def Let_def)
    qed
  qed
qed

lemma wait_ready_done: "queues_rep s A \<Longrightarrow> A ReadyQ \<noteq> [] \<or> A SleepingQ = [] \<Longrightarrow> wait_ready s = Some s"
  by (subst wait_ready.simps) (auto simp: queue_is_empty_rep)

lemma awake_idle:
  "snd (awake v A) ReadyQ = [] \<Longrightarrow>
   find (expired (fst (awake v A))) (snd (awake v A) SleepingQ) = None \<and> A = snd (awake v A)"
  by (auto simp: awake_def split: option.splits)

lemma scheduler_pick_rep:
  assumes rep: "queues_rep s A" and ne: "A ReadyQ \<noteq> []"
  defines "n \<equiv> peak (task_priority s) (A ReadyQ)"
  obtains s' where "scheduler_pick s = Some s'" and "queues_rep s' (A(ReadyQ := remove1 n (A ReadyQ)))"
    and "view s' = switch_to n (view s)"
proof -
  have n: "n \<in> set (A ReadyQ)" using ne by (simp add: n_def peak_in)
  let ?s1 = "(upd_pcb (current_running s) (\<lambda>t. t\<lparr>priority := priority t - 1\<rparr>) s)\<lparr>current_running := n\<rparr>"
  have "queues_rep ?s1 A" using rep by simp
  then obtain m s2 where s2: "queue_remove ReadyQ n ?s1 = Some (m, s2)"
    "queues_rep s2 (A(ReadyQ := remove1 n (A ReadyQ)))" "view s2 = view ?s1"
    using kq.remove_list n by blast
  have c2: "current_running s2 = n" using arg_cong [OF s2(3), of current_running] by simp
  let ?s3 = "set_status n TASK_RUNNING s2"
  let ?s4 = "?s3\<lparr>screen_cursor_x := cursor_x (pcbs ?s3 n), screen_cursor_y := cursor_y (pcbs ?s3 n)\<rparr>"
  have "view ?s4 = (view ?s3)\<lparr>screen_cursor_x := cursor_x (pcbs (view ?s3) n),
      screen_cursor_y := cursor_y (pcbs (view ?s3) n)\<rparr>"
    by (simp only: view_fields view_sel)
  moreover have "view ?s3 = set_status n TASK_RUNNING (view ?s1)"
    by (simp add: s2(3) del: view_fields)
  moreover have "view ?s1 = (upd_pcb (current_running (view s))
      (\<lambda>t. t\<lparr>priority := priority t - 1\<rparr>) (view s))\<lparr>current_running := n\<rparr>" by simp
  ultimately have "view ?s4 = switch_to n (view s)" by (simp only: switch_to_def Let_def)
  moreover have "scheduler_pick s = Some ?s4"
    using climb_rep [OF rep ne] s2(1) by (simp add: scheduler_pick_def Let_def c2 n_def)
  moreover have "queues_rep ?s4 (A(ReadyQ := remove1 n (A ReadyQ)))" using s2(2) by simp
  ultimately show thesis by (rule that [rotated 2])
qed

lemma scheduler_pick_none:
  "queues_rep s A \<Longrightarrow> A ReadyQ = [] \<Longrightarrow> scheduler_pick s = None"
  by (simp add: scheduler_pick_def climb_empty)

lemma scheduler_refines:
  assumes rep: "queues_rep s A"
    and c: "status (pcbs s (current_running s)) = TASK_RUNNING \<Longrightarrow> current_running s \<notin> queued A"
  shows "case sched_spec (view s) A of
      None \<Rightarrow> scheduler s = None
    | Some (v', A') \<Rightarrow> \<exists>s'. scheduler s = Some s' \<and> queues_rep s' A' \<and> view s' = v'"
proof -
  obtain s1 where s1: "scheduler_save s = Some s1"
    and r1: "queues_rep s1 (snd (requeue (view s) A))" "view s1 = fst (requeue (view s) A)"
    using assms by (rule scheduler_save_rep)
  define A1 where "A1 = snd (requeue (view s) A)"
  obtain s2 where s2: "check_sleeping s1 = Some s2" and r2: "queues_rep s2 (snd (awake (view s1) A1))"
    "view s2 = fst (awake (view s1) A1)"
    using r1(1) [folded A1_def] by (rule check_sleeping_rep)
  define A2 where "A2 = snd (awake (view s1) A1)"
  have ex: "expired (fst (awake (view s1) A1)) = expired s2" by (metis r2(2) expired_view)
  have start: "scheduler s = Option.bind (wait_ready s2) scheduler_pick"
    using s1 s2 by (simp add: scheduler_def)
  have spec: "sched_spec (view s) A = (if A2 ReadyQ = [] then None
      else let n = peak (task_priority s2) (A2 ReadyQ)
        in Some (switch_to n (view s2), A2(ReadyQ := remove1 n (A2 ReadyQ))))"
    using r1(2) r2(2) [symmetric] by (simp add: sched_spec_def split_def A1_def A2_def Let_def)
  show ?thesis
  proof (cases "A2 ReadyQ = []")
    case True
    have "find (expired s2) (A2 SleepingQ) = None"
      using awake_idle [of "view s1" A1] True ex by (auto simp: A2_def)
    then have "wait_ready s2 = None \<or> wait_ready s2 = Some s2"
      using True wait_ready_stuck [of s2 A2] wait_ready_done [of s2 A2] r2(1) by (auto simp: A2_def)
    then have "scheduler s = None"
      using scheduler_pick_none [of s2 A2] True r2(1) by (auto simp: start A2_def)
    then show ?thesis using spec True by simp
  next
    case False
    have "wait_ready s2 = Some s2" using wait_ready_done [of s2 A2] False r2(1) by (simp add: A2_def)
    moreover obtain s' where "scheduler_pick s2 = Some s'"
      "queues_rep s' (A2(ReadyQ := remove1 (peak (task_priority s2) (A2 ReadyQ)) (A2 ReadyQ)))"
      "view s' = switch_to (peak (task_priority s2) (A2 ReadyQ)) (view s2)"
      using scheduler_pick_rep [of s2 A2] False r2(1) by (auto simp: A2_def)
    ultimately show ?thesis using False by (simp add: spec start Let_def)
  qed
qed

section \<open>Every task is where its status says\<close>

definition tasks :: "pcb_id set" where
  "tasks = Pcb ` {..<NUM_MAX_TASK}"

text \<open>The queues a task is on.\<close>

definition at :: "(qid \<Rightarrow> pcb_id list) \<Rightarrow> pcb_id \<Rightarrow> qid set" where
  "at A i = {q. i \<in> set (A q)}"

definition place_ok :: "task_status_t \<Rightarrow> qid set \<Rightarrow> bool \<Rightarrow> bool" where
  "place_ok st qs running = (case st of
     TASK_RUNNING \<Rightarrow> running \<and> qs = {}
   | TASK_READY \<Rightarrow> qs = {ReadyQ}
   | TASK_CREATED \<Rightarrow> qs = {ReadyQ}
   | TASK_SLEEPING \<Rightarrow> qs = {SleepingQ}
   | TASK_BLOCKED \<Rightarrow> \<exists>q. q \<noteq> ReadyQ \<and> q \<noteq> SleepingQ \<and> qs = {q}
   | TASK_EXITED \<Rightarrow> qs = {})"

lemma place_ok_simps [simp]:
  "place_ok TASK_RUNNING qs r \<longleftrightarrow> r \<and> qs = {}" "place_ok TASK_READY qs r \<longleftrightarrow> qs = {ReadyQ}"
  "place_ok TASK_CREATED qs r \<longleftrightarrow> qs = {ReadyQ}" "place_ok TASK_SLEEPING qs r \<longleftrightarrow> qs = {SleepingQ}"
  "place_ok TASK_BLOCKED qs r \<longleftrightarrow> (\<exists>q. q \<noteq> ReadyQ \<and> q \<noteq> SleepingQ \<and> qs = {q})"
  "place_ok TASK_EXITED qs r \<longleftrightarrow> qs = {}"
  by (simp_all add: place_ok_def)

lemma place_ok_other: "st \<noteq> TASK_RUNNING \<Longrightarrow> place_ok st qs r \<longleftrightarrow> place_ok st qs r'"
  by (cases st) auto

lemma place_ok_single: "place_ok st qs r \<Longrightarrow> q \<in> qs \<Longrightarrow> qs = {q}"
  by (cases st) auto

text \<open>
  A task that has exited has no waiters left, except one of the set \<open>X\<close>, which is being killed and
  whose waiters are still to be woken.
\<close>

definition kernel_inv :: "pcb_id set \<Rightarrow> kernel \<Rightarrow> (qid \<Rightarrow> pcb_id list) \<Rightarrow> bool" where
  "kernel_inv X s A \<longleftrightarrow>
     (\<forall>q. distinct (A q)) \<and> queued A \<subseteq> tasks \<and> current_running s \<in> insert PcbInit tasks \<and>
     status (pcbs s PcbInit) \<noteq> TASK_RUNNING \<and>
     (\<forall>i \<in> tasks. place_ok (status (pcbs s i)) (at A i) (i = current_running s) \<and>
        (status (pcbs s i) \<noteq> TASK_EXITED \<longrightarrow> entry_point (pcbs s i) \<noteq> 0) \<and>
        (status (pcbs s i) = TASK_EXITED \<and> i \<notin> X \<longrightarrow> A (WaitingQ i) = []))"

lemma PcbInit_not_task [simp]: "PcbInit \<notin> tasks"
  by (auto simp: tasks_def)

lemma Pcb_task [simp]: "Pcb i \<in> tasks \<longleftrightarrow> i < NUM_MAX_TASK"
  by (auto simp: tasks_def)

lemma at_empty_iff: "at A i = {} \<longleftrightarrow> i \<notin> queued A"
  by (auto simp: at_def queued_def)

lemma in_at [simp]: "q \<in> at A i \<longleftrightarrow> i \<in> set (A q)"
  by (simp add: at_def)

lemma at_push [simp]: "at (A(q := A q @ [x])) i = (if i = x then insert q (at A i) else at A i)"
  by (auto simp: at_def)

lemma at_remove1 [simp]:
  "distinct (A q) \<Longrightarrow> at (A(q := remove1 x (A q))) i = (if i = x then at A i - {q} else at A i)"
  by (auto simp: at_def)

lemma queued_push [simp]: "queued (A(q := A q @ [x])) = insert x (queued A)"
  by (auto simp: queued_def split: if_splits)

lemma queued_remove1: "queued (A(q := remove1 x (A q))) \<subseteq> queued A"
  using notin_set_remove1 by (fastforce simp: queued_def split: if_splits)

lemma kernel_inv_view [simp]: "kernel_inv X (view s) A = kernel_inv X s A"
  by (simp add: kernel_inv_def)

lemma kernel_inv_cong:
  assumes "kernel_inv X s A" and "current_running s' = current_running s"
    and "\<And>i. status (pcbs s' i) = status (pcbs s i)" and "\<And>i. entry_point (pcbs s' i) = entry_point (pcbs s i)"
  shows "kernel_inv X s' A"
  using assms by (simp add: kernel_inv_def)

lemma kernel_invD:
  assumes "kernel_inv X s A"
  shows "distinct (A q)" and "x \<in> set (A q) \<Longrightarrow> x \<in> tasks" and "x \<in> set (A q) \<Longrightarrow> at A x = {q}"
    and "x \<in> tasks \<Longrightarrow> place_ok (status (pcbs s x)) (at A x) (x = current_running s)"
    and "x \<in> tasks \<Longrightarrow> status (pcbs s x) \<noteq> TASK_EXITED \<Longrightarrow> entry_point (pcbs s x) \<noteq> 0"
    and "x \<in> tasks \<Longrightarrow> status (pcbs s x) = TASK_EXITED \<Longrightarrow> x \<notin> X \<Longrightarrow> A (WaitingQ x) = []"
    and "x \<in> set (A q) \<Longrightarrow> status (pcbs s x) \<noteq> TASK_EXITED"
    and "x \<in> set (A q) \<Longrightarrow> status (pcbs s x) \<noteq> TASK_RUNNING"
    and "x \<in> set (A q) \<Longrightarrow> status (pcbs s x) = TASK_SLEEPING \<longleftrightarrow> q = SleepingQ"
    and "x \<in> set (A q) \<Longrightarrow> status (pcbs s x) = TASK_BLOCKED \<longleftrightarrow> q \<noteq> ReadyQ \<and> q \<noteq> SleepingQ"
proof -
  show "distinct (A q)" using assms by (simp add: kernel_inv_def)
  show t: "x \<in> set (A q) \<Longrightarrow> x \<in> tasks" using assms by (auto simp: kernel_inv_def queued_def)
  show p: "x \<in> tasks \<Longrightarrow> place_ok (status (pcbs s x)) (at A x) (x = current_running s)"
    "x \<in> tasks \<Longrightarrow> status (pcbs s x) \<noteq> TASK_EXITED \<Longrightarrow> entry_point (pcbs s x) \<noteq> 0"
    "x \<in> tasks \<Longrightarrow> status (pcbs s x) = TASK_EXITED \<Longrightarrow> x \<notin> X \<Longrightarrow> A (WaitingQ x) = []"
    using assms by (auto simp: kernel_inv_def)
  show a: "x \<in> set (A q) \<Longrightarrow> at A x = {q}" using p t by (auto dest: place_ok_single)
  show "x \<in> set (A q) \<Longrightarrow> status (pcbs s x) \<noteq> TASK_EXITED"
    "x \<in> set (A q) \<Longrightarrow> status (pcbs s x) \<noteq> TASK_RUNNING"
    "x \<in> set (A q) \<Longrightarrow> status (pcbs s x) = TASK_SLEEPING \<longleftrightarrow> q = SleepingQ"
    "x \<in> set (A q) \<Longrightarrow> status (pcbs s x) = TASK_BLOCKED \<longleftrightarrow> q \<noteq> ReadyQ \<and> q \<noteq> SleepingQ"
    using p t a by (cases "status (pcbs s x)"; auto)+
qed

lemma kernel_inv_running:
  assumes "kernel_inv X s A" and "status (pcbs s (current_running s)) = TASK_RUNNING"
  shows "current_running s \<in> tasks" and "at A (current_running s) = {}" and "current_running s \<notin> queued A"
proof -
  show t: "current_running s \<in> tasks" using assms by (auto simp: kernel_inv_def)
  show "at A (current_running s) = {}" using assms kernel_invD(4) [OF assms(1) t] by simp
  then show "current_running s \<notin> queued A" by (simp add: at_empty_iff)
qed

text \<open>The running task leaves the processor for a queue.\<close>

lemma kernel_inv_leave:
  assumes inv: "kernel_inv X s A" and run: "status (pcbs s (current_running s)) = TASK_RUNNING"
    and st: "place_ok st {q} False" and w: "\<And>i. q = WaitingQ i \<Longrightarrow> status (pcbs s i) \<noteq> TASK_EXITED"
  shows "kernel_inv X (set_status (current_running s) st s) (A(q := A q @ [current_running s]))"
proof -
  have st': "st \<noteq> TASK_EXITED" "st \<noteq> TASK_RUNNING" using st by auto
  then have "place_ok st {q} True" using st place_ok_other by blast
  then show ?thesis
    using inv kernel_inv_running [OF inv run] st st' w unfolding kernel_inv_def
    by (auto simp: queued_iff run)
qed

text \<open>A queued task that does not run becomes ready.\<close>

lemma kernel_inv_wake:
  assumes inv: "kernel_inv X s A" and x: "x \<in> set (A q)" and q: "q \<noteq> ReadyQ"
  shows "kernel_inv X (set_status x TASK_READY s) (A(q := remove1 x (A q), ReadyQ := A ReadyQ @ [x]))"
proof -
  let ?A = "A(q := remove1 x (A q))"
  note I = kernel_invD [OF inv]
  have A: "A(q := remove1 x (A q), ReadyQ := A ReadyQ @ [x]) = ?A(ReadyQ := ?A ReadyQ @ [x])"
    using q by simp
  have at: "at (?A(ReadyQ := ?A ReadyQ @ [x])) i = (if i = x then {ReadyQ} else at A i)" for i
    using I(1,3) x by (simp only: at_push at_remove1) auto
  have "queued (?A(ReadyQ := ?A ReadyQ @ [x])) \<subseteq> tasks"
    unfolding queued_push using queued_remove1 [of A q x] I(2) [OF x] inv by (auto simp: kernel_inv_def)
  moreover have "distinct ((?A(ReadyQ := ?A ReadyQ @ [x])) r)" for r
    using I(1,3) x q by (auto simp: at_def)
  moreover have "x \<noteq> PcbInit" using I(2) [OF x] by auto
  ultimately show ?thesis
    using inv x I(7,8) unfolding A kernel_inv_def at by auto
qed

section \<open>The scheduler keeps the invariant\<close>

lemma kernel_inv_requeue:
  assumes inv: "kernel_inv X s A"
  shows "kernel_inv X (fst (requeue s A)) (snd (requeue s A))"
    and "i \<in> insert PcbInit tasks \<Longrightarrow> status (pcbs (fst (requeue s A)) i) \<noteq> TASK_RUNNING"
proof -
  let ?c = "current_running s"
  show "kernel_inv X (fst (requeue s A)) (snd (requeue s A))"
  proof (cases "status (pcbs s ?c) = TASK_RUNNING")
    case True
    then have "entry_point (pcbs s ?c) \<noteq> 0"
      using kernel_inv_running [OF inv] kernel_invD(5) [OF inv] by simp
    then show ?thesis
      using kernel_inv_leave [OF inv True, of TASK_READY ReadyQ] True
      by (auto simp: requeue_def Let_def intro: kernel_inv_cong)
  next
    case False
    then show ?thesis using inv by (auto simp: requeue_def Let_def intro: kernel_inv_cong)
  qed
  assume i: "i \<in> insert PcbInit tasks"
  have "status (pcbs s i) \<noteq> TASK_RUNNING" if "i \<noteq> ?c"
    using i that kernel_invD(4) [OF inv, of i] inv by (auto simp: kernel_inv_def)
  then show "status (pcbs (fst (requeue s A)) i) \<noteq> TASK_RUNNING"
    by (auto simp: requeue_def Let_def)
qed

lemma kernel_inv_awake:
  assumes inv: "kernel_inv X s A"
  shows "kernel_inv X (fst (awake s A)) (snd (awake s A))"
    and "status (pcbs s i) \<noteq> TASK_RUNNING \<Longrightarrow> status (pcbs (fst (awake s A)) i) \<noteq> TASK_RUNNING"
proof -
  show "kernel_inv X (fst (awake s A)) (snd (awake s A))"
  proof (cases "find (expired s) (A SleepingQ)")
    case (Some x)
    then have "x \<in> set (A SleepingQ)" by (auto simp: find_Some_iff)
    then show ?thesis using kernel_inv_wake [OF inv, of x SleepingQ] Some by (simp add: awake_def)
  qed (use inv in \<open>simp add: awake_def\<close>)
qed (auto simp: awake_def split: option.splits)

lemma kernel_inv_switch:
  assumes inv: "kernel_inv X s A" and n: "n \<in> set (A ReadyQ)"
    and none: "\<And>i. i \<in> insert PcbInit tasks \<Longrightarrow> status (pcbs s i) \<noteq> TASK_RUNNING"
  shows "kernel_inv X (switch_to n s) (A(ReadyQ := remove1 n (A ReadyQ)))"
proof -
  note I = kernel_invD [OF inv]
  have at: "at (A(ReadyQ := remove1 n (A ReadyQ))) i = (if i = n then {} else at A i)" for i
    using I(1,3) n by simp
  have "queued (A(ReadyQ := remove1 n (A ReadyQ))) \<subseteq> tasks"
    using queued_remove1 [of A ReadyQ n] inv by (auto simp: kernel_inv_def)
  moreover have "n \<in> tasks" "n \<noteq> PcbInit" using I(2) [OF n] by auto
  moreover have "place_ok (status (pcbs s i)) (at A i) b" if "i \<in> tasks" for i b
    using none [of i] that I(4) [OF that] place_ok_other by blast
  ultimately show ?thesis
    using inv n I(7) unfolding kernel_inv_def at by (auto simp: switch_to_def Let_def)
qed

lemma kernel_inv_sched:
  assumes inv: "kernel_inv X s A" and spec: "sched_spec s A = Some (v', A')"
  shows "kernel_inv X v' A'" and "status (pcbs v' (current_running v')) = TASK_RUNNING"
    and "current_running v' \<in> tasks"
proof -
  define v1 A1 where "v1 = fst (requeue s A)" and "A1 = snd (requeue s A)"
  define v2 A2 where "v2 = fst (awake v1 A1)" and "A2 = snd (awake v1 A1)"
  define n where "n = peak (task_priority v2) (A2 ReadyQ)"
  have ne: "A2 ReadyQ \<noteq> []" and v': "v' = switch_to n v2" and A': "A' = A2(ReadyQ := remove1 n (A2 ReadyQ))"
    using spec by (auto simp: sched_spec_def split_def Let_def v1_def A1_def v2_def A2_def n_def split: if_splits)
  have n: "n \<in> set (A2 ReadyQ)" using ne by (simp add: n_def peak_in)
  have inv2: "kernel_inv X v2 A2"
    using kernel_inv_awake(1) [OF kernel_inv_requeue(1) [OF inv]] by (simp add: v1_def A1_def v2_def A2_def)
  have "status (pcbs v2 i) \<noteq> TASK_RUNNING" if "i \<in> insert PcbInit tasks" for i
    using kernel_inv_awake(2) [OF kernel_inv_requeue(1) [OF inv]] kernel_inv_requeue(2) [OF inv that]
    by (simp add: v1_def A1_def v2_def)
  then show "kernel_inv X v' A'" using kernel_inv_switch [OF inv2 n] by (simp add: v' A')
  show "status (pcbs v' (current_running v')) = TASK_RUNNING" "current_running v' \<in> tasks"
    using kernel_invD(2) [OF inv2 n] by (simp_all add: v' switch_to_def Let_def)
qed

text \<open>What the scheduler leaves alone.\<close>

definition same_sync :: "kernel \<Rightarrow> kernel \<Rightarrow> bool" where
  "same_sync s s' \<longleftrightarrow> mutex_status s' = mutex_status s \<and> sem_value s' = sem_value s \<and>
     max_num s' = max_num s \<and> not_arrive_num s' = not_arrive_num s \<and> resume_at s' = resume_at s \<and>
     time_elapsed s' = time_elapsed s"

lemma same_sync_view [simp]: "same_sync (view s) s' = same_sync s s'" "same_sync s (view s') = same_sync s s'"
  by (simp_all add: same_sync_def)

lemma requeue_frame:
  "same_sync s (fst (requeue s A))" "q \<noteq> ReadyQ \<Longrightarrow> snd (requeue s A) q = A q"
  by (simp_all add: requeue_def Let_def same_sync_def)

lemma awake_frame:
  "same_sync s (fst (awake s A))" "q \<noteq> ReadyQ \<Longrightarrow> q \<noteq> SleepingQ \<Longrightarrow> snd (awake s A) q = A q"
  by (simp_all add: awake_def same_sync_def split: option.splits)

lemma switch_to_frame: "same_sync s (switch_to n s)"
  by (simp add: switch_to_def Let_def same_sync_def)

lemma same_sync_trans: "same_sync s t \<Longrightarrow> same_sync t u \<Longrightarrow> same_sync s u"
  by (simp add: same_sync_def)

lemma sched_spec_frame:
  assumes "sched_spec s A = Some (v', A')"
  shows "q \<noteq> ReadyQ \<Longrightarrow> q \<noteq> SleepingQ \<Longrightarrow> A' q = A q" and "same_sync s v'"
proof -
  define v1 A1 where "v1 = fst (requeue s A)" and "A1 = snd (requeue s A)"
  define v2 A2 where "v2 = fst (awake v1 A1)" and "A2 = snd (awake v1 A1)"
  have "v' = switch_to (peak (task_priority v2) (A2 ReadyQ)) v2"
    and A': "A' = A2(ReadyQ := remove1 (peak (task_priority v2) (A2 ReadyQ)) (A2 ReadyQ))"
    using assms by (auto simp: sched_spec_def split_def Let_def v1_def A1_def v2_def A2_def split: if_splits)
  then show "same_sync s v'"
    using requeue_frame(1) awake_frame(1) switch_to_frame same_sync_trans by (metis v1_def v2_def)
  show "q \<noteq> ReadyQ \<Longrightarrow> q \<noteq> SleepingQ \<Longrightarrow> A' q = A q"
    using A' awake_frame(2) [of q v1 A1] requeue_frame(2) [of q s A] by (simp add: A2_def A1_def)
qed

lemma scheduler_ok:
  assumes "queues_rep s A" and "kernel_inv X s A" and "scheduler s = Some s'"
  shows "\<exists>A'. queues_rep s' A' \<and> kernel_inv X s' A' \<and> (\<forall>q. q \<noteq> ReadyQ \<and> q \<noteq> SleepingQ \<longrightarrow> A' q = A q)"
    and "same_sync s s'" and "status (pcbs s' (current_running s')) = TASK_RUNNING"
    and "current_running s' \<in> tasks"
proof -
  have c: "status (pcbs s (current_running s)) = TASK_RUNNING \<Longrightarrow> current_running s \<notin> queued A"
    using kernel_inv_running [OF assms(2)] by simp
  obtain v' A' where spec: "sched_spec (view s) A = Some (v', A')"
    using scheduler_refines [OF assms(1) c] assms(3) by (auto split: option.splits)
  then have s': "queues_rep s' A'" "view s' = v'"
    using scheduler_refines [OF assms(1) c] assms(3) by auto
  have "kernel_inv X (view s) A" using assms(2) by simp
  note K = kernel_inv_sched [OF this spec] and F = sched_spec_frame [OF spec]
  have "kernel_inv X s' A'" using K(1) s'(2) by (metis kernel_inv_view)
  then show "\<exists>A'. queues_rep s' A' \<and> kernel_inv X s' A' \<and> (\<forall>q. q \<noteq> ReadyQ \<and> q \<noteq> SleepingQ \<longrightarrow> A' q = A q)"
    using s'(1) F(1) by blast
  show "same_sync s s'" using F(2) s'(2) by (metis same_sync_view)
  show "status (pcbs s' (current_running s')) = TASK_RUNNING" "current_running s' \<in> tasks"
    using K(2,3) s'(2) by (metis view_sel(1,16))+
qed

text \<open>
  Putting the running task on a queue and calling the scheduler: the common end of the blocking
  system calls.
\<close>

lemma leave_processor:
  assumes rep: "queues_rep s A" and inv: "kernel_inv X s A"
    and run: "status (pcbs s (current_running s)) = TASK_RUNNING"
    and st: "place_ok st {q} False" and w: "\<And>i. q = WaitingQ i \<Longrightarrow> status (pcbs s i) \<noteq> TASK_EXITED"
  shows "\<exists>s1. queue_push q (current_running s) (set_status (current_running s) st s) = Some s1 \<and>
    queues_rep s1 (A(q := A q @ [current_running s])) \<and>
    kernel_inv X s1 (A(q := A q @ [current_running s])) \<and>
    view s1 = set_status (current_running s) st (view s)"
proof -
  let ?c = "current_running s"
  have "?c \<notin> set (A r)" for r using kernel_inv_running(3) [OF inv run] by (simp add: queued_iff)
  then obtain s1 where s1: "queue_push q ?c (set_status ?c st s) = Some s1"
    "queues_rep s1 (A(q := A q @ [?c]))" "view s1 = view (set_status ?c st s)"
    using kq.push_list [of "set_status ?c st s" A ?c q] rep by auto
  have "kernel_inv X (set_status ?c st s) (A(q := A q @ [?c]))"
    using inv run st w by (rule kernel_inv_leave)
  then have "kernel_inv X s1 (A(q := A q @ [?c]))" by (metis s1(3) kernel_inv_view)
  with s1 show ?thesis by simp
qed

section \<open>Unblocking\<close>

lemma task_priority_ready [simp]:
  "task_priority (set_status x st s) i = task_priority s i"
  by simp

text \<open>\<^verbatim>\<open>do_unblock_one\<close> takes the peak of the queue to the end of the ready queue.\<close>

lemma do_unblock_one_rep:
  assumes rep: "queues_rep s A" and ne: "A q \<noteq> []" and q: "q \<noteq> ReadyQ"
  defines "u \<equiv> peak (task_priority s) (A q)"
  shows "\<exists>s'. do_unblock_one q s = Some s' \<and> view s' = set_status u TASK_READY (view s) \<and>
    queues_rep s' (A(q := remove1 u (A q), ReadyQ := A ReadyQ @ [u]))"
proof -
  let ?A = "A(q := remove1 u (A q))"
  have u: "u \<in> set (A q)" using ne by (simp add: u_def peak_in)
  obtain n s1 where s1: "queue_remove q u s = Some (n, s1)" "queues_rep s1 ?A" "view s1 = view s"
    using kq.remove_list [OF rep u] by auto
  have "u \<notin> set (?A r)" for r
    using queues_repD(1) [OF rep, of q] queues_repD(5) [OF rep, of q r] u by auto
  then obtain s2 where "queue_push ReadyQ u (set_status u TASK_READY s1) = Some s2"
    "queues_rep s2 (?A(ReadyQ := ?A ReadyQ @ [u]))" "view s2 = view (set_status u TASK_READY s1)"
    using kq.push_list [of "set_status u TASK_READY s1" ?A u ReadyQ] s1(2) by auto
  then show ?thesis
    using q s1 climb_rep [OF rep ne] queue_is_empty_rep [OF rep, of q] ne
    by (simp add: do_unblock_one_def Let_def u_def)
qed

lemma do_unblock_one_empty: "queues_rep s A \<Longrightarrow> A q = [] \<Longrightarrow> do_unblock_one q s = Some s"
  by (simp add: do_unblock_one_def queue_is_empty_rep)

lemma ready_all_Cons: "ready_all (x # xs) s = ready_all xs (set_status x TASK_READY s)"
  by (simp add: ready_all_def)

lemma do_unblock_all_rep:
  assumes "queues_rep s A" and "q \<noteq> ReadyQ"
  shows "\<exists>s' xs. do_unblock_all q s = Some s' \<and> mset xs = mset (A q) \<and>
    queues_rep s' (A(q := [], ReadyQ := A ReadyQ @ xs)) \<and> view s' = ready_all xs (view s)"
  using assms(1)
proof (induction "length (A q)" arbitrary: s A)
  case 0
  then have q: "A q = []" and "queue_is_empty q s" by (auto simp: queue_is_empty_rep)
  moreover from q have A: "A(q := [], ReadyQ := A ReadyQ @ []) = A" by auto
  ultimately have "do_unblock_all q s = Some s" "view s = ready_all [] (view s)" "mset [] = mset (A q)"
    by (simp_all add: do_unblock_all.simps ready_all_def)
  then show ?case using 0 A by metis
next
  case (Suc k)
  then have ne: "A q \<noteq> []" by auto
  define u where "u = peak (task_priority s) (A q)"
  have u: "u \<in> set (A q)" using ne by (simp add: u_def peak_in)
  let ?A = "A(q := remove1 u (A q), ReadyQ := A ReadyQ @ [u])"
  obtain s1 where s1: "do_unblock_one q s = Some s1" "view s1 = set_status u TASK_READY (view s)"
    "queues_rep s1 ?A"
    using do_unblock_one_rep [OF Suc.prems ne assms(2)] by (auto simp: u_def)
  have "k = length (?A q)" using Suc.hyps(2) u assms(2) by (simp add: length_remove1)
  then obtain s' xs where s': "do_unblock_all q s1 = Some s'" "mset xs = mset (?A q)"
    "queues_rep s' (?A(q := [], ReadyQ := ?A ReadyQ @ xs))" "view s' = ready_all xs (view s1)"
    using Suc.hyps(1) [OF _ s1(3)] by blast
  have "?A(q := [], ReadyQ := ?A ReadyQ @ xs) = A(q := [], ReadyQ := A ReadyQ @ (u # xs))"
    by auto
  moreover have "mset (u # xs) = mset (A q)" using s'(2) u assms(2) by simp
  moreover have "do_unblock_all q s = Some s'"
    using s1 s' ne queue_is_empty_rep [OF Suc.prems, of q] by (subst do_unblock_all.simps) simp
  ultimately show ?case
    using s' s1(2) by (intro exI [of _ s'] exI [of _ "u # xs"]) (simp only: ready_all_Cons simp_thms)
qed

text \<open>Waking every task of a queue keeps the invariant, in whatever order.\<close>

lemma kernel_inv_ready_all:
  assumes inv: "kernel_inv X s A" and q: "q \<noteq> ReadyQ" and xs: "mset xs = mset (A q)"
  shows "kernel_inv X (ready_all xs s) (A(q := [], ReadyQ := A ReadyQ @ xs))"
  using inv xs
proof (induction xs arbitrary: s A)
  case Nil
  then have "A(q := [], ReadyQ := A ReadyQ @ []) = A" by auto
  moreover have "ready_all [] s = s" by (simp add: ready_all_def)
  ultimately show ?case using Nil by metis
next
  case (Cons x xs)
  have x: "x \<in> set (A q)" using Cons.prems(2) by (metis list.set_intros(1) set_mset_mset)
  let ?A = "A(q := remove1 x (A q), ReadyQ := A ReadyQ @ [x])"
  have "kernel_inv X (set_status x TASK_READY s) ?A" using Cons.prems(1) x q by (rule kernel_inv_wake)
  moreover have "mset xs = mset (?A q)" using Cons.prems(2) q by simp (metis add_mset_remove_trivial)
  ultimately have "kernel_inv X (ready_all xs (set_status x TASK_READY s)) (?A(q := [], ReadyQ := ?A ReadyQ @ xs))"
    by (rule Cons.IH)
  moreover have "?A(q := [], ReadyQ := ?A ReadyQ @ xs) = A(q := [], ReadyQ := A ReadyQ @ (x # xs))"
    by auto
  ultimately show ?case by (simp only: ready_all_Cons)
qed

lemma wake_queue_inv:
  assumes inv: "kernel_inv X s A" and q: "q \<noteq> ReadyQ" and xs: "mset xs = mset (A q)"
    and view: "view s' = ready_all xs (view s)"
  shows "kernel_inv X s' (A(q := [], ReadyQ := A ReadyQ @ xs))" and "current_running s' = current_running s"
    and "i \<in> insert PcbInit tasks \<Longrightarrow> status (pcbs s i) = TASK_RUNNING \<Longrightarrow> status (pcbs s' i) = TASK_RUNNING"
    and "status (pcbs s' i) = (if i \<in> set (A q) then TASK_READY else status (pcbs s i))"
proof -
  have "kernel_inv X (view s) A" using inv by simp
  from kernel_inv_ready_all [OF this q xs] show "kernel_inv X s' (A(q := [], ReadyQ := A ReadyQ @ xs))"
    by (metis view kernel_inv_view)
  have "current_running (ready_all ys v) = current_running v" for ys v
    unfolding ready_all_def by (induction ys arbitrary: v) auto
  then show "current_running s' = current_running s"
    using arg_cong [OF view, of current_running] by simp
  have set_xs: "set xs = set (A q)" using xs by (metis set_mset_mset)
  show st: "status (pcbs s' i) = (if i \<in> set (A q) then TASK_READY else status (pcbs s i))"
    using arg_cong [OF view, of "\<lambda>v. status (pcbs v i)"] by (simp add: set_xs)
  then show "i \<in> insert PcbInit tasks \<Longrightarrow> status (pcbs s i) = TASK_RUNNING \<Longrightarrow> status (pcbs s' i) = TASK_RUNNING"
    using kernel_invD(8) [OF inv, of i q] by auto
qed

section \<open>Spawning keeps the invariant\<close>

text \<open>Links of a control block that is on no queue may be overwritten.\<close>

lemma queues_rep_upd_unqueued:
  assumes "queues_rep s A" and "i \<notin> queued A"
  shows "queues_rep (upd_pcb i f s) A"
proof -
  have "dseg (pcbs (upd_pcb i f s)) p (A q) n = dseg (pcbs s) p (A q) n" for p q n
    using assms(2) by (intro dseg_cong) (auto simp: queued_def)
  then show ?thesis using assms(1) by (simp add: queues_rep_def queue_rep_def)
qed

lemma kernel_inv_spawn:
  assumes inv: "kernel_inv X s A" and i: "i \<in> tasks" "status (pcbs s i) = TASK_EXITED"
    and st: "status (pcbs s' i) = TASK_CREATED" and ep: "entry_point (pcbs s' i) \<noteq> 0"
    and others: "\<And>j. j \<noteq> i \<Longrightarrow> pcbs s' j = pcbs s j" and c: "current_running s' = current_running s"
  shows "kernel_inv X s' (A(ReadyQ := A ReadyQ @ [i]))"
proof -
  have q: "i \<notin> queued A" using kernel_invD(4) [OF inv i(1)] i(2) by (simp add: at_empty_iff)
  have "place_ok (status (pcbs s' j)) (at (A(ReadyQ := A ReadyQ @ [i])) j) (j = current_running s') \<and>
      (status (pcbs s' j) \<noteq> TASK_EXITED \<longrightarrow> entry_point (pcbs s' j) \<noteq> 0) \<and>
      (status (pcbs s' j) = TASK_EXITED \<and> j \<notin> X \<longrightarrow> (A(ReadyQ := A ReadyQ @ [i])) (WaitingQ j) = [])"
    if "j \<in> tasks" for j
  proof (cases "j = i")
    case True
    then show ?thesis using st ep q at_empty_iff [of A i] by simp
  next
    case False
    then show ?thesis using inv that others c by (simp add: kernel_inv_def)
  qed
  moreover have "distinct ((A(ReadyQ := A ReadyQ @ [i])) r)" for r
    using kernel_invD(1) [OF inv] q by (simp add: queued_iff)
  moreover have "i \<noteq> PcbInit" using i(1) by auto
  ultimately show ?thesis using inv others [of PcbInit] c i(1) by (simp add: kernel_inv_def)
qed

lemma find_exited_PID [simp]: "find_exited (s\<lparr>PID := w\<rparr>) = find_exited s"
  by (simp add: find_exited_def)

lemma do_spawn_ok:
  assumes rep: "queues_rep s A" and inv: "kernel_inv {} s A" and ep: "info_entry_point info \<noteq> 0"
  shows "\<exists>s' A'. do_spawn first_entry info s = Some s' \<and> queues_rep s' A' \<and> kernel_inv {} s' A' \<and>
    current_running s' = current_running s \<and> same_sync s s' \<and> (\<forall>q. q \<noteq> ReadyQ \<longrightarrow> A' q = A q) \<and>
    (\<forall>j. (\<exists>i. find_exited s = Some i \<and> j = Pcb i) \<or> status (pcbs s' j) = status (pcbs s j))"
proof (cases "find_exited (s\<lparr>PID := PID s + 1\<rparr>)")
  case None
  let ?s = "s\<lparr>PID := PID s + 1\<rparr>"
  have "do_spawn first_entry info s = Some ?s" using None by (simp add: do_spawn_def Let_def)
  moreover have "kernel_inv {} ?s A" using inv by (rule kernel_inv_cong) simp_all
  ultimately show ?thesis using rep by (intro exI [of _ ?s] exI [of _ A]) (simp add: same_sync_def)
next
  case (Some i)
  note F = scan_up_Some [OF Some [unfolded find_exited_def]]
  let ?i = "Pcb i" and ?q = "WaitingQ (Pcb i)"
  have i: "?i \<in> tasks" "status (pcbs s ?i) = TASK_EXITED" using F by auto
  have q: "?i \<notin> queued A" "A ?q = []"
    using kernel_invD(4,6) [OF inv i(1)] i(2) by (simp_all add: at_empty_iff)
  have A: "A(?q := []) = A" using q(2) by auto
  define s1 where "s1 = queue_init ?q (set_entryhi_asid (PID s + 1) (s\<lparr>PID := PID s + 1\<rparr>))"
  define s2 where "s2 = s1\<lparr>USER_STACK_TOP := USER_STACK_TOP s1 + VM_STACK_SIZE * 2,
      STACK_TOP := STACK_TOP s1 + STACK_SIZE * 2\<rparr>"
  define s3 where "s3 = upd_pcb ?i (spawn_pcb first_entry info (STACK_TOP s1) (PID s2)) s2"
  have r1: "queues_rep s1 A"
    using queue_init_rep(1) [of "set_entryhi_asid (PID s + 1) (s\<lparr>PID := PID s + 1\<rparr>)" A ?q] rep A
    by (simp add: s1_def set_entryhi_asid_def)
  then have "queues_rep s3 A" using queues_rep_upd_unqueued q(1) by (simp add: s3_def s2_def)
  then obtain s4 where s4: "queue_push ReadyQ ?i s3 = Some s4" "queues_rep s4 (A(ReadyQ := A ReadyQ @ [?i]))"
    "view s4 = view s3"
    using kq.push_list [of s3 A ?i ReadyQ] q(1) by (auto simp: queued_iff)
  have P: "pcbs s3 j = pcbs s j" if "j \<noteq> ?i" for j
    using that by (simp add: s3_def s2_def s1_def queue_init_def set_entryhi_asid_def upd_queue_def)
  have C: "current_running s3 = current_running s"
    by (simp add: s3_def s2_def s1_def queue_init_def set_entryhi_asid_def upd_queue_def)
  have "status (pcbs s3 ?i) = TASK_CREATED" "entry_point (pcbs s3 ?i) \<noteq> 0"
    using ep by (simp_all add: s3_def spawn_pcb_def Let_def)
  then have "kernel_inv {} s3 (A(ReadyQ := A ReadyQ @ [?i]))"
    using kernel_inv_spawn [OF inv i] P C by blast
  then have K: "kernel_inv {} s4 (A(ReadyQ := A ReadyQ @ [?i]))" by (metis s4(3) kernel_inv_view)
  have "do_spawn first_entry info s = Some s4"
    using s4(1) Some by (simp add: do_spawn_def s3_def s2_def s1_def Let_def set_entryhi_asid_def queue_init_def upd_queue_def)
  moreover have "current_running s4 = current_running s" using arg_cong [OF s4(3), of current_running] C by simp
  moreover have "status (pcbs s4 j) = status (pcbs s j)" if "j \<noteq> ?i" for j
    using arg_cong [OF s4(3), of "\<lambda>v. status (pcbs v j)"] P [OF that] by simp
  moreover have "find_exited s = Some i" using Some by simp
  moreover have "same_sync s (view s4)" unfolding s4(3)
    by (simp add: same_sync_def s3_def s2_def s1_def queue_init_def set_entryhi_asid_def upd_queue_def)
  ultimately show ?thesis
    using s4(2) K by (intro exI [of _ s4] exI [of _ "A(ReadyQ := A ReadyQ @ [?i])"]) auto
qed

end
