(* ===== verification/Locking.thy ===== *)
theory Locking
  imports Sched
begin

text \<open>
  The synchronisation objects of \<^verbatim>\<open>kernel/locking\<close>: spin locks and mutexes (\<^verbatim>\<open>lock.c\<close>),
  semaphores (\<^verbatim>\<open>sem.c\<close>), condition variables (\<^verbatim>\<open>cond.c\<close>) and barriers (\<^verbatim>\<open>barrier.c\<close>).

  A call that blocks ends with a call of the scheduler. In \<^verbatim>\<open>do_mutex_lock_acquire\<close> and
  \<^verbatim>\<open>do_condition_wait\<close> there is code after that call, which runs when the task is chosen
  again: the caller leaves \<open>Acquire l\<close> in \<open>resume_at\<close>, and \<open>resume\<close> is the rest of the call.

  Each operation is shown to keep the invariant of \<open>Sched\<close>, and each object is shown to refine its
  abstract description.
\<close>

section \<open>Spin locks\<close>

definition spin_lock_init :: lock_status_t where
  "spin_lock_init = UNLOCKED"

partial_function (option) spin_lock_acquire :: "lock_status_t \<Rightarrow> lock_status_t option" where
  "spin_lock_acquire st = (if st = LOCKED then spin_lock_acquire st else Some LOCKED)"

definition spin_lock_release :: lock_status_t where
  "spin_lock_release = UNLOCKED"

section \<open>Mutexes\<close>

definition set_mutex :: "mutex_id \<Rightarrow> lock_status_t \<Rightarrow> kernel \<Rightarrow> kernel" where
  "set_mutex l st s = s\<lparr>mutex_status := (mutex_status s)(l := st)\<rparr>"

definition do_mutex_lock_init :: "mutex_id \<Rightarrow> kernel \<Rightarrow> kernel" where
  "do_mutex_lock_init l s = queue_init (MutexQ l) (set_mutex l UNLOCKED s)"

text \<open>The end of \<^verbatim>\<open>do_mutex_lock_acquire\<close>: take the lock and note it in the first free slot.\<close>

definition take_lock :: "mutex_id \<Rightarrow> kernel \<Rightarrow> kernel" where
  "take_lock l s =
     (let s = set_mutex l LOCKED s;
          c = current_running s
      in case scan_up (\<lambda>i. lock (pcbs s c) ! i = None) LOCK_MAX_NUM 0 of
           None \<Rightarrow> s
         | Some i \<Rightarrow> upd_pcb c (\<lambda>t. t\<lparr>lock := (lock t)[i := Some l], lock_num := lock_num t + 1\<rparr>) s)"

definition do_mutex_lock_acquire :: "mutex_id \<Rightarrow> kernel \<Rightarrow> kernel option" where
  "do_mutex_lock_acquire l s =
     (if mutex_status s l = LOCKED
      then do_block (MutexQ l) (s\<lparr>resume_at := (resume_at s)(current_running s := Acquire l)\<rparr>)
      else Some (take_lock l s))"

text \<open>What the running task does first after it was switched to: go back into the loop, or return.\<close>

definition resume :: "kernel \<Rightarrow> kernel option" where
  "resume s =
     (case resume_at s (current_running s) of
        Return \<Rightarrow> Some s
      | Acquire l \<Rightarrow>
          do_mutex_lock_acquire l (s\<lparr>resume_at := (resume_at s)(current_running s := Return)\<rparr>))"

text \<open>
  The inner loop of \<^verbatim>\<open>do_mutex_lock_release\<close> over the slots of a waiter: it stops at a slot that
  holds the lock, and otherwise clears the next slot.
\<close>

function clear_slots :: "mutex_id \<Rightarrow> nat \<Rightarrow> pcb_t \<Rightarrow> pcb_t" where
  "clear_slots l i t =
     (if lock t ! i \<noteq> Some l then
        let i = i + 1
        in if LOCK_MAX_NUM \<le> i then t
           else clear_slots l i (t\<lparr>lock := (lock t)[i := None], lock_num := lock_num t - 1\<rparr>)
      else t)"
  by pat_completeness auto
termination by (relation "measure (\<lambda>(_, i, _). LOCK_MAX_NUM - i)") auto

declare clear_slots.simps [simp del]

partial_function (option) clear_waiters :: "pcb_id option \<Rightarrow> mutex_id \<Rightarrow> kernel \<Rightarrow> kernel option" where
  "clear_waiters p l s =
     (case p of
        None \<Rightarrow> Some s
      | Some h \<Rightarrow> do {
          let s = upd_pcb h (clear_slots l 0) s;
          clear_waiters (next_ptr (pcbs s h)) l s
        })"

definition do_mutex_lock_release :: "mutex_id \<Rightarrow> kernel \<Rightarrow> kernel option" where
  "do_mutex_lock_release l s =
     (if mutex_status s l = LOCKED then do {
        let s = set_mutex l UNLOCKED s;
        s \<leftarrow> clear_waiters (head (queues s (MutexQ l))) l s;
        do_unblock_all (MutexQ l) s
      }
      else Some s)"

section \<open>Semaphores\<close>

definition set_sem :: "sem_id \<Rightarrow> u32 \<Rightarrow> kernel \<Rightarrow> kernel" where
  "set_sem m v s = s\<lparr>sem_value := (sem_value s)(m := v)\<rparr>"

definition do_semaphore_init :: "sem_id \<Rightarrow> u32 \<Rightarrow> kernel \<Rightarrow> kernel" where
  "do_semaphore_init m val s = queue_init (SemQ m) (set_sem m val s)"

definition do_semaphore_up :: "sem_id \<Rightarrow> kernel \<Rightarrow> kernel option" where
  "do_semaphore_up m s =
     (if \<not> queue_is_empty (SemQ m) s then do {
        (h, s) \<leftarrow> queue_dequeue (SemQ m) s;
        let s = set_status h TASK_READY s;
        queue_push ReadyQ h s
      }
      else Some (set_sem m (sem_value s m + 1) s))"

definition do_semaphore_down :: "sem_id \<Rightarrow> kernel \<Rightarrow> kernel option" where
  "do_semaphore_down m s =
     (if sem_value s m = 0 then do {
        let c = current_running s;
        let s = set_status c TASK_BLOCKED s;
        s \<leftarrow> queue_push (SemQ m) c s;
        do_scheduler s
      }
      else Some (set_sem m (sem_value s m - 1) s))"

section \<open>Condition variables\<close>

definition do_condition_init :: "nat \<Rightarrow> kernel \<Rightarrow> kernel" where
  "do_condition_init c s = queue_init (CondQ c) s"

definition do_condition_wait :: "mutex_id \<Rightarrow> nat \<Rightarrow> kernel \<Rightarrow> kernel option" where
  "do_condition_wait l c s = do {
     let me = current_running s;
     s \<leftarrow> queue_push (CondQ c) me s;
     let s = set_status me TASK_BLOCKED s;
     s \<leftarrow> do_mutex_lock_release l s;
     do_scheduler (s\<lparr>resume_at := (resume_at s)(me := Acquire l)\<rparr>)
   }"

definition do_condition_signal :: "nat \<Rightarrow> kernel \<Rightarrow> kernel option" where
  "do_condition_signal c s =
     (if \<not> queue_is_empty (CondQ c) s then do {
        (h, s) \<leftarrow> queue_dequeue (CondQ c) s;
        let s = set_status h TASK_READY s;
        queue_push ReadyQ h s
      }
      else Some s)"

partial_function (option) do_condition_broadcast :: "nat \<Rightarrow> kernel \<Rightarrow> kernel option" where
  "do_condition_broadcast c s =
     (if queue_is_empty (CondQ c) s then Some s
      else do {
        (h, s) \<leftarrow> queue_dequeue (CondQ c) s;
        let s = set_status h TASK_READY s;
        s \<leftarrow> queue_push ReadyQ h s;
        do_condition_broadcast c s
      })"

section \<open>Barriers\<close>

definition do_barrier_init :: "nat \<Rightarrow> u32 \<Rightarrow> kernel \<Rightarrow> kernel" where
  "do_barrier_init b goal s =
     queue_init (BarrierQ b)
       (s\<lparr>max_num := (max_num s)(b := goal), not_arrive_num := (not_arrive_num s)(b := goal)\<rparr>)"

definition do_barrier_wait :: "nat \<Rightarrow> kernel \<Rightarrow> kernel option" where
  "do_barrier_wait b s =
     (if not_arrive_num s b = 1 then do {
        s \<leftarrow> clear_waiting_queue (BarrierQ b) s;
        Some (s\<lparr>not_arrive_num := (not_arrive_num s)(b := max_num s b)\<rparr>)
      }
      else do {
        let s = s\<lparr>not_arrive_num := (not_arrive_num s)(b := not_arrive_num s b - 1)\<rparr>;
        let c = current_running s;
        let s = set_status c TASK_BLOCKED s;
        s \<leftarrow> queue_push (BarrierQ b) c s;
        do_scheduler s
      })"

section \<open>The invariant of the synchronisation objects\<close>

text \<open>
  Nobody waits for a mutex that is free or for a semaphore that is positive, and the tasks waiting at
  a barrier together with those still expected make up its goal.
\<close>

definition sync_inv :: "kernel \<Rightarrow> (qid \<Rightarrow> pcb_id list) \<Rightarrow> bool" where
  "sync_inv s A \<longleftrightarrow>
     (\<forall>l. mutex_status s l \<noteq> LOCKED \<longrightarrow> A (MutexQ l) = []) \<and>
     (\<forall>m. sem_value s m \<noteq> 0 \<longrightarrow> A (SemQ m) = []) \<and>
     (\<forall>b. length (A (BarrierQ b)) + unat (not_arrive_num s b) = unat (max_num s b) \<and>
        (max_num s b \<noteq> 0 \<longrightarrow> not_arrive_num s b \<noteq> 0))"

definition state_ok :: "pcb_id set \<Rightarrow> kernel \<Rightarrow> (qid \<Rightarrow> pcb_id list) \<Rightarrow> bool" where
  "state_ok X s A \<longleftrightarrow> queues_rep s A \<and> kernel_inv X s A \<and> sync_inv s A"

definition running :: "kernel \<Rightarrow> bool" where
  "running s \<longleftrightarrow> status (pcbs s (current_running s)) = TASK_RUNNING"

text \<open>A state between two system calls: well formed, with a running task.\<close>

definition sys_ok :: "kernel \<Rightarrow> bool" where
  "sys_ok s \<longleftrightarrow> (\<exists>A. state_ok {} s A) \<and> running s"

lemma sys_okE:
  assumes "sys_ok s"
  obtains A where "state_ok {} s A" and "running s"
  using assms by (auto simp: sys_ok_def)

lemma sys_okI: "state_ok {} s A \<Longrightarrow> running s \<Longrightarrow> sys_ok s"
  by (auto simp: sys_ok_def)

lemma state_okD:
  assumes "state_ok X s A"
  shows "queues_rep s A" and "kernel_inv X s A" and "sync_inv s A"
  using assms by (simp_all add: state_ok_def)

lemma sync_inv_view [simp]: "sync_inv (view s) A = sync_inv s A"
  by (simp add: sync_inv_def)

lemma sync_inv_same:
  "same_sync s s' \<Longrightarrow> (\<And>q. q \<noteq> ReadyQ \<Longrightarrow> q \<noteq> SleepingQ \<Longrightarrow> A' q = A q) \<Longrightarrow> sync_inv s A \<Longrightarrow> sync_inv s' A'"
  by (simp add: sync_inv_def same_sync_def)

lemma scheduler_sys_ok:
  assumes "state_ok {} s A" and "do_scheduler s = Some s'"
  shows "sys_ok s'" and "same_sync s s'"
proof -
  note S = scheduler_ok [OF state_okD(1,2) [OF assms(1)] assms(2) [unfolded do_scheduler_def]]
  obtain A' where A': "queues_rep s' A'" "kernel_inv {} s' A'"
    "\<And>q. q \<noteq> ReadyQ \<Longrightarrow> q \<noteq> SleepingQ \<Longrightarrow> A' q = A q"
    using S(1) by blast
  have "sync_inv s' A'" using S(2) A'(3) state_okD(3) [OF assms(1)] by (rule sync_inv_same)
  then show "sys_ok s'" using A' S(3) by (auto simp: sys_ok_def state_ok_def running_def)
  show "same_sync s s'" by (rule S(2))
qed

lemma sync_inv_upd_pcb [simp]: "sync_inv (upd_pcb i f s) A = sync_inv s A"
  by (simp add: sync_inv_def)

lemma sync_inv_other [simp]:
  "sync_inv s (A(ReadyQ := xs)) = sync_inv s A" "sync_inv s (A(SleepingQ := xs)) = sync_inv s A"
  "sync_inv s (A(BlockQ := xs)) = sync_inv s A" "sync_inv s (A(RecvBlockQ := xs)) = sync_inv s A"
  "sync_inv s (A(WaitingQ i := xs)) = sync_inv s A" "sync_inv s (A(CondQ c := xs)) = sync_inv s A"
  by (simp_all add: sync_inv_def)

lemma sync_inv_empty: "sync_inv s A \<Longrightarrow> (\<And>b. q \<noteq> BarrierQ b) \<Longrightarrow> sync_inv s (A(q := []))"
  by (auto simp: sync_inv_def)

text \<open>The running task leaves the processor for a queue, whose object must account for it.\<close>

lemma leave_state_ok:
  assumes rep: "queues_rep s A" and inv: "kernel_inv {} s A" and run: "running s"
    and st: "place_ok st {q} False" and w: "\<And>i. q = WaitingQ i \<Longrightarrow> status (pcbs s i) \<noteq> TASK_EXITED"
    and sync: "sync_inv s (A(q := A q @ [current_running s]))"
  shows "\<exists>s1. queue_push q (current_running s) (set_status (current_running s) st s) = Some s1 \<and>
    state_ok {} s1 (A(q := A q @ [current_running s])) \<and> view s1 = set_status (current_running s) st (view s)"
proof -
  obtain s1 where s1: "queue_push q (current_running s) (set_status (current_running s) st s) = Some s1"
    "queues_rep s1 (A(q := A q @ [current_running s]))" "kernel_inv {} s1 (A(q := A q @ [current_running s]))"
    "view s1 = set_status (current_running s) st (view s)"
    using leave_processor [OF rep inv run [unfolded running_def] st w] by blast
  have "sync_inv (view s1) (A(q := A q @ [current_running s]))"
    unfolding s1(4) using sync by simp
  then have "sync_inv s1 (A(q := A q @ [current_running s]))" by simp
  then show ?thesis using s1 unfolding state_ok_def by blast
qed

lemma do_sleep_sys_ok:
  assumes ok: "sys_ok s" and step: "do_sleep t s = Some s'"
  shows "sys_ok s'"
proof -
  obtain A where A: "state_ok {} s A" and run: "running s" using ok by (rule sys_okE)
  let ?c = "current_running s"
  let ?s = "upd_pcb ?c (\<lambda>p. p\<lparr>sleeping_deadline := get_timer s + t\<rparr>) s"
  have eq: "upd_pcb ?c (\<lambda>p. p\<lparr>sleeping_deadline := get_timer (set_status ?c TASK_SLEEPING s) + t\<rparr>)
      (set_status ?c TASK_SLEEPING s) = set_status ?c TASK_SLEEPING ?s"
    by (cases "pcbs s ?c") (simp add: upd_pcb_def get_timer_def)
  have "kernel_inv {} ?s A" using state_okD(2) [OF A] by (rule kernel_inv_cong) simp_all
  then obtain s1 B where "queue_push SleepingQ ?c (set_status ?c TASK_SLEEPING ?s) = Some s1" "state_ok {} s1 B"
    using leave_state_ok [of ?s A TASK_SLEEPING SleepingQ] state_okD [OF A] run by (auto simp: running_def)
  moreover from this have "do_scheduler s1 = Some s'"
    using step run by (simp add: do_sleep_def Let_def eq running_def)
  ultimately show ?thesis using scheduler_sys_ok(1) by blast
qed

lemma do_block_state_ok:
  assumes ok: "state_ok {} s A" and run: "running s" and q: "q \<noteq> ReadyQ" "q \<noteq> SleepingQ"
    and w: "\<And>i. q = WaitingQ i \<Longrightarrow> status (pcbs s i) \<noteq> TASK_EXITED"
    and sync: "sync_inv s (A(q := A q @ [current_running s]))" and step: "do_block q s = Some s'"
  shows "sys_ok s'"
proof -
  obtain s1 B where "queue_push q (current_running s) (set_status (current_running s) TASK_BLOCKED s) = Some s1"
    "state_ok {} s1 B"
    using leave_state_ok [OF state_okD(1,2) [OF ok] run _ w sync, of TASK_BLOCKED] q by auto
  moreover from this have "do_scheduler s1 = Some s'"
    using step run by (simp add: do_block_def Let_def running_def)
  ultimately show ?thesis using scheduler_sys_ok(1) by blast
qed

lemma kernel_inv_fields [simp]:
  "kernel_inv X (s\<lparr>resume_at := g\<rparr>) A = kernel_inv X s A" "kernel_inv X (s\<lparr>mutex_status := ms\<rparr>) A = kernel_inv X s A"
  "kernel_inv X (s\<lparr>sem_value := sv\<rparr>) A = kernel_inv X s A" "kernel_inv X (s\<lparr>not_arrive_num := nv\<rparr>) A = kernel_inv X s A"
  "kernel_inv X (s\<lparr>max_num := nv\<rparr>) A = kernel_inv X s A" "kernel_inv X (s\<lparr>time_elapsed := w\<rparr>) A = kernel_inv X s A"
  by (simp_all add: kernel_inv_def)

lemma kernel_inv_upd_pcb [simp]:
  assumes "\<And>t. status (f t) = status t" and "\<And>t. entry_point (f t) = entry_point t"
  shows "kernel_inv X (upd_pcb i f s) A = kernel_inv X s A"
proof -
  have "status (pcbs (upd_pcb i f s) j) = status (pcbs s j)"
    and "entry_point (pcbs (upd_pcb i f s) j) = entry_point (pcbs s j)" for j
    by (simp_all add: assms)
  then show ?thesis by (simp add: kernel_inv_def del: pcbs_upd_pcb)
qed

lemma running_upd_pcb [simp]: "(\<And>t. status (f t) = status t) \<Longrightarrow> running (upd_pcb i f s) = running s"
  by (simp add: running_def)

text \<open>Waking the first task of a queue.\<close>

lemma wake_first_inv:
  assumes rep: "queues_rep s A" and inv: "kernel_inv X s A" and q: "A q = x # xs" "q \<noteq> ReadyQ"
  shows "\<exists>s1 s2. queue_dequeue q s = Some (x, s1) \<and>
    queue_push ReadyQ x (set_status x TASK_READY s1) = Some s2 \<and>
    queues_rep s2 (A(q := xs, ReadyQ := A ReadyQ @ [x])) \<and>
    kernel_inv X s2 (A(q := xs, ReadyQ := A ReadyQ @ [x])) \<and> view s2 = set_status x TASK_READY (view s)"
proof -
  obtain s1 s2 where s: "queue_dequeue q s = Some (x, s1)"
    "queue_push ReadyQ x (set_status x TASK_READY s1) = Some s2"
    "queues_rep s2 (A(q := xs, ReadyQ := A ReadyQ @ [x]))" "view s2 = set_status x TASK_READY (view s)"
    using kq.wake_first [OF rep q] by blast
  have "kernel_inv X (view s) A" using inv by simp
  from kernel_inv_wake [OF this, of x q] q
  have "kernel_inv X (view s2) (A(q := xs, ReadyQ := A ReadyQ @ [x]))" by (simp add: s(4) del: kernel_inv_view)
  then have "kernel_inv X s2 (A(q := xs, ReadyQ := A ReadyQ @ [x]))" by simp
  then show ?thesis using s by blast
qed

lemma wake_first_running:
  assumes inv: "kernel_inv X s A" and q: "A q = x # xs" and run: "running s"
    and view: "view s2 = set_status x TASK_READY (view s)"
  shows "running s2" and "current_running s2 = current_running s" and "sem_value s2 = sem_value s"
proof -
  show c: "current_running s2 = current_running s"
    using arg_cong [OF view, of current_running] by simp
  show "sem_value s2 = sem_value s" using arg_cong [OF view, of sem_value] by simp
  have "status (pcbs s x) \<noteq> TASK_RUNNING" using kernel_invD(8) [OF inv, of x q] q by simp
  then show "running s2"
    using arg_cong [OF view, of "\<lambda>v. status (pcbs v (current_running s))"] run c
    by (auto simp: running_def split: if_splits)
qed

section \<open>Mutexes\<close>

lemma clear_slots_fields [simp]:
  "prev_ptr (clear_slots l i t) = prev_ptr t \<and> next_ptr (clear_slots l i t) = next_ptr t \<and>
   status (clear_slots l i t) = status t \<and> entry_point (clear_slots l i t) = entry_point t \<and>
   pid (clear_slots l i t) = pid t"
proof (induction l i t rule: clear_slots.induct)
  case (1 l i t)
  then show ?case by (subst (1 2 3 4 5) clear_slots.simps) (simp add: Let_def)
qed

lemma clear_slots_links [simp]:
  "(clear_slots l i t)\<lparr>prev_ptr := p, next_ptr := n\<rparr> = clear_slots l i (t\<lparr>prev_ptr := p, next_ptr := n\<rparr>)"
proof (induction l i t rule: clear_slots.induct)
  case (1 l i t)
  have comm: "t\<lparr>prev_ptr := p, next_ptr := n, lock := a, lock_num := b\<rparr> =
      t\<lparr>lock := a, lock_num := b, prev_ptr := p, next_ptr := n\<rparr>" for a b
    by (cases t) simp
  show ?case using "1.IH" by (subst (1 2) clear_slots.simps) (simp add: Let_def comm)
qed

definition clear_all :: "mutex_id \<Rightarrow> pcb_id list \<Rightarrow> kernel \<Rightarrow> kernel" where
  "clear_all l xs s = fold (\<lambda>x. upd_pcb x (clear_slots l 0)) xs s"

lemma clear_waiters_rep:
  "dseg (pcbs s) p xs None \<Longrightarrow> clear_waiters (first_ptr xs None) l s = Some (clear_all l xs s)"
proof (induction xs arbitrary: s p)
  case (Cons x xs)
  have "dseg (pcbs (upd_pcb x (clear_slots l 0) s)) (Some x) xs None = dseg (pcbs s) (Some x) xs None"
    by (rule dseg_cong) simp
  then show ?case
    using Cons by (subst clear_waiters.simps) (simp add: Let_def clear_all_def)
qed (simp add: clear_waiters.simps clear_all_def)

lemma clear_all_fields [simp]:
  "queues_rep (clear_all l xs s) A = queues_rep s A"
  "status (pcbs (clear_all l xs s) i) = status (pcbs s i)"
  "entry_point (pcbs (clear_all l xs s) i) = entry_point (pcbs s i)"
  "pid (pcbs (clear_all l xs s) i) = pid (pcbs s i)"
  "current_running (clear_all l xs s) = current_running s"
  "mutex_status (clear_all l xs s) = mutex_status s" "resume_at (clear_all l xs s) = resume_at s"
  "not_arrive_num (clear_all l xs s) = not_arrive_num s" "max_num (clear_all l xs s) = max_num s"
  "sem_value (clear_all l xs s) = sem_value s" "time_elapsed (clear_all l xs s) = time_elapsed s"
  unfolding clear_all_def by (induction xs arbitrary: s) auto

lemma ready_all_fields [simp]:
  "current_running (ready_all xs s) = current_running s" "mutex_status (ready_all xs s) = mutex_status s"
  "resume_at (ready_all xs s) = resume_at s" "not_arrive_num (ready_all xs s) = not_arrive_num s"
  "max_num (ready_all xs s) = max_num s" "sem_value (ready_all xs s) = sem_value s"
  "time_elapsed (ready_all xs s) = time_elapsed s" "pid (pcbs (ready_all xs s) i) = pid (pcbs s i)"
  unfolding ready_all_def by (induction xs arbitrary: s) auto

text \<open>Releasing a held mutex wakes all its waiters; the others keep their status.\<close>

lemma do_mutex_lock_release_rep:
  assumes rep: "queues_rep s A" and inv: "kernel_inv X s A" and held: "mutex_status s l = LOCKED"
  shows "\<exists>s' xs. do_mutex_lock_release l s = Some s' \<and> mset xs = mset (A (MutexQ l)) \<and>
    queues_rep s' (A(MutexQ l := [], ReadyQ := A ReadyQ @ xs)) \<and>
    kernel_inv X s' (A(MutexQ l := [], ReadyQ := A ReadyQ @ xs)) \<and>
    same_sync (set_mutex l UNLOCKED s) s' \<and> current_running s' = current_running s \<and>
    (\<forall>i. pid (pcbs s' i) = pid (pcbs s i)) \<and>
    (\<forall>i. status (pcbs s' i) = (if i \<in> set (A (MutexQ l)) then TASK_READY else status (pcbs s i)))"
proof -
  let ?s1 = "clear_all l (A (MutexQ l)) (set_mutex l UNLOCKED s)"
  have "queues_rep (set_mutex l UNLOCKED s) A" using rep by (simp add: set_mutex_def)
  then have cw: "clear_waiters (head (queues (set_mutex l UNLOCKED s) (MutexQ l))) l (set_mutex l UNLOCKED s) = Some ?s1"
    using clear_waiters_rep queues_repD(2,4) by metis
  have r1: "queues_rep ?s1 A" using rep by (simp add: set_mutex_def)
  have i1: "kernel_inv X ?s1 A" using inv by (rule kernel_inv_cong) (simp_all add: set_mutex_def)
  obtain s' xs where s': "do_unblock_all (MutexQ l) ?s1 = Some s'" "mset xs = mset (A (MutexQ l))"
    "queues_rep s' (A(MutexQ l := [], ReadyQ := A ReadyQ @ xs))" "view s' = ready_all xs (view ?s1)"
    using do_unblock_all_rep [OF r1, of "MutexQ l"] by auto
  note W = wake_queue_inv [OF i1 _ s'(2,4)]
  have "same_sync (set_mutex l UNLOCKED s) (view s')" unfolding s'(4) by (simp add: same_sync_def)
  then have "same_sync (set_mutex l UNLOCKED s) s'" by simp
  moreover have "pid (pcbs s' i) = pid (pcbs s i)" for i
    using arg_cong [OF s'(4), of "\<lambda>v. pid (pcbs v i)"] by (simp add: set_mutex_def)
  moreover have "do_mutex_lock_release l s = Some s'"
    using held cw s'(1) by (simp add: do_mutex_lock_release_def Let_def)
  ultimately show ?thesis
    using s'(2,3) W(1,2,4) by (intro exI [of _ s'] exI [of _ xs]) (auto simp: set_mutex_def)
qed

lemma do_mutex_lock_release_free: "mutex_status s l \<noteq> LOCKED \<Longrightarrow> do_mutex_lock_release l s = Some s"
  by (simp add: do_mutex_lock_release_def)

text \<open>In both cases, in the form the callers use.\<close>

lemma queued_move:
  "mset xs = mset (A q) \<Longrightarrow> q \<noteq> r \<Longrightarrow> queued (A(q := [], r := A r @ xs)) = queued A"
  using mset_eq_setD [of xs "A q"] by (fastforce simp: queued_def split: if_splits)

lemma do_mutex_lock_release_state_ok:
  assumes ok: "state_ok X s A"
  shows "\<exists>s' A'. do_mutex_lock_release l s = Some s' \<and> state_ok X s' A' \<and>
    current_running s' = current_running s \<and> (\<forall>q. q \<noteq> MutexQ l \<and> q \<noteq> ReadyQ \<longrightarrow> A' q = A q) \<and>
    mutex_status s' = (mutex_status s)(l := UNLOCKED) \<and> queued A' = queued A \<and>
    (\<forall>i. pid (pcbs s' i) = pid (pcbs s i)) \<and>
    (\<forall>i. status (pcbs s' i) = (if i \<in> set (A (MutexQ l)) then TASK_READY else status (pcbs s i)))"
proof (cases "mutex_status s l = LOCKED")
  case True
  obtain s' xs where xs: "mset xs = mset (A (MutexQ l))" and s': "do_mutex_lock_release l s = Some s'"
    "queues_rep s' (A(MutexQ l := [], ReadyQ := A ReadyQ @ xs))"
    "kernel_inv X s' (A(MutexQ l := [], ReadyQ := A ReadyQ @ xs))" "current_running s' = current_running s"
    "same_sync (set_mutex l UNLOCKED s) s'" "\<forall>i. pid (pcbs s' i) = pid (pcbs s i)"
    "\<forall>i. status (pcbs s' i) = (if i \<in> set (A (MutexQ l)) then TASK_READY else status (pcbs s i))"
    using do_mutex_lock_release_rep [OF state_okD(1,2) [OF ok] True] by blast
  let ?A = "A(MutexQ l := [], ReadyQ := A ReadyQ @ xs)"
  have "sync_inv (set_mutex l UNLOCKED s) (A(MutexQ l := []))"
    using state_okD(3) [OF ok] by (simp add: sync_inv_def set_mutex_def)
  then have "sync_inv s' ?A" using s'(5) by (intro sync_inv_same [of _ s' ?A]) auto
  then show ?thesis
    using s' queued_move [of xs A "MutexQ l" ReadyQ] xs
    by (intro exI [of _ s'] exI [of _ ?A]) (simp add: state_ok_def same_sync_def set_mutex_def)
next
  case False
  moreover have "(mutex_status s)(l := UNLOCKED) = mutex_status s"
    using False by (metis (full_types) fun_upd_idem lock_status_t.exhaust)
  moreover have "A (MutexQ l) = []" using False state_okD(3) [OF ok] by (simp add: sync_inv_def)
  ultimately show ?thesis using ok by (intro exI [of _ s] exI [of _ A]) (simp add: do_mutex_lock_release_free)
qed

lemma do_mutex_lock_release_sys_ok:
  assumes "sys_ok s"
  shows "\<exists>s'. do_mutex_lock_release l s = Some s' \<and> sys_ok s'"
proof -
  obtain A where A: "state_ok {} s A" "running s" using assms by (rule sys_okE)
  obtain s' A' where s': "do_mutex_lock_release l s = Some s'" "state_ok {} s' A'"
    "current_running s' = current_running s"
    "\<forall>i. status (pcbs s' i) = (if i \<in> set (A (MutexQ l)) then TASK_READY else status (pcbs s i))"
    using do_mutex_lock_release_state_ok [OF A(1)] by blast
  have "running s'"
    using s'(3,4) A(2) kernel_inv_running(3) [OF state_okD(2) [OF A(1)]] by (simp add: running_def queued_iff)
  then show ?thesis using s' by (auto intro: sys_okI)
qed

lemma take_lock_state_ok:
  assumes "state_ok {} s A" and "running s"
  shows "state_ok {} (take_lock l s) A" and "running (take_lock l s)"
  using assms
  by (simp_all add: state_ok_def take_lock_def Let_def set_mutex_def sync_inv_def running_def split: option.splits)

lemma do_mutex_lock_acquire_sys_ok:
  assumes ok: "sys_ok s" and step: "do_mutex_lock_acquire l s = Some s'"
  shows "sys_ok s'"
proof -
  obtain A where A: "state_ok {} s A" "running s" using ok by (rule sys_okE)
  show ?thesis
  proof (cases "mutex_status s l = LOCKED")
    case True
    let ?s = "s\<lparr>resume_at := (resume_at s)(current_running s := Acquire l)\<rparr>"
    have "state_ok {} ?s A" and "running ?s" using A by (simp_all add: state_ok_def sync_inv_def running_def)
    moreover have "sync_inv ?s (A(MutexQ l := A (MutexQ l) @ [current_running ?s]))"
      using True state_okD(3) [OF A(1)] by (simp add: sync_inv_def)
    ultimately show ?thesis
      using step True by (intro do_block_state_ok [of ?s A "MutexQ l"]) (simp_all add: do_mutex_lock_acquire_def)
  next
    case False
    then show ?thesis
      using sys_okI [OF take_lock_state_ok [OF A]] step by (auto simp: do_mutex_lock_acquire_def)
  qed
qed

lemma sys_ok_resume_at [simp]: "sys_ok (s\<lparr>resume_at := g\<rparr>) = sys_ok s"
  by (simp add: sys_ok_def state_ok_def running_def sync_inv_def)

lemma resume_sys_ok: "sys_ok s \<Longrightarrow> resume s = Some s' \<Longrightarrow> sys_ok s'"
  by (auto simp: resume_def split: pending.splits dest: do_mutex_lock_acquire_sys_ok [rotated])

section \<open>Semaphores\<close>

text \<open>The semaphore as a counter and a list of waiting tasks.\<close>

definition sem_up_spec :: "u32 \<times> pcb_id list \<Rightarrow> u32 \<times> pcb_id list" where
  "sem_up_spec = (\<lambda>(v, ws). case ws of [] \<Rightarrow> (v + 1, []) | w # ws' \<Rightarrow> (v, ws'))"

definition sem_down_spec :: "pcb_id \<Rightarrow> u32 \<times> pcb_id list \<Rightarrow> u32 \<times> pcb_id list" where
  "sem_down_spec c = (\<lambda>(v, ws). if v = 0 then (v, ws @ [c]) else (v - 1, ws))"

lemma do_semaphore_up_state_ok:
  assumes ok: "state_ok {} s A" and run: "running s"
  shows "\<exists>s' A'. do_semaphore_up m s = Some s' \<and> state_ok {} s' A' \<and> running s' \<and>
    (sem_value s' m, A' (SemQ m)) = sem_up_spec (sem_value s m, A (SemQ m)) \<and>
    (\<forall>x xs. A (SemQ m) = x # xs \<longrightarrow> status (pcbs s' x) = TASK_READY \<and> A' ReadyQ = A ReadyQ @ [x])"
proof (cases "A (SemQ m)")
  case Nil
  let ?s = "set_sem m (sem_value s m + 1) s"
  have "do_semaphore_up m s = Some ?s"
    using Nil queue_is_empty_rep [OF state_okD(1) [OF ok]] by (simp add: do_semaphore_up_def)
  moreover have "state_ok {} ?s A" "running ?s"
    using ok run Nil by (simp_all add: state_ok_def set_sem_def sync_inv_def running_def)
  ultimately show ?thesis
    using Nil by (intro exI [of _ ?s] exI [of _ A]) (simp add: sem_up_spec_def set_sem_def)
next
  case (Cons x xs)
  note R = state_okD(1,2) [OF ok]
  let ?A = "A(SemQ m := xs, ReadyQ := A ReadyQ @ [x])"
  obtain s1 s2 where s: "queue_dequeue (SemQ m) s = Some (x, s1)"
    "queue_push ReadyQ x (set_status x TASK_READY s1) = Some s2" "queues_rep s2 ?A" "kernel_inv {} s2 ?A"
    "view s2 = set_status x TASK_READY (view s)"
    using wake_first_inv [OF R Cons] by auto
  note W = wake_first_running [OF R(2) Cons run s(5)]
  have "sync_inv (view s2) ?A"
    unfolding s(5) using state_okD(3) [OF ok] Cons by (auto simp: sync_inv_def)
  then have "state_ok {} s2 ?A" using s(3,4) by (simp add: state_ok_def)
  moreover have "do_semaphore_up m s = Some s2"
    using s Cons queue_is_empty_rep [OF R(1)] by (simp add: do_semaphore_up_def Let_def)
  moreover have "status (pcbs s2 x) = TASK_READY"
    using arg_cong [OF s(5), of "\<lambda>v. status (pcbs v x)"] by simp
  ultimately show ?thesis
    using W Cons by (intro exI [of _ s2] exI [of _ ?A]) (simp add: sem_up_spec_def)
qed

text \<open>
  A decrement of a positive semaphore returns at once; otherwise the caller is queued and the
  scheduler is called.
\<close>

lemma do_semaphore_down_state_ok:
  assumes ok: "state_ok {} s A" and run: "running s"
  shows "\<exists>s1 A1. state_ok {} s1 A1 \<and>
    (sem_value s1 m, A1 (SemQ m)) = sem_down_spec (current_running s) (sem_value s m, A (SemQ m)) \<and>
    do_semaphore_down m s = (if sem_value s m = 0 then do_scheduler s1 else Some s1) \<and>
    (sem_value s m \<noteq> 0 \<longrightarrow> running s1)"
proof (cases "sem_value s m = 0")
  case True
  let ?c = "current_running s"
  have "sync_inv s (A(SemQ m := A (SemQ m) @ [?c]))"
    using True state_okD(3) [OF ok] by (simp add: sync_inv_def)
  then obtain s1 where s1: "queue_push (SemQ m) ?c (set_status ?c TASK_BLOCKED s) = Some s1"
    "state_ok {} s1 (A(SemQ m := A (SemQ m) @ [?c]))" "view s1 = set_status ?c TASK_BLOCKED (view s)"
    using leave_state_ok [OF state_okD(1,2) [OF ok] run, of TASK_BLOCKED "SemQ m"] by auto
  moreover have "sem_value s1 = sem_value s" using arg_cong [OF s1(3), of sem_value] by simp
  ultimately show ?thesis using True
    by (intro exI [of _ s1] exI [of _ "A(SemQ m := A (SemQ m) @ [?c])"])
      (simp add: do_semaphore_down_def sem_down_spec_def Let_def)
next
  case False
  let ?s = "set_sem m (sem_value s m - 1) s"
  have "state_ok {} ?s A" "running ?s"
    using False ok run by (simp_all add: state_ok_def set_sem_def sync_inv_def running_def)
  then show ?thesis using False
    by (intro exI [of _ ?s] exI [of _ A]) (simp add: do_semaphore_down_def sem_down_spec_def set_sem_def)
qed

lemma do_semaphore_up_sys_ok:
  assumes "sys_ok s"
  shows "\<exists>s'. do_semaphore_up m s = Some s' \<and> sys_ok s'"
proof -
  obtain A where "state_ok {} s A" "running s" using assms by (rule sys_okE)
  from do_semaphore_up_state_ok [OF this, of m] show ?thesis by (auto intro: sys_okI)
qed

lemma do_semaphore_down_sys_ok:
  assumes "sys_ok s" and step: "do_semaphore_down m s = Some s'"
  shows "sys_ok s'"
proof -
  obtain A where A: "state_ok {} s A" "running s" using assms(1) by (rule sys_okE)
  obtain s1 A1 where s1: "state_ok {} s1 A1"
    "do_semaphore_down m s = (if sem_value s m = 0 then do_scheduler s1 else Some s1)"
    "sem_value s m \<noteq> 0 \<longrightarrow> running s1"
    using do_semaphore_down_state_ok [OF A] by blast
  show ?thesis
    using s1 step scheduler_sys_ok(1) [OF s1(1)] sys_okI [OF s1(1)] by (cases "sem_value s m = 0") auto
qed

text \<open>Initialising an object is sound when nobody waits on it.\<close>

lemma queue_init_idle:
  assumes "queues_rep s A" and "A q = []"
  shows "queues_rep (queue_init q s) A" and "view (queue_init q s) = view s"
proof -
  have "A(q := []) = A" using assms(2) by auto
  then show "queues_rep (queue_init q s) A" and "view (queue_init q s) = view s"
    using queue_init_rep [OF assms(1), of q] by simp_all
qed

lemma queue_init_state_ok:
  assumes ok: "state_ok {} s A" and q: "A q = []" and run: "running s"
  shows "state_ok {} (queue_init q s) A" and "running (queue_init q s)"
proof -
  note I = queue_init_idle [OF state_okD(1) [OF ok] q]
  show "state_ok {} (queue_init q s) A"
    using I(1) state_okD(2,3) [OF ok] by (metis I(2) kernel_inv_view state_ok_def sync_inv_view)
  show "running (queue_init q s)"
    using run arg_cong [OF I(2), of "\<lambda>v. status (pcbs v (current_running v))"] by (simp add: running_def)
qed

section \<open>Condition variables\<close>

lemma do_condition_wait_sys_ok:
  assumes ok: "sys_ok s" and step: "do_condition_wait l c s = Some s'"
  shows "sys_ok s'"
proof -
  obtain A where A: "state_ok {} s A" "running s" using ok by (rule sys_okE)
  let ?me = "current_running s" and ?A = "A(CondQ c := A (CondQ c) @ [current_running s])"
  have me: "?me \<notin> queued A"
    using kernel_inv_running(3) [OF state_okD(2) [OF A(1)]] A(2) by (simp add: running_def)
  obtain s1 where s1: "queue_push (CondQ c) ?me s = Some s1" "queues_rep s1 ?A" "view s1 = view s"
    using queue_push_rep [OF state_okD(1) [OF A(1)] me] by blast
  have "kernel_inv {} (set_status ?me TASK_BLOCKED (view s)) ?A"
    using kernel_inv_leave [of "{}" "view s" A TASK_BLOCKED "CondQ c"] state_okD(2) [OF A(1)] A(2)
    by (simp add: running_def)
  then have "kernel_inv {} (view (set_status ?me TASK_BLOCKED s1)) ?A" by (simp add: s1(3) del: kernel_inv_view)
  then have "kernel_inv {} (set_status ?me TASK_BLOCKED s1) ?A" by (simp only: kernel_inv_view)
  moreover have "sync_inv s1 ?A"
    using state_okD(3) [OF A(1)] by (metis s1(3) sync_inv_other(6) sync_inv_view)
  ultimately have "state_ok {} (set_status ?me TASK_BLOCKED s1) ?A" using s1(2) by (simp add: state_ok_def)
  then obtain s2 A2 where s2: "do_mutex_lock_release l (set_status ?me TASK_BLOCKED s1) = Some s2" "state_ok {} s2 A2"
    using do_mutex_lock_release_state_ok by blast
  then have "state_ok {} (s2\<lparr>resume_at := (resume_at s2)(?me := Acquire l)\<rparr>) A2"
    by (simp add: state_ok_def sync_inv_def)
  moreover have "do_scheduler (s2\<lparr>resume_at := (resume_at s2)(?me := Acquire l)\<rparr>) = Some s'"
    using step s1(1) s2(1) by (simp add: do_condition_wait_def Let_def)
  ultimately show ?thesis by (rule scheduler_sys_ok(1))
qed

lemma do_condition_signal_sys_ok:
  assumes ok: "sys_ok s"
  shows "\<exists>s'. do_condition_signal c s = Some s' \<and> sys_ok s'"
proof -
  obtain A where A: "state_ok {} s A" "running s" using ok by (rule sys_okE)
  note R = state_okD(1,2) [OF A(1)]
  show ?thesis
  proof (cases "A (CondQ c)")
    case Nil
    then show ?thesis using ok queue_is_empty_rep [OF R(1)] by (simp add: do_condition_signal_def)
  next
    case (Cons x xs)
    let ?A = "A(CondQ c := xs, ReadyQ := A ReadyQ @ [x])"
    obtain s1 s2 where s: "queue_dequeue (CondQ c) s = Some (x, s1)"
      "queue_push ReadyQ x (set_status x TASK_READY s1) = Some s2" "queues_rep s2 ?A" "kernel_inv {} s2 ?A"
      "view s2 = set_status x TASK_READY (view s)"
      using wake_first_inv [OF R Cons] by auto
    have "sync_inv (view s2) ?A" unfolding s(5) using state_okD(3) [OF A(1)] by simp
    then have "state_ok {} s2 ?A" using s(3,4) by (simp add: state_ok_def)
    moreover have "do_condition_signal c s = Some s2"
      using s Cons queue_is_empty_rep [OF R(1)] by (simp add: do_condition_signal_def Let_def)
    ultimately show ?thesis using wake_first_running(1) [OF R(2) Cons A(2) s(5)] by (auto intro: sys_okI)
  qed
qed

lemma do_condition_broadcast_sys_ok:
  assumes ok: "sys_ok s"
  shows "\<exists>s'. do_condition_broadcast c s = Some s' \<and> sys_ok s'"
proof -
  obtain A where A: "state_ok {} s A" "running s" using ok by (rule sys_okE)
  note R = state_okD(1,2) [OF A(1)]
  have loop: "do_condition_broadcast c s = (if queue_is_empty (CondQ c) s then Some s
      else Option.bind (queue_dequeue (CondQ c) s) (\<lambda>(x, s1).
        Option.bind (queue_push ReadyQ x (set_status x TASK_READY s1)) (do_condition_broadcast c)))" for s
    by (subst do_condition_broadcast.simps) (simp add: Let_def split_def)
  let ?A = "A(CondQ c := [], ReadyQ := A ReadyQ @ A (CondQ c))"
  obtain s' where s': "do_condition_broadcast c s = Some s'" "queues_rep s' ?A"
    "view s' = fold (\<lambda>x. set_status x TASK_READY) (A (CondQ c)) (view s)"
    using kq.wake_all [OF loop R(1)] by auto
  have v: "view s' = ready_all (A (CondQ c)) (view s)" using s'(3) by (simp add: ready_all_def)
  note W = wake_queue_inv [OF R(2) _ refl v]
  have "sync_inv (view s') ?A"
    unfolding v using state_okD(3) [OF A(1)] by (simp add: sync_inv_def)
  then have "state_ok {} s' ?A" using s'(2) W(1) by (simp add: state_ok_def)
  moreover have "running s'"
    using W(2,4) A(2) kernel_inv_running(3) [OF R(2)] by (simp add: running_def queued_iff)
  ultimately show ?thesis using s'(1) by (auto intro: sys_okI)
qed

section \<open>Barriers\<close>

lemma do_barrier_wait_last:
  assumes ok: "state_ok {} s A" and run: "running s" and na: "not_arrive_num s b = 1"
  shows "\<exists>s'. do_barrier_wait b s = Some s' \<and> running s' \<and> current_running s' = current_running s \<and>
    state_ok {} s' (A(BarrierQ b := [], ReadyQ := A ReadyQ @ A (BarrierQ b))) \<and>
    not_arrive_num s' b = max_num s b \<and> max_num s' = max_num s \<and>
    (\<forall>i \<in> set (A (BarrierQ b)). status (pcbs s' i) = TASK_READY)"
proof -
  note R = state_okD(1,2) [OF ok]
  let ?A = "A(BarrierQ b := [], ReadyQ := A ReadyQ @ A (BarrierQ b))"
  obtain s1 where s1: "clear_waiting_queue (BarrierQ b) s = Some s1" "queues_rep s1 ?A"
    "view s1 = ready_all (A (BarrierQ b)) (view s)"
    using clear_waiting_queue_rep [OF R(1), of "BarrierQ b"] by auto
  note W = wake_queue_inv [OF R(2) _ refl s1(3)]
  have sel: "max_num s1 = max_num s" "not_arrive_num s1 = not_arrive_num s"
    "mutex_status s1 = mutex_status s" "sem_value s1 = sem_value s"
    using arg_cong [OF s1(3), of max_num] arg_cong [OF s1(3), of not_arrive_num]
      arg_cong [OF s1(3), of mutex_status] arg_cong [OF s1(3), of sem_value] by simp_all
  let ?s = "s1\<lparr>not_arrive_num := (not_arrive_num s1)(b := max_num s1 b)\<rparr>"
  have "sync_inv ?s ?A"
    using state_okD(3) [OF ok] by (auto simp: sync_inv_def sel)
  then have "state_ok {} ?s ?A" using s1(2) W(1) by (simp add: state_ok_def)
  moreover have "running ?s"
    using W(2,4) run kernel_inv_running(3) [OF R(2)] by (simp add: running_def queued_iff)
  moreover have "do_barrier_wait b s = Some ?s" using na s1(1) by (simp add: do_barrier_wait_def)
  ultimately show ?thesis using W(2,4) sel by (intro exI [of _ ?s]) simp
qed

lemma do_barrier_wait_early:
  assumes ok: "state_ok {} s A" and run: "running s" and na: "not_arrive_num s b \<noteq> 1" and set_up: "max_num s b \<noteq> 0"
  shows "\<exists>s1. do_barrier_wait b s = do_scheduler s1 \<and>
    state_ok {} s1 (A(BarrierQ b := A (BarrierQ b) @ [current_running s])) \<and>
    not_arrive_num s1 b = not_arrive_num s b - 1 \<and> max_num s1 = max_num s"
proof -
  let ?c = "current_running s"
  let ?s = "s\<lparr>not_arrive_num := (not_arrive_num s)(b := not_arrive_num s b - 1)\<rparr>"
  have na0: "not_arrive_num s b \<noteq> 0" using set_up state_okD(3) [OF ok] by (auto simp: sync_inv_def)
  have "unat (not_arrive_num s b - 1) = unat (not_arrive_num s b) - 1" "0 < unat (not_arrive_num s b)"
    using na0 by (simp_all add: unat_minus_one unat_gt_0)
  moreover have "0 < unat (max_num s b)" using set_up by (simp add: unat_gt_0)
  moreover have "not_arrive_num s b - 1 \<noteq> 0" using na by simp
  ultimately have "sync_inv ?s (A(BarrierQ b := A (BarrierQ b) @ [?c]))"
    using state_okD(3) [OF ok] unfolding sync_inv_def by auto
  then obtain s1 where s1: "queue_push (BarrierQ b) ?c (set_status ?c TASK_BLOCKED ?s) = Some s1"
    "state_ok {} s1 (A(BarrierQ b := A (BarrierQ b) @ [?c]))" "view s1 = set_status ?c TASK_BLOCKED (view ?s)"
    using leave_state_ok [of ?s A TASK_BLOCKED "BarrierQ b"] state_okD(1,2) [OF ok] run
    by (auto simp: running_def)
  moreover have "not_arrive_num s1 = not_arrive_num ?s" "max_num s1 = max_num ?s"
    using arg_cong [OF s1(3), of not_arrive_num] arg_cong [OF s1(3), of max_num] by simp_all
  ultimately show ?thesis using na
    by (intro exI [of _ s1]) (simp add: do_barrier_wait_def Let_def)
qed

lemma do_barrier_wait_sys_ok:
  assumes "sys_ok s" and "max_num s b \<noteq> 0" and step: "do_barrier_wait b s = Some s'"
  shows "sys_ok s'"
proof -
  obtain A where A: "state_ok {} s A" "running s" using assms(1) by (rule sys_okE)
  show ?thesis
  proof (cases "not_arrive_num s b = 1")
    case True
    then show ?thesis using do_barrier_wait_last [OF A True] step by (auto intro: sys_okI)
  next
    case False
    then show ?thesis
      using do_barrier_wait_early [OF A False assms(2)] step scheduler_sys_ok(1) by auto
  qed
qed

lemma do_mutex_lock_init_sys_ok:
  assumes "state_ok {} s A" and "running s" and "A (MutexQ l) = []"
  shows "sys_ok (do_mutex_lock_init l s)"
proof -
  have "state_ok {} (set_mutex l UNLOCKED s) A" "running (set_mutex l UNLOCKED s)"
    using assms by (auto simp: state_ok_def sync_inv_def set_mutex_def running_def)
  from queue_init_state_ok [OF this(1) assms(3) this(2)] show ?thesis
    by (auto simp: do_mutex_lock_init_def intro: sys_okI)
qed

lemma do_semaphore_init_sys_ok:
  assumes "state_ok {} s A" and "running s" and "A (SemQ m) = []"
  shows "sys_ok (do_semaphore_init m v s)"
proof -
  have "state_ok {} (set_sem m v s) A" "running (set_sem m v s)"
    using assms by (auto simp: state_ok_def sync_inv_def set_sem_def running_def)
  from queue_init_state_ok [OF this(1) assms(3) this(2)] show ?thesis
    by (auto simp: do_semaphore_init_def intro: sys_okI)
qed

lemma do_condition_init_sys_ok:
  "state_ok {} s A \<Longrightarrow> running s \<Longrightarrow> A (CondQ c) = [] \<Longrightarrow> sys_ok (do_condition_init c s)"
  unfolding do_condition_init_def by (blast intro: sys_okI queue_init_state_ok)

lemma do_barrier_init_sys_ok:
  assumes "state_ok {} s A" and "running s" and "A (BarrierQ b) = []"
  shows "sys_ok (do_barrier_init b goal s)"
proof -
  let ?s = "s\<lparr>max_num := (max_num s)(b := goal), not_arrive_num := (not_arrive_num s)(b := goal)\<rparr>"
  have "state_ok {} ?s A" "running ?s"
    using assms by (auto simp: state_ok_def sync_inv_def running_def)
  from queue_init_state_ok [OF this(1) assms(3) this(2)] show ?thesis
    by (auto simp: do_barrier_init_def intro: sys_okI)
qed
end
