(* ===== verification/Process.thy ===== *)
theory Process
  imports Locking
begin

text \<open>
  Processes: \<^verbatim>\<open>do_exit\<close>, \<^verbatim>\<open>do_waitpid\<close>, \<^verbatim>\<open>do_kill\<close>, \<^verbatim>\<open>do_getpid\<close> and \<^verbatim>\<open>get_pcb_index\<close> of
  \<^verbatim>\<open>kernel/sched/sched.c\<close>, the set-up of the first process by \<^verbatim>\<open>init_pcb\<close> of \<^verbatim>\<open>init/main.c\<close>, and
  the timer interrupt of \<^verbatim>\<open>arch/mips/kernel/entry.S\<close>.

  The relation \<open>kernel_step\<close> collects what can happen between two instructions of user code: a system
  call by the running task, a timer interrupt, or the rest of a call that was interrupted by
  a task switch. The invariant \<open>sys_ok\<close> holds in every state reachable from the boot state.
\<close>

section \<open>Leaving and waiting\<close>

fun release_locks :: "pcb_id \<Rightarrow> nat list \<Rightarrow> kernel \<Rightarrow> kernel option" where
  "release_locks p [] s = Some s"
| "release_locks p (i # is) s = do {
     s \<leftarrow> (case lock (pcbs s p) ! i of
            None \<Rightarrow> Some s
          | Some l \<Rightarrow> do_mutex_lock_release l s);
     release_locks p is s
   }"

text \<open>The second loop of \<^verbatim>\<open>do_exit\<close> is the body of \<^verbatim>\<open>clear_waiting_queue\<close> written out.\<close>

definition do_exit :: "kernel \<Rightarrow> kernel option" where
  "do_exit s = do {
     let c = current_running s;
     s \<leftarrow> release_locks c [0..<LOCK_MAX_NUM] s;
     s \<leftarrow> clear_waiting_queue (WaitingQ c) s;
     let s = set_status c TASK_EXITED s;
     do_scheduler s
   }"

definition do_getpid :: "kernel \<Rightarrow> u32" where
  "do_getpid s = pid (pcbs s (current_running s))"

definition find_pid :: "u32 \<Rightarrow> kernel \<Rightarrow> nat option" where
  "find_pid n s = scan_up (\<lambda>i. pid (pcbs s (Pcb i)) = n) NUM_MAX_TASK 0"

definition do_waitpid :: "u32 \<Rightarrow> kernel \<Rightarrow> kernel option" where
  "do_waitpid n s =
     (case find_pid n s of
        None \<Rightarrow> Some s
      | Some i \<Rightarrow>
          if status (pcbs s (Pcb i)) \<noteq> TASK_EXITED then do {
            let c = current_running s;
            let s = set_status c TASK_BLOCKED s;
            s \<leftarrow> queue_push (WaitingQ (Pcb i)) c s;
            do_scheduler s
          }
          else Some s)"

text \<open>The search of \<^verbatim>\<open>do_kill\<close> through the queues of the mutexes of the table \<^verbatim>\<open>Lock\<close>.\<close>

fun leave_mutexes :: "pcb_id \<Rightarrow> mutex_id list \<Rightarrow> kernel \<Rightarrow> kernel option" where
  "leave_mutexes p [] s = Some s"
| "leave_mutexes p (l # ls) s = do {
     b \<leftarrow> check_in_queue (MutexQ l) p s;
     s \<leftarrow> (if b then do { (_, s) \<leftarrow> queue_remove (MutexQ l) p s; Some s } else Some s);
     leave_mutexes p ls s
   }"

definition unqueue_victim :: "pcb_id \<Rightarrow> kernel \<Rightarrow> kernel option" where
  "unqueue_victim p s =
     (case status (pcbs s p) of
        TASK_READY \<Rightarrow> do { (_, s) \<leftarrow> queue_remove ReadyQ p s; Some s }
      | TASK_BLOCKED \<Rightarrow> leave_mutexes p (take MAX_LOCK_NUM_TOTAL (Lock s)) s
      | TASK_SLEEPING \<Rightarrow> do { (_, s) \<leftarrow> queue_remove SleepingQ p s; Some s }
      | TASK_CREATED \<Rightarrow> do { (_, s) \<leftarrow> queue_remove ReadyQ p s; Some s }
      | _ \<Rightarrow> Some s)"

definition do_kill :: "u32 \<Rightarrow> kernel \<Rightarrow> kernel option" where
  "do_kill n s =
     (case find_pid n s of
        None \<Rightarrow> Some s
      | Some i \<Rightarrow> do {
          let p = Pcb i;
          s \<leftarrow> (if status (pcbs s p) \<noteq> TASK_EXITED then do {
                  s \<leftarrow> unqueue_victim p s;
                  let s = set_status p TASK_EXITED s;
                  s \<leftarrow> release_locks p [0..<LOCK_MAX_NUM] s;
                  clear_waiting_queue (WaitingQ p) s
                }
                else Some s);
          if pid (pcbs s (current_running s)) = n then do_scheduler s else Some s
        })"

definition get_pcb_index :: "u32 \<Rightarrow> kernel \<Rightarrow> nat" where
  "get_pcb_index n s = (case find_pid n s of None \<Rightarrow> NUM_MAX_TASK | Some i \<Rightarrow> i)"

section \<open>Boot\<close>

text \<open>
  \<^verbatim>\<open>init_pcb\<close>. The counter \<open>i\<close> is 2 after the loops, so the loop that clears lock slots works on
  \<^verbatim>\<open>pcb[2]\<close>. The addresses of \<^verbatim>\<open>first_entry\<close> and of \<^verbatim>\<open>test_shell\<close> are parameters.
\<close>

definition init_pcb_tables :: "u32 \<Rightarrow> u32 \<Rightarrow> kernel \<Rightarrow> kernel" where
  "init_pcb_tables first_entry test_shell s =
    (let s = s\<lparr>PID := PID s + 1\<rparr>;
         s = s\<lparr>pcbs := (\<lambda>p. case p of
               Pcb i \<Rightarrow> if i < NUM_MAX_TASK then (pcbs s p)\<lparr>status := TASK_EXITED\<rparr> else pcbs s p
             | PcbInit \<Rightarrow> pcbs s p)\<rparr>;
         s = s\<lparr>Lock := Lock1 # Lock2 # map MboxLock [0..<MAX_LOCK_NUM_TOTAL - 2]\<rparr>;
         s = queue_init (MutexQ Lock1) (s\<lparr>mutex_status := (mutex_status s)(Lock1 := UNLOCKED)\<rparr>);
         s = queue_init (MutexQ Lock2) (s\<lparr>mutex_status := (mutex_status s)(Lock2 := UNLOCKED)\<rparr>);
         s = queue_init ReadyQ s;
         s = queue_init BlockQ s;
         s = queue_init SleepingQ s;
         s = queue_init (WaitingQ (Pcb 1)) s;
         s = upd_pcb (Pcb 1) (\<lambda>t. t\<lparr>kernel_context := zero_context, user_context := zero_context\<rparr>) s;
         s = upd_pcb (Pcb 2) (\<lambda>t. t\<lparr>lock := replicate LOCK_MAX_NUM None\<rparr>) s;
         stk = STACK_TOP s;
         s = s\<lparr>USER_STACK_TOP := USER_STACK_TOP s + VM_STACK_SIZE\<rparr>;
         s = s\<lparr>STACK_TOP := STACK_TOP s + STACK_SIZE * 2\<rparr>;
         s = upd_pcb (Pcb 1) (\<lambda>t. t\<lparr>
        kernel_context := (kernel_context t)\<lparr>
          regs := (regs (kernel_context t))[29 := stk, 30 := stk, 31 := first_entry],
          cp0_status := CP0_STATUS_INIT, cp0_epc := test_shell\<rparr>,
        user_context := (user_context t)\<lparr>
          regs := (regs (user_context t))[29 := stk + STACK_SIZE, 30 := stk + STACK_SIZE],
          cp0_status := CP0_STATUS_INIT, cp0_epc := test_shell\<rparr>,
        kernel_stack_top := stk, user_stack_top := stk + STACK_SIZE, prev_ptr := None, next_ptr := None,
        pid := 1, task_type := USER_PROCESS, status := TASK_CREATED, cursor_x := 0, cursor_y := 0,
        entry_point := test_shell, mode := USER_MODE, priority := INITIAL_PRIORITY, wait_time := 0,
        sleeping_deadline := 0, lock_num := 0\<rparr>) s
     in s)"

definition init_pcb :: "u32 \<Rightarrow> u32 \<Rightarrow> kernel \<Rightarrow> kernel option" where
  "init_pcb first_entry test_shell s = do {
     let s = init_pcb_tables first_entry test_shell s;
     s \<leftarrow> queue_push ReadyQ (Pcb 1) s;
     Some (upd_pcb (current_running s) (\<lambda>t. t\<lparr>status := TASK_CREATED, entry_point := 0, pid := 0\<rparr>) s)
   }"

section \<open>Interrupts\<close>

text \<open>
  The part of the network driver \<^verbatim>\<open>drivers/mac.c\<close> that blocks and wakes tasks. The argument \<open>des0\<close>
  gives the status words of the receive descriptors, which the device writes; bit 31 is the OWN bit.
\<close>

abbreviation "PNUM \<equiv> 64 :: nat"

definition own_bit :: "u32 \<Rightarrow> bool" where
  "own_bit w = (w AND 0x80000000 \<noteq> 0)"

definition check_recv_block_queue :: "(nat \<Rightarrow> u32) \<Rightarrow> kernel \<Rightarrow> kernel option" where
  "check_recv_block_queue des0 s =
     (if head (queues s RecvBlockQ) \<noteq> None then
        if \<exists>i \<in> {..<PNUM - 1}. own_bit (des0 i) then Some s
        else do_unblock_one RecvBlockQ s
      else Some s)"

definition do_wait_recv_package :: "(nat \<Rightarrow> u32) \<Rightarrow> kernel \<Rightarrow> kernel option" where
  "do_wait_recv_package des0 s =
     (if des0 63 AND 0x80000000 = 0x80000000 then do_block RecvBlockQ s else Some s)"

definition irq_mac :: "kernel \<Rightarrow> kernel option" where
  "irq_mac s = do_unblock_one RecvBlockQ s"

text \<open>
  The branch \<^verbatim>\<open>irq_timer\<close> of \<^verbatim>\<open>handle_int\<close> in \<^verbatim>\<open>entry.S\<close>: the clock advances by 15; when the
  interrupted task was in user mode it is put in kernel mode, the scheduler is called, and the new task
  is put in user mode.
\<close>

definition irq_timer :: "(nat \<Rightarrow> u32) \<Rightarrow> kernel \<Rightarrow> kernel option" where
  "irq_timer des0 s = do {
     let s = s\<lparr>time_elapsed := time_elapsed s + 15\<rparr>;
     s \<leftarrow> check_recv_block_queue des0 s;
     if mode (pcbs s (current_running s)) = KERNEL_MODE then Some s
     else do {
       let s = upd_pcb (current_running s) (\<lambda>t. t\<lparr>mode := KERNEL_MODE\<rparr>) s;
       s \<leftarrow> do_scheduler s;
       Some (upd_pcb (current_running s) (\<lambda>t. t\<lparr>mode := USER_MODE\<rparr>) s)
     }
   }"

section \<open>System call entry\<close>

text \<open>
  \<^verbatim>\<open>system_call_helper\<close> of \<^verbatim>\<open>kernel/syscall/syscall.c\<close> around a call \<open>f\<close> that returns a value and a
  state. After a task switch the second half works on the task that runs then.
\<close>

definition system_call_helper :: "(kernel \<Rightarrow> (u32 \<times> kernel) option) \<Rightarrow> kernel \<Rightarrow> kernel option" where
  "system_call_helper f s = do {
     let s = upd_pcb (current_running s) (\<lambda>t. t\<lparr>mode := KERNEL_MODE\<rparr>) s;
     (ret_val, s) \<leftarrow> f s;
     let c = current_running s;
     let s = upd_pcb c (\<lambda>t. t\<lparr>mode := USER_MODE\<rparr>) s;
     let s = upd_pcb c (\<lambda>t. t\<lparr>user_context := (user_context t)\<lparr>regs := (regs (user_context t))[2 := ret_val]\<rparr>\<rparr>) s;
     Some (upd_pcb c (\<lambda>t. t\<lparr>user_context := (user_context t)\<lparr>cp0_epc := cp0_epc (user_context t) + 4\<rparr>\<rparr>) s)
   }"

section \<open>Exit, wait and kill keep the invariant\<close>

text \<open>What the wake-ups of exit and kill leave alone.\<close>

definition same_tasks :: "kernel \<Rightarrow> (qid \<Rightarrow> pcb_id list) \<Rightarrow> kernel \<Rightarrow> (qid \<Rightarrow> pcb_id list) \<Rightarrow> bool" where
  "same_tasks s A s' A' \<longleftrightarrow> current_running s' = current_running s \<and> queued A' = queued A \<and>
     (\<forall>i. pid (pcbs s' i) = pid (pcbs s i)) \<and>
     (\<forall>i. i \<notin> queued A \<longrightarrow> status (pcbs s' i) = status (pcbs s i))"

lemma same_tasks_refl [simp]: "same_tasks s A s A"
  by (simp add: same_tasks_def)

lemma same_tasks_trans: "same_tasks s A t B \<Longrightarrow> same_tasks t B u C \<Longrightarrow> same_tasks s A u C"
  by (simp add: same_tasks_def)

lemma do_mutex_lock_release_same_tasks:
  assumes "state_ok X s A"
  shows "\<exists>s' A'. do_mutex_lock_release l s = Some s' \<and> state_ok X s' A' \<and> same_tasks s A s' A'"
proof -
  obtain s1 A1 where s1: "do_mutex_lock_release l s = Some s1" "state_ok X s1 A1"
    "current_running s1 = current_running s" "queued A1 = queued A" "\<forall>i. pid (pcbs s1 i) = pid (pcbs s i)"
    "\<forall>i. status (pcbs s1 i) = (if i \<in> set (A (MutexQ l)) then TASK_READY else status (pcbs s i))"
    using do_mutex_lock_release_state_ok [OF assms] by blast
  then show ?thesis by (intro exI [of _ s1] exI [of _ A1]) (simp add: same_tasks_def queued_iff)
qed

lemma release_locks_state_ok:
  assumes "state_ok X s A"
  shows "\<exists>s' A'. release_locks p is s = Some s' \<and> state_ok X s' A' \<and> same_tasks s A s' A'"
  using assms
proof (induction "is" arbitrary: s A)
  case Nil
  then show ?case by (intro exI [of _ s] exI [of _ A]) simp
next
  case (Cons i "is")
  have "\<exists>s1 A1. (case lock (pcbs s p) ! i of None \<Rightarrow> Some s | Some l \<Rightarrow> do_mutex_lock_release l s) = Some s1 \<and>
      state_ok X s1 A1 \<and> same_tasks s A s1 A1"
  proof (cases "lock (pcbs s p) ! i")
    case None
    then show ?thesis using Cons.prems by (intro exI [of _ s] exI [of _ A]) simp
  next
    case (Some l)
    then show ?thesis using do_mutex_lock_release_same_tasks [OF Cons.prems] by simp
  qed
  then obtain s1 A1 where s1: "(case lock (pcbs s p) ! i of None \<Rightarrow> Some s | Some l \<Rightarrow> do_mutex_lock_release l s) = Some s1"
    "state_ok X s1 A1" "same_tasks s A s1 A1" by blast
  obtain s' A' where s': "release_locks p is s1 = Some s'" "state_ok X s' A'" "same_tasks s1 A1 s' A'"
    using Cons.IH [OF s1(2)] by blast
  show ?case
    using s1(1) s'(1,2) same_tasks_trans [OF s1(3) s'(3)] by (intro exI [of _ s'] exI [of _ A']) simp
qed

text \<open>Waking the waiters of a task.\<close>

lemma clear_waiting_state_ok:
  assumes ok: "state_ok X s A"
  shows "\<exists>s' A'. clear_waiting_queue (WaitingQ p) s = Some s' \<and> state_ok X s' A' \<and>
    A' (WaitingQ p) = [] \<and> same_tasks s A s' A'"
proof -
  let ?A = "A(WaitingQ p := [], ReadyQ := A ReadyQ @ A (WaitingQ p))"
  obtain s' where s': "clear_waiting_queue (WaitingQ p) s = Some s'" "queues_rep s' ?A"
    "view s' = ready_all (A (WaitingQ p)) (view s)"
    using clear_waiting_queue_rep [OF state_okD(1) [OF ok], of "WaitingQ p"] by auto
  note W = wake_queue_inv [OF state_okD(2) [OF ok] _ refl s'(3)]
  have "sync_inv (view s') ?A"
    unfolding s'(3) using state_okD(3) [OF ok] by (simp add: sync_inv_def)
  then have "state_ok X s' ?A" using s'(2) W(1) by (simp add: state_ok_def)
  moreover have "queued ?A = queued A" by (rule queued_move) simp_all
  moreover have "pid (pcbs s' i) = pid (pcbs s i)" for i
    using arg_cong [OF s'(3), of "\<lambda>v. pid (pcbs v i)"] by simp
  ultimately show ?thesis
    using s'(1) W(2,4) by (intro exI [of _ s'] exI [of _ ?A]) (simp add: same_tasks_def queued_iff [of _ A])
qed

text \<open>An unqueued task whose waiters are gone may become an exited one.\<close>

lemma kernel_inv_exit:
  assumes inv: "kernel_inv X s A" and p: "p \<in> tasks" "p \<notin> queued A" and w: "A (WaitingQ p) = [] \<or> p \<in> X"
  shows "kernel_inv X (set_status p TASK_EXITED s) A"
proof -
  have "at A p = {}" "p \<noteq> PcbInit" using p by (auto simp: at_empty_iff)
  then show ?thesis using inv p(1) w unfolding kernel_inv_def by auto
qed

lemma do_exit_sys_ok:
  assumes ok: "sys_ok s" and step: "do_exit s = Some s'"
  shows "sys_ok s'"
proof -
  obtain A where A: "state_ok {} s A" "running s" using ok by (rule sys_okE)
  let ?c = "current_running s"
  have c: "?c \<in> tasks" "?c \<notin> queued A"
    using kernel_inv_running [OF state_okD(2) [OF A(1)]] A(2) by (simp_all add: running_def)
  obtain s1 A1 where s1: "release_locks ?c [0..<LOCK_MAX_NUM] s = Some s1" "state_ok {} s1 A1" "same_tasks s A s1 A1"
    using release_locks_state_ok [OF A(1)] by blast
  obtain s2 A2 where s2: "clear_waiting_queue (WaitingQ ?c) s1 = Some s2" "state_ok {} s2 A2"
    "A2 (WaitingQ ?c) = []" "same_tasks s1 A1 s2 A2"
    using clear_waiting_state_ok [OF s1(2)] by blast
  have "?c \<notin> queued A2" using c(2) s1(3) s2(4) by (simp add: same_tasks_def)
  then have "kernel_inv {} (set_status ?c TASK_EXITED s2) A2"
    using state_okD(2) [OF s2(2)] c(1) s2(3) by (intro kernel_inv_exit) simp_all
  then have "state_ok {} (set_status ?c TASK_EXITED s2) A2"
    using state_okD(1,3) [OF s2(2)] by (simp add: state_ok_def)
  moreover have "do_scheduler (set_status ?c TASK_EXITED s2) = Some s'"
    using step s1(1) s2(1) by (simp add: do_exit_def Let_def)
  ultimately show ?thesis by (rule scheduler_sys_ok(1))
qed

lemma do_waitpid_sys_ok:
  assumes ok: "sys_ok s" and step: "do_waitpid n s = Some s'"
  shows "sys_ok s'"
proof (cases "\<exists>i. find_pid n s = Some i \<and> status (pcbs s (Pcb i)) \<noteq> TASK_EXITED")
  case True
  then obtain i where i: "find_pid n s = Some i" "status (pcbs s (Pcb i)) \<noteq> TASK_EXITED" by blast
  obtain A where A: "state_ok {} s A" "running s" using ok by (rule sys_okE)
  obtain s1 B where "queue_push (WaitingQ (Pcb i)) (current_running s)
      (set_status (current_running s) TASK_BLOCKED s) = Some s1" "state_ok {} s1 B"
    using leave_state_ok [OF state_okD(1,2) [OF A(1)] A(2), of TASK_BLOCKED "WaitingQ (Pcb i)"]
      state_okD(3) [OF A(1)] i(2) by auto
  moreover from this have "do_scheduler s1 = Some s'" using step i by (simp add: do_waitpid_def Let_def)
  ultimately show ?thesis using scheduler_sys_ok(1) by blast
next
  case False
  then show ?thesis using ok step by (auto simp: do_waitpid_def split: option.splits)
qed

text \<open>
  A task can be killed cleanly unless it is blocked on something else than a mutex of the table: the
  code looks for a blocked victim on those queues only.
\<close>

definition killable :: "pcb_id \<Rightarrow> kernel \<Rightarrow> (qid \<Rightarrow> pcb_id list) \<Rightarrow> bool" where
  "killable p s A \<longleftrightarrow> (status (pcbs s p) = TASK_BLOCKED \<longrightarrow>
     (\<exists>l \<in> set (take MAX_LOCK_NUM_TOTAL (Lock s)). p \<in> set (A (MutexQ l))))"

lemma leave_mutexes_rep:
  assumes "queues_rep s A"
  shows "\<exists>s'. leave_mutexes p ls s = Some s' \<and> view s' = view s \<and>
    queues_rep s' (\<lambda>q. if \<exists>l \<in> set ls. q = MutexQ l then removeAll p (A q) else A q)"
  using assms
proof (induction ls arbitrary: s A)
  case Nil
  then show ?case by simp
next
  case (Cons l ls)
  let ?A = "A(MutexQ l := removeAll p (A (MutexQ l)))"
  have "\<exists>s1. (if p \<in> set (A (MutexQ l)) then Option.bind (queue_remove (MutexQ l) p s) (\<lambda>(_, s). Some s) else Some s) = Some s1 \<and>
      queues_rep s1 ?A \<and> view s1 = view s"
  proof (cases "p \<in> set (A (MutexQ l))")
    case True
    then show ?thesis
      using kq.remove_list [OF Cons.prems True] queues_repD(1) [OF Cons.prems, of "MutexQ l"]
      by (auto simp: distinct_remove1_removeAll)
  next
    case False
    then have "?A = A" by (simp add: removeAll_id fun_upd_idem)
    then show ?thesis using False Cons.prems by simp
  qed
  then obtain s1 where s1: "(if p \<in> set (A (MutexQ l)) then Option.bind (queue_remove (MutexQ l) p s) (\<lambda>(_, s). Some s) else Some s) = Some s1"
    "queues_rep s1 ?A" "view s1 = view s" by blast
  obtain s' where s': "leave_mutexes p ls s1 = Some s'" "view s' = view s1"
    "queues_rep s' (\<lambda>q. if \<exists>l \<in> set ls. q = MutexQ l then removeAll p (?A q) else ?A q)"
    using Cons.IH [OF s1(2)] by blast
  have "(\<lambda>q. if \<exists>l \<in> set ls. q = MutexQ l then removeAll p (?A q) else ?A q) =
      (\<lambda>q. if \<exists>l \<in> set (l # ls). q = MutexQ l then removeAll p (A q) else A q)"
    by (auto simp: fun_eq_iff)
  then show ?case using s1 s' kq.member_list [OF Cons.prems] by simp
qed

lemma unqueue_victim_rep:
  assumes rep: "queues_rep s A" and inv: "kernel_inv {} s A" and p: "p \<in> tasks" and k: "killable p s A"
  shows "\<exists>s'. unqueue_victim p s = Some s' \<and> view s' = view s \<and> queues_rep s' (\<lambda>q. removeAll p (A q))"
proof -
  have only: "(\<lambda>r. removeAll p (A r)) = A(q := remove1 p (A q))" if "at A p = {q}" for q
  proof (rule ext)
    fix r
    have "p \<notin> set (A r)" if "r \<noteq> q" using \<open>at A p = {q}\<close> that by (auto simp: at_def)
    then show "removeAll p (A r) = (A(q := remove1 p (A q))) r"
      using distinct_remove1_removeAll [OF kernel_invD(1) [OF inv, of q], of p] by simp
  qed
  have rm: "\<exists>n s'. queue_remove q p s = Some (n, s') \<and> view s' = view s \<and> queues_rep s' (\<lambda>r. removeAll p (A r))"
    if "at A p = {q}" for q
    using kq.remove_list [OF rep, of p q] only [OF that] that by (auto simp: at_def)
  note P = kernel_invD(4) [OF inv p]
  show ?thesis
  proof (cases "status (pcbs s p)")
    case TASK_BLOCKED
    then obtain l where l: "l \<in> set (take MAX_LOCK_NUM_TOTAL (Lock s))" "p \<in> set (A (MutexQ l))"
      using k by (auto simp: killable_def)
    have at: "at A p = {MutexQ l}" using kernel_invD(3) [OF inv l(2)] .
    have "(\<lambda>q. if \<exists>l \<in> set (take MAX_LOCK_NUM_TOTAL (Lock s)). q = MutexQ l then removeAll p (A q) else A q) =
        (\<lambda>q. removeAll p (A q))"
    proof (rule ext)
      fix q
      have "p \<notin> set (A q)" if "q \<noteq> MutexQ l" using at that by (auto simp: at_def)
      then show "(if \<exists>l \<in> set (take MAX_LOCK_NUM_TOTAL (Lock s)). q = MutexQ l then removeAll p (A q) else A q) =
          removeAll p (A q)"
        using l(1) by (metis removeAll_id)
    qed
    then show ?thesis
      using leave_mutexes_rep [OF rep, of p "take MAX_LOCK_NUM_TOTAL (Lock s)"] TASK_BLOCKED
      by (simp add: unqueue_victim_def)
  next
    case TASK_RUNNING
    then have "(\<lambda>q. removeAll p (A q)) = A" using P by (auto simp: fun_eq_iff at_def removeAll_id)
    then show ?thesis using rep TASK_RUNNING by (simp add: unqueue_victim_def)
  next
    case TASK_EXITED
    then have "(\<lambda>q. removeAll p (A q)) = A" using P by (auto simp: fun_eq_iff at_def removeAll_id)
    then show ?thesis using rep TASK_EXITED by (simp add: unqueue_victim_def)
  qed (use P rm [of ReadyQ] rm [of SleepingQ] in \<open>auto simp: unqueue_victim_def\<close>)
qed

lemma at_removeAll: "at (\<lambda>q. removeAll p (A q)) i = (if i = p then {} else at A i)"
  by (auto simp: at_def)

lemma kernel_inv_kill:
  assumes inv: "kernel_inv {} s A" and p: "p \<in> tasks"
  shows "kernel_inv {p} (set_status p TASK_EXITED s) (\<lambda>q. removeAll p (A q))"
proof -
  have "queued (\<lambda>q. removeAll p (A q)) \<subseteq> queued A" by (auto simp: queued_def)
  moreover have "p \<noteq> PcbInit" using p by auto
  moreover have "distinct (removeAll p (A q))" for q using kernel_invD(1) [OF inv] by (rule distinct_removeAll)
  moreover have "A (WaitingQ i) = [] \<Longrightarrow> removeAll p (A (WaitingQ i)) = []" for i by simp
  ultimately show ?thesis using inv p unfolding kernel_inv_def at_removeAll by auto
qed

lemma sync_inv_kill:
  assumes inv: "kernel_inv {} s A" and sync: "sync_inv s A" and k: "killable p s A" and p: "p \<in> tasks"
  shows "sync_inv s (\<lambda>q. removeAll p (A q))"
proof -
  have "p \<notin> set (A (BarrierQ b))" for b
  proof
    assume b: "p \<in> set (A (BarrierQ b))"
    then have "status (pcbs s p) = TASK_BLOCKED" using kernel_invD(10) [OF inv b] by simp
    then obtain l where "p \<in> set (A (MutexQ l))" using k by (auto simp: killable_def)
    then show False using kernel_invD(3) [OF inv] b by fastforce
  qed
  then show ?thesis using sync by (auto simp: sync_inv_def removeAll_id)
qed

text \<open>The victim is off all queues, its locks are released and its waiters are ready.\<close>

lemma do_kill_state_ok:
  assumes ok: "state_ok {} s A" and p: "p \<in> tasks" and k: "killable p s A"
  shows "\<exists>s1 s2 s3 A3. unqueue_victim p s = Some s1 \<and>
    release_locks p [0..<LOCK_MAX_NUM] (set_status p TASK_EXITED s1) = Some s2 \<and>
    clear_waiting_queue (WaitingQ p) s2 = Some s3 \<and> state_ok {} s3 A3 \<and> p \<notin> queued A3 \<and>
    current_running s3 = current_running s \<and> (\<forall>i. pid (pcbs s3 i) = pid (pcbs s i)) \<and>
    status (pcbs s3 p) = TASK_EXITED \<and>
    (\<forall>i. i \<noteq> p \<and> i \<notin> queued A \<longrightarrow> status (pcbs s3 i) = status (pcbs s i))"
proof -
  let ?A = "\<lambda>q. removeAll p (A q)"
  obtain s1 where s1: "unqueue_victim p s = Some s1" "view s1 = view s" "queues_rep s1 ?A"
    using unqueue_victim_rep [OF state_okD(1,2) [OF ok] p k] by blast
  let ?s1 = "set_status p TASK_EXITED s1"
  have "kernel_inv {} (view s) A" using state_okD(2) [OF ok] by simp
  from kernel_inv_kill [OF this p] have "kernel_inv {p} (view ?s1) ?A"
    by (simp add: s1(2) del: kernel_inv_view)
  then have "kernel_inv {p} ?s1 ?A" by (simp only: kernel_inv_view)
  moreover have "sync_inv s1 ?A"
    using sync_inv_kill [OF state_okD(2,3) [OF ok] k p] by (metis s1(2) sync_inv_view)
  ultimately have "state_ok {p} ?s1 ?A" using s1(3) by (simp add: state_ok_def)
  then obtain s2 A2 where s2: "release_locks p [0..<LOCK_MAX_NUM] ?s1 = Some s2" "state_ok {p} s2 A2"
    "same_tasks ?s1 ?A s2 A2"
    using release_locks_state_ok by blast
  obtain s3 A3 where s3: "clear_waiting_queue (WaitingQ p) s2 = Some s3" "state_ok {p} s3 A3"
    "A3 (WaitingQ p) = []" "same_tasks s2 A2 s3 A3"
    using clear_waiting_state_ok [OF s2(2)] by blast
  have "state_ok {} s3 A3" using s3(2,3) by (auto simp: state_ok_def kernel_inv_def)
  moreover have T: "same_tasks ?s1 ?A s3 A3" using same_tasks_trans [OF s2(3) s3(4)] .
  moreover have "p \<notin> queued ?A" by (simp add: queued_iff)
  moreover have "i \<notin> queued A \<Longrightarrow> i \<notin> queued ?A" for i by (simp add: queued_iff)
  moreover have "pid (pcbs s1 i) = pid (pcbs s i)" "status (pcbs s1 i) = status (pcbs s i)"
    "current_running s1 = current_running s" for i
    using arg_cong [OF s1(2), of "\<lambda>v. pid (pcbs v i)"] arg_cong [OF s1(2), of "\<lambda>v. status (pcbs v i)"]
      arg_cong [OF s1(2), of current_running] by simp_all
  ultimately show ?thesis
    using s1(1) s2(1) s3(1)
    by (intro exI [of _ s1] exI [of _ s2] exI [of _ s3] exI [of _ A3]) (simp add: same_tasks_def)
qed

lemma do_kill_sys_ok:
  assumes ok: "sys_ok s" and step: "do_kill n s = Some s'"
    and k: "\<And>i A. find_pid n s = Some i \<Longrightarrow> state_ok {} s A \<Longrightarrow> killable (Pcb i) s A"
  shows "sys_ok s'"
proof -
  obtain A where A: "state_ok {} s A" "running s" using ok by (rule sys_okE)
  show ?thesis
  proof (cases "find_pid n s")
    case None
    then show ?thesis using ok step by (simp add: do_kill_def)
  next
    case (Some i)
    have i: "Pcb i \<in> tasks" "pid (pcbs s (Pcb i)) = n" using scan_up_Some [OF Some [unfolded find_pid_def]] by auto
    show ?thesis
    proof (cases "status (pcbs s (Pcb i)) = TASK_EXITED")
      case True
      then show ?thesis
        using step Some ok A(1) scheduler_sys_ok(1) by (auto simp: do_kill_def Let_def split: if_splits)
    next
      case False
      obtain s1 s2 s3 A3 where K: "unqueue_victim (Pcb i) s = Some s1"
        "release_locks (Pcb i) [0..<LOCK_MAX_NUM] (set_status (Pcb i) TASK_EXITED s1) = Some s2"
        "clear_waiting_queue (WaitingQ (Pcb i)) s2 = Some s3" "state_ok {} s3 A3"
        "current_running s3 = current_running s" "\<forall>j. pid (pcbs s3 j) = pid (pcbs s j)"
        "\<forall>j. j \<noteq> Pcb i \<and> j \<notin> queued A \<longrightarrow> status (pcbs s3 j) = status (pcbs s j)"
        using do_kill_state_ok [OF A(1) i(1) k [OF Some A(1)]] by blast
      have step': "(if pid (pcbs s3 (current_running s3)) = n then do_scheduler s3 else Some s3) = Some s'"
        using step Some False K(1-3) by (simp add: do_kill_def Let_def)
      have "running s3" if "pid (pcbs s (current_running s)) \<noteq> n" "current_running s \<noteq> Pcb i"
        using that K(5,7) A(2) kernel_inv_running(3) [OF state_okD(2) [OF A(1)]] by (auto simp: running_def)
      moreover have "current_running s \<noteq> Pcb i" if "pid (pcbs s (current_running s)) \<noteq> n"
        using that i(2) by auto
      ultimately show ?thesis
        using step' K(5,6) scheduler_sys_ok(1) [OF K(4)] sys_okI [OF K(4)] by (auto split: if_splits)
    qed
  qed
qed

section \<open>Boot and interrupts\<close>

lemma queues_rep_empty:
  "queues_rep s (\<lambda>_. []) \<longleftrightarrow> (\<forall>q. head (queues s q) = None \<and> tail (queues s q) = None)"
  by (simp add: queues_rep_def queue_rep_def)

lemma init_pcb_ok:
  assumes ts: "test_shell \<noteq> 0"
  shows "\<exists>s. init_pcb first_entry test_shell zero_kernel = Some s \<and>
    state_ok {} s ((\<lambda>_. [])(ReadyQ := [Pcb 1])) \<and> current_running s = PcbInit \<and>
    resume_at s = (\<lambda>_. Return)"
proof -
  let ?A = "(\<lambda>_. [])(ReadyQ := [Pcb 1]) :: qid \<Rightarrow> pcb_id list"
  define s1 where "s1 = init_pcb_tables first_entry test_shell zero_kernel"
  have q: "\<forall>q. head (queues s1 q) = None \<and> tail (queues s1 q) = None"
    and st: "\<forall>i. status (pcbs s1 (Pcb i)) = (if i = 1 then TASK_CREATED else if i < NUM_MAX_TASK then TASK_EXITED else TASK_BLOCKED)"
    and ep: "entry_point (pcbs s1 (Pcb 1)) = test_shell"
    and cur: "current_running s1 = PcbInit" and res: "resume_at s1 = (\<lambda>_. Return)"
    and sync: "\<forall>l. mutex_status s1 l = UNLOCKED" "sem_value s1 = (\<lambda>_. 0)" "max_num s1 = (\<lambda>_. 0)" "not_arrive_num s1 = (\<lambda>_. 0)"
    by (simp_all add: s1_def init_pcb_tables_def Let_def zero_kernel_def zero_pcb_def queue_init_def upd_queue_def)
  have "queues_rep s1 (\<lambda>_. [])" using q by (simp add: queues_rep_empty)
  then obtain s2 where s2: "queue_push ReadyQ (Pcb 1) s1 = Some s2" "queues_rep s2 ?A" "view s2 = view s1"
    using kq.push_list [of s1 "\<lambda>_. []" "Pcb 1" ReadyQ] by auto
  let ?s = "upd_pcb PcbInit (\<lambda>t. t\<lparr>status := TASK_CREATED, entry_point := 0, pid := 0\<rparr>) s2"
  have c2: "current_running s2 = PcbInit" using arg_cong [OF s2(3), of current_running] cur by simp
  have "status (pcbs s2 i) = status (pcbs s1 i)" "entry_point (pcbs s2 i) = entry_point (pcbs s1 i)" for i
    using arg_cong [OF s2(3), of "\<lambda>v. status (pcbs v i)"] arg_cong [OF s2(3), of "\<lambda>v. entry_point (pcbs v i)"] by simp_all
  then have "kernel_inv {} ?s ?A"
    using st ep ts c2 by (auto simp: kernel_inv_def queued_def tasks_def at_def)
  moreover have "sync_inv (view s2) ?A" unfolding s2(3) by (simp add: sync_inv_def sync)
  ultimately have "state_ok {} ?s ?A" using s2(2) by (simp add: state_ok_def)
  moreover have "init_pcb first_entry test_shell zero_kernel = Some ?s" using s2(1) c2 by (simp add: init_pcb_def s1_def)
  moreover have "resume_at s2 = (\<lambda>_. Return)" using arg_cong [OF s2(3), of resume_at] res by simp
  ultimately show ?thesis using c2 by (intro exI [of _ ?s]) simp
qed

lemma do_unblock_one_state_ok:
  assumes ok: "state_ok {} s A" and run: "running s" and q: "q = BlockQ \<or> q = RecvBlockQ"
  shows "\<exists>s' A'. do_unblock_one q s = Some s' \<and> state_ok {} s' A' \<and> running s' \<and>
    (\<forall>r. r \<noteq> q \<and> r \<noteq> ReadyQ \<longrightarrow> A' r = A r) \<and> same_sync s s' \<and> current_running s' = current_running s"
proof (cases "A q")
  case Nil
  then show ?thesis
    using do_unblock_one_empty [OF state_okD(1) [OF ok]] ok run
    by (intro exI [of _ s] exI [of _ A]) (simp add: same_sync_def)
next
  case (Cons x xs)
  define u where "u = peak (task_priority s) (A q)"
  have "A q \<noteq> []" using Cons by simp
  then have u: "u \<in> set (A q)" by (simp add: u_def peak_in)
  let ?A = "A(q := remove1 u (A q), ReadyQ := A ReadyQ @ [u])"
  obtain s' where s': "do_unblock_one q s = Some s'" "view s' = set_status u TASK_READY (view s)" "queues_rep s' ?A"
    using do_unblock_one_rep [OF state_okD(1) [OF ok], of q] q Cons by (auto simp: u_def)
  have "kernel_inv {} (view s) A" using state_okD(2) [OF ok] by simp
  from kernel_inv_wake [OF this u] have "kernel_inv {} (view s') ?A" unfolding s'(2) using q by auto
  moreover have "sync_inv (view s') ?A" unfolding s'(2) using q state_okD(3) [OF ok] by auto
  ultimately have "state_ok {} s' ?A" using s'(3) by (simp add: state_ok_def)
  moreover have "running s'"
    using arg_cong [OF s'(2), of "\<lambda>v. status (pcbs v (current_running v))"] run
      kernel_invD(8) [OF state_okD(2) [OF ok] u] by (auto simp: running_def split: if_splits)
  moreover have "same_sync s (view s')" unfolding s'(2) by (simp add: same_sync_def)
  moreover have "current_running s' = current_running s" using arg_cong [OF s'(2), of current_running] by simp
  ultimately show ?thesis using s'(1) by (intro exI [of _ s'] exI [of _ ?A]) simp
qed

lemma do_unblock_one_sys_ok:
  assumes "sys_ok s" and "q = BlockQ \<or> q = RecvBlockQ"
  shows "\<exists>s'. do_unblock_one q s = Some s' \<and> sys_ok s'"
proof -
  obtain A where "state_ok {} s A" "running s" using assms(1) by (rule sys_okE)
  from do_unblock_one_state_ok [OF this assms(2)] show ?thesis by (blast intro: sys_okI)
qed

lemma check_recv_block_queue_sys_ok:
  "sys_ok s \<Longrightarrow> \<exists>s'. check_recv_block_queue des0 s = Some s' \<and> sys_ok s'"
  using do_unblock_one_sys_ok [of s RecvBlockQ] by (auto simp: check_recv_block_queue_def)

lemma sys_ok_time [simp]: "sys_ok (s\<lparr>time_elapsed := w\<rparr>) = sys_ok s"
  by (simp add: sys_ok_def state_ok_def running_def sync_inv_def kernel_inv_def)

lemma sys_ok_upd_pcb [simp]:
  assumes "\<And>t. status (f t) = status t" and "\<And>t. entry_point (f t) = entry_point t"
    and "\<And>t. prev_ptr (f t) = prev_ptr t" and "\<And>t. next_ptr (f t) = next_ptr t"
  shows "sys_ok (upd_pcb i f s) = sys_ok s"
  by (simp add: sys_ok_def state_ok_def assms)

lemma irq_timer_sys_ok:
  assumes ok: "sys_ok s" and step: "irq_timer des0 s = Some s'"
  shows "sys_ok s'"
proof -
  obtain s1 where s1: "check_recv_block_queue des0 (s\<lparr>time_elapsed := time_elapsed s + 15\<rparr>) = Some s1" "sys_ok s1"
    using check_recv_block_queue_sys_ok [of "s\<lparr>time_elapsed := time_elapsed s + 15\<rparr>"] ok by auto
  let ?s = "upd_pcb (current_running s1) (\<lambda>t. t\<lparr>mode := KERNEL_MODE\<rparr>) s1"
  have "sys_ok ?s" using s1(2) by simp
  then obtain A where "state_ok {} ?s A" by (rule sys_okE)
  then have "sys_ok s2" if "do_scheduler ?s = Some s2" for s2 using that scheduler_sys_ok(1) by blast
  then show ?thesis
    using step s1 by (auto simp: irq_timer_def Let_def split: if_splits Option.bind_splits)
qed

lemma do_spawn_sys_ok:
  assumes ok: "sys_ok s" and ep: "info_entry_point info \<noteq> 0"
  shows "\<exists>s'. do_spawn first_entry info s = Some s' \<and> sys_ok s'"
proof -
  obtain A where A: "state_ok {} s A" "running s" using ok by (rule sys_okE)
  obtain s' A' where s': "do_spawn first_entry info s = Some s'" "queues_rep s' A'" "kernel_inv {} s' A'"
    "current_running s' = current_running s" "same_sync s s'" "\<And>q. q \<noteq> ReadyQ \<Longrightarrow> A' q = A q"
    "\<And>j. (\<exists>i. find_exited s = Some i \<and> j = Pcb i) \<or> status (pcbs s' j) = status (pcbs s j)"
    using do_spawn_ok [OF state_okD(1,2) [OF A(1)] ep] by blast
  have "sync_inv s' A'" 
    by (rule sync_inv_same [OF s'(5) _ state_okD(3) [OF A(1)]]) (rule s'(6))
  then have "state_ok {} s' A'" using s'(2,3) by (simp add: state_ok_def)
  moreover have "status (pcbs s (Pcb i)) = TASK_EXITED" if "find_exited s = Some i" for i
    using scan_up_Some [OF that [unfolded find_exited_def]] by simp
  then have "running s'" using s'(4) s'(7) [of "current_running s"] A(2) by (auto simp: running_def)
  ultimately show ?thesis using s'(1) by (auto intro: sys_okI)
qed

text \<open>\<^verbatim>\<open>do_ps\<close> writes its table only.\<close>

lemma ps_loop_frame: "ps_loop st js i s = Some (k, s') \<Longrightarrow> \<exists>ps. s' = s\<lparr>ProcessShow := ps\<rparr>"
proof (induction st js i s arbitrary: k s' rule: ps_loop.induct)
  case (1 st i s)
  then have "s' = s\<lparr>ProcessShow := ProcessShow s\<rparr>" by simp
  then show ?case by blast
next
  case (2 st j js i s)
  show ?case
  proof (cases "status (pcbs s (Pcb j)) = st")
    case True
    then obtain ps where ps: "ps_loop st js (i + 1) (s\<lparr>ProcessShow := ps\<rparr>) = Some (k, s')"
      "store (ProcessShow s) i (show_entry i (pcbs s (Pcb j))) = Some ps"
      using "2.prems" by (auto split: Option.bind_splits)
    from "2.IH"(1) [OF True ps(2) ps(1)] show ?thesis by auto
  next
    case False
    then show ?thesis using 2 by auto
  qed
qed

lemma sys_ok_ProcessShow [simp]: "sys_ok (s\<lparr>ProcessShow := ps\<rparr>) = sys_ok s"
  by (simp add: sys_ok_def state_ok_def running_def sync_inv_def kernel_inv_def)

lemma do_ps_frame: "do_ps s = Some s' \<Longrightarrow> \<exists>ps. s' = s\<lparr>ProcessShow := ps\<rparr>"
  unfolding do_ps_def Let_def
  by (auto split: Option.bind_splits dest!: ps_loop_frame) (rule exI, rule refl)

section \<open>The kernel as a transition system\<close>

text \<open>
  System calls come from the running task when it is not in the middle of a call. The guards are the
  assumptions on user programs: objects are initialised while nobody waits on them, barriers are
  initialised before use, a spawned program has an entry point, and a victim of a kill is not
  blocked on anything but a mutex of the table.
\<close>

definition in_user :: "kernel \<Rightarrow> bool" where
  "in_user s \<longleftrightarrow> resume_at s (current_running s) = Return"

definition kill_guard :: "u32 \<Rightarrow> kernel \<Rightarrow> bool" where
  "kill_guard n s = (case find_pid n s of
     None \<Rightarrow> True
   | Some i \<Rightarrow> status (pcbs s (Pcb i)) = TASK_BLOCKED \<longrightarrow>
       list_ex (\<lambda>l. check_in_queue (MutexQ l) (Pcb i) s = Some True) (take MAX_LOCK_NUM_TOTAL (Lock s)))"

inductive kernel_step :: "kernel \<Rightarrow> kernel \<Rightarrow> bool" where
  step_sleep: "in_user s \<Longrightarrow> do_sleep t s = Some s' \<Longrightarrow> kernel_step s s'"
| step_block: "in_user s \<Longrightarrow> q = BlockQ \<or> q = RecvBlockQ \<Longrightarrow> do_block q s = Some s' \<Longrightarrow> kernel_step s s'"
| step_unblock: "in_user s \<Longrightarrow> q = BlockQ \<or> q = RecvBlockQ \<Longrightarrow> do_unblock_one q s = Some s' \<Longrightarrow> kernel_step s s'"
| step_mutex_init: "in_user s \<Longrightarrow> queue_is_empty (MutexQ l) s \<Longrightarrow> kernel_step s (do_mutex_lock_init l s)"
| step_acquire: "in_user s \<Longrightarrow> do_mutex_lock_acquire l s = Some s' \<Longrightarrow> kernel_step s s'"
| step_release: "in_user s \<Longrightarrow> do_mutex_lock_release l s = Some s' \<Longrightarrow> kernel_step s s'"
| step_sem_init: "in_user s \<Longrightarrow> queue_is_empty (SemQ m) s \<Longrightarrow> kernel_step s (do_semaphore_init m v s)"
| step_up: "in_user s \<Longrightarrow> do_semaphore_up m s = Some s' \<Longrightarrow> kernel_step s s'"
| step_down: "in_user s \<Longrightarrow> do_semaphore_down m s = Some s' \<Longrightarrow> kernel_step s s'"
| step_cond_init: "in_user s \<Longrightarrow> queue_is_empty (CondQ c) s \<Longrightarrow> kernel_step s (do_condition_init c s)"
| step_wait: "in_user s \<Longrightarrow> do_condition_wait l c s = Some s' \<Longrightarrow> kernel_step s s'"
| step_signal: "in_user s \<Longrightarrow> do_condition_signal c s = Some s' \<Longrightarrow> kernel_step s s'"
| step_broadcast: "in_user s \<Longrightarrow> do_condition_broadcast c s = Some s' \<Longrightarrow> kernel_step s s'"
| step_barrier_init: "in_user s \<Longrightarrow> queue_is_empty (BarrierQ b) s \<Longrightarrow> kernel_step s (do_barrier_init b g s)"
| step_barrier: "in_user s \<Longrightarrow> max_num s b \<noteq> 0 \<Longrightarrow> do_barrier_wait b s = Some s' \<Longrightarrow> kernel_step s s'"
| step_spawn: "in_user s \<Longrightarrow> info_entry_point info \<noteq> 0 \<Longrightarrow> do_spawn fe info s = Some s' \<Longrightarrow> kernel_step s s'"
| step_exit: "in_user s \<Longrightarrow> do_exit s = Some s' \<Longrightarrow> kernel_step s s'"
| step_waitpid: "in_user s \<Longrightarrow> do_waitpid n s = Some s' \<Longrightarrow> kernel_step s s'"
| step_kill: "in_user s \<Longrightarrow> kill_guard n s \<Longrightarrow> do_kill n s = Some s' \<Longrightarrow> kernel_step s s'"
| step_ps: "in_user s \<Longrightarrow> do_ps s = Some s' \<Longrightarrow> kernel_step s s'"
| step_wait_recv: "in_user s \<Longrightarrow> do_wait_recv_package d s = Some s' \<Longrightarrow> kernel_step s s'"
| step_resume: "\<not> in_user s \<Longrightarrow> resume s = Some s' \<Longrightarrow> kernel_step s s'"
| step_timer: "irq_timer d s = Some s' \<Longrightarrow> kernel_step s s'"
| step_mac: "irq_mac s = Some s' \<Longrightarrow> kernel_step s s'"

inductive reachable :: "u32 \<Rightarrow> u32 \<Rightarrow> kernel \<Rightarrow> bool" for fe :: u32 and shell :: u32 where
  boot: "init_pcb fe shell zero_kernel = Some s0 \<Longrightarrow> do_scheduler s0 = Some s \<Longrightarrow> reachable fe shell s"
| step: "reachable fe shell s \<Longrightarrow> kernel_step s s' \<Longrightarrow> reachable fe shell s'"

inductive_cases kernel_stepE: "kernel_step s s'"

lemma kernel_step_sys_ok:
  assumes "kernel_step s s'" and ok: "sys_ok s"
  shows "sys_ok s'"
proof -
  obtain A where A: "state_ok {} s A" "running s" using ok by (rule sys_okE)
  note E = queue_is_empty_rep [OF state_okD(1) [OF A(1)]]
  show ?thesis
    using assms(1)
  proof cases
    case (step_sleep t)
    then show ?thesis using ok do_sleep_sys_ok by blast
  next
    case (step_block q)
    have "sync_inv s (A(q := A q @ [current_running s]))" using step_block(2) state_okD(3) [OF A(1)] by auto
    then show ?thesis using do_block_state_ok [OF A, of q s'] step_block by auto
  next
    case (step_unblock q)
    then show ?thesis using do_unblock_one_sys_ok [OF ok, of q] by auto
  next
    case (step_mutex_init l)
    then show ?thesis using do_mutex_lock_init_sys_ok [OF A] E by simp
  next
    case (step_acquire l)
    then show ?thesis using ok do_mutex_lock_acquire_sys_ok by blast
  next
    case (step_release l)
    then show ?thesis using do_mutex_lock_release_sys_ok [OF ok, of l] by auto
  next
    case (step_sem_init m v)
    then show ?thesis using do_semaphore_init_sys_ok [OF A] E by simp
  next
    case (step_up m)
    then show ?thesis using do_semaphore_up_sys_ok [OF ok, of m] by auto
  next
    case (step_down m)
    then show ?thesis using ok do_semaphore_down_sys_ok by blast
  next
    case (step_cond_init c)
    then show ?thesis using do_condition_init_sys_ok [OF A] E by simp
  next
    case (step_wait l c)
    then show ?thesis using ok do_condition_wait_sys_ok by blast
  next
    case (step_signal c)
    then show ?thesis using do_condition_signal_sys_ok [OF ok, of c] by auto
  next
    case (step_broadcast c)
    then show ?thesis using do_condition_broadcast_sys_ok [OF ok, of c] by auto
  next
    case (step_barrier_init b g)
    then show ?thesis using do_barrier_init_sys_ok [OF A] E by simp
  next
    case (step_barrier b)
    then show ?thesis using ok do_barrier_wait_sys_ok by blast
  next
    case (step_spawn info fe)
    then show ?thesis using do_spawn_sys_ok [OF ok, of info fe] by auto
  next
    case step_exit
    then show ?thesis using ok do_exit_sys_ok by blast
  next
    case (step_waitpid n)
    then show ?thesis using ok do_waitpid_sys_ok by blast
  next
    case (step_kill n)
    have "killable (Pcb i) s B" if "find_pid n s = Some i" "state_ok {} s B" for i B
      using that step_kill(2) kq.member_list [OF state_okD(1) [OF that(2)]]
      by (auto simp: killable_def kill_guard_def list_ex_iff)
    then show ?thesis using do_kill_sys_ok [OF ok step_kill(3)] by blast
  next
    case step_ps
    then show ?thesis using do_ps_frame [of s s'] ok by auto
  next
    case (step_wait_recv d)
    have "sync_inv s (A(RecvBlockQ := A RecvBlockQ @ [current_running s]))" using state_okD(3) [OF A(1)] by simp
    then show ?thesis
      using do_block_state_ok [OF A, of RecvBlockQ s'] step_wait_recv ok
      by (auto simp: do_wait_recv_package_def split: if_splits)
  next
    case step_resume
    then show ?thesis using ok resume_sys_ok by blast
  next
    case (step_timer d)
    then show ?thesis using ok irq_timer_sys_ok by blast
  next
    case step_mac
    then show ?thesis using do_unblock_one_sys_ok [OF ok, of RecvBlockQ] by (auto simp: irq_mac_def)
  qed
qed

lemma reachable_sys_ok:
  assumes "reachable fe shell s" and "shell \<noteq> 0"
  shows "sys_ok s"
  using assms(1)
proof induction
  case (boot s0 s)
  then show ?case using init_pcb_ok [OF assms(2), of fe] scheduler_sys_ok(1) by auto
next
  case (step s s')
  then show ?case using kernel_step_sys_ok by blast
qed

section \<open>The state after boot\<close>

lemma boot_run:
  assumes ts: "shell \<noteq> 0"
  obtains s0 s where "init_pcb fe shell zero_kernel = Some s0" and "do_scheduler s0 = Some s"
    and "reachable fe shell s" and "state_ok {} s (\<lambda>_. [])" and "running s"
    and "current_running s = Pcb 1" and "in_user s"
proof -
  let ?A = "(\<lambda>_. [])(ReadyQ := [Pcb 1]) :: qid \<Rightarrow> pcb_id list"
  obtain s0 where s0: "init_pcb fe shell zero_kernel = Some s0" "state_ok {} s0 ?A" "current_running s0 = PcbInit"
    "resume_at s0 = (\<lambda>_. Return)"
    using init_pcb_ok [OF ts] by blast
  have nr: "status (pcbs s0 PcbInit) \<noteq> TASK_RUNNING" using state_okD(2) [OF s0(2)] by (simp add: kernel_inv_def)
  have e: "?A(ReadyQ := []) = (\<lambda>_. [])" by auto
  obtain v where v: "sched_spec (view s0) ?A = Some (v, \<lambda>_. [])" "current_running v = Pcb 1"
    using s0(3) nr e by (simp add: sched_spec_def requeue_def awake_def Let_def switch_to_def)
  have "status (pcbs s0 (current_running s0)) = TASK_RUNNING \<Longrightarrow> current_running s0 \<notin> queued ?A"
    using nr s0(3) by simp
  from scheduler_refines [OF state_okD(1) [OF s0(2)] this]
  obtain s where s: "scheduler s0 = Some s" "queues_rep s (\<lambda>_. [])" "view s = v" using v(1) by auto
  have ok: "sys_ok s" using scheduler_sys_ok(1) [OF s0(2)] s(1) by (simp add: do_scheduler_def)
  then obtain B where B: "state_ok {} s B" "running s" by (rule sys_okE)
  have "B q = []" for q
    using queues_repD(2) [OF state_okD(1) [OF B(1)], of q] queues_repD(2) [OF s(2), of q]
    by (metis first_ptr_None)
  then have "B = (\<lambda>_. [])" by auto
  moreover have "reachable fe shell s" using s0(1) s(1) by (intro reachable.boot) (simp_all add: do_scheduler_def)
  moreover have "current_running s = Pcb 1" using v(2) s(3) by (metis view_sel(1))
  moreover have "in_user s"
    using scheduler_sys_ok(2) [OF s0(2), of s] s(1) s0(4) by (simp add: do_scheduler_def same_sync_def in_user_def)
  moreover have "do_scheduler s0 = Some s" using s(1) by (simp add: do_scheduler_def)
  ultimately show thesis using s0(1) B that by blast
qed

lemma boot_state:
  assumes "shell \<noteq> 0"
  obtains s where "reachable fe shell s" and "state_ok {} s (\<lambda>_. [])" and "running s"
    and "current_running s = Pcb 1" and "in_user s"
  using boot_run [OF assms] that by metis

text \<open>The tasks the scheduler can choose from.\<close>

definition candidates :: "kernel \<Rightarrow> (qid \<Rightarrow> pcb_id list) \<Rightarrow> pcb_id list" where
  "candidates s A = A ReadyQ @ (if running s then [current_running s] else []) @
     (case find (expired s) (A SleepingQ) of None \<Rightarrow> [] | Some x \<Rightarrow> [x])"

lemma candidates_spec:
  assumes inv: "kernel_inv {} s A"
  shows "snd (awake (fst (requeue s A)) (snd (requeue s A))) ReadyQ = candidates s A"
proof -
  have ep: "entry_point (pcbs s (current_running s)) \<noteq> 0" if "running s"
    using that kernel_inv_running(1) [OF inv] kernel_invD(5) [OF inv] by (simp add: running_def)
  have "expired (fst (requeue s A)) = expired s"
    by (rule ext) (simp add: expired_def requeue_def Let_def get_timer_def)
  then show ?thesis
    using ep by (auto simp: candidates_def awake_def requeue_def Let_def running_def split: option.splits)
qed

section \<open>Runs of one mutex\<close>

lemma do_block_mutex_status:
  assumes ok: "state_ok {} s A" and run: "running s" and q: "q \<noteq> ReadyQ" "q \<noteq> SleepingQ" "\<And>i. q \<noteq> WaitingQ i"
    and sync: "sync_inv s (A(q := A q @ [current_running s]))" and step: "do_block q s = Some s'"
  shows "mutex_status s' = mutex_status s"
proof -
  let ?c = "current_running s"
  obtain s1 B where s1: "queue_push q ?c (set_status ?c TASK_BLOCKED s) = Some s1" "state_ok {} s1 B"
    "view s1 = set_status ?c TASK_BLOCKED (view s)"
    using leave_state_ok [OF state_okD(1,2) [OF ok] run, of TASK_BLOCKED q] sync q by auto
  then have "do_scheduler s1 = Some s'" using step run by (simp add: do_block_def Let_def running_def)
  from scheduler_sys_ok(2) [OF s1(2) this] have "mutex_status s' = mutex_status s1" by (simp add: same_sync_def)
  then show ?thesis using arg_cong [OF s1(3), of mutex_status] by simp
qed

lemma do_mutex_lock_acquire_status:
  assumes ok: "sys_ok s" and step: "do_mutex_lock_acquire l s = Some s'"
  shows "mutex_status s' = (mutex_status s)(l := LOCKED)"
proof (cases "mutex_status s l = LOCKED")
  case True
  obtain A where A: "state_ok {} s A" "running s" using ok by (rule sys_okE)
  let ?s = "s\<lparr>resume_at := (resume_at s)(current_running s := Acquire l)\<rparr>"
  have "state_ok {} ?s A" and "running ?s" using A by (simp_all add: state_ok_def sync_inv_def running_def)
  moreover have "sync_inv ?s (A(MutexQ l := A (MutexQ l) @ [current_running ?s]))"
    using True state_okD(3) [OF A(1)] by (simp add: sync_inv_def)
  ultimately have "mutex_status s' = mutex_status ?s"
    using do_block_mutex_status [of ?s A "MutexQ l" s'] step True by (simp add: do_mutex_lock_acquire_def)
  then show ?thesis using True by (metis fun_upd_triv kernel.select_convs(14) kernel.surjective kernel.update_convs(4))
next
  case False
  then show ?thesis
    using step by (auto simp: do_mutex_lock_acquire_def take_lock_def set_mutex_def Let_def split: option.splits)
qed

text \<open>
  The runs in which a mutex is released by its holder only. The set contains the tasks that have
  acquired the mutex and not released it. A task acquires it when its call, or the rest of its call
  after a wake-up, finds it free; any other step of the kernel may happen as long as it leaves the mutex
  as it is.
\<close>

inductive lock_run :: "u32 \<Rightarrow> u32 \<Rightarrow> mutex_id \<Rightarrow> kernel \<Rightarrow> pcb_id set \<Rightarrow> bool"
  for fe :: u32 and shell :: u32 and l :: mutex_id where
  run_init: "reachable fe shell s \<Longrightarrow> in_user s \<Longrightarrow> queue_is_empty (MutexQ l) s \<Longrightarrow>
    lock_run fe shell l (do_mutex_lock_init l s) {}"
| run_acquire: "lock_run fe shell l s H \<Longrightarrow> in_user s \<Longrightarrow> do_mutex_lock_acquire l s = Some s' \<Longrightarrow>
    lock_run fe shell l s' (if mutex_status s l = LOCKED then H else insert (current_running s) H)"
| run_resume: "lock_run fe shell l s H \<Longrightarrow> resume_at s (current_running s) = Acquire l \<Longrightarrow> resume s = Some s' \<Longrightarrow>
    lock_run fe shell l s' (if mutex_status s l = LOCKED then H else insert (current_running s) H)"
| run_release: "lock_run fe shell l s H \<Longrightarrow> in_user s \<Longrightarrow> current_running s \<in> H \<Longrightarrow>
    do_mutex_lock_release l s = Some s' \<Longrightarrow> lock_run fe shell l s' (H - {current_running s})"
| run_other: "lock_run fe shell l s H \<Longrightarrow> kernel_step s s' \<Longrightarrow> mutex_status s' l = mutex_status s l \<Longrightarrow>
    lock_run fe shell l s' H"

lemma lock_run_reachable: "lock_run fe shell l s H \<Longrightarrow> reachable fe shell s"
proof (induction rule: lock_run.induct)
  case (run_resume s H s')
  then show ?case by (intro reachable.step [OF run_resume.IH] step_resume) (auto simp: in_user_def)
qed (blast intro: reachable.step kernel_step.intros)+

lemma lock_run_holders:
  assumes "lock_run fe shell l s H" and shell: "shell \<noteq> 0"
  shows "if mutex_status s l = LOCKED then \<exists>p. H = {p} else H = {}"
  using assms(1)
proof induction
  case (run_init s)
  then show ?case by (simp add: do_mutex_lock_init_def set_mutex_def queue_init_def upd_queue_def)
next
  case (run_acquire s H s')
  have "sys_ok s" using reachable_sys_ok [OF lock_run_reachable [OF run_acquire.hyps(1)] shell] .
  from do_mutex_lock_acquire_status [OF this run_acquire.hyps(3)] show ?case
    using run_acquire.IH by (auto split: if_splits)
next
  case (run_resume s H s')
  let ?s = "s\<lparr>resume_at := (resume_at s)(current_running s := Return)\<rparr>"
  have "sys_ok ?s" using reachable_sys_ok [OF lock_run_reachable [OF run_resume.hyps(1)] shell] by simp
  from do_mutex_lock_acquire_status [OF this, of l s'] show ?case
    using run_resume.IH run_resume.hyps by (auto simp: resume_def split: if_splits)
next
  case (run_release s H s')
  have "sys_ok s" using reachable_sys_ok [OF lock_run_reachable [OF run_release.hyps(1)] shell] .
  then obtain A where "state_ok {} s A" by (rule sys_okE)
  from do_mutex_lock_release_state_ok [OF this, of l] have "mutex_status s' l = UNLOCKED"
    using run_release.hyps(4) by auto
  then show ?case using run_release.IH run_release.hyps(3) by (auto split: if_splits)
next
  case (run_other s H s')
  then show ?case by simp
qed

lemma lock_taken:
  "\<exists>s A. lock_run 1 2 Lock1 s {Pcb 1} \<and> state_ok {} s A \<and> mutex_status s Lock1 = LOCKED"
proof -
  obtain s where s: "reachable 1 2 s" "state_ok {} s (\<lambda>_. [])" "running s" "current_running s = Pcb 1" "in_user s"
    using boot_state [of 2 1] by auto
  let ?s = "do_mutex_lock_init Lock1 s"
  have e: "queue_is_empty (MutexQ Lock1) s" using queue_is_empty_rep [OF state_okD(1) [OF s(2)]] by simp
  have r: "lock_run 1 2 Lock1 ?s {}" using s(1,5) e by (rule run_init)
  have f: "in_user ?s" "mutex_status ?s Lock1 = UNLOCKED" "current_running ?s = Pcb 1"
    using s(4,5) by (simp_all add: in_user_def do_mutex_lock_init_def set_mutex_def queue_init_def upd_queue_def)
  have a: "do_mutex_lock_acquire Lock1 ?s = Some (take_lock Lock1 ?s)" using f(2) by (simp add: do_mutex_lock_acquire_def)
  have "lock_run 1 2 Lock1 (take_lock Lock1 ?s) {Pcb 1}" using run_acquire [OF r f(1) a] f(2,3) by simp
  moreover have "sys_ok (take_lock Lock1 ?s)"
    using do_mutex_lock_acquire_sys_ok [OF _ a] do_mutex_lock_init_sys_ok [OF s(2,3)] by simp
  moreover have "mutex_status (take_lock Lock1 ?s) Lock1 = LOCKED"
    by (simp add: take_lock_def set_mutex_def Let_def split: option.splits)
  ultimately show ?thesis by (meson sys_okE)
qed

section \<open>Properties\<close>



text \<open>
  Claim C2. In a well-formed state \<^verbatim>\<open>scheduler\<close> fails exactly when it has nothing to choose from:
  no ready task, no running task to put back and no sleeper whose time has come. Otherwise it ends,
  and the task it switches to is the last of the first strictly rising run of priorities among the
  candidates, in their order; that task is running, all other candidates are on the ready queue in
  their order, and every queue but the ready and the sleeping queue is as before.
\<close>

theorem scheduler_selects:
  assumes "queues_rep s A" and "kernel_inv {} s A"
  shows "(scheduler s = None \<longleftrightarrow> candidates s A = []) \<and>
    (\<forall>s'. scheduler s = Some s' \<longrightarrow>
       running s' \<and> (\<exists>A' ys zs. queues_rep s' A' \<and> kernel_inv {} s' A' \<and>
         candidates s A = ys @ current_running s' # zs \<and> A' ReadyQ = ys @ zs \<and>
         sorted_wrt (\<lambda>x y. task_priority s x < task_priority s y) (ys @ [current_running s']) \<and>
         (zs \<noteq> [] \<longrightarrow> task_priority s (hd zs) \<le> task_priority s (current_running s')) \<and>
         (\<forall>q. q \<noteq> ReadyQ \<and> q \<noteq> SleepingQ \<longrightarrow> A' q = A q)))"
proof -
  let ?v = "fst (awake (fst (requeue (view s) A)) (snd (requeue (view s) A)))"
  let ?A = "snd (awake (fst (requeue (view s) A)) (snd (requeue (view s) A)))"
  let ?n = "peak (task_priority s) (candidates s A)"
  have inv: "kernel_inv {} (view s) A" using assms(2) by simp
  have c: "status (pcbs s (current_running s)) = TASK_RUNNING \<Longrightarrow> current_running s \<notin> queued A"
    using kernel_inv_running(3) [OF assms(2)] by simp
  have cand: "?A ReadyQ = candidates s A"
    using candidates_spec [OF inv] by (simp add: candidates_def running_def)
  have prio: "task_priority ?v = task_priority s"
    by (rule ext) (simp add: awake_def requeue_def Let_def split: option.splits)
  have spec: "sched_spec (view s) A = (if candidates s A = [] then None
      else Some (switch_to ?n ?v, ?A(ReadyQ := remove1 ?n (candidates s A))))"
    by (simp add: sched_spec_def split_def Let_def cand prio)
  have R: "case sched_spec (view s) A of None \<Rightarrow> scheduler s = None
      | Some (v', A') \<Rightarrow> \<exists>s'. scheduler s = Some s' \<and> queues_rep s' A' \<and> view s' = v'"
    using assms(1) c by (rule scheduler_refines)
  show ?thesis
  proof (cases "candidates s A = []")
    case True
    then show ?thesis using R spec by simp
  next
    case False
    let ?A' = "?A(ReadyQ := remove1 ?n (candidates s A))"
    obtain s' where s': "scheduler s = Some s'" "queues_rep s' ?A'" "view s' = switch_to ?n ?v"
      using R spec False by auto
    have sp: "sched_spec (view s) A = Some (switch_to ?n ?v, ?A')" using spec False by simp
    note K = kernel_inv_sched [OF inv sp] and F = sched_spec_frame(1) [OF sp]
    have n: "current_running s' = ?n"
      using arg_cong [OF s'(3), of current_running] by (simp add: switch_to_def Let_def)
    obtain ys zs where yz: "candidates s A = ys @ ?n # zs"
      "sorted_wrt (\<lambda>x y. task_priority s x < task_priority s y) (ys @ [?n])"
      "zs \<noteq> [] \<longrightarrow> task_priority s (hd zs) \<le> task_priority s ?n"
      using peak_split [OF False, of "task_priority s"] by blast
    have "?n \<notin> set ys" using yz(2) by (auto simp: sorted_wrt_append)
    then have R': "?A' ReadyQ = ys @ zs" by (subst yz(1)) (simp add: remove1_append)
    have "kernel_inv {} s' ?A'" using K(1) s'(3) by (metis kernel_inv_view)
    then have "\<exists>A' ys zs. queues_rep s' A' \<and> kernel_inv {} s' A' \<and>
         candidates s A = ys @ current_running s' # zs \<and> A' ReadyQ = ys @ zs \<and>
         sorted_wrt (\<lambda>x y. task_priority s x < task_priority s y) (ys @ [current_running s']) \<and>
         (zs \<noteq> [] \<longrightarrow> task_priority s (hd zs) \<le> task_priority s (current_running s')) \<and>
         (\<forall>q. q \<noteq> ReadyQ \<and> q \<noteq> SleepingQ \<longrightarrow> A' q = A q)"
      using s'(2) yz R' F unfolding n by blast
    moreover have "running s'" using K(2) s'(3) unfolding running_def by (metis view_sel(1,16))
    ultimately show ?thesis using s'(1) False by simp
  qed
qed

theorem scheduler_selects_witness:
  "\<exists>s A. queues_rep s A \<and> kernel_inv {} s A \<and> scheduler s \<noteq> None"
proof -
  obtain s where s: "state_ok {} s (\<lambda>_. [])" "running s"
    using boot_state [of 1 0] by auto
  then have "candidates s (\<lambda>_. []) \<noteq> []" by (simp add: candidates_def)
  then show ?thesis
    using scheduler_selects [OF state_okD(1,2) [OF s(1)]] state_okD(1,2) [OF s(1)] by blast
qed

text \<open>
  Claim C10. The semaphore operations implement a counter with a queue. \<^verbatim>\<open>do_semaphore_up\<close> always
  returns; it adds one to the counter when nobody waits, and otherwise makes the longest waiting task
  ready and leaves the counter. \<^verbatim>\<open>do_semaphore_down\<close> takes one from a positive counter and returns;
  at zero it appends the caller to the queue and calls the scheduler.
\<close>

theorem semaphore_refines:
  assumes "state_ok {} s A" and "running s"
  shows "(\<exists>s' A'. do_semaphore_up m s = Some s' \<and> state_ok {} s' A' \<and> running s' \<and>
      (sem_value s' m, A' (SemQ m)) = sem_up_spec (sem_value s m, A (SemQ m)) \<and>
      (\<forall>x xs. A (SemQ m) = x # xs \<longrightarrow> status (pcbs s' x) = TASK_READY \<and> A' ReadyQ = A ReadyQ @ [x])) \<and>
    (\<exists>s1 A1. state_ok {} s1 A1 \<and>
      (sem_value s1 m, A1 (SemQ m)) = sem_down_spec (current_running s) (sem_value s m, A (SemQ m)) \<and>
      do_semaphore_down m s = (if sem_value s m = 0 then do_scheduler s1 else Some s1))"
  using do_semaphore_up_state_ok [OF assms] do_semaphore_down_state_ok [OF assms] by blast

theorem semaphore_refines_witness:
  "\<exists>s A s'. state_ok {} s A \<and> do_semaphore_up (UserSem 0) s = Some s' \<and> sem_value s' (UserSem 0) = sem_value s (UserSem 0) + 1"
proof -
  obtain s where s: "state_ok {} s (\<lambda>_. [])" "running s" using boot_state [of 1 0] by auto
  show ?thesis
    using semaphore_refines [OF s, of "UserSem 0"] s(1) by (auto simp: sem_up_spec_def)
qed

text \<open>
  Claim C12. At an initialised barrier, a task that is not the last one expected is queued on the
  barrier, the count of missing tasks goes down by one and the scheduler is called; the last one
  expected does not block, makes all waiting tasks ready in their order of arrival and resets the count
  to the goal.
\<close>

theorem barrier_releases_all:
  assumes "state_ok {} s A" and "running s" and "max_num s b \<noteq> 0"
  shows "if not_arrive_num s b = 1
    then \<exists>s'. do_barrier_wait b s = Some s' \<and> running s' \<and> current_running s' = current_running s \<and>
      state_ok {} s' (A(BarrierQ b := [], ReadyQ := A ReadyQ @ A (BarrierQ b))) \<and>
      not_arrive_num s' b = max_num s b \<and> (\<forall>i \<in> set (A (BarrierQ b)). status (pcbs s' i) = TASK_READY)
    else \<exists>s1. do_barrier_wait b s = do_scheduler s1 \<and>
      state_ok {} s1 (A(BarrierQ b := A (BarrierQ b) @ [current_running s])) \<and>
      not_arrive_num s1 b = not_arrive_num s b - 1"
  using do_barrier_wait_last [OF assms(1,2)] do_barrier_wait_early [OF assms(1,2) _ assms(3)] by auto

theorem barrier_releases_all_witness:
  "\<exists>s A s'. state_ok {} s A \<and> do_barrier_wait 0 (do_barrier_init 0 1 s) = Some s' \<and> not_arrive_num s' 0 = 1"
proof -
  obtain s where s: "state_ok {} s (\<lambda>_. [])" "running s" using boot_state [of 1 0] by auto
  let ?s = "do_barrier_init 0 1 s"
  have "sys_ok ?s" using do_barrier_init_sys_ok [OF s] by simp
  then obtain B where B: "state_ok {} ?s B" "running ?s" by (rule sys_okE)
  have "not_arrive_num ?s 0 = 1" "max_num ?s 0 = 1"
    by (simp_all add: do_barrier_init_def queue_init_def upd_queue_def)
  then show ?thesis using barrier_releases_all [OF B, of 0] s(1) by auto
qed



text \<open>
  Claim C13. Releasing a held mutex always returns; the mutex is free, every task that waited for it is
  on the ready queue and ready, and no other task changes its status.
\<close>

theorem release_wakes_waiters:
  assumes "state_ok {} s A" and "mutex_status s l = LOCKED"
  shows "\<exists>s' xs. do_mutex_lock_release l s = Some s' \<and> mset xs = mset (A (MutexQ l)) \<and>
    state_ok {} s' (A(MutexQ l := [], ReadyQ := A ReadyQ @ xs)) \<and> mutex_status s' l = UNLOCKED \<and>
    current_running s' = current_running s \<and>
    (\<forall>i. status (pcbs s' i) = (if i \<in> set (A (MutexQ l)) then TASK_READY else status (pcbs s i)))"
proof -
  obtain s' xs where s': "do_mutex_lock_release l s = Some s'" "mset xs = mset (A (MutexQ l))"
    "queues_rep s' (A(MutexQ l := [], ReadyQ := A ReadyQ @ xs))"
    "kernel_inv {} s' (A(MutexQ l := [], ReadyQ := A ReadyQ @ xs))" "same_sync (set_mutex l UNLOCKED s) s'"
    "current_running s' = current_running s"
    "\<forall>i. status (pcbs s' i) = (if i \<in> set (A (MutexQ l)) then TASK_READY else status (pcbs s i))"
    using do_mutex_lock_release_rep [OF state_okD(1,2) [OF assms(1)] assms(2)] by blast
  have "sync_inv s' (A(MutexQ l := [], ReadyQ := A ReadyQ @ xs))"
    using state_okD(3) [OF assms(1)] s'(5) by (auto simp: sync_inv_def same_sync_def set_mutex_def)
  then show ?thesis
    using s' by (intro exI [of _ s'] exI [of _ xs]) (simp add: state_ok_def same_sync_def set_mutex_def)
qed

theorem release_wakes_waiters_witness:
  "\<exists>s A s'. state_ok {} s A \<and> mutex_status s Lock1 = LOCKED \<and> do_mutex_lock_release Lock1 s = Some s' \<and>
     mutex_status s' Lock1 = UNLOCKED"
proof -
  obtain s A where s: "state_ok {} s A" "mutex_status s Lock1 = LOCKED" using lock_taken by blast
  then show ?thesis using release_wakes_waiters [OF s] by blast
qed



text \<open>
  A task blocked on a semaphore is not found by \<^verbatim>\<open>do_kill\<close>: it stays on the semaphore's queue.
\<close>

lemma kill_misses_semaphore_waiter:
  assumes "queues_rep s A" and "p \<in> set (A (SemQ m))" and "status (pcbs s p) = TASK_BLOCKED"
  shows "\<exists>s' A'. unqueue_victim p s = Some s' \<and> queues_rep s' A' \<and> p \<in> set (A' (SemQ m))"
proof -
  let ?A = "\<lambda>q. if \<exists>l \<in> set (take MAX_LOCK_NUM_TOTAL (Lock s)). q = MutexQ l then removeAll p (A q) else A q"
  obtain s' where "leave_mutexes p (take MAX_LOCK_NUM_TOTAL (Lock s)) s = Some s'" "queues_rep s' ?A"
    using leave_mutexes_rep [OF assms(1)] by blast
  then show ?thesis using assms(2,3) by (intro exI [of _ s'] exI [of _ ?A]) (simp add: unqueue_victim_def)
qed

end
