(* ===== verification/Entry.thy ===== *)
theory Entry
  imports Process
begin

text \<open>
  The assembly part of the kernel, \<^verbatim>\<open>arch/mips/kernel/entry.S\<close>: saving and restoring contexts, the
  task switch around \<^verbatim>\<open>scheduler\<close>, the accessors of the system control coprocessor (CP0), the
  flushing of the translation buffer, and the dispatch of exceptions with the table that
  \<^verbatim>\<open>init/main.c\<close> fills.

  The processor state is \<open>cpu\<close>: the general registers, the CP0 registers the code names, and the 32
  lines of the translation buffer. An instruction is a function on it; one whose result the
  architecture leaves undefined (an index past the buffer, two lines that match) is \<open>None\<close>. As in the
  architecture, \<^verbatim>\<open>CP0_BADVADDR\<close> cannot be written, and only the two software interrupts and the
  bits 22 and 23 of \<^verbatim>\<open>CP0_CAUSE\<close> can. \<^verbatim>\<open>CP0_PAGEMASK\<close> is always written with 0, so pages have 4 KB
  and a line keeps no mask. The registers \<^verbatim>\<open>HI\<close> and \<^verbatim>\<open>LO\<close> of the multiplier are not part of the
  state because no macro touches them.
\<close>

section \<open>The processor\<close>

record tlb_line =
  line_vpn2 :: u32
  line_asid :: u32
  line_g :: bool
  line_lo0 :: u32
  line_lo1 :: u32

record cpu =
  gpr :: "nat \<Rightarrow> u32"
  CP0_INDEX :: u32
  CP0_ENTRYLO0 :: u32
  CP0_ENTRYLO1 :: u32
  CP0_PAGEMASK :: u32
  CP0_BADVADDR :: u32
  CP0_COUNT :: u32
  CP0_ENTRYHI :: u32
  CP0_COMPARE :: u32
  CP0_STATUS :: u32
  CP0_CAUSE :: u32
  CP0_EPC :: u32
  CP0_CONFIG :: u32
  CP0_WATCHLO :: u32
  CP0_WATCHHI :: u32
  CP0_TAGLO :: u32
  CP0_TAGHI :: u32
  tlb :: "tlb_line list"

abbreviation (input) "K0 \<equiv> 26 :: nat"
abbreviation (input) "K1 \<equiv> 27 :: nat"
abbreviation (input) "CAUSE_IPL \<equiv> 0xff00 :: u32"
abbreviation (input) "CAUSE_EXCCODE \<equiv> 0x7c :: u32"
abbreviation (input) "TIMER_INTERVAL \<equiv> 100000 :: u32"
abbreviation (input) "CAUSE_WRITABLE \<equiv> 0xc00300 :: u32"

definition get_gpr :: "nat \<Rightarrow> cpu \<Rightarrow> u32" where
  "get_gpr r c = (if r = 0 then 0 else gpr c r)"

definition set_gpr :: "nat \<Rightarrow> u32 \<Rightarrow> cpu \<Rightarrow> cpu" where
  "set_gpr r v c = (if r = 0 then c else c\<lparr>gpr := (gpr c)(r := v)\<rparr>)"

definition mtc0_cause :: "u32 \<Rightarrow> cpu \<Rightarrow> cpu" where
  "mtc0_cause v c = c\<lparr>CP0_CAUSE := (CP0_CAUSE c AND NOT CAUSE_WRITABLE) OR (v AND CAUSE_WRITABLE)\<rparr>"

text \<open>The instructions \<^verbatim>\<open>tlbwi\<close> and \<^verbatim>\<open>tlbp\<close>, and the translation of an address by the processor.\<close>

abbreviation (input) "TLB_ENTRIES_NUM \<equiv> 32 :: nat"

definition new_line :: "cpu \<Rightarrow> tlb_line" where
  "new_line c = \<lparr>line_vpn2 = drop_bit 13 (CP0_ENTRYHI c), line_asid = CP0_ENTRYHI c AND 0xff,
     line_g = (bit (CP0_ENTRYLO0 c) 0 \<and> bit (CP0_ENTRYLO1 c) 0),
     line_lo0 = CP0_ENTRYLO0 c, line_lo1 = CP0_ENTRYLO1 c\<rparr>"

definition tlbwi :: "cpu \<Rightarrow> cpu option" where
  "tlbwi c = do {
     t \<leftarrow> store (tlb c) (unat (CP0_INDEX c)) (new_line c);
     Some (c\<lparr>tlb := t\<rparr>)
   }"

definition line_matches :: "u32 \<Rightarrow> tlb_line \<Rightarrow> bool" where
  "line_matches entryhi e \<longleftrightarrow> line_vpn2 e = drop_bit 13 entryhi \<and> (line_g e \<or> line_asid e = entryhi AND 0xff)"

definition matching :: "u32 \<Rightarrow> cpu \<Rightarrow> nat list" where
  "matching entryhi c = filter (\<lambda>i. line_matches entryhi (tlb c ! i)) [0..<length (tlb c)]"

definition tlbp :: "cpu \<Rightarrow> cpu option" where
  "tlbp c = (case matching (CP0_ENTRYHI c) c of
     [] \<Rightarrow> Some (c\<lparr>CP0_INDEX := 0x80000000\<rparr>)
   | [i] \<Rightarrow> Some (c\<lparr>CP0_INDEX := of_nat i\<rparr>)
   | _ \<Rightarrow> None)"

definition line_half :: "u32 \<Rightarrow> tlb_line \<Rightarrow> u32" where
  "line_half va e = (if bit va 12 then line_lo1 e else line_lo0 e)"

definition translate :: "u32 \<Rightarrow> cpu \<Rightarrow> u32 option" where
  "translate va c = (case matching ((va AND 0xffffe000) OR (CP0_ENTRYHI c AND 0xff)) c of
     [i] \<Rightarrow> if bit (line_half va (tlb c ! i)) 1
           then Some (push_bit 12 (drop_bit 6 (line_half va (tlb c ! i))) OR (va AND 0xfff)) else None
   | _ \<Rightarrow> None)"

section \<open>Interrupt masks, timer and accessors\<close>

definition STI :: "cpu \<Rightarrow> cpu" where
  "STI c = (let c = set_gpr K0 (CP0_STATUS c) c;
                c = set_gpr K1 1 c;
                c = set_gpr K0 (get_gpr K0 c OR get_gpr K1 c) c
            in c\<lparr>CP0_STATUS := get_gpr K0 c\<rparr>)"

definition CLI :: "cpu \<Rightarrow> cpu" where
  "CLI c = (let c = set_gpr K0 (CP0_STATUS c) c;
                c = set_gpr K1 0xfffffffe c;
                c = set_gpr K0 (get_gpr K0 c AND get_gpr K1 c) c
            in c\<lparr>CP0_STATUS := get_gpr K0 c\<rparr>)"

definition asm_start :: "cpu \<Rightarrow> cpu" where
  "asm_start c = (let c = c\<lparr>CP0_STATUS := 0, CP0_WATCHLO := 0, CP0_WATCHHI := 0\<rparr>;
                      c = set_gpr 8 (CP0_CONFIG c) c;
                      c = set_gpr 8 (get_gpr 8 c AND NOT 7) c;
                      c = set_gpr 8 (get_gpr 8 c OR 2) c
                  in c\<lparr>CP0_CONFIG := get_gpr 8 c\<rparr>)"

definition close_clock_interrupt :: "cpu \<Rightarrow> cpu" where
  "close_clock_interrupt c = (let c = set_gpr K0 (CP0_STATUS c) c;
                                  c = set_gpr K1 0xffff7fff c;
                                  c = set_gpr K0 (get_gpr K0 c AND get_gpr K1 c) c
                              in c\<lparr>CP0_STATUS := get_gpr K0 c\<rparr>)"

definition enable_clock_interrupt :: "cpu \<Rightarrow> cpu" where
  "enable_clock_interrupt c = (let c = set_gpr K0 (CP0_STATUS c) c;
                                   c = set_gpr K1 0xffff7fff c;
                                   c = set_gpr K0 (get_gpr K0 c OR get_gpr K1 c) c
                               in c\<lparr>CP0_STATUS := get_gpr K0 c\<rparr>)"

definition clear_int :: "cpu \<Rightarrow> cpu" where
  "clear_int c = (let c = set_gpr K0 (CP0_CAUSE c) c;
                      c = set_gpr K1 (get_gpr K0 c AND CAUSE_IPL) c;
                      c = set_gpr K0 (get_gpr K0 c XOR get_gpr K1 c) c
                  in mtc0_cause (get_gpr K0 c) c)"

definition reset_timer :: "cpu \<Rightarrow> cpu" where
  "reset_timer c = (let c = set_gpr 4 TIMER_INTERVAL c
                    in c\<lparr>CP0_COUNT := 0, CP0_COMPARE := get_gpr 4 c\<rparr>)"

text \<open>The result register \<^verbatim>\<open>v0\<close> is register 2, the first argument \<^verbatim>\<open>a0\<close> is register 4.\<close>

definition get_asid :: "cpu \<Rightarrow> cpu" where
  "get_asid c = (let c = set_gpr 2 (CP0_ENTRYHI c) c in set_gpr 2 (get_gpr 2 c AND 7) c)"

definition get_cp0_status :: "cpu \<Rightarrow> u32" where
  "get_cp0_status c = CP0_STATUS c"

definition set_cp0_status :: "u32 \<Rightarrow> cpu \<Rightarrow> cpu" where
  "set_cp0_status v c = c\<lparr>CP0_STATUS := v\<rparr>"

definition get_cp0_index :: "cpu \<Rightarrow> u32" where
  "get_cp0_index c = CP0_INDEX c"

definition set_cp0_index :: "u32 \<Rightarrow> cpu \<Rightarrow> cpu" where
  "set_cp0_index v c = c\<lparr>CP0_INDEX := v\<rparr>"

definition get_cp0_entryhi :: "cpu \<Rightarrow> u32" where
  "get_cp0_entryhi c = CP0_ENTRYHI c"

definition set_cp0_entryhi :: "u32 \<Rightarrow> cpu \<Rightarrow> cpu" where
  "set_cp0_entryhi v c = c\<lparr>CP0_ENTRYHI := v\<rparr>"

definition get_cp0_badvaddr :: "cpu \<Rightarrow> u32" where
  "get_cp0_badvaddr c = CP0_BADVADDR c"

definition get_cp0_entrylo0 :: "cpu \<Rightarrow> u32" where
  "get_cp0_entrylo0 c = CP0_ENTRYLO0 c"

definition set_cp0_entrylo0 :: "u32 \<Rightarrow> cpu \<Rightarrow> cpu" where
  "set_cp0_entrylo0 v c = c\<lparr>CP0_ENTRYLO0 := v\<rparr>"

definition get_cp0_entrylo1 :: "cpu \<Rightarrow> u32" where
  "get_cp0_entrylo1 c = CP0_ENTRYLO1 c"

definition set_cp0_entrylo1 :: "u32 \<Rightarrow> cpu \<Rightarrow> cpu" where
  "set_cp0_entrylo1 v c = c\<lparr>CP0_ENTRYLO1 := v\<rparr>"

definition get_cp0_pagemask :: "cpu \<Rightarrow> u32" where
  "get_cp0_pagemask c = CP0_PAGEMASK c"

definition set_cp0_pagemask :: "u32 \<Rightarrow> cpu \<Rightarrow> cpu" where
  "set_cp0_pagemask v c = c\<lparr>CP0_PAGEMASK := v\<rparr>"

definition get_sp_reg :: "cpu \<Rightarrow> u32" where
  "get_sp_reg c = get_gpr 29 c"

lemmas cp0_access =
  get_cp0_status_def set_cp0_status_def get_cp0_index_def set_cp0_index_def get_cp0_entryhi_def
  set_cp0_entryhi_def get_cp0_badvaddr_def get_cp0_entrylo0_def set_cp0_entrylo0_def
  get_cp0_entrylo1_def set_cp0_entrylo1_def get_cp0_pagemask_def set_cp0_pagemask_def

section \<open>Flushing the translation buffer\<close>

definition tlb_flush :: "u32 \<Rightarrow> cpu \<Rightarrow> cpu option" where
  "tlb_flush EntryHi c = do {
     let c = set_gpr K1 (CP0_ENTRYHI c) c;
     let c = c\<lparr>CP0_ENTRYHI := EntryHi\<rparr>;
     c \<leftarrow> tlbp c;
     let c = set_gpr K0 (CP0_INDEX c) c;
     c \<leftarrow> (if bit (get_gpr K0 c) 31 then Some c
          else tlbwi (c\<lparr>CP0_ENTRYHI := 0, CP0_ENTRYLO0 := 0, CP0_ENTRYLO1 := 0\<rparr>));
     Some (c\<lparr>CP0_ENTRYHI := get_gpr K1 c\<rparr>)
   }"

definition tlb_flush_no_check :: "cpu \<Rightarrow> cpu option" where
  "tlb_flush_no_check c =
     tlbwi (c\<lparr>CP0_ENTRYHI := 0, CP0_ENTRYLO0 := 0, CP0_ENTRYLO1 := 0, CP0_PAGEMASK := 0\<rparr>)"

text \<open>
  \<^verbatim>\<open>tlb_flush_all\<close> up to its \<^verbatim>\<open>END\<close>. The source has no \<^verbatim>\<open>jr ra\<close> after the loop, so control would run
  on into the next routine; nothing calls it.
\<close>

fun flush_from :: "nat \<Rightarrow> nat \<Rightarrow> cpu \<Rightarrow> cpu option" where
  "flush_from i 0 c = Some c"
| "flush_from i (Suc n) c = do {
     let c = c\<lparr>CP0_ENTRYHI := 0x80000000, CP0_ENTRYLO0 := 0, CP0_ENTRYLO1 := 0, CP0_INDEX := of_nat i\<rparr>;
     c \<leftarrow> tlbwi c;
     flush_from (Suc i) n c
   }"

definition tlb_flush_all :: "cpu \<Rightarrow> cpu option" where
  "tlb_flush_all c = flush_from 0 32 (c\<lparr>CP0_PAGEMASK := 0\<rparr>)"

section \<open>Contexts\<close>

text \<open>
  The macros \<^verbatim>\<open>SAVE_CONTEXT\<close> and \<^verbatim>\<open>RESTORE_CONTEXT\<close>: the word of the register array and the register
  it holds, in the order of the macro. The words 26 and 27 are not used; \<^verbatim>\<open>s0\<close> to \<^verbatim>\<open>s7\<close> (16 to 23) are
  behind \<^verbatim>\<open>t8\<close> and \<^verbatim>\<open>t9\<close> (24 and 25). The fields \<^verbatim>\<open>hi\<close> and \<^verbatim>\<open>lo\<close> get \<^verbatim>\<open>CP0_TAGHI\<close> and \<^verbatim>\<open>CP0_TAGLO\<close>.
  The argument \<open>base\<close> is the address of the context, \<^verbatim>\<open>current_running\<close> plus the offset.
\<close>

definition context_slots :: "(nat \<times> nat) list" where
  "context_slots = [(0, 0), (1, 1), (2, 2), (3, 3), (4, 4), (5, 5), (6, 6), (7, 7),
     (8, 8), (9, 9), (10, 10), (11, 11), (12, 12), (13, 13), (14, 14), (15, 15), (16, 24), (17, 25),
     (18, 16), (19, 17), (20, 18), (21, 19), (22, 20), (23, 21), (24, 22), (25, 23),
     (28, 28), (29, 29), (30, 30), (31, 31)]"

definition sw_slot :: "cpu \<Rightarrow> nat \<times> nat \<Rightarrow> u32 list \<Rightarrow> u32 list" where
  "sw_slot c p w = w[fst p := get_gpr (snd p) c]"

definition lw_slot :: "u32 list \<Rightarrow> nat \<times> nat \<Rightarrow> cpu \<Rightarrow> cpu" where
  "lw_slot w p c = set_gpr (snd p) (w ! fst p) c"

definition SAVE_CONTEXT :: "u32 \<Rightarrow> cpu \<Rightarrow> regs_context_t \<Rightarrow> cpu \<times> regs_context_t" where
  "SAVE_CONTEXT base c x =
     (let c = set_gpr K0 base c;
          x = x\<lparr>regs := fold (sw_slot c) context_slots (regs x)\<rparr>;
          c = set_gpr K1 (CP0_STATUS c) c;   x = x\<lparr>cp0_status := get_gpr K1 c\<rparr>;
          c = set_gpr K1 (CP0_TAGHI c) c;    x = x\<lparr>hi := get_gpr K1 c\<rparr>;
          c = set_gpr K1 (CP0_TAGLO c) c;    x = x\<lparr>lo := get_gpr K1 c\<rparr>;
          c = set_gpr K1 (CP0_BADVADDR c) c; x = x\<lparr>cp0_badvaddr := get_gpr K1 c\<rparr>;
          c = set_gpr K1 (CP0_CAUSE c) c;    x = x\<lparr>cp0_cause := get_gpr K1 c\<rparr>;
          c = set_gpr K1 (CP0_EPC c) c;      x = x\<lparr>cp0_epc := get_gpr K1 c\<rparr>
      in (c, x))"

definition RESTORE_CONTEXT :: "u32 \<Rightarrow> regs_context_t \<Rightarrow> cpu \<Rightarrow> cpu" where
  "RESTORE_CONTEXT base x c =
     (let c = set_gpr K0 base c;
          c = fold (lw_slot (regs x)) context_slots c;
          c = set_gpr K1 (cp0_status x) c;   c = c\<lparr>CP0_STATUS := get_gpr K1 c\<rparr>;
          c = set_gpr K1 (hi x) c;           c = c\<lparr>CP0_TAGHI := get_gpr K1 c\<rparr>;
          c = set_gpr K1 (lo x) c;           c = c\<lparr>CP0_TAGLO := get_gpr K1 c\<rparr>;
          c = set_gpr K1 (cp0_badvaddr x) c;
          c = set_gpr K1 (cp0_cause x) c;    c = mtc0_cause (get_gpr K1 c) c;
          c = set_gpr K1 (cp0_epc x) c;      c = c\<lparr>CP0_EPC := get_gpr K1 c\<rparr>
      in c)"

definition SAVE_CONTEXT_SP :: "u32 \<Rightarrow> cpu \<Rightarrow> regs_context_t \<Rightarrow> cpu \<times> regs_context_t" where
  "SAVE_CONTEXT_SP base c x =
     (let c = set_gpr K0 base c in (c, x\<lparr>regs := (regs x)[29 := get_gpr 29 c]\<rparr>))"

definition RESTORE_CONTEXT_SP :: "u32 \<Rightarrow> regs_context_t \<Rightarrow> cpu \<Rightarrow> cpu" where
  "RESTORE_CONTEXT_SP base x c = (let c = set_gpr K0 base c in set_gpr 29 (regs x ! 29) c)"

text \<open>
  The macros applied to the current task: \<open>addr\<close> gives the addresses of the control blocks;
  the kernel context is at offset 0 (\<^verbatim>\<open>KERNEL\<close>) and the user context at 156 (\<^verbatim>\<open>USER\<close>).
\<close>

definition save_kernel :: "(pcb_id \<Rightarrow> u32) \<Rightarrow> cpu \<times> kernel \<Rightarrow> cpu \<times> kernel" where
  "save_kernel addr = (\<lambda>(c, s). let p = current_running s;
     (c, x) = SAVE_CONTEXT (addr p) c (kernel_context (pcbs s p))
     in (c, upd_pcb p (\<lambda>t. t\<lparr>kernel_context := x\<rparr>) s))"

definition save_user :: "(pcb_id \<Rightarrow> u32) \<Rightarrow> cpu \<times> kernel \<Rightarrow> cpu \<times> kernel" where
  "save_user addr = (\<lambda>(c, s). let p = current_running s;
     (c, x) = SAVE_CONTEXT (addr p + 156) c (user_context (pcbs s p))
     in (c, upd_pcb p (\<lambda>t. t\<lparr>user_context := x\<rparr>) s))"

definition restore_kernel :: "(pcb_id \<Rightarrow> u32) \<Rightarrow> cpu \<times> kernel \<Rightarrow> cpu \<times> kernel" where
  "restore_kernel addr = (\<lambda>(c, s). let p = current_running s
     in (RESTORE_CONTEXT (addr p) (kernel_context (pcbs s p)) c, s))"

definition restore_user :: "(pcb_id \<Rightarrow> u32) \<Rightarrow> cpu \<times> kernel \<Rightarrow> cpu \<times> kernel" where
  "restore_user addr = (\<lambda>(c, s). let p = current_running s
     in (RESTORE_CONTEXT (addr p + 156) (user_context (pcbs s p)) c, s))"

text \<open>
  \<^verbatim>\<open>do_scheduler\<close> with the registers. What the compiled body of \<^verbatim>\<open>scheduler\<close> leaves in the registers
  is the parameter \<open>body\<close>.
\<close>

definition do_scheduler_regs ::
    "(cpu \<Rightarrow> cpu) \<Rightarrow> (pcb_id \<Rightarrow> u32) \<Rightarrow> cpu \<times> kernel \<Rightarrow> (cpu \<times> kernel) option" where
  "do_scheduler_regs body addr m = do {
     let (c, s) = save_kernel addr m;
     s \<leftarrow> scheduler s;
     Some (restore_kernel addr (body c, s))
   }"

section \<open>Dispatch of exceptions\<close>

datatype exc_handler = handle_others | handle_int | handle_syscall | handle_tlb

abbreviation (input) "EXC_INT \<equiv> 0 :: nat"
abbreviation (input) "EXC_MOD \<equiv> 1 :: nat"
abbreviation (input) "EXC_TLBL \<equiv> 2 :: nat"
abbreviation (input) "EXC_TLBS \<equiv> 3 :: nat"
abbreviation (input) "EXC_SYS \<equiv> 8 :: nat"

definition init_exception_handler :: "exc_handler list" where
  "init_exception_handler = (replicate 32 handle_others)
     [EXC_INT := handle_int, EXC_SYS := handle_syscall, EXC_MOD := handle_tlb, EXC_TLBL := handle_tlb, EXC_TLBS := handle_tlb]"

text \<open>The second level: the index in \<^verbatim>\<open>exception_handlers\<close> is the masked cause, a byte offset.\<close>

definition exception_handler_entry :: "exc_handler list \<Rightarrow> cpu \<Rightarrow> (exc_handler \<times> cpu) option" where
  "exception_handler_entry handlers c = do {
     let c = CLI c;
     let c = set_gpr K0 (CP0_CAUSE c) c;
     let c = set_gpr K0 (get_gpr K0 c AND CAUSE_EXCCODE) c;
     h \<leftarrow> load handlers (unat (get_gpr K0 c) div 4);
     Some (h, c)
   }"

definition clz :: "u32 \<Rightarrow> u32" where
  "clz w = of_nat (length (takeWhile (\<lambda>i. \<not> bit w i) (rev [0..<32])))"

text \<open>The test of \<^verbatim>\<open>handle_int\<close> that selects \<^verbatim>\<open>irq_timer\<close>.\<close>

definition int_is_timer :: "u32 \<Rightarrow> bool" where
  "int_is_timer cause \<longleftrightarrow> clz (cause AND CAUSE_IPL) XOR 0x17 = 7"

text \<open>\<^verbatim>\<open>return_from_exception\<close>: after \<^verbatim>\<open>eret\<close>, which clears the exception level (bit 1 of the status),
  execution goes on at the first component of the result.\<close>

definition return_from_exception :: "cpu \<Rightarrow> u32 \<times> cpu" where
  "return_from_exception c = (let c = STI c; c = set_gpr K1 (CP0_EPC c) c
     in (CP0_EPC c, c\<lparr>CP0_STATUS := CP0_STATUS c AND NOT 2\<rparr>))"

section \<open>Lemmas\<close>

lemma get_set_gpr [simp]: "get_gpr r (set_gpr q v c) = (if r = q \<and> q \<noteq> 0 then v else get_gpr r c)"
  by (auto simp: get_gpr_def set_gpr_def)

lemma set_gpr_sel [simp]:
  "CP0_STATUS (set_gpr r v c) = CP0_STATUS c" "CP0_CAUSE (set_gpr r v c) = CP0_CAUSE c"
  "CP0_EPC (set_gpr r v c) = CP0_EPC c" "CP0_TAGHI (set_gpr r v c) = CP0_TAGHI c"
  "CP0_TAGLO (set_gpr r v c) = CP0_TAGLO c" "CP0_BADVADDR (set_gpr r v c) = CP0_BADVADDR c"
  "CP0_ENTRYHI (set_gpr r v c) = CP0_ENTRYHI c" "CP0_INDEX (set_gpr r v c) = CP0_INDEX c"
  "tlb (set_gpr r v c) = tlb c"
  by (simp_all add: set_gpr_def)

lemma get_gpr_upd [simp]:
  "get_gpr r (c\<lparr>CP0_STATUS := v\<rparr>) = get_gpr r c" "get_gpr r (c\<lparr>CP0_TAGHI := v\<rparr>) = get_gpr r c"
  "get_gpr r (c\<lparr>CP0_TAGLO := v\<rparr>) = get_gpr r c" "get_gpr r (c\<lparr>CP0_EPC := v\<rparr>) = get_gpr r c"
  "get_gpr r (mtc0_cause v c) = get_gpr r c"
  by (simp_all add: get_gpr_def mtc0_cause_def)

lemma mtc0_cause_sel [simp]:
  "CP0_STATUS (mtc0_cause v c) = CP0_STATUS c" "CP0_EPC (mtc0_cause v c) = CP0_EPC c"
  "CP0_TAGHI (mtc0_cause v c) = CP0_TAGHI c" "CP0_TAGLO (mtc0_cause v c) = CP0_TAGLO c"
  "CP0_BADVADDR (mtc0_cause v c) = CP0_BADVADDR c" "CP0_ENTRYHI (mtc0_cause v c) = CP0_ENTRYHI c"
  "tlb (mtc0_cause v c) = tlb c"
  by (simp_all add: mtc0_cause_def)

lemma fold_sw_notin: "i \<notin> fst ` set ps \<Longrightarrow> fold (sw_slot c) ps w ! i = w ! i"
  by (induction ps arbitrary: w) (simp_all add: sw_slot_def)

lemma length_fold_sw [simp]: "length (fold (sw_slot c) ps w) = length w"
  by (induction ps arbitrary: w) (simp_all add: sw_slot_def)

lemma fold_sw_in:
  assumes "distinct (map fst ps)" and "(i, r) \<in> set ps" and "i < length w"
  shows "fold (sw_slot c) ps w ! i = get_gpr r c"
  using assms
proof (induction ps arbitrary: w)
  case (Cons p ps)
  show ?case
  proof (cases "p = (i, r)")
    case True
    then have "i \<notin> fst ` set ps" using Cons.prems(1) by auto
    moreover have "sw_slot c p w ! i = get_gpr r c" using True Cons.prems(3) by (simp add: sw_slot_def)
    ultimately show ?thesis using fold_sw_notin by simp
  next
    case False
    then show ?thesis using Cons by (simp add: sw_slot_def)
  qed
qed simp

lemma fold_lw_notin: "r \<notin> snd ` set ps \<Longrightarrow> get_gpr r (fold (lw_slot w) ps c) = get_gpr r c"
  by (induction ps arbitrary: c) (auto simp: lw_slot_def)

lemma fold_lw_in:
  assumes "distinct (map snd ps)" and "(i, r) \<in> set ps" and "r \<noteq> 0"
  shows "get_gpr r (fold (lw_slot w) ps c) = w ! i"
  using assms
proof (induction ps arbitrary: c)
  case (Cons p ps)
  show ?case
  proof (cases "p = (i, r)")
    case True
    then have "r \<notin> snd ` set ps" using Cons.prems(1) by auto
    moreover have "get_gpr r (lw_slot w p c) = w ! i" using True Cons.prems(3) by (simp add: lw_slot_def)
    ultimately show ?thesis using fold_lw_notin by simp
  next
    case False
    then show ?thesis using Cons by simp
  qed
qed simp

lemma fold_lw_sel [simp]:
  "CP0_CAUSE (fold (lw_slot w) ps c) = CP0_CAUSE c" "CP0_ENTRYHI (fold (lw_slot w) ps c) = CP0_ENTRYHI c"
  "CP0_BADVADDR (fold (lw_slot w) ps c) = CP0_BADVADDR c" "CP0_INDEX (fold (lw_slot w) ps c) = CP0_INDEX c"
  "tlb (fold (lw_slot w) ps c) = tlb c"
  by (induction ps arbitrary: c) (simp_all add: lw_slot_def)

text \<open>The registers that the macros keep: all but \<^verbatim>\<open>k0\<close> and \<^verbatim>\<open>k1\<close>.\<close>

definition kept_regs :: "nat set" where
  "kept_regs = {..<32} - {K0, K1}"

lemma kept_slot: "r \<in> kept_regs \<Longrightarrow> \<exists>i < 32. (i, r) \<in> set context_slots"
proof -
  have "kept_regs = snd ` set context_slots"
    by (auto simp: kept_regs_def context_slots_def lessThan_nat_numeral lessThan_Suc)
  moreover have "\<forall>p \<in> set context_slots. fst p < 32" by (simp add: context_slots_def)
  ultimately show "r \<in> kept_regs \<Longrightarrow> ?thesis" by force
qed

lemma distinct_slots: "distinct (map fst context_slots)" "distinct (map snd context_slots)"
  by (simp_all add: context_slots_def)

lemma kept_not_k: "r \<in> kept_regs \<Longrightarrow> r \<noteq> K0 \<and> r \<noteq> K1"
  by (simp add: kept_regs_def)

text \<open>Saving changes only \<^verbatim>\<open>k0\<close> and \<^verbatim>\<open>k1\<close>; a context depends only on what was saved last.\<close>

lemma save_keeps:
  assumes "SAVE_CONTEXT base c x = (c', x')"
  shows "r \<noteq> K0 \<Longrightarrow> r \<noteq> K1 \<Longrightarrow> get_gpr r c' = get_gpr r c" and "CP0_STATUS c' = CP0_STATUS c"
    and "CP0_EPC c' = CP0_EPC c" and "CP0_ENTRYHI c' = CP0_ENTRYHI c" and "CP0_BADVADDR c' = CP0_BADVADDR c"
    and "CP0_CAUSE c' = CP0_CAUSE c" and "tlb c' = tlb c" and "length (regs x') = length (regs x)"
  using assms by (auto simp: SAVE_CONTEXT_def Let_def)

lemma restore_save:
  assumes "SAVE_CONTEXT base c x = (c', x')" and "length (regs x) = 32"
  shows "r \<in> kept_regs \<Longrightarrow> get_gpr r (RESTORE_CONTEXT b x' d) = get_gpr r c"
    and "CP0_STATUS (RESTORE_CONTEXT b x' d) = CP0_STATUS c" and "CP0_EPC (RESTORE_CONTEXT b x' d) = CP0_EPC c"
    and "CP0_TAGHI (RESTORE_CONTEXT b x' d) = CP0_TAGHI c" and "CP0_TAGLO (RESTORE_CONTEXT b x' d) = CP0_TAGLO c"
proof -
  show "get_gpr r (RESTORE_CONTEXT b x' d) = get_gpr r c" if r: "r \<in> kept_regs"
  proof (cases "r = 0")
    case False
    obtain i where i: "i < 32" "(i, r) \<in> set context_slots" using kept_slot [OF r] by blast
    have "get_gpr r (RESTORE_CONTEXT b x' d) = regs x' ! i"
      using kept_not_k [OF r] fold_lw_in [OF distinct_slots(2) i(2) False]
      by (simp add: RESTORE_CONTEXT_def Let_def)
    also have "\<dots> = get_gpr r (set_gpr K0 base c)"
      using assms i(1) fold_sw_in [OF distinct_slots(1) i(2), of "regs x"]
      by (auto simp: SAVE_CONTEXT_def Let_def)
    finally show ?thesis using kept_not_k [OF r] by simp
  qed (simp add: get_gpr_def)
qed (use assms in \<open>auto simp: SAVE_CONTEXT_def RESTORE_CONTEXT_def Let_def\<close>)

lemma restore_keeps [simp]:
  "CP0_ENTRYHI (RESTORE_CONTEXT b x d) = CP0_ENTRYHI d" "CP0_BADVADDR (RESTORE_CONTEXT b x d) = CP0_BADVADDR d"
  "tlb (RESTORE_CONTEXT b x d) = tlb d"
  by (simp_all add: RESTORE_CONTEXT_def Let_def)

text \<open>The scheduler does not touch the contexts.\<close>

lemma sched_spec_contexts:
  assumes "sched_spec v A = Some (v', A')"
  shows "kernel_context (pcbs v' p) = kernel_context (pcbs v p)" "user_context (pcbs v' p) = user_context (pcbs v p)"
  using assms
  by (auto simp: sched_spec_def requeue_def awake_def switch_to_def Let_def upd_pcb_def
      split: option.splits if_splits prod.splits)

lemma scheduler_contexts:
  assumes "queues_rep s A" and "kernel_inv X s A" and "scheduler s = Some s'"
  shows "kernel_context (pcbs s' p) = kernel_context (pcbs s p)" "user_context (pcbs s' p) = user_context (pcbs s p)"
proof -
  have c: "status (pcbs s (current_running s)) = TASK_RUNNING \<Longrightarrow> current_running s \<notin> queued A"
    using kernel_inv_running [OF assms(2)] by simp
  obtain v' A' where spec: "sched_spec (view s) A = Some (v', A')"
    using scheduler_refines [OF assms(1) c] assms(3) by (auto split: option.splits)
  then have v: "view s' = v'" using scheduler_refines [OF assms(1) c] assms(3) by auto
  have "kernel_context (pcbs (view s') p) = kernel_context (pcbs (view s) p)"
    "user_context (pcbs (view s') p) = user_context (pcbs (view s) p)"
    using sched_spec_contexts [OF spec, of p] v by simp_all
  then show "kernel_context (pcbs s' p) = kernel_context (pcbs s p)" "user_context (pcbs s' p) = user_context (pcbs s p)"
    by (simp_all add: view_def)
qed

lemma state_ok_upd_context [simp]:
  "state_ok X (upd_pcb p (\<lambda>t. t\<lparr>kernel_context := x\<rparr>) s) A = state_ok X s A"
  "state_ok X (upd_pcb p (\<lambda>t. t\<lparr>user_context := x\<rparr>) s) A = state_ok X s A"
  by (simp_all add: state_ok_def)

lemma upd_pcb_context [simp]:
  "current_running (upd_pcb p f s) = current_running s"
  "pcbs (upd_pcb p f s) q = (if q = p then f (pcbs s p) else pcbs s q)"
  by (simp_all add: upd_pcb_def)

text \<open>A call of \<^verbatim>\<open>do_scheduler\<close>, in terms of the two macros.\<close>

lemma do_scheduler_regsE:
  assumes "state_ok X s A" and "do_scheduler_regs body addr (c, s) = Some (c1, s1)"
  obtains b x where "SAVE_CONTEXT (addr (current_running s)) c (kernel_context (pcbs s (current_running s))) = (b, x)"
    and "kernel_context (pcbs s1 (current_running s)) = x"
    and "\<And>q. q \<noteq> current_running s \<Longrightarrow> kernel_context (pcbs s1 q) = kernel_context (pcbs s q)"
    and "\<And>q. user_context (pcbs s1 q) = user_context (pcbs s q)"
    and "c1 = RESTORE_CONTEXT (addr (current_running s1)) (kernel_context (pcbs s1 (current_running s1))) (body b)"
proof -
  let ?p = "current_running s"
  obtain b x where bx: "SAVE_CONTEXT (addr ?p) c (kernel_context (pcbs s ?p)) = (b, x)" by fastforce
  let ?s = "upd_pcb ?p (\<lambda>t. t\<lparr>kernel_context := x\<rparr>) s"
  have s1: "scheduler ?s = Some s1"
    and c1: "c1 = RESTORE_CONTEXT (addr (current_running s1)) (kernel_context (pcbs s1 (current_running s1))) (body b)"
    using assms(2) bx
    by (auto simp: do_scheduler_regs_def save_kernel_def restore_kernel_def Let_def split: bind_splits)
  have "state_ok X ?s A" using assms(1) by simp
  note K = scheduler_contexts [OF state_okD(1,2) [OF this] s1]
  show thesis by (rule that [OF bx _ _ _ c1]) (simp_all add: K)
qed

section \<open>Properties\<close>

text \<open>
  Claim C29. A task that is switched out resumes with its registers. When \<^verbatim>\<open>do_scheduler\<close> is called by a
  task \<open>p\<close> in a well-formed state, it saves the registers of \<open>p\<close> in the kernel context of \<open>p\<close> and changes
  no other context. Whenever a later call, made by another task from any processor state, switches to
  \<open>p\<close> and the kernel context of \<open>p\<close> is as the first call left it, \<open>p\<close> finds every general register
  except \<^verbatim>\<open>k0\<close> and \<^verbatim>\<open>k1\<close>, the status word and the exception address as they were. What the compiled
  body of the scheduler does to the registers does not matter.
\<close>

theorem switched_task_resumes:
  assumes "state_ok X s A" and "p = current_running s" and "length (regs (kernel_context (pcbs s p))) = 32"
    and "do_scheduler_regs body addr (c, s) = Some (c1, s1)"
    and "state_ok Y r B" and "current_running r \<noteq> p" and "kernel_context (pcbs r p) = kernel_context (pcbs s1 p)"
    and "do_scheduler_regs body' addr (d, r) = Some (d1, r1)" and "current_running r1 = p"
  shows "(\<forall>q. user_context (pcbs s1 q) = user_context (pcbs s q)) \<and>
    (\<forall>q. q \<noteq> p \<longrightarrow> kernel_context (pcbs s1 q) = kernel_context (pcbs s q)) \<and>
    (\<forall>i. i < 32 \<and> i \<noteq> 26 \<and> i \<noteq> 27 \<longrightarrow> get_gpr i d1 = get_gpr i c) \<and>
    CP0_STATUS d1 = CP0_STATUS c \<and> CP0_EPC d1 = CP0_EPC c"
proof -
  obtain b x where S: "SAVE_CONTEXT (addr p) c (kernel_context (pcbs s p)) = (b, x)" "kernel_context (pcbs s1 p) = x"
    "\<And>q. q \<noteq> p \<Longrightarrow> kernel_context (pcbs s1 q) = kernel_context (pcbs s q)"
    "\<And>q. user_context (pcbs s1 q) = user_context (pcbs s q)"
    using do_scheduler_regsE [OF assms(1,4)] assms(2) by metis
  obtain e where d1: "d1 = RESTORE_CONTEXT (addr p) x e"
    using do_scheduler_regsE [OF assms(5,8)] assms(6,7,9) S(2) by metis
  show ?thesis
    using restore_save [OF S(1) assms(3)] S(3,4) by (simp add: d1 kept_regs_def)
qed


definition sample_cpu :: cpu where
  "sample_cpu = \<lparr>gpr = (\<lambda>r. of_nat r), CP0_INDEX = 0, CP0_ENTRYLO0 = 0, CP0_ENTRYLO1 = 0, CP0_PAGEMASK = 0,
     CP0_BADVADDR = 0x2000, CP0_COUNT = 0, CP0_ENTRYHI = 0, CP0_COMPARE = 0, CP0_STATUS = 0x10008000,
     CP0_CAUSE = 0x8000, CP0_EPC = 0xa0800000, CP0_CONFIG = 0, CP0_WATCHLO = 0, CP0_WATCHHI = 0, CP0_TAGLO = 0,
     CP0_TAGHI = 0, tlb = replicate 32 \<lparr>line_vpn2 = 0x7fff7, line_asid = 0, line_g = False, line_lo0 = 0, line_lo1 = 0\<rparr>\<rparr>"

text \<open>From a state whose only ready or running task is \<open>p\<close>, the call switches to \<open>p\<close>.\<close>

lemma only_task_runs:
  assumes "state_ok {} s A" and "A SleepingQ = []"
    and "A ReadyQ = [p] \<and> \<not> running s \<or> A ReadyQ = [] \<and> running s \<and> current_running s = p \<and>
      entry_point (pcbs s p) \<noteq> 0"
  shows "\<exists>c1 s1. do_scheduler_regs body addr (c, s) = Some (c1, s1) \<and> current_running s1 = p"
proof -
  obtain b x where bx: "SAVE_CONTEXT (addr (current_running s)) c (kernel_context (pcbs s (current_running s))) = (b, x)"
    by fastforce
  let ?s = "upd_pcb (current_running s) (\<lambda>t. t\<lparr>kernel_context := x\<rparr>) s"
  have ok: "state_ok {} ?s A" using assms(1) by simp
  have c: "status (pcbs ?s (current_running ?s)) = TASK_RUNNING \<Longrightarrow> current_running ?s \<notin> queued A"
    using kernel_inv_running(3) [OF state_okD(2) [OF ok]] by simp
  have "\<exists>v B. sched_spec (view ?s) A = Some (v, B) \<and> current_running v = p"
    using assms(2,3)
    by (auto simp: sched_spec_def requeue_def awake_def switch_to_def Let_def running_def view_def)
  then obtain v B where v: "sched_spec (view ?s) A = Some (v, B)" "current_running v = p" by blast
  obtain s1 where s1: "scheduler ?s = Some s1" "view s1 = v"
    using scheduler_refines [OF state_okD(1) [OF ok] c] v(1) by auto
  have "current_running s1 = p" using v(2) s1(2) by (metis view_sel(1))
  then show ?thesis
    using s1(1) bx by (simp add: do_scheduler_regs_def save_kernel_def restore_kernel_def Let_def)
qed

theorem switched_task_resumes_witness:
  "\<exists>s A c1 s1 r B d1 r1. state_ok {} s A \<and> state_ok {} r B \<and> current_running s = Pcb 1 \<and> current_running r = PcbInit \<and>
     do_scheduler_regs id (\<lambda>_. 0) (sample_cpu, s) = Some (c1, s1) \<and>
     do_scheduler_regs id (\<lambda>_. 0) (asm_start sample_cpu, r) = Some (d1, r1) \<and> current_running r1 = Pcb 1 \<and>
     get_gpr 29 d1 = 29 \<and> CP0_STATUS d1 = 0x10008000"
proof -
  obtain s0 where s0: "state_ok {} s0 (\<lambda>_. [])" "running s0" "current_running s0 = Pcb 1"
    using boot_state [of 1 0] by auto
  let ?s = "upd_pcb (Pcb 1) (\<lambda>t. t\<lparr>kernel_context := zero_context\<rparr>) s0"
  have s: "state_ok {} ?s (\<lambda>_. [])" "running ?s" "current_running ?s = Pcb 1"
    "length (regs (kernel_context (pcbs ?s (Pcb 1)))) = 32"
    using s0 by (simp_all add: running_def zero_context_def)
  have "entry_point (pcbs ?s (Pcb 1)) \<noteq> 0"
    using state_okD(2) [OF s0(1)] s0(2,3) by (auto simp: running_def kernel_inv_def)
  then obtain c1 s1 where s1: "do_scheduler_regs id (\<lambda>_. 0) (sample_cpu, ?s) = Some (c1, s1)"
    using only_task_runs [OF s(1), of "Pcb 1" id "\<lambda>_. 0" sample_cpu] s(2,3) by blast
  let ?B = "(\<lambda>_. [])(ReadyQ := [Pcb 1]) :: qid \<Rightarrow> pcb_id list"
  obtain r0 where r0: "state_ok {} r0 ?B" "current_running r0 = PcbInit"
    using init_pcb_ok [of 1 0] by auto
  let ?r = "upd_pcb (Pcb 1) (\<lambda>t. t\<lparr>kernel_context := kernel_context (pcbs s1 (Pcb 1))\<rparr>) r0"
  have r: "state_ok {} ?r ?B" "current_running ?r = PcbInit" "\<not> running ?r"
    "kernel_context (pcbs ?r (Pcb 1)) = kernel_context (pcbs s1 (Pcb 1))"
    using r0 state_okD(2) [OF r0(1)] by (simp_all add: running_def kernel_inv_def)
  obtain d1 r1 where r1: "do_scheduler_regs id (\<lambda>_. 0) (asm_start sample_cpu, ?r) = Some (d1, r1)" "current_running r1 = Pcb 1"
    using only_task_runs [OF r(1), of "Pcb 1" id "\<lambda>_. 0" "asm_start sample_cpu"] r(3) by auto
  have "get_gpr 29 d1 = get_gpr 29 sample_cpu \<and> CP0_STATUS d1 = CP0_STATUS sample_cpu"
    using switched_task_resumes [OF s(1) s(3) [symmetric] s(4) s1 r(1) _ r(4) r1] r(2) by simp
  then have "get_gpr 29 d1 = 29 \<and> CP0_STATUS d1 = 0x10008000" by (simp add: sample_cpu_def get_gpr_def)
  then show ?thesis using s(1,3) r(1,2) s1 r1 by blast
qed

lemma ipl_mask: "bit CAUSE_IPL i \<longleftrightarrow> 8 \<le> i \<and> i < 16"
proof -
  have "CAUSE_IPL = push_bit 8 (mask 8)" by (simp add: mask_eq_exp_minus_1 push_bit_eq_mult)
  then have "bit CAUSE_IPL i \<longleftrightarrow> bit (push_bit 8 (mask 8) :: u32) i" by (rule arg_cong)
  then show ?thesis by (auto simp: bit_push_bit_iff bit_mask_iff)
qed

lemma clz_timer: "int_is_timer w \<longleftrightarrow> bit w 15"
proof -
  let ?P = "\<lambda>i. \<not> bit (w AND CAUSE_IPL) i"
  let ?n = "length (takeWhile ?P (rev [0..<32]))"
  have split: "rev [0..<32] = rev [16..<32] @ 15 # rev [0..<15]" by (simp add: upt_rec)
  have "\<forall>x \<in> set (rev [16..<32]). ?P x" by (auto simp: bit_and_iff ipl_mask)
  then have "takeWhile ?P (rev [0..<32]) = rev [16..<32] @ (if bit w 15 then [] else 15 # takeWhile ?P (rev [0..<15]))"
    unfolding split by (subst takeWhile_append2) (auto simp: bit_and_iff ipl_mask)
  moreover have "length (takeWhile ?P (rev [0..<15])) \<le> 15"
    using length_takeWhile_le [of ?P "rev [0..<15]"] by simp
  ultimately have n: "?n \<le> 32" "?n = 16 \<longleftrightarrow> bit w 15" by auto
  have "clz (w AND CAUSE_IPL) XOR 0x17 = 7 \<longleftrightarrow> clz (w AND CAUSE_IPL) = 16"
  proof
    assume "clz (w AND CAUSE_IPL) XOR 0x17 = 7"
    then have "(clz (w AND CAUSE_IPL) XOR 0x17) XOR 0x17 = 7 XOR 0x17" by (rule arg_cong)
    then show "clz (w AND CAUSE_IPL) = 16" by (simp add: xor.assoc)
  qed simp
  moreover have "clz (w AND CAUSE_IPL) = 16 \<longleftrightarrow> ?n = 16"
    using n(1) unfolding clz_def by (auto simp: word_unat_eq_iff unat_of_nat)
  ultimately show ?thesis using n(2) by (simp add: int_is_timer_def)
qed

lemma handler_index: "unat (w AND 0x7c) div 4 = unat ((w AND 0x7c) div 4)" "unat ((w AND 0x7c) div 4) < 32" for w :: u32
proof -
  have "w AND 0x7c \<le> 0x7c" by (rule word_and_le1)
  then show "unat ((w AND 0x7c) div 4) < 32" by (simp add: unat_div word_le_nat_alt)
qed (simp add: unat_div)

lemma handler_table:
  fixes k :: u32
  assumes "unat k < 32"
  shows "load init_exception_handler (unat k) = Some (if k = 0 then handle_int else if k = 8 then handle_syscall
    else if k = 1 \<or> k = 2 \<or> k = 3 then handle_tlb else handle_others)"
proof -
  have "load init_exception_handler (unat k) = Some (init_exception_handler ! unat k)"
    using assms by (simp add: load_def init_exception_handler_def)
  moreover have "unat k = 0 \<longleftrightarrow> k = 0" "unat k = 1 \<longleftrightarrow> k = 1" "unat k = 2 \<longleftrightarrow> k = 2" "unat k = 3 \<longleftrightarrow> k = 3"
    "unat k = 8 \<longleftrightarrow> k = 8"
    by (simp_all add: word_unat_eq_iff)
  ultimately show ?thesis
    using assms by (auto simp: init_exception_handler_def nth_list_update)
qed

text \<open>
  Claim C30. Exceptions reach their handlers: with the table that \<^verbatim>\<open>init_exception_handler\<close> fills, the
  code at the exception vector disables interrupts and jumps to \<^verbatim>\<open>handle_int\<close> for an interrupt, to
  \<^verbatim>\<open>handle_syscall\<close> for a system call, to \<^verbatim>\<open>handle_tlb\<close> for the three faults of the translation buffer
  and to \<^verbatim>\<open>handle_others\<close> for every other of the 32 codes; and \<^verbatim>\<open>handle_int\<close> takes the branch of the
  timer exactly when the timer interrupt, bit 15 of the cause, is pending.
\<close>

theorem exceptions_reach_handlers:
  "(\<exists>c'. exception_handler_entry init_exception_handler c =
      Some (let code = (CP0_CAUSE c AND 0x7c) div 4 in
        if code = 0 then handle_int else if code = 8 then handle_syscall
        else if code = 1 \<or> code = 2 \<or> code = 3 then handle_tlb else handle_others, c') \<and>
      CP0_STATUS c' = CP0_STATUS c AND 0xfffffffe \<and> CP0_EPC c' = CP0_EPC c \<and>
      (\<forall>i. i \<noteq> 26 \<and> i \<noteq> 27 \<longrightarrow> get_gpr i c' = get_gpr i c)) \<and>
   (int_is_timer (CP0_CAUSE c) \<longleftrightarrow> bit (CP0_CAUSE c) 15)"
proof -
  note table = handler_table [OF handler_index(2)]
  show ?thesis
    by (simp add: exception_handler_entry_def CLI_def Let_def clz_timer handler_index(1) table)
qed

theorem exceptions_reach_handlers_witness:
  "\<exists>c'. exception_handler_entry init_exception_handler sample_cpu = Some (handle_int, c') \<and> get_gpr 29 c' = 29 \<and>
     int_is_timer (CP0_CAUSE sample_cpu)"
proof -
  have s: "CP0_CAUSE sample_cpu = 0x8000" "get_gpr 29 sample_cpu = 29" by (simp_all add: sample_cpu_def get_gpr_def)
  have "bit (0x8000 :: u32) 15" by simp
  then show ?thesis using exceptions_reach_handlers [of sample_cpu] unfolding s Let_def by (auto simp: s(2))
qed

end
