(* ===== verification/Memory.thy ===== *)
theory Memory
  imports Entry
begin

text \<open>
  Virtual memory, \<^verbatim>\<open>kernel/mm/memory.c\<close> and \<^verbatim>\<open>include/os/mm.h\<close>: the frames, the one page table that all
  processes share, the software copy of the translation buffer, and the handler of its exceptions.

  The state \<open>mem\<close> holds the static variables of the file, the words of memory by their (aligned) address,
  and the processor. The page table is the memory from \<^verbatim>\<open>page_table_base_ptr\<close> on, as in the code, so a
  claim that a frame is not part of the page table is a claim about addresses. The four indices that the
  code always reduces modulo the size of a table are natural numbers. Reading a value that a function did
  not return is \<open>None\<close>. The debugging output of the handler (\<^verbatim>\<open>vt100_move_cursor\<close>, \<^verbatim>\<open>printk\<close>) is left
  out. \<^verbatim>\<open>current_running->pid\<close> is the argument \<open>cur\<close>, the global \<^verbatim>\<open>PID\<close> the argument \<open>pid0\<close>.
\<close>

section \<open>Types and constants of mm.h\<close>

abbreviation (input) "PAGE_SIZE \<equiv> 0x1000 :: u32"
abbreviation (input) "PAGE_TABLE_PAGES \<equiv> 512 :: nat"
abbreviation (input) "FRAME_PAGES \<equiv> 2048 :: nat"
abbreviation (input) "SD_SWAP_UNIT_NUM \<equiv> 1 :: nat"
abbreviation (input) "PAGEABLE_PAGES \<equiv> 2049 :: nat"
abbreviation (input) "PAGE_FRAME_START \<equiv> 0xa1000000 :: u32"
abbreviation (input) "PTE_V \<equiv> 2 :: u32"
abbreviation (input) "PTE_D \<equiv> 4 :: u32"
abbreviation (input) "PTE_C \<equiv> 16 :: u32"

record page_map_entry_t =
  pm_paddr :: u32
  pm_vaddr :: u32
  pm_VPN :: u32
  pm_PFN :: u32
  pm_pid :: u32
  pm_index :: u32
  avail :: bool
  dirty :: bool
  pinned :: bool
  swaped :: bool
  swap_index :: u32
  pm_R :: bool

record tlb_entry_t =
  te_index :: u32
  te_empty :: bool
  te_VPN2 :: u32
  te_PFN0 :: u32
  te_PFN1 :: u32
  te_pid :: u32

record mem =
  page_map :: "page_map_entry_t list"
  page_table_base_ptr :: u32
  free_page_frame_num :: u32
  tlb_table :: "tlb_entry_t list"
  tlb_entry_index_ptr :: nat
  page_alloc_ptr :: nat
  swap_page_alloc_ptr :: nat
  clock_ptr :: nat
  wrong_pid :: u32
  tlb_refill_count :: u32
  tlb_invalid_count :: u32
  ram :: "u32 \<Rightarrow> u32"
  core :: cpu

section \<open>Frames\<close>

definition va_2_pa :: "u32 \<Rightarrow> u32" where
  "va_2_pa va = va - 0xa0000000"

definition pa_2_va :: "u32 \<Rightarrow> u32" where
  "pa_2_va pa = pa + 0xa0000000"

definition page_frame_vaddr :: "u32 \<Rightarrow> u32" where
  "page_frame_vaddr i = PAGE_FRAME_START + i * PAGE_SIZE"

definition page_frame_paddr :: "u32 \<Rightarrow> u32" where
  "page_frame_paddr i = va_2_pa (page_frame_vaddr i)"

definition page_number :: "u32 \<Rightarrow> u32" where
  "page_number a = drop_bit 12 (a AND 0xfffff000)"

definition upd_page :: "nat \<Rightarrow> (page_map_entry_t \<Rightarrow> page_map_entry_t) \<Rightarrow> mem \<Rightarrow> mem option" where
  "upd_page i f m = do {
     e \<leftarrow> load (page_map m) i;
     Some (m\<lparr>page_map := (page_map m)[i := f e]\<rparr>)
   }"

definition bzero_page :: "u32 \<Rightarrow> (u32 \<Rightarrow> u32) \<Rightarrow> u32 \<Rightarrow> u32" where
  "bzero_page start r = (\<lambda>a. if a - start < PAGE_SIZE then 0 else r a)"

partial_function (option) swap_free_from :: "nat \<Rightarrow> mem \<Rightarrow> nat option" where
  "swap_free_from i m =
     (if i < SD_SWAP_UNIT_NUM then do {
        e \<leftarrow> load (page_map m) (i + FRAME_PAGES);
        if avail e then Some i else swap_free_from ((i + 1) mod SD_SWAP_UNIT_NUM) m
      }
      else Some i)"

definition get_swap_free_index :: "mem \<Rightarrow> (nat \<times> mem) option" where
  "get_swap_free_index m = do {
     i \<leftarrow> swap_free_from (swap_page_alloc_ptr m) m;
     Some (i, m\<lparr>swap_page_alloc_ptr := i\<rparr>)
   }"

text \<open>With \<^verbatim>\<open>swapin_valid\<close> the function returns no value, which its only caller then uses.\<close>

definition get_swap_in_index :: "bool \<Rightarrow> mem \<Rightarrow> (nat \<times> mem) option" where
  "get_swap_in_index swapin_valid m = (if \<not> swapin_valid then get_swap_free_index m else None)"

partial_function (option) clock_sweep :: "mem \<Rightarrow> mem option" where
  "clock_sweep m = do {
     e \<leftarrow> load (page_map m) (clock_ptr m);
     if pinned e \<or> pm_R e then do {
       m \<leftarrow> (if pm_R e then upd_page (clock_ptr m) (\<lambda>e. e\<lparr>pm_R := False\<rparr>) m else Some m);
       clock_sweep (m\<lparr>clock_ptr := (clock_ptr m + 1) mod FRAME_PAGES\<rparr>)
     }
     else Some m
   }"

text \<open>
  The branch of \<^verbatim>\<open>page_alloc\<close> for a full memory. Only the case of an empty swap page has code; it is the
  same for both values of \<^verbatim>\<open>tlb_invalid\<close>. \<^verbatim>\<open>do_page_swap\<close> is empty.
\<close>

definition page_alloc_swap :: "u32 \<Rightarrow> bool \<Rightarrow> bool \<Rightarrow> mem \<Rightarrow> mem option" where
  "page_alloc_swap cur pin swapin_valid m = do {
     m \<leftarrow> clock_sweep m;
     let out = clock_ptr m;
     (i, m) \<leftarrow> get_swap_in_index swapin_valid m;
     let swap_in = i + FRAME_PAGES;
     m \<leftarrow> (if \<not> swapin_valid then do {
            m \<leftarrow> upd_page out (\<lambda>e. e\<lparr>swaped := True, swap_index := of_nat swap_in\<rparr>) m;
            let bad = get_cp0_badvaddr (core m);
            let pa = page_frame_paddr (of_nat (clock_ptr m));
            upd_page swap_in (\<lambda>e. e\<lparr>pinned := pin, pm_vaddr := bad, pm_VPN := page_number bad,
              pm_index := of_nat (clock_ptr m), pm_paddr := pa, pm_PFN := page_number pa, pm_pid := cur,
              avail := False, pm_R := True, swaped := False\<rparr>) m
          }
          else Some m);
     m \<leftarrow> upd_page out (\<lambda>e. e\<lparr>swaped := True\<rparr>) m;
     upd_page swap_in (\<lambda>e. e\<lparr>swaped := False\<rparr>) m
   }"

definition page_alloc_free :: "u32 \<Rightarrow> u32 \<Rightarrow> bool \<Rightarrow> nat \<Rightarrow> mem \<Rightarrow> mem option" where
  "page_alloc_free pid0 cur pin i m = do {
     e \<leftarrow> load (page_map m) i;
     let m = m\<lparr>ram := bzero_page (pa_2_va (pm_paddr e)) (ram m)\<rparr>;
     m \<leftarrow> (if page_table_base_ptr m = 0
          then upd_page i (\<lambda>e. e\<lparr>avail := False, pinned := pin, pm_R := True, pm_pid := pid0\<rparr>) m
          else do {
            let bad = get_cp0_badvaddr (core m);
            upd_page i (\<lambda>e. e\<lparr>pm_vaddr := bad, pm_VPN := page_number bad, pm_pid := cur,
              avail := False, pinned := pin, pm_R := True\<rparr>) m
          });
     Some (if free_page_frame_num m > 0 then m\<lparr>free_page_frame_num := free_page_frame_num m - 1\<rparr> else m)
   }"

text \<open>The first component of the result is the returned index; \<open>None\<close> when the function ends without one.\<close>

definition page_alloc :: "u32 \<Rightarrow> u32 \<Rightarrow> bool \<Rightarrow> bool \<Rightarrow> bool \<Rightarrow> mem \<Rightarrow> (nat option \<times> mem) option" where
  "page_alloc pid0 cur pin swapin_valid tlb_invalid m =
     (case scan_up (\<lambda>i. avail (page_map m ! i)) FRAME_PAGES (page_alloc_ptr m) of
        None \<Rightarrow> do {
          m \<leftarrow> page_alloc_swap cur pin swapin_valid m;
          Some (None, m)
        }
      | Some i \<Rightarrow> do {
          let m = m\<lparr>page_alloc_ptr := (page_alloc_ptr m + 1) mod FRAME_PAGES\<rparr>;
          m \<leftarrow> page_alloc_free pid0 cur pin i m;
          Some (Some i, m)
        })"

section \<open>Initialisation\<close>

fun alloc_pages :: "u32 \<Rightarrow> u32 \<Rightarrow> nat \<Rightarrow> mem \<Rightarrow> mem option" where
  "alloc_pages pid0 cur 0 m = Some m"
| "alloc_pages pid0 cur (Suc n) m = do {
     (_, m) \<leftarrow> page_alloc pid0 cur True False False m;
     alloc_pages pid0 cur n m
   }"

definition set_up_page_table :: "u32 \<Rightarrow> u32 \<Rightarrow> mem \<Rightarrow> mem option" where
  "set_up_page_table pid0 cur m = alloc_pages pid0 cur PAGE_TABLE_PAGES m"

fun fill_from :: "nat \<Rightarrow> nat \<Rightarrow> mem \<Rightarrow> mem option" where
  "fill_from i 0 m = Some m"
| "fill_from i (Suc n) m = do {
     let VPN2 = 0xffff7;
     t \<leftarrow> store (tlb_table m) i \<lparr>te_index = of_nat i, te_empty = True, te_VPN2 = VPN2, te_PFN0 = 0,
       te_PFN1 = 0, te_pid = 0\<rparr>;
     let m = m\<lparr>tlb_table := t\<rparr>;
     let c = set_cp0_entryhi (push_bit 13 VPN2) (core m);
     let c = set_cp0_pagemask 0 c;
     let c = set_cp0_entrylo0 0 c;
     let c = set_cp0_entrylo1 0 c;
     let c = set_cp0_index (of_nat i) c;
     c \<leftarrow> tlbwi c;
     fill_from (Suc i) n (m\<lparr>core := c\<rparr>)
   }"

definition fill_tlb :: "mem \<Rightarrow> mem option" where
  "fill_tlb m = fill_from 0 TLB_ENTRIES_NUM m"

definition init_frame :: "nat \<Rightarrow> page_map_entry_t" where
  "init_frame i = \<lparr>pm_paddr = page_frame_paddr (of_nat i), pm_vaddr = 0, pm_VPN = 0,
     pm_PFN = page_number (page_frame_paddr (of_nat i)), pm_pid = 0, pm_index = of_nat i, avail = True,
     dirty = True, pinned = False, swaped = False, swap_index = -1, pm_R = False\<rparr>"

definition init_swap_unit :: "nat \<Rightarrow> page_map_entry_t" where
  "init_swap_unit i = \<lparr>pm_paddr = 0, pm_vaddr = 0, pm_VPN = 0, pm_PFN = 0, pm_pid = 0,
     pm_index = of_nat i, avail = True, dirty = True, pinned = False, swaped = True,
     swap_index = of_nat (i - FRAME_PAGES), pm_R = False\<rparr>"

definition init_memory :: "u32 \<Rightarrow> u32 \<Rightarrow> mem \<Rightarrow> mem option" where
  "init_memory pid0 cur m = do {
     let m = m\<lparr>page_map := map init_frame [0..<FRAME_PAGES] @ map init_swap_unit [FRAME_PAGES..<PAGEABLE_PAGES]\<rparr>;
     m \<leftarrow> set_up_page_table pid0 cur m;
     let m = m\<lparr>page_table_base_ptr := PAGE_FRAME_START\<rparr>;
     fill_tlb m
   }"

section \<open>The exception handler\<close>

definition check_tlb_wrong_access :: "u32 \<Rightarrow> mem \<Rightarrow> bool \<times> mem" where
  "check_tlb_wrong_access cur m =
     (let VPN2 = drop_bit 13 (get_cp0_entryhi (core m) AND 0xffffe000)
      in case find (\<lambda>e. te_VPN2 e = VPN2 \<and> te_pid e \<noteq> cur) (tlb_table m) of
           None \<Rightarrow> (False, m)
         | Some e \<Rightarrow> (True, m\<lparr>wrong_pid := te_pid e\<rparr>))"

text \<open>Without a match the function ends without a value.\<close>

definition get_tlb_invalid_index :: "u32 \<Rightarrow> mem \<Rightarrow> nat option" where
  "get_tlb_invalid_index cur m =
     (let VPN2 = drop_bit 13 (get_cp0_entryhi (core m) AND 0xffffe000)
      in scan_up (\<lambda>i. te_VPN2 (tlb_table m ! i) = VPN2 \<and> te_pid (tlb_table m ! i) = cur) TLB_ENTRIES_NUM 0)"

definition pte :: "mem \<Rightarrow> u32 \<Rightarrow> u32" where
  "pte m v = ram m (page_table_base_ptr m + 4 * v)"

definition set_pte :: "u32 \<Rightarrow> u32 \<Rightarrow> mem \<Rightarrow> mem" where
  "set_pte v w m = m\<lparr>ram := (ram m)(page_table_base_ptr m + 4 * v := w)\<rparr>"

definition entry_lo :: "u32 \<Rightarrow> u32" where
  "entry_lo PFN = push_bit 6 PFN OR PTE_C OR PTE_D OR PTE_V"

definition pte_word :: "u32 \<Rightarrow> u32" where
  "pte_word PFN = push_bit 12 PFN OR PTE_C OR PTE_D OR PTE_V"

text \<open>Writing the registers to the line and copying them to the software table, in both handlers.\<close>

definition write_line :: "u32 \<Rightarrow> u32 \<Rightarrow> bool \<Rightarrow> nat \<Rightarrow> mem \<Rightarrow> mem option" where
  "write_line cur EntryHi is_odd i m = do {
     let c = set_cp0_pagemask 0 (core m);
     let c = set_cp0_entryhi ((EntryHi AND 0xffffe000) OR cur) c;
     c \<leftarrow> tlbwi c;
     e \<leftarrow> load (tlb_table m) i;
     let e = e\<lparr>te_pid := cur, te_empty := False, te_index := of_nat i\<rparr>;
     let e = (if is_odd then e\<lparr>te_PFN1 := drop_bit 6 (get_cp0_entrylo1 c AND 0xffffffc0)\<rparr>
              else e\<lparr>te_PFN0 := drop_bit 6 (get_cp0_entrylo0 c AND 0xffffffc0)\<rparr>);
     let e = e\<lparr>te_VPN2 := drop_bit 13 (get_cp0_entryhi c AND 0xffffe000)\<rparr>;
     Some (m\<lparr>core := c, tlb_table := (tlb_table m)[i := e]\<rparr>)
   }"

text \<open>Filling the next line in turn, in the two branches of the refill handler.\<close>

definition refill_line :: "u32 \<Rightarrow> u32 \<Rightarrow> bool \<Rightarrow> u32 \<Rightarrow> mem \<Rightarrow> mem option" where
  "refill_line cur EntryHi is_odd PFN m = do {
     let m = m\<lparr>tlb_entry_index_ptr := (tlb_entry_index_ptr m + 1) mod TLB_ENTRIES_NUM\<rparr>;
     let c = set_cp0_index (of_nat (tlb_entry_index_ptr m)) (core m);
     c \<leftarrow> tlb_flush_no_check c;
     let c = (if is_odd then set_cp0_entrylo1 (entry_lo PFN) c else set_cp0_entrylo0 (entry_lo PFN) c);
     write_line cur EntryHi is_odd (tlb_entry_index_ptr m) (m\<lparr>core := c\<rparr>)
   }"

text \<open>Completing the line of the faulting page, in the two branches of the invalid handler.\<close>

definition invalid_line :: "u32 \<Rightarrow> u32 \<Rightarrow> bool \<Rightarrow> u32 \<Rightarrow> mem \<Rightarrow> mem option" where
  "invalid_line cur EntryHi is_odd PFN m = do {
     i \<leftarrow> get_tlb_invalid_index cur m;
     let c = set_cp0_index (of_nat i) (core m);
     e \<leftarrow> load (tlb_table m) i;
     let EntryLo1 = entry_lo (if is_odd then PFN else te_PFN1 e);
     let EntryLo0 = entry_lo (if is_odd then te_PFN0 e else PFN);
     let c = set_cp0_entrylo0 EntryLo0 c;
     let c = set_cp0_entrylo1 EntryLo1 c;
     write_line cur EntryHi is_odd i (m\<lparr>core := c\<rparr>)
   }"

text \<open>A frame for the faulting page: allocation and the new page table entry.\<close>

definition new_page :: "u32 \<Rightarrow> u32 \<Rightarrow> bool \<Rightarrow> u32 \<Rightarrow> mem \<Rightarrow> (u32 \<times> mem) option" where
  "new_page pid0 cur tlb_invalid badvpn m = do {
     (r, m) \<leftarrow> page_alloc pid0 cur False False tlb_invalid m;
     i \<leftarrow> r;
     e \<leftarrow> load (page_map m) i;
     let PFN = page_number (pm_paddr e);
     Some (PFN, set_pte badvpn (pte_word PFN) m)
   }"

definition tlb_refill :: "u32 \<Rightarrow> u32 \<Rightarrow> u32 \<Rightarrow> u32 \<Rightarrow> mem \<Rightarrow> mem option" where
  "tlb_refill pid0 cur EntryHi badvaddr m = do {
     let is_odd = bit badvaddr 12;
     let badvpn = page_number badvaddr;
     let m = m\<lparr>tlb_refill_count := tlb_refill_count m + 1\<rparr>;
     let (wrong, m) = check_tlb_wrong_access cur m;
     if wrong then Some m
     else if pte m badvpn \<noteq> 0 \<and> pte m badvpn AND PTE_V = PTE_V then
       refill_line cur EntryHi is_odd (page_number (pte m badvpn)) m
     else if pte m badvpn \<noteq> 0 then Some m
     else if free_page_frame_num m \<noteq> 0 then do {
       (PFN, m) \<leftarrow> new_page pid0 cur False badvpn m;
       refill_line cur EntryHi is_odd PFN m
     }
     else Some m
   }"

text \<open>The invalid handler has the same code for a free frame and for none.\<close>

definition tlb_invalid_handler :: "u32 \<Rightarrow> u32 \<Rightarrow> u32 \<Rightarrow> u32 \<Rightarrow> mem \<Rightarrow> mem option" where
  "tlb_invalid_handler pid0 cur EntryHi badvaddr m = do {
     let is_odd = bit badvaddr 12;
     let badvpn = page_number badvaddr;
     let m = m\<lparr>tlb_invalid_count := tlb_invalid_count m + 1\<rparr>;
     if pte m badvpn = 0 then do {
       (PFN, m) \<leftarrow> new_page pid0 cur True badvpn m;
       invalid_line cur EntryHi is_odd PFN m
     }
     else Some m
   }"

definition handle_tlb_exception_helper :: "u32 \<Rightarrow> u32 \<Rightarrow> mem \<Rightarrow> mem option" where
  "handle_tlb_exception_helper pid0 cur m = do {
     let EntryHi = get_cp0_entryhi (core m);
     let badvaddr = get_cp0_badvaddr (core m);
     c \<leftarrow> tlbp (core m);
     let m = m\<lparr>core := c\<rparr>;
     if bit (get_cp0_index c) 31 then tlb_refill pid0 cur EntryHi badvaddr m
     else tlb_invalid_handler pid0 cur EntryHi badvaddr m
   }"

text \<open>
  The routine \<^verbatim>\<open>handle_tlb\<close> of \<^verbatim>\<open>entry.S\<close> around the handler. The result has the address where execution
  goes on. What the compiled handler leaves in the general registers is the parameter \<open>body\<close>.
\<close>

definition handle_tlb_entry :: "((nat \<Rightarrow> u32) \<Rightarrow> nat \<Rightarrow> u32) \<Rightarrow> (pcb_id \<Rightarrow> u32) \<Rightarrow> mem \<times> kernel \<Rightarrow>
    (u32 \<times> mem \<times> kernel) option" where
  "handle_tlb_entry body addr = (\<lambda>(m, s). do {
     let (c, s) = save_user addr (core m, s);
     let (c, s) = restore_kernel addr (c, s);
     m \<leftarrow> handle_tlb_exception_helper (PID s) (pid (pcbs s (current_running s))) (m\<lparr>core := c\<rparr>);
     let c = (core m)\<lparr>gpr := body (gpr (core m))\<rparr>;
     let (c, s) = save_kernel addr (c, s);
     let (c, s) = restore_user addr (c, s);
     let (a, c) = return_from_exception c;
     Some (a, m\<lparr>core := c\<rparr>, s)
   })"

section \<open>Fields of addresses and entries\<close>

lemma page_masks:
  "(0xffffe000 :: u32) = NOT (mask 13)" "(0xfffff000 :: u32) = NOT (mask 12)"
  "(0xffffffc0 :: u32) = NOT (mask 6)" "(0xff :: u32) = mask 8"
  by (simp_all add: mask_eq_exp_minus_1)

lemma drop_masked:
  "drop_bit 13 (x AND 0xffffe000) = drop_bit 13 x" "drop_bit 12 (x AND 0xfffff000) = drop_bit 12 x"
  "drop_bit 6 (x AND 0xffffffc0) = drop_bit 6 x" for x :: u32
  unfolding page_masks by (rule bit_eqI; auto simp: bit_simps dest: bit_imp_le_length)+

lemma page_number_eq: "page_number a = drop_bit 12 a"
  unfolding page_number_def by (rule drop_masked)

lemma flag_bits: "bit (16 :: u32) n \<longleftrightarrow> n = 4" "bit (4 :: u32) n \<longleftrightarrow> n = 2" "bit (2 :: u32) n \<longleftrightarrow> n = 1"
  using bit_exp_iff [of 4 n, where 'a = u32] bit_exp_iff [of 2 n, where 'a = u32] bit_exp_iff [of 1 n, where 'a = u32]
  by auto

lemma small_bit: "unat p < 2 ^ k \<Longrightarrow> bit p n \<Longrightarrow> n < k" for p :: u32
proof -
  assume a: "unat p < 2 ^ k" and b: "bit p n"
  have "bit (unat p) n" using b by (simp add: bit_unsigned_iff)
  then have "bit (take_bit k (unat p)) n" using a by (simp add: take_bit_nat_eq_self)
  then show "n < k" by (simp add: bit_take_bit_iff)
qed

lemma drop_flags:
  "unat p < 2 ^ 20 \<Longrightarrow> drop_bit 12 (pte_word p) = p" "unat p < 2 ^ 26 \<Longrightarrow> drop_bit 6 (entry_lo p) = p"
  "bit (pte_word p) 1" "bit (entry_lo p) 1" "\<not> bit (entry_lo p) 0"
proof -
  show "drop_bit 12 (pte_word p) = p" if "unat p < 2 ^ 20"
    by (rule bit_eqI) (use small_bit [OF that] in \<open>auto simp: pte_word_def bit_simps flag_bits\<close>)
  show "drop_bit 6 (entry_lo p) = p" if "unat p < 2 ^ 26"
    by (rule bit_eqI) (use small_bit [OF that] in \<open>auto simp: entry_lo_def bit_simps flag_bits\<close>)
qed (simp_all add: pte_word_def entry_lo_def bit_simps flag_bits)

lemma pte_word_flags [simp]: "pte_word p \<noteq> 0" "pte_word p AND 2 = 2"
proof -
  show "pte_word p \<noteq> 0" using drop_flags(3) [of p] by (metis bit_0_eq bot_apply bot_bool_def)
  show "pte_word p AND 2 = 2"
    by (rule bit_eqI) (auto simp: bit_simps flag_bits drop_flags(3) [unfolded One_nat_def])
qed

text \<open>What the hardware puts in \<^verbatim>\<open>CP0_ENTRYHI\<close> for a faulting address.\<close>

lemma entryhi_fields:
  fixes a va :: u32
  assumes "unat a < 256"
  shows "drop_bit 13 ((va AND 0xffffe000) OR a) = drop_bit 13 va" "((va AND 0xffffe000) OR a) AND 0xff = a"
    "((va AND 0xffffe000) OR a) AND 0xffffe000 = va AND 0xffffe000"
proof -
  have a: "n < 8" if "bit a n" for n using small_bit [of a 8, OF _ that] assms by simp
  then have h: "\<not> bit a (13 + n)" "\<not> n < 13 \<Longrightarrow> \<not> bit a n" for n by force+
  show "drop_bit 13 ((va AND 0xffffe000) OR a) = drop_bit 13 va"
    unfolding page_masks by (rule bit_eqI) (auto simp: bit_simps h dest: bit_imp_le_length)
  show "((va AND 0xffffe000) OR a) AND 0xff = a"
    unfolding page_masks by (rule bit_eqI) (auto simp: bit_simps dest: a)
  show "((va AND 0xffffe000) OR a) AND 0xffffe000 = va AND 0xffffe000"
    unfolding page_masks by (rule bit_eqI) (auto simp: bit_simps h)
qed

text \<open>The two pages of a line: \<open>b\<close> selects the odd one.\<close>

definition vpn_of :: "u32 \<Rightarrow> bool \<Rightarrow> u32" where
  "vpn_of vpn2 b = 2 * vpn2 + of_bool b"

lemma vpn_of_address: "vpn_of (drop_bit 13 va) (bit va 12) = drop_bit 12 va"
proof -
  let ?x = "drop_bit 12 va"
  have "drop_bit 13 va = drop_bit 1 ?x" by (simp add: drop_bit_drop_bit)
  then have "drop_bit 13 va = ?x div 2" using drop_bit_eq_div [of 1 ?x] by simp
  moreover have "of_bool (bit va 12) = ?x mod 2" by (simp add: mod_2_eq_odd bit_iff_odd_drop_bit)
  ultimately show ?thesis by (simp only: vpn_of_def mult_div_mod_eq)
qed

lemma vpn_of_inject:
  assumes "unat v < 2 ^ 18" and "unat w < 2 ^ 18"
  shows "vpn_of v b = vpn_of w c \<longleftrightarrow> v = w \<and> b = c"
proof -
  have "unat (vpn_of x d) = 2 * unat x + of_bool d" if "unat x < 2 ^ 18" for x d
    using that by (simp add: vpn_of_def unat_word_ariths)
  then have "vpn_of v b = vpn_of w c \<longleftrightarrow> 2 * unat v + of_bool b = 2 * unat w + (of_bool c :: nat)"
    using assms by (simp add: word_unat_eq_iff)
  also have "\<dots> \<longleftrightarrow> unat v = unat w \<and> b = c" by (cases b; cases c; simp; presburger)
  finally show ?thesis by (simp add: word_unat_eq_iff)
qed

lemma vpn2_user:
  fixes va :: u32
  assumes "unat va < 2 ^ 31"
  shows "unat (drop_bit 13 va) < 2 ^ 18" and "unat (drop_bit 12 va) < 2 ^ 19"
  using assms by (simp_all add: drop_bit_eq_div unat_div)

section \<open>The invariant\<close>

text \<open>
  The frames are handed out in order: \<open>n\<close> of them are in use, the first ones. The entries of the page
  table for user pages are empty or point to a frame in use behind the page table itself, no two to the
  same frame. A line of the translation buffer agrees with its copy in the software table; its valid
  halves are what the page table says, a line of user pages has one, and no two lines are for the same
  pair of user pages and address space. The lines that \<^verbatim>\<open>fill_tlb\<close> writes have the number
  \<^verbatim>\<open>0xffff7\<close> in the software table and its low 19 bits in the hardware.
\<close>

definition user_vpn :: "u32 \<Rightarrow> bool" where
  "user_vpn v \<longleftrightarrow> unat v < 2 ^ 19"

definition frame_pfn :: "nat \<Rightarrow> u32" where
  "frame_pfn i = 0x1000 + of_nat i"

definition frames_ok :: "nat \<Rightarrow> mem \<Rightarrow> bool" where
  "frames_ok n m \<longleftrightarrow> length (page_map m) = PAGEABLE_PAGES \<and> n \<le> FRAME_PAGES \<and>
     free_page_frame_num m = of_nat (FRAME_PAGES - n) \<and> page_alloc_ptr m = n mod FRAME_PAGES \<and>
     (\<forall>i < FRAME_PAGES. (avail (page_map m ! i) \<longleftrightarrow> n \<le> i) \<and>
        pm_paddr (page_map m ! i) = page_frame_paddr (of_nat i))"

definition ptes_ok :: "nat \<Rightarrow> mem \<Rightarrow> bool" where
  "ptes_ok n m \<longleftrightarrow>
     (\<forall>v. user_vpn v \<longrightarrow> pte m v = 0 \<or>
        (\<exists>i. PAGE_TABLE_PAGES \<le> i \<and> i < n \<and> pte m v = pte_word (frame_pfn i))) \<and>
     (\<forall>v w. user_vpn v \<and> user_vpn w \<and> pte m v = pte m w \<and> pte m v \<noteq> 0 \<longrightarrow> v = w)"

definition line_lo :: "tlb_line \<Rightarrow> bool \<Rightarrow> u32" where
  "line_lo e b = (if b then line_lo1 e else line_lo0 e)"

definition te_PFN :: "tlb_entry_t \<Rightarrow> bool \<Rightarrow> u32" where
  "te_PFN e b = (if b then te_PFN1 e else te_PFN0 e)"

definition user_line :: "tlb_line \<Rightarrow> bool" where
  "user_line e \<longleftrightarrow> unat (line_vpn2 e) < 2 ^ 18"

definition line_ok :: "(u32 \<Rightarrow> u32) \<Rightarrow> tlb_line \<Rightarrow> tlb_entry_t \<Rightarrow> bool" where
  "line_ok pt e t \<longleftrightarrow> \<not> line_g e \<and> line_asid e = te_pid t \<and>
     (te_VPN2 t = line_vpn2 e \<or> te_VPN2 t = 0xffff7 \<and> line_vpn2 e = 0x7fff7) \<and>
     (\<forall>b. bit (line_lo e b) 1 \<longrightarrow> user_line e \<and> pt (vpn_of (line_vpn2 e) b) \<noteq> 0 \<and>
        line_lo e b = entry_lo (page_number (pt (vpn_of (line_vpn2 e) b))) \<and>
        te_PFN t b = page_number (pt (vpn_of (line_vpn2 e) b))) \<and>
     (user_line e \<longrightarrow> bit (line_lo0 e) 1 \<or> bit (line_lo1 e) 1)"

definition tlb_ok :: "mem \<Rightarrow> bool" where
  "tlb_ok m \<longleftrightarrow> length (tlb (core m)) = TLB_ENTRIES_NUM \<and> length (tlb_table m) = TLB_ENTRIES_NUM \<and>
     tlb_entry_index_ptr m < TLB_ENTRIES_NUM \<and>
     (\<forall>i < TLB_ENTRIES_NUM. line_ok (pte m) (tlb (core m) ! i) (tlb_table m ! i)) \<and>
     (\<forall>i < TLB_ENTRIES_NUM. \<forall>j < TLB_ENTRIES_NUM. user_line (tlb (core m) ! i) \<and>
        line_vpn2 (tlb (core m) ! i) = line_vpn2 (tlb (core m) ! j) \<and>
        line_asid (tlb (core m) ! i) = line_asid (tlb (core m) ! j) \<longrightarrow> i = j)"

definition mem_ok :: "nat \<Rightarrow> mem \<Rightarrow> bool" where
  "mem_ok n m \<longleftrightarrow> page_table_base_ptr m = PAGE_FRAME_START \<and> PAGE_TABLE_PAGES \<le> n \<and> frames_ok n m \<and>
     ptes_ok n m \<and> tlb_ok m"

lemma vpn_of_user: "user_line e \<Longrightarrow> user_vpn (vpn_of (line_vpn2 e) b)"
  by (simp add: user_line_def user_vpn_def vpn_of_def unat_word_ariths)

section \<open>Allocation keeps it\<close>

lemma frame_address:
  assumes "i < FRAME_PAGES"
  shows "pa_2_va (page_frame_paddr (of_nat i)) = page_frame_vaddr (of_nat i)"
    "page_number (page_frame_paddr (of_nat i)) = frame_pfn i" "unat (frame_pfn i) = 0x1000 + i"
    "unat (page_frame_vaddr (of_nat i)) = 0xa1000000 + 0x1000 * i"
proof -
  have i: "unat (of_nat i :: u32) = i" using assms by (simp add: unat_of_nat)
  show "pa_2_va (page_frame_paddr (of_nat i)) = page_frame_vaddr (of_nat i)"
    by (simp add: pa_2_va_def page_frame_paddr_def va_2_pa_def)
  show v: "unat (page_frame_vaddr (of_nat i)) = 0xa1000000 + 0x1000 * i"
    using assms i by (simp add: page_frame_vaddr_def unat_word_ariths)
  show f: "unat (frame_pfn i) = 0x1000 + i" using assms i by (simp add: frame_pfn_def unat_word_ariths)
  have "unat (page_frame_paddr (of_nat i)) = 0x1000000 + 0x1000 * i"
    using v assms by (simp add: page_frame_paddr_def va_2_pa_def unat_sub_if_size word_size)
  then show "page_number (page_frame_paddr (of_nat i)) = frame_pfn i"
    using f by (simp add: page_number_eq word_unat_eq_iff drop_bit_eq_div unat_div)
qed

lemma frame_fields:
  assumes "i < FRAME_PAGES"
  shows "page_number (pte_word (frame_pfn i)) = frame_pfn i" "drop_bit 6 (entry_lo (frame_pfn i)) = frame_pfn i"
  using frame_address(3) [OF assms] assms drop_flags(1,2) [of "frame_pfn i"] by (simp_all add: page_number_eq)

lemma frame_pfn_inject: "i < FRAME_PAGES \<Longrightarrow> j < FRAME_PAGES \<Longrightarrow> frame_pfn i = frame_pfn j \<longleftrightarrow> i = j"
  by (metis frame_address(3) add_left_imp_eq)

text \<open>The words of the page table are in the first 512 frames only.\<close>

lemma pte_in_frame:
  assumes "user_vpn v" and "i < FRAME_PAGES"
  shows "(PAGE_FRAME_START + 4 * v) - page_frame_vaddr (of_nat i) < PAGE_SIZE \<longleftrightarrow> unat v div 1024 = i"
proof -
  have "unat (PAGE_FRAME_START + 4 * v) = 0xa1000000 + 4 * unat v"
    using assms(1) by (simp add: user_vpn_def unat_word_ariths)
  then have "unat ((PAGE_FRAME_START + 4 * v) - page_frame_vaddr (of_nat i)) =
      (if 0x1000 * i \<le> 4 * unat v then 4 * unat v - 0x1000 * i else 2 ^ 32 + 4 * unat v - 0x1000 * i)"
    using frame_address(4) [OF assms(2)] by (simp add: unat_sub_if_size word_size)
  then have "(PAGE_FRAME_START + 4 * v) - page_frame_vaddr (of_nat i) < PAGE_SIZE \<longleftrightarrow>
      (if 0x1000 * i \<le> 4 * unat v then 4 * unat v - 0x1000 * i else 2 ^ 32 + 4 * unat v - 0x1000 * i) < 0x1000"
    by (simp add: word_less_nat_alt)
  also have "\<dots> \<longleftrightarrow> 1024 * i \<le> unat v \<and> unat v < 1024 * i + 1024" using assms(2) by (cases "0x1000 * i \<le> 4 * unat v") auto
  also have "\<dots> \<longleftrightarrow> unat v div 1024 = i" by (auto simp: div_nat_eqI)
  finally show ?thesis .
qed

lemma page_alloc_ok:
  assumes "frames_ok n m" and "n < FRAME_PAGES"
  shows "\<exists>m'. page_alloc pid0 cur pin sv ti m = Some (Some n, m') \<and> frames_ok (n + 1) m' \<and>
    ram m' = bzero_page (page_frame_vaddr (of_nat n)) (ram m) \<and> core m' = core m \<and>
    tlb_table m' = tlb_table m \<and> tlb_entry_index_ptr m' = tlb_entry_index_ptr m \<and>
    page_table_base_ptr m' = page_table_base_ptr m"
proof -
  have F: "length (page_map m) = 2049" "page_alloc_ptr m = n" "free_page_frame_num m = of_nat (2048 - n)"
    "\<And>i. i < 2048 \<Longrightarrow> (avail (page_map m ! i) \<longleftrightarrow> n \<le> i) \<and> pm_paddr (page_map m ! i) = page_frame_paddr (of_nat i)"
    using assms by (auto simp: frames_ok_def)
  have scan: "scan_up (\<lambda>i. avail (page_map m ! i)) 2048 n = Some n"
    using assms(2) F(4) by (subst scan_up.simps) simp
  have "unat (of_nat (2048 - n) :: u32) = 2048 - n" by (simp add: unat_of_nat)
  then have pos: "free_page_frame_num m > 0" using F(3) assms(2) by (simp add: word_less_nat_alt)
  have dec: "free_page_frame_num m - 1 = of_nat (2048 - (n + 1))"
    using assms(2) F(3) by (simp add: of_nat_diff)
  have pa: "pa_2_va (pm_paddr (page_map m ! n)) = page_frame_vaddr (of_nat n)"
    using F(4) [OF assms(2)] frame_address(1) [OF assms(2)] by simp
  define e where "e = (if page_table_base_ptr m = 0
    then (page_map m ! n)\<lparr>avail := False, pinned := pin, pm_R := True, pm_pid := pid0\<rparr>
    else (page_map m ! n)\<lparr>pm_vaddr := CP0_BADVADDR (core m), pm_VPN := page_number (CP0_BADVADDR (core m)),
      pm_pid := cur, avail := False, pinned := pin, pm_R := True\<rparr>)"
  let ?m = "m\<lparr>page_alloc_ptr := (n + 1) mod 2048,
    ram := bzero_page (page_frame_vaddr (of_nat n)) (ram m),
    page_map := (page_map m)[n := e], free_page_frame_num := of_nat (2048 - (n + 1))\<rparr>"
  have "page_alloc pid0 cur pin sv ti m = Some (Some n, ?m)"
    using assms(2) F(1,2) pos dec pa
    by (simp add: page_alloc_def scan page_alloc_free_def upd_page_def Let_def cp0_access e_def)
  moreover have "frames_ok (n + 1) ?m"
    using assms(2) F(1) by (auto simp: frames_ok_def nth_list_update e_def F(4))
  ultimately show ?thesis by simp
qed

lemma pte_bzero:
  assumes "page_table_base_ptr m = PAGE_FRAME_START" and "page_table_base_ptr m' = PAGE_FRAME_START"
    and "ram m' = bzero_page (page_frame_vaddr (of_nat n)) (ram m)" and "PAGE_TABLE_PAGES \<le> n" and "n < FRAME_PAGES"
    and "user_vpn v"
  shows "pte m' v = pte m v"
proof -
  have "unat v div 1024 \<noteq> n" using assms(4,6) by (auto simp: user_vpn_def)
  then show ?thesis using assms pte_in_frame [OF assms(6,5)] by (simp add: pte_def bzero_page_def)
qed

lemma set_pte_pte:
  assumes "page_table_base_ptr m = PAGE_FRAME_START" and "user_vpn v" and "user_vpn w"
  shows "pte (set_pte v x m) w = (if w = v then x else pte m w)"
proof -
  have a: "unat (PAGE_FRAME_START + 4 * u) = 0xa1000000 + 4 * unat u" if "user_vpn u" for u
    using that by (simp add: user_vpn_def unat_word_ariths)
  have "PAGE_FRAME_START + 4 * w = PAGE_FRAME_START + 4 * v \<longleftrightarrow> w = v"
    using a [OF assms(2)] a [OF assms(3)] by (auto simp: word_unat_eq_iff)
  then show ?thesis using assms(1) by (simp add: set_pte_def pte_def)
qed

lemma ptes_okD:
  assumes "ptes_ok n m" and "user_vpn v" and "pte m v \<noteq> 0"
  shows "\<exists>i. PAGE_TABLE_PAGES \<le> i \<and> i < n \<and> pte m v = pte_word (frame_pfn i)"
    and "user_vpn w \<Longrightarrow> pte m w = pte m v \<Longrightarrow> w = v"
proof -
  show "\<exists>i. PAGE_TABLE_PAGES \<le> i \<and> i < n \<and> pte m v = pte_word (frame_pfn i)"
    using assms unfolding ptes_ok_def by blast
  show "w = v" if "user_vpn w" "pte m w = pte m v"
    using assms that unfolding ptes_ok_def by metis
qed

text \<open>A new page: the next frame, for a user page without one.\<close>

lemma new_page_ok:
  assumes "page_table_base_ptr m = PAGE_FRAME_START" and "PAGE_TABLE_PAGES \<le> n" and "frames_ok n m" and "ptes_ok n m"
    and "n < FRAME_PAGES" and "user_vpn v" and "pte m v = 0"
  shows "\<exists>m'. new_page pid0 cur ti v m = Some (frame_pfn n, m') \<and> page_table_base_ptr m' = PAGE_FRAME_START \<and>
    frames_ok (n + 1) m' \<and> ptes_ok (n + 1) m' \<and> pte m' v = pte_word (frame_pfn n) \<and>
    (\<forall>w. user_vpn w \<and> w \<noteq> v \<longrightarrow> pte m' w = pte m w) \<and> core m' = core m \<and> tlb_table m' = tlb_table m \<and>
    tlb_entry_index_ptr m' = tlb_entry_index_ptr m"
proof -
  obtain m1 where m1: "page_alloc pid0 cur False False ti m = Some (Some n, m1)" "frames_ok (n + 1) m1"
    "ram m1 = bzero_page (page_frame_vaddr (of_nat n)) (ram m)" "core m1 = core m" "tlb_table m1 = tlb_table m"
    "tlb_entry_index_ptr m1 = tlb_entry_index_ptr m" "page_table_base_ptr m1 = PAGE_FRAME_START"
    using page_alloc_ok [OF assms(3,5)] assms(1) by metis
  let ?m = "set_pte v (pte_word (frame_pfn n)) m1"
  have f: "length (page_map m1) = 2049" "pm_paddr (page_map m1 ! n) = page_frame_paddr (of_nat n)"
    using m1(2) assms(5) by (simp_all add: frames_ok_def)
  have new: "new_page pid0 cur ti v m = Some (frame_pfn n, ?m)"
    using m1(1) f assms(5) frame_address(2) [OF assms(5)] by (simp add: new_page_def Let_def)
  have p: "pte ?m w = (if w = v then pte_word (frame_pfn n) else pte m w)" if "user_vpn w" for w
    using set_pte_pte [OF m1(7) assms(6) that] pte_bzero [OF assms(1) m1(7,3) assms(2,5) that] by simp
  have fresh: "pte m w \<noteq> pte_word (frame_pfn n)" if w: "user_vpn w" for w
  proof
    assume a: "pte m w = pte_word (frame_pfn n)"
    then obtain i where i: "i < n" "pte m w = pte_word (frame_pfn i)"
      using ptes_okD(1) [OF assms(4) w] pte_word_flags(1) by metis
    then have "frame_pfn i = frame_pfn n" using a frame_fields(1) [of i] frame_fields(1) [of n] assms(5) by auto
    then show False using frame_pfn_inject [of i n] i(1) assms(5) by simp
  qed
  have "ptes_ok (n + 1) ?m"
    unfolding ptes_ok_def
  proof (intro conjI allI impI)
    show "pte ?m w = 0 \<or> (\<exists>i. 512 \<le> i \<and> i < n + 1 \<and> pte ?m w = pte_word (frame_pfn i))" if "user_vpn w" for w
      using ptes_okD(1) [OF assms(4) that] assms(2) less_Suc_eq p [OF that] by (cases "pte m w = 0"; cases "w = v") auto
    show "w = u" if a: "user_vpn w \<and> user_vpn u \<and> pte ?m w = pte ?m u \<and> pte ?m w \<noteq> 0" for w u
    proof -
      have u: "user_vpn w" "user_vpn u" using a by simp_all
      have "(if w = v then pte_word (frame_pfn n) else pte m w) = (if u = v then pte_word (frame_pfn n) else pte m u)"
        "w \<noteq> v \<Longrightarrow> pte m w \<noteq> 0"
        using a p [OF u(1)] p [OF u(2)] by argo+
      then show ?thesis
        using fresh [OF u(1)] fresh [OF u(2)] ptes_okD(2) [OF assms(4) u(1) _ u(2)] by (metis (full_types))
    qed
  qed
  moreover have "frames_ok (n + 1) ?m" using m1(2) by (simp add: frames_ok_def set_pte_def)
  ultimately show ?thesis using new p assms(6) m1 by (auto simp: set_pte_def)
qed

section \<open>The translation buffer\<close>

lemma line_okD:
  assumes "line_ok pt e t" and "bit (line_lo e b) 1"
  shows "user_line e" and "pt (vpn_of (line_vpn2 e) b) \<noteq> 0"
    and "line_lo e b = entry_lo (page_number (pt (vpn_of (line_vpn2 e) b)))"
    and "te_PFN t b = page_number (pt (vpn_of (line_vpn2 e) b))"
  using assms by (simp_all add: line_ok_def)

lemma line_ok_mono:
  assumes "line_ok pt e t" and "\<And>v. user_vpn v \<Longrightarrow> pt v \<noteq> 0 \<Longrightarrow> pt' v = pt v"
  shows "line_ok pt' e t"
proof -
  have "pt' (vpn_of (line_vpn2 e) b) = pt (vpn_of (line_vpn2 e) b)" if "bit (line_lo e b) 1" for b
  proof -
    show ?thesis using assms(2) line_okD(1,2) [OF assms(1) that] vpn_of_user by simp
  qed
  then show ?thesis using assms(1) by (simp add: line_ok_def)
qed

text \<open>Replacing one line and its copy.\<close>

lemma tlb_ok_install:
  assumes "tlb_ok m" and "i < TLB_ENTRIES_NUM" and "line_ok (pte m') e t"
    and "\<And>j. j < TLB_ENTRIES_NUM \<Longrightarrow> j \<noteq> i \<Longrightarrow> line_vpn2 (tlb (core m) ! j) = line_vpn2 e \<Longrightarrow>
        line_asid (tlb (core m) ! j) \<noteq> line_asid e"
    and "\<And>v. user_vpn v \<Longrightarrow> pte m v \<noteq> 0 \<Longrightarrow> pte m' v = pte m v"
    and "tlb (core m') = (tlb (core m))[i := e]" and "tlb_table m' = (tlb_table m)[i := t]"
    and "tlb_entry_index_ptr m' < TLB_ENTRIES_NUM"
  shows "tlb_ok m'"
proof -
  have L: "length (tlb (core m)) = 32" "length (tlb_table m) = 32" using assms(1) by (simp_all add: tlb_ok_def)
  have "line_ok (pte m') (tlb (core m') ! j) (tlb_table m' ! j)" if "j < 32" for j
  proof (cases "j = i")
    case False
    have "line_ok (pte m) (tlb (core m) ! j) (tlb_table m ! j)" using assms(1) that by (simp add: tlb_ok_def)
    then show ?thesis using line_ok_mono assms(5) False by (simp add: assms(6,7))
  qed (use assms(2,3) L in \<open>simp add: assms(6,7)\<close>)
  moreover have "j = k" if "j < 32" "k < 32" "user_line (tlb (core m') ! j)"
    "line_vpn2 (tlb (core m') ! j) = line_vpn2 (tlb (core m') ! k)"
    "line_asid (tlb (core m') ! j) = line_asid (tlb (core m') ! k)" for j k
  proof (cases "j = i \<or> k = i")
    case True
    then show ?thesis using assms(4) [of j] assms(4) [of k] that L assms(2) by (cases "j = k") (auto simp: assms(6))
  next
    case False
    then show ?thesis using assms(1) that by (simp add: assms(6) tlb_ok_def)
  qed
  ultimately show ?thesis using L assms(6-8) unfolding tlb_ok_def by auto
qed

text \<open>The line the hardware finds for a user address.\<close>

lemma matching_user:
  assumes "tlb_ok m" and "unat cur < 256" and "unat va < 2 ^ 31"
  obtains (none) "matching ((va AND 0xffffe000) OR cur) (core m) = []"
      "\<And>i. i < 32 \<Longrightarrow> line_vpn2 (tlb (core m) ! i) = drop_bit 13 va \<Longrightarrow> line_asid (tlb (core m) ! i) \<noteq> cur"
    | (one) i where "matching ((va AND 0xffffe000) OR cur) (core m) = [i]" "i < 32"
        "line_vpn2 (tlb (core m) ! i) = drop_bit 13 va" "line_asid (tlb (core m) ! i) = cur"
        "user_line (tlb (core m) ! i)"
        "\<And>j. j < 32 \<Longrightarrow> line_vpn2 (tlb (core m) ! j) = drop_bit 13 va \<Longrightarrow> line_asid (tlb (core m) ! j) = cur \<Longrightarrow> j = i"
proof -
  let ?ms = "matching ((va AND 0xffffe000) OR cur) (core m)"
  let ?hit = "\<lambda>i. line_vpn2 (tlb (core m) ! i) = drop_bit 13 va \<and> line_asid (tlb (core m) ! i) = cur"
  have T: "length (tlb (core m)) = 32" "\<And>i. i < 32 \<Longrightarrow> \<not> line_g (tlb (core m) ! i)"
    using assms(1) by (simp_all add: tlb_ok_def line_ok_def)
  have ms: "set ?ms = {i. i < 32 \<and> ?hit i}" "distinct ?ms"
    using T entryhi_fields [OF assms(2)] by (auto simp: matching_def line_matches_def)
  show thesis
  proof (cases ?ms)
    case Nil
    then have "{i. i < 32 \<and> ?hit i} = {}" using ms(1) by simp
    then show thesis using none [OF Nil] by blast
  next
    case (Cons i ks)
    then have "i \<in> set ?ms" by simp
    then have i: "i < 32" "?hit i" unfolding ms(1) by simp_all
    have u: "user_line (tlb (core m) ! i)" using i(2) vpn2_user(1) [OF assms(3)] by (simp add: user_line_def)
    have uniq: "j = i" if "j < 32" "?hit j" for j
      using assms(1) i u that unfolding tlb_ok_def by metis
    have ks: "ks = []"
    proof (cases ks)
      case (Cons j js)
      then have "j \<in> set ?ms" "j \<noteq> i" using ms(2) \<open>?ms = i # ks\<close> by simp_all
      then show ?thesis using ms(1) uniq by blast
    qed
    have "?ms = [i]" using Cons ks by simp
    from one [OF this i(1) _ _ u] show thesis using i(2) uniq by blast
  qed
qed

lemma translate_cong: "tlb c = tlb d \<Longrightarrow> CP0_ENTRYHI c = CP0_ENTRYHI d \<Longrightarrow> translate va c = translate va d"
  by (simp only: translate_def matching_def)

lemma page_number_small: "unat (page_number a) < 2 ^ 20"
proof -
  have "unat a < 2 ^ 32" by (rule order_less_le_trans [OF unsigned_less]) simp
  then show ?thesis by (simp add: page_number_eq drop_bit_eq_div unat_div)
qed

lemma translate_line:
  assumes "tlb_ok m" and "unat cur < 256" and "unat va < 2 ^ 31"
    and "CP0_ENTRYHI (core m) = (va AND 0xffffe000) OR cur" and "i < 32"
    and "line_vpn2 (tlb (core m) ! i) = drop_bit 13 va" and "line_asid (tlb (core m) ! i) = cur"
  shows "translate va (core m) = (if bit (line_lo (tlb (core m) ! i) (bit va 12)) 1
    then Some (push_bit 12 (page_number (pte m (page_number va))) OR (va AND 0xfff)) else None)"
proof -
  let ?e = "tlb (core m) ! i"
  have eh: "(va AND 0xffffe000) OR (CP0_ENTRYHI (core m) AND 0xff) = (va AND 0xffffe000) OR cur"
    using entryhi_fields(2) [OF assms(2)] assms(4) by simp
  have "matching ((va AND 0xffffe000) OR cur) (core m) = [i]"
    using assms(1-3)
  proof (cases rule: matching_user)
    case none
    then show ?thesis using assms(5-7) by blast
  next
    case (one j)
    then show ?thesis using assms(5-7) by blast
  qed
  moreover have "line_ok (pte m) ?e (tlb_table m ! i)" using assms(1,5) by (simp add: tlb_ok_def)
  then have "line_lo ?e (bit va 12) = entry_lo (page_number (pte m (page_number va)))"
    if "bit (line_lo ?e (bit va 12)) 1"
    using line_okD(3) [OF _ that] assms(6) vpn_of_address [of va] by (simp add: page_number_eq)
  moreover have "drop_bit 6 (entry_lo (page_number a)) = page_number a" for a
    using drop_flags(2) page_number_small [of a] by force
  moreover have "line_half va ?e = line_lo ?e (bit va 12)" by (simp add: line_half_def line_lo_def)
  ultimately show ?thesis
    by (cases "bit (line_lo ?e (bit va 12)) 1") (simp_all add: translate_def eh)
qed

lemma write_line_eq:
  assumes "i < length (tlb_table m)" and "unat (CP0_INDEX (core m)) < length (tlb (core m))"
    and "EntryHi AND 0xffffe000 = va AND 0xffffe000" and "unat cur < 256"
  shows "\<exists>c. write_line cur EntryHi b i m = Some (m\<lparr>core := c, tlb_table := (tlb_table m)
      [i := (tlb_table m ! i)\<lparr>te_pid := cur, te_empty := False, te_index := of_nat i,
        te_PFN0 := (if b then te_PFN0 (tlb_table m ! i) else drop_bit 6 (CP0_ENTRYLO0 (core m))),
        te_PFN1 := (if b then drop_bit 6 (CP0_ENTRYLO1 (core m)) else te_PFN1 (tlb_table m ! i)),
        te_VPN2 := drop_bit 13 va\<rparr>]\<rparr>) \<and>
    CP0_ENTRYHI c = (va AND 0xffffe000) OR cur \<and> CP0_BADVADDR c = CP0_BADVADDR (core m) \<and> gpr c = gpr (core m) \<and>
    tlb c = (tlb (core m))[unat (CP0_INDEX (core m)) := \<lparr>line_vpn2 = drop_bit 13 va, line_asid = cur,
      line_g = (bit (CP0_ENTRYLO0 (core m)) 0 \<and> bit (CP0_ENTRYLO1 (core m)) 0),
      line_lo0 = CP0_ENTRYLO0 (core m), line_lo1 = CP0_ENTRYLO1 (core m)\<rparr>]"
  using assms(1,2) entryhi_fields [OF assms(4), of va] drop_masked
  by (intro exI [of _ "(core m)\<lparr>CP0_PAGEMASK := 0, CP0_ENTRYHI := (va AND 0xffffe000) OR cur, tlb := (tlb (core m))
      [unat (CP0_INDEX (core m)) := \<lparr>line_vpn2 = drop_bit 13 va, line_asid = cur,
        line_g = (bit (CP0_ENTRYLO0 (core m)) 0 \<and> bit (CP0_ENTRYLO1 (core m)) 0),
        line_lo0 = CP0_ENTRYLO0 (core m), line_lo1 = CP0_ENTRYLO1 (core m)\<rparr>]\<rparr>"])
    (simp add: write_line_def Let_def cp0_access tlbwi_def new_line_def assms(3))

lemma line_okI:
  assumes "user_line e" and "\<not> line_g e" and "line_asid e = te_pid t" and "te_VPN2 t = line_vpn2 e"
    and "bit (line_lo0 e) 1 \<or> bit (line_lo1 e) 1"
    and "bit (line_lo e b) 1 \<Longrightarrow> pt (vpn_of (line_vpn2 e) b) \<noteq> 0 \<and>
      line_lo e b = entry_lo (page_number (pt (vpn_of (line_vpn2 e) b))) \<and>
      te_PFN t b = page_number (pt (vpn_of (line_vpn2 e) b))"
    and "bit (line_lo e (\<not> b)) 1 \<Longrightarrow> pt (vpn_of (line_vpn2 e) (\<not> b)) \<noteq> 0 \<and>
      line_lo e (\<not> b) = entry_lo (page_number (pt (vpn_of (line_vpn2 e) (\<not> b)))) \<and>
      te_PFN t (\<not> b) = page_number (pt (vpn_of (line_vpn2 e) (\<not> b)))"
  shows "line_ok pt e t"
proof -
  have "pt (vpn_of (line_vpn2 e) a) \<noteq> 0 \<and> line_lo e a = entry_lo (page_number (pt (vpn_of (line_vpn2 e) a))) \<and>
      te_PFN t a = page_number (pt (vpn_of (line_vpn2 e) a))" if "bit (line_lo e a) 1" for a
    using that assms(6,7) by (cases "a = b") auto
  then show ?thesis using assms(1-5) by (simp add: line_ok_def)
qed

text \<open>The result of a handler that ends well: the page is mapped for the current process.\<close>

definition mapped :: "u32 \<Rightarrow> u32 \<Rightarrow> mem \<Rightarrow> bool" where
  "mapped cur va m \<longleftrightarrow> CP0_ENTRYHI (core m) = (va AND 0xffffe000) OR cur \<and> pte m (page_number va) \<noteq> 0 \<and>
     translate va (core m) = Some (push_bit 12 (page_number (pte m (page_number va))) OR (va AND 0xfff))"

lemma refill_line_ok:
  assumes "tlb_ok m" and "unat cur < 256" and "unat va < 2 ^ 31" and "EntryHi AND 0xffffe000 = va AND 0xffffe000"
    and none: "\<And>i. i < 32 \<Longrightarrow> line_vpn2 (tlb (core m) ! i) = drop_bit 13 va \<Longrightarrow> line_asid (tlb (core m) ! i) \<noteq> cur"
    and pt: "pte m (page_number va) \<noteq> 0" "p = page_number (pte m (page_number va))"
  shows "\<exists>k c t. refill_line cur EntryHi (bit va 12) p m = Some (m\<lparr>tlb_entry_index_ptr := k, core := c, tlb_table := t\<rparr>) \<and>
    tlb_ok (m\<lparr>tlb_entry_index_ptr := k, core := c, tlb_table := t\<rparr>) \<and>
    mapped cur va (m\<lparr>tlb_entry_index_ptr := k, core := c, tlb_table := t\<rparr>) \<and>
    CP0_BADVADDR c = CP0_BADVADDR (core m)"
proof -
  let ?b = "bit va 12"
  define k where "k = (tlb_entry_index_ptr m + 1) mod 32"
  have k: "k < 32" and kk: "Suc (tlb_entry_index_ptr m) mod 32 = k" by (simp_all add: k_def)
  have L: "length (tlb (core m)) = 32" "length (tlb_table m) = 32" using assms(1) by (simp_all add: tlb_ok_def)
  have uk: "unat (of_nat k :: u32) = k" using k by (simp add: unat_of_nat)
  define e where "e = \<lparr>line_vpn2 = drop_bit 13 va, line_asid = cur, line_g = False,
    line_lo0 = (if ?b then 0 else entry_lo p), line_lo1 = (if ?b then entry_lo p else 0)\<rparr>"
  define c1 where "c1 = (core m)\<lparr>CP0_INDEX := of_nat k, CP0_ENTRYHI := 0, CP0_ENTRYLO0 := 0,
    CP0_ENTRYLO1 := 0, CP0_PAGEMASK := 0,
    tlb := (tlb (core m))[k := \<lparr>line_vpn2 = 0, line_asid = 0, line_g = False, line_lo0 = 0, line_lo1 = 0\<rparr>]\<rparr>"
  define c0 where "c0 = (if ?b then c1\<lparr>CP0_ENTRYLO1 := entry_lo p\<rparr> else c1\<lparr>CP0_ENTRYLO0 := entry_lo p\<rparr>)"
  let ?m = "m\<lparr>tlb_entry_index_ptr := k, core := c0\<rparr>"
  have step: "refill_line cur EntryHi ?b p m = write_line cur EntryHi ?b k ?m"
    using L k uk kk
    by (auto simp: refill_line_def Let_def cp0_access tlb_flush_no_check_def tlbwi_def new_line_def c0_def c1_def)
  have c0: "CP0_INDEX c0 = of_nat k" "CP0_ENTRYLO0 c0 = line_lo0 e" "CP0_ENTRYLO1 c0 = line_lo1 e"
    "CP0_BADVADDR c0 = CP0_BADVADDR (core m)"
    "tlb c0 = (tlb (core m))[k := \<lparr>line_vpn2 = 0, line_asid = 0, line_g = False, line_lo0 = 0, line_lo1 = 0\<rparr>]"
    by (simp_all add: c0_def c1_def e_def)
  have "unat p < 2 ^ 26" using page_number_small [of "pte m (page_number va)"] pt(2) by simp
  then have dp: "drop_bit 6 (entry_lo p) = p" by (rule drop_flags(2))
  obtain c t where w: "write_line cur EntryHi ?b k ?m = Some (?m\<lparr>core := c, tlb_table := (tlb_table m)[k := t]\<rparr>)"
    "CP0_ENTRYHI c = (va AND 0xffffe000) OR cur" "CP0_BADVADDR c = CP0_BADVADDR (core m)"
    "tlb c = (tlb (core m))[k := e]" "te_pid t = cur" "te_VPN2 t = drop_bit 13 va" "te_PFN t ?b = p"
    using write_line_eq [of k ?m EntryHi va cur ?b] L k uk assms(2,4) dp
    by (auto simp: c0 e_def drop_flags te_PFN_def)
  let ?m' = "m\<lparr>tlb_entry_index_ptr := k, core := c, tlb_table := (tlb_table m)[k := t]\<rparr>"
  have pte: "pte ?m' = pte m" by (rule ext) (simp add: pte_def)
  have "line_ok (pte m) e t"
  proof (rule line_okI [of _ _ ?b])
    show "user_line e" using vpn2_user(1) [OF assms(3)] by (simp add: user_line_def e_def)
  qed (use w(5-7) pt vpn_of_address [of va] drop_flags in \<open>auto simp: e_def line_lo_def page_number_eq\<close>)
  then have ok: "tlb_ok ?m'"
    by (intro tlb_ok_install [OF assms(1) k, of ?m' e t]) (use none k w(4) in \<open>auto simp: pte e_def\<close>)
  moreover have "mapped cur va ?m'"
    using translate_line [OF ok assms(2,3), of k] k L w(2,4) pt drop_flags(4)
    by (simp add: mapped_def pte e_def line_lo_def)
  ultimately show ?thesis using step w(1,3) by auto
qed

lemma invalid_index_ok:
  assumes "tlb_ok m" and "unat cur < 256" and "unat va < 2 ^ 31" and "CP0_ENTRYHI (core m) = (va AND 0xffffe000) OR cur"
    and "i < 32" and "line_vpn2 (tlb (core m) ! i) = drop_bit 13 va" and "line_asid (tlb (core m) ! i) = cur"
    and uniq: "\<And>j. j < 32 \<Longrightarrow> line_vpn2 (tlb (core m) ! j) = drop_bit 13 va \<Longrightarrow> line_asid (tlb (core m) ! j) = cur \<Longrightarrow> j = i"
  shows "get_tlb_invalid_index cur m = Some i"
proof -
  let ?P = "\<lambda>j. te_VPN2 (tlb_table m ! j) = drop_bit 13 va \<and> te_pid (tlb_table m ! j) = cur"
  have small: "drop_bit 13 va \<noteq> 0xffff7" "drop_bit 13 va \<noteq> 0x7fff7" using vpn2_user(1) [OF assms(3)] by auto
  have P: "?P j \<longleftrightarrow> j = i" if j: "j < 32" for j
  proof -
    have "line_ok (pte m) (tlb (core m) ! j) (tlb_table m ! j)" using assms(1) j by (simp add: tlb_ok_def)
    then have t: "te_pid (tlb_table m ! j) = line_asid (tlb (core m) ! j)"
      "te_VPN2 (tlb_table m ! j) = drop_bit 13 va \<longleftrightarrow> line_vpn2 (tlb (core m) ! j) = drop_bit 13 va"
      using small by (auto simp: line_ok_def)
    show ?thesis using t uniq [OF j] assms(6,7) by auto
  qed
  have eh: "drop_bit 13 (get_cp0_entryhi (core m) AND 0xffffe000) = drop_bit 13 va"
    using entryhi_fields(1) [OF assms(2), of va] assms(4) drop_masked(1) by (metis get_cp0_entryhi_def)
  show ?thesis
  proof (cases "scan_up ?P 32 0")
    case None
    then show ?thesis using scan_up_None [OF None] P [OF assms(5)] assms(5) by auto
  next
    case (Some j)
    then have "j < 32" "?P j" using scan_up_Some [OF Some] by auto
    then have "j = i" using P by blast
    then show ?thesis using Some unfolding get_tlb_invalid_index_def Let_def eh by simp
  qed
qed

lemma invalid_line_ok:
  assumes "tlb_ok m" and "unat cur < 256" and "unat va < 2 ^ 31" and eh: "CP0_ENTRYHI (core m) = (va AND 0xffffe000) OR cur"
    and i: "i < 32" "line_vpn2 (tlb (core m) ! i) = drop_bit 13 va" "line_asid (tlb (core m) ! i) = cur"
    and uniq: "\<And>j. j < 32 \<Longrightarrow> line_vpn2 (tlb (core m) ! j) = drop_bit 13 va \<Longrightarrow> line_asid (tlb (core m) ! j) = cur \<Longrightarrow> j = i"
    and half: "\<not> bit (line_lo (tlb (core m) ! i) (bit va 12)) 1"
    and pt: "pte m (page_number va) \<noteq> 0" "p = page_number (pte m (page_number va))"
  shows "\<exists>c t. invalid_line cur ((va AND 0xffffe000) OR cur) (bit va 12) p m = Some (m\<lparr>core := c, tlb_table := t\<rparr>) \<and>
    tlb_ok (m\<lparr>core := c, tlb_table := t\<rparr>) \<and> mapped cur va (m\<lparr>core := c, tlb_table := t\<rparr>) \<and>
    CP0_BADVADDR c = CP0_BADVADDR (core m)"
proof -
  let ?b = "bit va 12" and ?e = "tlb (core m) ! i" and ?t = "tlb_table m ! i"
  have L: "length (tlb (core m)) = 32" "length (tlb_table m) = 32" using assms(1) by (simp_all add: tlb_ok_def)
  have ui: "unat (of_nat i :: u32) = i" using i(1) by (simp add: unat_of_nat)
  have lok: "line_ok (pte m) ?e ?t" using assms(1) i(1) by (simp add: tlb_ok_def)
  have ul: "user_line ?e" using vpn2_user(1) [OF assms(3)] i(2) by (simp add: user_line_def)
  then have other: "bit (line_lo ?e (\<not> ?b)) 1" using lok half by (auto simp: line_ok_def line_lo_def)
  define q where "q = te_PFN ?t (\<not> ?b)"
  have q: "q = page_number (pte m (vpn_of (drop_bit 13 va) (\<not> ?b)))" "pte m (vpn_of (drop_bit 13 va) (\<not> ?b)) \<noteq> 0"
    using line_okD(2,4) [OF lok other] i(2) by (simp_all add: q_def)
  define e where "e = \<lparr>line_vpn2 = drop_bit 13 va, line_asid = cur, line_g = False,
    line_lo0 = entry_lo (if ?b then q else p), line_lo1 = entry_lo (if ?b then p else q)\<rparr>"
  define c0 where "c0 = (core m)\<lparr>CP0_INDEX := of_nat i, CP0_ENTRYLO0 := line_lo0 e, CP0_ENTRYLO1 := line_lo1 e\<rparr>"
  let ?m = "m\<lparr>core := c0\<rparr>"
  have "get_tlb_invalid_index cur m = Some i"
    using assms(1-3) eh i uniq by (rule invalid_index_ok)
  then have step: "invalid_line cur ((va AND 0xffffe000) OR cur) ?b p m =
      write_line cur ((va AND 0xffffe000) OR cur) ?b i ?m"
    using L i(1) by (simp add: invalid_line_def Let_def cp0_access c0_def e_def q_def te_PFN_def)
  have "unat p < 2 ^ 26" using page_number_small [of "pte m (page_number va)"] pt(2) by simp
  then have dp: "drop_bit 6 (entry_lo p) = p" by (rule drop_flags(2))
  obtain c t where w: "write_line cur ((va AND 0xffffe000) OR cur) ?b i ?m = Some (?m\<lparr>core := c, tlb_table := (tlb_table m)[i := t]\<rparr>)"
    "CP0_ENTRYHI c = (va AND 0xffffe000) OR cur" "CP0_BADVADDR c = CP0_BADVADDR (core m)"
    "tlb c = (tlb (core m))[i := e]" "te_pid t = cur" "te_VPN2 t = drop_bit 13 va" "te_PFN t ?b = p" "te_PFN t (\<not> ?b) = q"
    using write_line_eq [of i ?m "(va AND 0xffffe000) OR cur" va cur ?b] L i(1) ui assms(2) dp entryhi_fields(3) [OF assms(2), of va]
    by (auto simp: c0_def e_def drop_flags te_PFN_def q_def)
  let ?m' = "m\<lparr>core := c, tlb_table := (tlb_table m)[i := t]\<rparr>"
  have pte: "pte ?m' = pte m" by (rule ext) (simp add: pte_def)
  have "line_ok (pte m) e t"
  proof (rule line_okI [of _ _ ?b])
    show "user_line e" using vpn2_user(1) [OF assms(3)] by (simp add: user_line_def e_def)
  qed (use w(5-8) pt q vpn_of_address [of va] drop_flags in \<open>auto simp: e_def line_lo_def page_number_eq\<close>)
  then have ok: "tlb_ok ?m'"
    using assms(1) i(1)
    by (intro tlb_ok_install [of m i ?m' e t]) (use uniq i(1) w(4) in \<open>auto simp: pte e_def tlb_ok_def\<close>)
  moreover have "mapped cur va ?m'"
    using translate_line [OF ok assms(2,3), of i] i(1) L w(2,4) pt drop_flags(4)
    by (simp add: mapped_def pte e_def line_lo_def)
  ultimately show ?thesis using step w(1,3) by auto
qed

section \<open>The handler\<close>

text \<open>What the processor leaves for the handler: a user address and the current address space.\<close>

definition at_fault :: "u32 \<Rightarrow> u32 \<Rightarrow> mem \<Rightarrow> bool" where
  "at_fault cur va m \<longleftrightarrow> CP0_ENTRYHI (core m) = (va AND 0xffffe000) OR cur \<and> CP0_BADVADDR (core m) = va \<and>
     unat cur < 256 \<and> unat va < 2 ^ 31"

text \<open>Another process has the pair of pages in the software table.\<close>

definition contended :: "u32 \<Rightarrow> u32 \<Rightarrow> mem \<Rightarrow> bool" where
  "contended cur va m \<longleftrightarrow> (\<exists>e \<in> set (tlb_table m). te_VPN2 e = drop_bit 13 va \<and> te_pid e \<noteq> cur)"

text \<open>The line of the faulting page is in the buffer, so its half for the address is invalid.\<close>

definition half_invalid :: "u32 \<Rightarrow> u32 \<Rightarrow> mem \<Rightarrow> bool" where
  "half_invalid cur va m \<longleftrightarrow> (\<exists>i < 32. line_vpn2 (tlb (core m) ! i) = drop_bit 13 va \<and> line_asid (tlb (core m) ! i) = cur)"

lemma tlb_ok_index [simp]: "tlb_ok (m\<lparr>core := (core m)\<lparr>CP0_INDEX := v\<rparr>\<rparr>) = tlb_ok m"
  by (simp add: tlb_ok_def pte_def [abs_def])

lemma mem_frames_tlb:
  "frames_ok n (m\<lparr>core := c\<rparr>) = frames_ok n m" "frames_ok n (m\<lparr>tlb_table := t\<rparr>) = frames_ok n m"
  "frames_ok n (m\<lparr>tlb_entry_index_ptr := k\<rparr>) = frames_ok n m"
  "frames_ok n (m\<lparr>tlb_refill_count := r\<rparr>) = frames_ok n m" "frames_ok n (m\<lparr>tlb_invalid_count := r\<rparr>) = frames_ok n m"
  "frames_ok n (m\<lparr>wrong_pid := w\<rparr>) = frames_ok n m"
  "ptes_ok n (m\<lparr>core := c\<rparr>) = ptes_ok n m" "ptes_ok n (m\<lparr>tlb_table := t\<rparr>) = ptes_ok n m"
  "ptes_ok n (m\<lparr>tlb_entry_index_ptr := k\<rparr>) = ptes_ok n m"
  "ptes_ok n (m\<lparr>tlb_refill_count := r\<rparr>) = ptes_ok n m" "ptes_ok n (m\<lparr>tlb_invalid_count := r\<rparr>) = ptes_ok n m"
  "ptes_ok n (m\<lparr>wrong_pid := w\<rparr>) = ptes_ok n m"
  by (simp_all add: frames_ok_def ptes_ok_def pte_def)

lemma tlb_ok_counters [simp]:
  "tlb_ok (m\<lparr>tlb_refill_count := r\<rparr>) = tlb_ok m" "tlb_ok (m\<lparr>tlb_invalid_count := r\<rparr>) = tlb_ok m"
  "tlb_ok (m\<lparr>wrong_pid := w\<rparr>) = tlb_ok m"
  by (simp_all add: tlb_ok_def pte_def [abs_def])

lemma pte_counters [simp]:
  "pte (m\<lparr>tlb_refill_count := r\<rparr>) = pte m" "pte (m\<lparr>tlb_invalid_count := r\<rparr>) = pte m"
  "pte (m\<lparr>wrong_pid := w\<rparr>) = pte m" "pte (m\<lparr>core := c\<rparr>) = pte m" "pte (m\<lparr>tlb_table := t\<rparr>) = pte m"
  "pte (m\<lparr>tlb_entry_index_ptr := k\<rparr>) = pte m"
  by (simp_all add: pte_def [abs_def])

text \<open>A page that gets a frame keeps the lines of the buffer right.\<close>

lemma tlb_ok_new_page:
  assumes "tlb_ok m" and "pte m v = 0" and "\<forall>w. user_vpn w \<and> w \<noteq> v \<longrightarrow> pte m' w = pte m w"
    and "core m' = core m" and "tlb_table m' = tlb_table m" and "tlb_entry_index_ptr m' = tlb_entry_index_ptr m"
  shows "tlb_ok m'"
proof -
  have "line_ok (pte m') (tlb (core m) ! i) (tlb_table m ! i)" if "i < 32" for i
    using assms(1) that line_ok_mono [of "pte m" "tlb (core m) ! i" "tlb_table m ! i" "pte m'"] assms(2,3)
    by (metis tlb_ok_def)
  then show ?thesis using assms(1,4-6) by (simp add: tlb_ok_def)
qed

lemma free_frames:
  assumes "frames_ok n m"
  shows "free_page_frame_num m \<noteq> 0 \<longleftrightarrow> n < FRAME_PAGES"
proof -
  have "unat (of_nat (2048 - n) :: u32) = 2048 - n" by (simp add: unat_of_nat)
  then show ?thesis using assms by (auto simp: frames_ok_def word_unat_eq_iff)
qed

lemma check_wrong_access:
  assumes "unat cur < 256" and "CP0_ENTRYHI (core m) = (va AND 0xffffe000) OR cur"
  shows "\<exists>w. check_tlb_wrong_access cur m = (contended cur va m, m\<lparr>wrong_pid := w\<rparr>)"
proof -
  have eh: "drop_bit 13 (get_cp0_entryhi (core m) AND 0xffffe000) = drop_bit 13 va"
    using entryhi_fields(1) [OF assms(1), of va] assms(2) drop_masked(1) by (metis get_cp0_entryhi_def)
  show ?thesis
  proof (cases "find (\<lambda>e. te_VPN2 e = drop_bit 13 va \<and> te_pid e \<noteq> cur) (tlb_table m)")
    case None
    moreover have "\<not> contended cur va m" using None by (auto simp: contended_def find_None_iff)
    ultimately have "check_tlb_wrong_access cur m = (contended cur va m, m)"
      unfolding check_tlb_wrong_access_def Let_def eh by simp
    then show ?thesis by (intro exI [of _ "wrong_pid m"]) simp
  next
    case (Some e)
    then have "contended cur va m" by (auto simp: contended_def find_Some_iff)
    then show ?thesis using Some unfolding check_tlb_wrong_access_def Let_def eh by (intro exI [of _ "te_pid e"]) simp
  qed
qed

lemma mem_okD:
  assumes "mem_ok n m"
  shows "page_table_base_ptr m = PAGE_FRAME_START" "PAGE_TABLE_PAGES \<le> n" "frames_ok n m" "ptes_ok n m" "tlb_ok m"
  using assms by (simp_all add: mem_ok_def)

lemma page_number_user: "unat va < 2 ^ 31 \<Longrightarrow> user_vpn (page_number va)"
  using vpn2_user(2) [of va] by (simp add: user_vpn_def page_number_eq)

text \<open>
  The refill branch. The page gets a frame if it has none and one is free; the next line of the buffer
  is filled. With another process on the same pair of pages, or without a free frame, nothing is mapped.
\<close>

lemma tlb_refill_ok:
  assumes "mem_ok n m" and "unat cur < 256" and "unat va < 2 ^ 31" and "CP0_ENTRYHI (core m) = (va AND 0xffffe000) OR cur"
    and none: "\<And>i. i < 32 \<Longrightarrow> line_vpn2 (tlb (core m) ! i) = drop_bit 13 va \<Longrightarrow> line_asid (tlb (core m) ! i) \<noteq> cur"
  shows "\<exists>m'. tlb_refill pid0 cur ((va AND 0xffffe000) OR cur) va m = Some m' \<and>
    mem_ok (if contended cur va m \<or> pte m (page_number va) \<noteq> 0 \<or> n = 2048 then n else n + 1) m' \<and>
    (mapped cur va m' \<or> contended cur va m \<or> pte m (page_number va) = 0 \<and> n = 2048) \<and>
    (contended cur va m \<or> pte m (page_number va) = 0 \<and> n = 2048 \<longrightarrow> pte m' = pte m \<and> core m' = core m) \<and>
    (\<forall>v. user_vpn v \<and> (v \<noteq> page_number va \<or> pte m v \<noteq> 0) \<longrightarrow> pte m' v = pte m v)"
proof -
  note M = mem_okD [OF assms(1)]
  let ?v = "page_number va" and ?eh = "(va AND 0xffffe000) OR cur" and ?m0 = "m\<lparr>tlb_refill_count := tlb_refill_count m + 1\<rparr>"
  obtain w where w: "check_tlb_wrong_access cur ?m0 = (contended cur va m, ?m0\<lparr>wrong_pid := w\<rparr>)"
    using check_wrong_access [of cur ?m0 va] assms(2,4) by (auto simp: contended_def)
  let ?m = "?m0\<lparr>wrong_pid := w\<rparr>"
  have ok: "mem_ok n ?m" using assms(1) by (simp add: mem_ok_def mem_frames_tlb)
  have p: "pte ?m = pte m" "core ?m = core m" by simp_all
  have v: "user_vpn ?v" using assms(3) by (rule page_number_user)
  have eq: "?eh AND 0xffffe000 = va AND 0xffffe000" using entryhi_fields(3) [OF assms(2)] .
  consider (wrong) "contended cur va m" | (present) "\<not> contended cur va m" "pte m ?v \<noteq> 0"
    | (full) "\<not> contended cur va m" "pte m ?v = 0" "n = 2048" | (new) "\<not> contended cur va m" "pte m ?v = 0" "n < 2048"
    using M(3) by (fastforce simp: frames_ok_def)
  then show ?thesis
  proof cases
    case wrong
    then show ?thesis using w ok by (simp add: tlb_refill_def Let_def)
  next
    case present
    have "pte m ?v AND 2 = 2" using ptes_okD(1) [OF M(4) v present(2)] by auto
    then have "tlb_refill pid0 cur ?eh va m = refill_line cur ?eh (bit va 12) (page_number (pte m ?v)) ?m"
      using w present by (simp add: tlb_refill_def Let_def)
    moreover obtain k c t where "refill_line cur ?eh (bit va 12) (page_number (pte m ?v)) ?m =
        Some (?m\<lparr>tlb_entry_index_ptr := k, core := c, tlb_table := t\<rparr>)"
      "tlb_ok (?m\<lparr>tlb_entry_index_ptr := k, core := c, tlb_table := t\<rparr>)"
      "mapped cur va (?m\<lparr>tlb_entry_index_ptr := k, core := c, tlb_table := t\<rparr>)"
      using refill_line_ok [OF mem_okD(5) [OF ok] assms(2,3) eq none [folded p(2)] _ refl] present(2) p(1) by metis
    ultimately show ?thesis using present M by (simp add: mem_ok_def mem_frames_tlb)
  next
    case full
    then have "free_page_frame_num m = 0" using free_frames [OF M(3)] by simp
    then show ?thesis using full w ok by (simp add: tlb_refill_def Let_def)
  next
    case new
    obtain m1 where m1: "new_page pid0 cur False ?v ?m = Some (frame_pfn n, m1)" "page_table_base_ptr m1 = PAGE_FRAME_START"
      "frames_ok (n + 1) m1" "ptes_ok (n + 1) m1" "pte m1 ?v = pte_word (frame_pfn n)"
      "\<forall>u. user_vpn u \<and> u \<noteq> ?v \<longrightarrow> pte m1 u = pte m u" "core m1 = core m" "tlb_table m1 = tlb_table m"
      "tlb_entry_index_ptr m1 = tlb_entry_index_ptr m"
      using new_page_ok [OF mem_okD(1-4) [OF ok] new(3) v, of pid0 cur False] new(2) by auto
    have t1: "tlb_ok m1" using tlb_ok_new_page [OF M(5) new(2) m1(6-9)] .
    have pm1: "pte m1 ?v \<noteq> 0" "frame_pfn n = page_number (pte m1 ?v)" using m1(5) frame_fields(1) [OF new(3)] by simp_all
    have "tlb_refill pid0 cur ?eh va m = refill_line cur ?eh (bit va 12) (frame_pfn n) m1"
      using w new m1(1) free_frames [OF M(3)] by (simp add: tlb_refill_def Let_def)
    moreover obtain k c t where "refill_line cur ?eh (bit va 12) (frame_pfn n) m1 =
        Some (m1\<lparr>tlb_entry_index_ptr := k, core := c, tlb_table := t\<rparr>)"
      "tlb_ok (m1\<lparr>tlb_entry_index_ptr := k, core := c, tlb_table := t\<rparr>)"
      "mapped cur va (m1\<lparr>tlb_entry_index_ptr := k, core := c, tlb_table := t\<rparr>)"
      using refill_line_ok [OF t1 assms(2,3) eq none [folded m1(7)], of "frame_pfn n"] pm1 by blast
    ultimately show ?thesis using new M(2) m1 by (simp add: mem_ok_def mem_frames_tlb)
  qed
qed

text \<open>
  The invalid branch. A page without a frame gets one and its line is completed; a page that has one is
  left alone; without a free frame the value of \<^verbatim>\<open>page_alloc\<close> is used although there is none.
\<close>

lemma page_alloc_full:
  assumes "frames_ok 2048 m"
  shows "page_alloc pid0 cur pin sv ti m = map_option (Pair None) (page_alloc_swap cur pin sv m)"
proof -
  have "scan_up (\<lambda>i. avail (page_map m ! i)) 2048 (page_alloc_ptr m) = None"
  proof (cases "scan_up (\<lambda>i. avail (page_map m ! i)) 2048 (page_alloc_ptr m)")
    case (Some j)
    then show ?thesis using scan_up_Some [OF Some] assms by (auto simp: frames_ok_def)
  qed
  then show ?thesis by (simp add: page_alloc_def map_option_eq_bind)
qed

lemma tlb_invalid_ok:
  assumes "mem_ok n m" and "unat cur < 256" and "unat va < 2 ^ 31" and "CP0_ENTRYHI (core m) = (va AND 0xffffe000) OR cur"
    and i: "i < 32" "line_vpn2 (tlb (core m) ! i) = drop_bit 13 va" "line_asid (tlb (core m) ! i) = cur"
    and uniq: "\<And>j. j < 32 \<Longrightarrow> line_vpn2 (tlb (core m) ! j) = drop_bit 13 va \<Longrightarrow> line_asid (tlb (core m) ! j) = cur \<Longrightarrow> j = i"
  shows "if pte m (page_number va) = 0 \<and> n = 2048 then tlb_invalid_handler pid0 cur ((va AND 0xffffe000) OR cur) va m = None
    else \<exists>m'. tlb_invalid_handler pid0 cur ((va AND 0xffffe000) OR cur) va m = Some m' \<and>
      mem_ok (if pte m (page_number va) \<noteq> 0 then n else n + 1) m' \<and>
      (mapped cur va m' \<or> pte m (page_number va) \<noteq> 0) \<and> (pte m (page_number va) \<noteq> 0 \<longrightarrow> pte m' = pte m \<and> core m' = core m) \<and>
      (\<forall>v. user_vpn v \<and> (v \<noteq> page_number va \<or> pte m v \<noteq> 0) \<longrightarrow> pte m' v = pte m v)"
proof -
  note M = mem_okD [OF assms(1)]
  let ?v = "page_number va" and ?eh = "(va AND 0xffffe000) OR cur" and ?m = "m\<lparr>tlb_invalid_count := tlb_invalid_count m + 1\<rparr>"
  have ok: "mem_ok n ?m" using assms(1) by (simp add: mem_ok_def mem_frames_tlb)
  have v: "user_vpn ?v" using assms(3) by (rule page_number_user)
  consider (present) "pte m ?v \<noteq> 0" | (full) "pte m ?v = 0" "n = 2048" | (new) "pte m ?v = 0" "n < 2048"
    using M(3) by (fastforce simp: frames_ok_def)
  then show ?thesis
  proof cases
    case present
    then show ?thesis using ok by (simp add: tlb_invalid_handler_def Let_def)
  next
    case full
    then show ?thesis
      using page_alloc_full [of ?m] mem_okD(3) [OF ok]
      by (simp add: tlb_invalid_handler_def Let_def new_page_def map_option_eq_bind bind_eq_None_conv)
  next
    case new
    obtain m1 where m1: "new_page pid0 cur True ?v ?m = Some (frame_pfn n, m1)" "page_table_base_ptr m1 = PAGE_FRAME_START"
      "frames_ok (n + 1) m1" "ptes_ok (n + 1) m1" "pte m1 ?v = pte_word (frame_pfn n)"
      "\<forall>u. user_vpn u \<and> u \<noteq> ?v \<longrightarrow> pte m1 u = pte m u" "core m1 = core m" "tlb_table m1 = tlb_table m"
      "tlb_entry_index_ptr m1 = tlb_entry_index_ptr m"
      using new_page_ok [OF mem_okD(1-4) [OF ok] new(2) v, of pid0 cur True] new(1) by auto
    have t1: "tlb_ok m1" using tlb_ok_new_page [OF M(5) new(1) m1(6-9)] .
    have pm1: "pte m1 ?v \<noteq> 0" "frame_pfn n = page_number (pte m1 ?v)" using m1(5) frame_fields(1) [OF new(2)] by simp_all
    have "line_ok (pte m) (tlb (core m) ! i) (tlb_table m ! i)" using M(5) i(1) by (simp add: tlb_ok_def)
    then have half: "\<not> bit (line_lo (tlb (core m) ! i) (bit va 12)) 1"
      using line_okD(2) [of "pte m" "tlb (core m) ! i"] i(2) vpn_of_address [of va] new(1) by (metis page_number_eq)
    have "tlb_invalid_handler pid0 cur ?eh va m = invalid_line cur ?eh (bit va 12) (frame_pfn n) m1"
      using new m1(1) by (simp add: tlb_invalid_handler_def Let_def)
    moreover obtain c t where "invalid_line cur ?eh (bit va 12) (frame_pfn n) m1 = Some (m1\<lparr>core := c, tlb_table := t\<rparr>)"
      "tlb_ok (m1\<lparr>core := c, tlb_table := t\<rparr>)" "mapped cur va (m1\<lparr>core := c, tlb_table := t\<rparr>)"
      using invalid_line_ok [OF t1 assms(2,3) assms(4) [folded m1(7)] i(1) i(2) [folded m1(7)] i(3) [folded m1(7)]
          uniq [folded m1(7)] half [folded m1(7)] pm1] by blast
    ultimately show ?thesis using new M(2) m1 by (simp add: mem_ok_def mem_frames_tlb)
  qed
qed

text \<open>The two branches together: when the handler returns, and what it has done then.\<close>

definition can_map :: "u32 \<Rightarrow> u32 \<Rightarrow> nat \<Rightarrow> mem \<Rightarrow> bool" where
  "can_map cur va n m \<longleftrightarrow> (if half_invalid cur va m then pte m (page_number va) = 0 \<and> n < FRAME_PAGES
     else \<not> contended cur va m \<and> (pte m (page_number va) \<noteq> 0 \<or> n < FRAME_PAGES))"

definition fault_done :: "u32 \<Rightarrow> u32 \<Rightarrow> nat \<Rightarrow> mem \<Rightarrow> nat \<Rightarrow> mem \<Rightarrow> bool" where
  "fault_done cur va n m n' m' \<longleftrightarrow> mem_ok n' m' \<and> n \<le> n' \<and> n' \<le> n + 1 \<and>
     (if can_map cur va n m then mapped cur va m'
      else pte m' = pte m \<and> tlb (core m') = tlb (core m) \<and> CP0_ENTRYHI (core m') = CP0_ENTRYHI (core m)) \<and>
     (\<forall>v. user_vpn v \<and> (v \<noteq> page_number va \<or> pte m v \<noteq> 0) \<longrightarrow> pte m' v = pte m v)"

lemma helper_ok:
  assumes "mem_ok n m" and "at_fault cur va m" and "\<not> (half_invalid cur va m \<and> pte m (page_number va) = 0 \<and> n = 2048)"
  shows "\<exists>m' n'. handle_tlb_exception_helper pid0 cur m = Some m' \<and> fault_done cur va n m n' m'"
proof -
  let ?eh = "(va AND 0xffffe000) OR cur" and ?v = "page_number va"
  have F: "CP0_ENTRYHI (core m) = ?eh" "CP0_BADVADDR (core m) = va" "unat cur < 256" "unat va < 2 ^ 31"
    using assms(2) by (simp_all add: at_fault_def)
  have T: "tlb_ok m" "n \<le> 2048" using mem_okD [OF assms(1)] by (simp_all add: frames_ok_def)
  define d where "d v = m\<lparr>core := (core m)\<lparr>CP0_INDEX := v\<rparr>\<rparr>" for v
  have same: "mem_ok n (d v)" "pte (d v) = pte m" "tlb (core (d v)) = tlb (core m)"
    "contended cur va (d v) = contended cur va m" "CP0_ENTRYHI (core (d v)) = ?eh" for v
    using assms(1) F(1) by (simp_all add: mem_ok_def mem_frames_tlb d_def contended_def)
  show ?thesis
    using T(1) F(3,4)
  proof (cases rule: matching_user)
    case none
    let ?d = "d 0x80000000"
    have h: "can_map cur va n m \<longleftrightarrow> \<not> (contended cur va m \<or> pte m ?v = 0 \<and> n = 2048)"
      using none(2) T(2) by (auto simp: can_map_def half_invalid_def)
    have "handle_tlb_exception_helper pid0 cur m = tlb_refill pid0 cur ?eh va ?d"
      using none(1) F(1,2) by (simp add: handle_tlb_exception_helper_def Let_def tlbp_def cp0_access d_def)
    moreover obtain m' where m': "tlb_refill pid0 cur ?eh va ?d = Some m'"
      "mem_ok (if contended cur va m \<or> pte m ?v \<noteq> 0 \<or> n = 2048 then n else n + 1) m'"
      "mapped cur va m' \<or> contended cur va m \<or> pte m ?v = 0 \<and> n = 2048"
      "contended cur va m \<or> pte m ?v = 0 \<and> n = 2048 \<longrightarrow> pte m' = pte m \<and> core m' = core ?d"
      "\<forall>v. user_vpn v \<and> (v \<noteq> ?v \<or> pte m v \<noteq> 0) \<longrightarrow> pte m' v = pte m v"
      using tlb_refill_ok [of n ?d cur va pid0, OF same(1) F(3,4)] none(2) unfolding same by blast
    moreover have "fault_done cur va n m (if contended cur va m \<or> pte m ?v \<noteq> 0 \<or> n = 2048 then n else n + 1) m'"
      using m'(2-5) same(3) F(1) same(5) unfolding fault_done_def h
      by (cases "contended cur va m"; cases "pte m ?v = 0 \<and> n = 2048") simp_all
    ultimately show ?thesis by metis
  next
    case (one i)
    let ?d = "d (of_nat i)"
    have h: "can_map cur va n m \<longleftrightarrow> pte m ?v = 0 \<and> n < 2048" "\<not> (pte m ?v = 0 \<and> n = 2048)"
      using one(2-4) assms(3) by (auto simp: can_map_def half_invalid_def)
    have "unat (of_nat i :: u32) < 2 ^ 31" using one(2) by (simp add: unat_of_nat)
    then have "\<not> bit (of_nat i :: u32) 31" using small_bit by blast
    then have "handle_tlb_exception_helper pid0 cur m = tlb_invalid_handler pid0 cur ?eh va ?d"
      using one(1) F(1,2) by (simp add: handle_tlb_exception_helper_def Let_def tlbp_def cp0_access d_def)
    moreover obtain m' where m': "tlb_invalid_handler pid0 cur ?eh va ?d = Some m'"
      "mem_ok (if pte m ?v \<noteq> 0 then n else n + 1) m'" "mapped cur va m' \<or> pte m ?v \<noteq> 0"
      "pte m ?v \<noteq> 0 \<longrightarrow> pte m' = pte m \<and> core m' = core ?d" "\<forall>v. user_vpn v \<and> (v \<noteq> ?v \<or> pte m v \<noteq> 0) \<longrightarrow> pte m' v = pte m v"
      using tlb_invalid_ok [of n ?d cur va i pid0, OF same(1) F(3,4)] one(2-4,6) unfolding same if_not_P [OF h(2)] by blast
    moreover have "fault_done cur va n m (if pte m ?v \<noteq> 0 then n else n + 1) m'"
      using m'(2-5) same(3) F(1) same(5) h(2) T(2) unfolding fault_done_def h(1)
      by (cases "pte m ?v = 0") simp_all
    ultimately show ?thesis by metis
  qed
qed

section \<open>Initialisation establishes the invariant\<close>

text \<open>The static initialisers of \<^verbatim>\<open>memory.c\<close>, and tables of their declared sizes.\<close>

definition boot_mem :: "mem \<Rightarrow> bool" where
  "boot_mem m \<longleftrightarrow> page_table_base_ptr m = 0 \<and> free_page_frame_num m = of_nat FRAME_PAGES \<and> page_alloc_ptr m = 0 \<and>
     tlb_entry_index_ptr m = 0 \<and> length (tlb_table m) = TLB_ENTRIES_NUM \<and> length (tlb (core m)) = TLB_ENTRIES_NUM"

lemma alloc_pages_ok:
  assumes "frames_ok j m" and "j + k \<le> PAGE_TABLE_PAGES"
    and "\<And>v. user_vpn v \<Longrightarrow> unat v div 1024 < j \<Longrightarrow> ram m (PAGE_FRAME_START + 4 * v) = 0"
  shows "\<exists>m'. alloc_pages pid0 cur k m = Some m' \<and> frames_ok (j + k) m' \<and>
    (\<forall>v. user_vpn v \<and> unat v div 1024 < j + k \<longrightarrow> ram m' (PAGE_FRAME_START + 4 * v) = 0) \<and>
    core m' = core m \<and> tlb_table m' = tlb_table m \<and> tlb_entry_index_ptr m' = tlb_entry_index_ptr m"
  using assms
proof (induction k arbitrary: j m)
  case (Suc k)
  have j: "j < 2048" using Suc.prems(2) by simp
  obtain m1 where m1: "page_alloc pid0 cur True False False m = Some (Some j, m1)" "frames_ok (j + 1) m1"
    "ram m1 = bzero_page (page_frame_vaddr (of_nat j)) (ram m)" "core m1 = core m" "tlb_table m1 = tlb_table m"
    "tlb_entry_index_ptr m1 = tlb_entry_index_ptr m"
    using page_alloc_ok [OF Suc.prems(1) j] by metis
  have z: "ram m1 (PAGE_FRAME_START + 4 * v) = 0" if "user_vpn v" "unat v div 1024 < j + 1" for v
    using Suc.prems(3) [OF that(1)] that(2) pte_in_frame [OF that(1) j] m1(3)
    by (cases "unat v div 1024 = j") (simp_all add: bzero_page_def)
  have "j + 1 + k \<le> 512" using Suc.prems(2) by simp
  from Suc.IH [OF m1(2) this z] show ?case using m1 by auto
qed simp

definition boot_line :: tlb_line where
  "boot_line = \<lparr>line_vpn2 = 0x7fff7, line_asid = 0, line_g = False, line_lo0 = 0, line_lo1 = 0\<rparr>"

lemma fill_from_ok:
  assumes "length (tlb_table m) = TLB_ENTRIES_NUM" and "length (tlb (core m)) = TLB_ENTRIES_NUM" and "i + n = TLB_ENTRIES_NUM"
    and "\<And>j. j < i \<Longrightarrow> tlb (core m) ! j = boot_line \<and> te_VPN2 (tlb_table m ! j) = 0xffff7 \<and> te_pid (tlb_table m ! j) = 0"
  shows "\<exists>c t. fill_from i n m = Some (m\<lparr>core := c, tlb_table := t\<rparr>) \<and> length t = TLB_ENTRIES_NUM \<and>
    length (tlb c) = TLB_ENTRIES_NUM \<and>
    (\<forall>j < TLB_ENTRIES_NUM. tlb c ! j = boot_line \<and> te_VPN2 (t ! j) = 0xffff7 \<and> te_pid (t ! j) = 0)"
  using assms
proof (induction n arbitrary: i m)
  case 0
  then show ?case by (intro exI [of _ "core m"] exI [of _ "tlb_table m"]) simp
next
  case (Suc n)
  have i: "i < 32" "unat (of_nat i :: u32) = i" using Suc.prems(3) by (simp_all add: unat_of_nat)
  define c where "c = (core m)\<lparr>CP0_ENTRYHI := push_bit 13 0xffff7, CP0_PAGEMASK := 0, CP0_ENTRYLO0 := 0,
    CP0_ENTRYLO1 := 0, CP0_INDEX := of_nat i, tlb := (tlb (core m))[i := boot_line]\<rparr>"
  define t where "t = (tlb_table m)[i := \<lparr>te_index = of_nat i, te_empty = True, te_VPN2 = 0xffff7, te_PFN0 = 0,
    te_PFN1 = 0, te_pid = 0\<rparr>]"
  let ?m = "m\<lparr>tlb_table := t, core := c\<rparr>"
  have "fill_from i (Suc n) m = fill_from (Suc i) n ?m"
    using i Suc.prems(1,2)
    by (simp add: Let_def cp0_access tlbwi_def new_line_def c_def t_def boot_line_def)
  moreover have "\<exists>c' t'. fill_from (Suc i) n ?m = Some (?m\<lparr>core := c', tlb_table := t'\<rparr>) \<and> length t' = 32 \<and>
    length (tlb c') = 32 \<and> (\<forall>j < 32. tlb c' ! j = boot_line \<and> te_VPN2 (t' ! j) = 0xffff7 \<and> te_pid (t' ! j) = 0)"
    by (rule Suc.IH) (use Suc.prems i in \<open>auto simp: c_def t_def nth_list_update less_Suc_eq\<close>)
  ultimately show ?case by auto
qed

lemma init_memory_ok:
  assumes "boot_mem m"
  shows "\<exists>m'. init_memory pid0 cur m = Some m' \<and> mem_ok PAGE_TABLE_PAGES m' \<and> (\<forall>v. user_vpn v \<longrightarrow> pte m' v = 0)"
proof -
  let ?pm = "map init_frame [0..<FRAME_PAGES] @ map init_swap_unit [FRAME_PAGES..<PAGEABLE_PAGES]"
  let ?m = "m\<lparr>page_map := ?pm\<rparr>"
  have "avail (?pm ! i) \<and> pm_paddr (?pm ! i) = page_frame_paddr (of_nat i)" if "i < 2048" for i
    using that by (simp add: nth_append init_frame_def del: upt_rec_numeral)
  then have "frames_ok 0 ?m" using assms by (simp add: frames_ok_def boot_mem_def del: upt_rec_numeral)
  from alloc_pages_ok [OF this, of 512 pid0 cur]
  obtain m1 where m1: "set_up_page_table pid0 cur ?m = Some m1" "frames_ok 512 m1"
    "\<forall>v. user_vpn v \<and> unat v div 1024 < 512 \<longrightarrow> ram m1 (PAGE_FRAME_START + 4 * v) = 0"
    "core m1 = core m" "tlb_table m1 = tlb_table m" "tlb_entry_index_ptr m1 = tlb_entry_index_ptr m"
    by (auto simp: set_up_page_table_def)
  let ?m1 = "m1\<lparr>page_table_base_ptr := PAGE_FRAME_START\<rparr>"
  obtain c t where ct: "fill_tlb ?m1 = Some (?m1\<lparr>core := c, tlb_table := t\<rparr>)" "length t = 32" "length (tlb c) = 32"
    "\<forall>j < 32. tlb c ! j = boot_line \<and> te_VPN2 (t ! j) = 0xffff7 \<and> te_pid (t ! j) = 0"
    using fill_from_ok [of ?m1 0 32] assms m1 by (auto simp: fill_tlb_def boot_mem_def)
  let ?m' = "?m1\<lparr>core := c, tlb_table := t\<rparr>"
  have p: "pte ?m' v = 0" if "user_vpn v" for v using m1(3) that by (simp add: pte_def user_vpn_def)
  have "line_ok pt boot_line u" if "te_VPN2 u = 0xffff7" "te_pid u = 0" for pt u
    using that by (simp add: line_ok_def boot_line_def line_lo_def user_line_def)
  then have "tlb_ok ?m'"
    using ct assms m1(6) by (simp add: tlb_ok_def boot_mem_def boot_line_def user_line_def)
  moreover have "frames_ok 512 ?m'" using m1(2) by (simp add: frames_ok_def)
  moreover have "ptes_ok 512 ?m'" using p unfolding ptes_ok_def by blast
  ultimately have "mem_ok 512 ?m'" by (simp add: mem_ok_def)
  then show ?thesis using m1(1) ct(1) p by (simp add: init_memory_def Let_def)
qed

section \<open>Properties\<close>

text \<open>The registers the processor sets when a user program of process \<open>cur\<close> faults at \<open>va\<close>.\<close>

definition raise_fault :: "u32 \<Rightarrow> u32 \<Rightarrow> mem \<Rightarrow> mem" where
  "raise_fault cur va m = m\<lparr>core := (core m)\<lparr>CP0_ENTRYHI := (va AND 0xffffe000) OR cur, CP0_BADVADDR := va\<rparr>\<rparr>"

lemma mem_ok_core:
  assumes "tlb c = tlb (core m)"
  shows "mem_ok n (m\<lparr>core := c\<rparr>) = mem_ok n m" and "contended cur va (m\<lparr>core := c\<rparr>) = contended cur va m"
    and "half_invalid cur va (m\<lparr>core := c\<rparr>) = half_invalid cur va m" and "can_map cur va n (m\<lparr>core := c\<rparr>) = can_map cur va n m"
proof -
  show h: "contended cur va (m\<lparr>core := c\<rparr>) = contended cur va m" "half_invalid cur va (m\<lparr>core := c\<rparr>) = half_invalid cur va m"
    using assms by (simp_all add: contended_def half_invalid_def)
  show "can_map cur va n (m\<lparr>core := c\<rparr>) = can_map cur va n m" by (simp add: can_map_def h)
  show "mem_ok n (m\<lparr>core := c\<rparr>) = mem_ok n m" using assms by (simp add: mem_ok_def mem_frames_tlb tlb_ok_def)
qed

lemma untranslated:
  assumes "mem_ok n m" and "\<forall>v. user_vpn v \<longrightarrow> pte m v = 0" and "unat va < 2 ^ 31"
  shows "\<not> half_invalid a va m" and "\<not> contended a va m" and "translate va ((core m)\<lparr>CP0_ENTRYHI := x\<rparr>) = None"
proof -
  note T = mem_okD(5) [OF assms(1)]
  have small: "unat (drop_bit 13 va) < 2 ^ 18" using vpn2_user(1) [OF assms(3)] .
  have no: "line_vpn2 (tlb (core m) ! i) \<noteq> drop_bit 13 va" "te_VPN2 (tlb_table m ! i) \<noteq> drop_bit 13 va" if "i < 32" for i
  proof -
    have lok: "line_ok (pte m) (tlb (core m) ! i) (tlb_table m ! i)" using T that by (simp add: tlb_ok_def)
    have "\<not> user_line (tlb (core m) ! i)"
    proof
      assume u: "user_line (tlb (core m) ! i)"
      then obtain b where "bit (line_lo (tlb (core m) ! i) b) 1"
        using lok unfolding line_ok_def line_lo_def by metis
      then show False using line_okD(2) [OF lok] assms(2) vpn_of_user [OF u] by blast
    qed
    then show n: "line_vpn2 (tlb (core m) ! i) \<noteq> drop_bit 13 va" using small by (auto simp: user_line_def)
    show "te_VPN2 (tlb_table m ! i) \<noteq> drop_bit 13 va" using lok n small by (auto simp: line_ok_def)
  qed
  show "\<not> half_invalid a va m" using no(1) by (auto simp: half_invalid_def)
  have "length (tlb_table m) = 32" using T by (simp add: tlb_ok_def)
  then show "\<not> contended a va m" using no(2) by (auto simp: contended_def in_set_conv_nth)
  have "unat (x AND 0xff) < 256"
    using word_and_le1 [of x "0xff"] by (simp add: word_le_nat_alt word_less_nat_alt)
  from T this assms(3) have "matching ((va AND 0xffffe000) OR (x AND 0xff)) (core m) = []"
  proof (cases rule: matching_user)
    case (one i)
    then show ?thesis using no(1) by blast
  qed
  then show "translate va ((core m)\<lparr>CP0_ENTRYHI := x\<rparr>) = None" by (simp add: translate_def matching_def)
qed

definition sample_mem :: mem where
  "sample_mem = \<lparr>page_map = [], page_table_base_ptr = 0, free_page_frame_num = 2048,
     tlb_table = replicate 32 \<lparr>te_index = 0, te_empty = False, te_VPN2 = 0, te_PFN0 = 0, te_PFN1 = 0, te_pid = 0\<rparr>,
     tlb_entry_index_ptr = 0, page_alloc_ptr = 0, swap_page_alloc_ptr = 0, clock_ptr = 0, wrong_pid = 0,
     tlb_refill_count = 0, tlb_invalid_count = 0, ram = (\<lambda>_. 7), core = sample_cpu\<rparr>"

lemma sample_boot: "boot_mem sample_mem"
  by (simp add: boot_mem_def sample_mem_def sample_cpu_def)

lemma raise_fault_ok:
  assumes "unat cur < 256" and "unat va < 2 ^ 31"
  shows "at_fault cur va (raise_fault cur va m)" and "mem_ok n (raise_fault cur va m) = mem_ok n m"
    and "can_map cur va n (raise_fault cur va m) = can_map cur va n m"
  using assms by (simp_all add: at_fault_def raise_fault_def mem_ok_core)

text \<open>
  Claim C32. Memory initialisation always returns and sets up the translation: 512 pinned frames hold
  a page table whose entries for user pages are all empty, the other 1536 frames are free and counted,
  and the translation buffer translates no user address, in any address space.
\<close>

theorem memory_starts_empty:
  assumes "boot_mem m"
  shows "\<exists>m'. init_memory pid0 cur m = Some m' \<and> mem_ok 512 m' \<and> free_page_frame_num m' = 1536 \<and>
    (\<forall>v. user_vpn v \<longrightarrow> pte m' v = 0) \<and>
    (\<forall>va asid. unat va < 2 ^ 31 \<longrightarrow> translate va ((core m')\<lparr>CP0_ENTRYHI := asid\<rparr>) = None)"
proof -
  obtain m' where m': "init_memory pid0 cur m = Some m'" "mem_ok 512 m'" "\<forall>v. user_vpn v \<longrightarrow> pte m' v = 0"
    using init_memory_ok [OF assms] by blast
  then have "free_page_frame_num m' = 1536" by (simp add: mem_ok_def frames_ok_def)
  then show ?thesis using m' untranslated(3) [OF m'(2,3)] by blast
qed

theorem memory_starts_empty_witness:
  "\<exists>m'. init_memory 0 0 sample_mem = Some m' \<and> mem_ok 512 m' \<and> translate 0x2000 ((core m')\<lparr>CP0_ENTRYHI := 1\<rparr>) = None"
  using memory_starts_empty [OF sample_boot, of 0 0] by fastforce





text \<open>
  Claim C33. A half filled line is never completed for a page that already has a frame: if the line of the
  faulting pair of pages is in the buffer, the half for the address is invalid, and the page table has an
  entry for the page, then the handler returns without mapping it, however often the program faults.
\<close>

theorem half_filled_line_faults_forever:
  assumes "mem_ok n m" and "unat cur < 256" and "unat va < 2 ^ 31" and "half_invalid cur va m"
    and "translate va (core (raise_fault cur va m)) = None" and "pte m (page_number va) \<noteq> 0"
  shows "\<exists>m'. ((\<lambda>x. Option.bind x (\<lambda>m. handle_tlb_exception_helper pid0 cur (raise_fault cur va m))) ^^ k) (Some m) = Some m' \<and>
    pte m' = pte m \<and> translate va (core (raise_fault cur va m')) = None"
proof -
  let ?f = "\<lambda>x. Option.bind x (\<lambda>m. handle_tlb_exception_helper pid0 cur (raise_fault cur va m))"
  have "\<exists>m' n'. (?f ^^ k) (Some m) = Some m' \<and> mem_ok n' m' \<and> pte m' = pte m \<and> tlb (core m') = tlb (core m)"
  proof (induction k)
    case 0
    then show ?case using assms(1) by auto
  next
    case (Suc k)
    then obtain m1 n1 where m1: "(?f ^^ k) (Some m) = Some m1" "mem_ok n1 m1" "pte m1 = pte m" "tlb (core m1) = tlb (core m)"
      by blast
    let ?m = "raise_fault cur va m1"
    have r: "pte ?m = pte m" "tlb (core ?m) = tlb (core m)" using m1(3,4) by (simp_all add: raise_fault_def)
    have h: "half_invalid cur va ?m" using assms(4) r(2) by (simp add: half_invalid_def)
    then have n: "\<not> can_map cur va n1 ?m" using assms(6) r(1) by (simp add: can_map_def)
    have "mem_ok n1 ?m" "at_fault cur va ?m" using m1(2) raise_fault_ok [OF assms(2,3)] by simp_all
    from helper_ok [OF this, of pid0] obtain m2 n2 where
      m2: "handle_tlb_exception_helper pid0 cur ?m = Some m2" "fault_done cur va n1 ?m n2 m2"
      using assms(6) r(1) by auto
    then show ?case using m1(1) r n by (auto simp: fault_done_def)
  qed
  then obtain m' where m': "(?f ^^ k) (Some m) = Some m'" "pte m' = pte m" "tlb (core m') = tlb (core m)" by blast
  have "translate va (core (raise_fault cur va m')) = translate va (core (raise_fault cur va m))"
    by (rule translate_cong) (simp_all add: raise_fault_def m'(3))
  then show ?thesis using m' assms(5) by auto
qed

lemma no_pte_no_translation:
  assumes "tlb_ok m" and "at_fault cur va m" and "pte m (page_number va) = 0"
  shows "translate va (core m) = None"
proof -
  have F: "CP0_ENTRYHI (core m) = (va AND 0xffffe000) OR cur" "unat cur < 256" "unat va < 2 ^ 31"
    using assms(2) by (simp_all add: at_fault_def)
  show ?thesis
    using assms(1) F(2,3)
  proof (cases rule: matching_user)
    case none
    then show ?thesis using entryhi_fields(2) [OF F(2)] by (simp add: translate_def F(1))
  next
    case (one i)
    have "line_ok (pte m) (tlb (core m) ! i) (tlb_table m ! i)" using assms(1) one(2) by (simp add: tlb_ok_def)
    then have "\<not> bit (line_lo (tlb (core m) ! i) (bit va 12)) 1"
      using line_okD(2) [of "pte m" "tlb (core m) ! i"] one(3) vpn_of_address [of va] assms(3) by (metis page_number_eq)
    then show ?thesis using translate_line [OF assms(1) F(2,3,1) one(2-4)] by simp
  qed
qed

lemma mapped_line:
  assumes "tlb_ok m" and "mapped cur va m" and "unat cur < 256" and "unat va < 2 ^ 31"
  shows "half_invalid cur va m"
  using assms(1,3,4)
proof (cases rule: matching_user)
  case none
  then have "translate va (core m) = None"
    using assms(2) entryhi_fields(2) [OF assms(3)] by (simp add: translate_def mapped_def)
  then show ?thesis using assms(2) by (simp add: mapped_def)
next
  case (one i)
  show ?thesis unfolding half_invalid_def using one(2-4) by blast
qed

text \<open>
  A state as the witness needs it: the process has both pages of a pair, and the buffer has the line it
  had when only the odd page was mapped.
\<close>

lemma half_filled_state:
  obtains n m where "mem_ok n m" and "half_invalid 1 0x2000 m" and "pte m (page_number 0x2000) \<noteq> 0"
    and "translate 0x2000 (core (raise_fault 1 0x2000 m)) = None"
proof -
  have pn: "page_number 0x2000 = 2" "page_number 0x3000 = 3" by (simp_all add: page_number_def)
  have u2: "user_vpn 2" by (simp add: user_vpn_def)
  obtain m0 where m0: "mem_ok 512 m0" "\<forall>v. user_vpn v \<longrightarrow> pte m0 v = 0"
    using init_memory_ok [OF sample_boot, of 0 0] by blast
  let ?f = "raise_fault 1 0x3000 m0"
  have c0: "can_map 1 0x3000 512 ?f" "\<not> half_invalid 1 0x3000 ?f" "pte ?f = pte m0"
    using untranslated(1,2) [OF m0, of "0x3000"] by (simp_all add: can_map_def raise_fault_def mem_ok_core)
  have f: "at_fault 1 0x3000 ?f" "mem_ok 512 ?f" using m0(1) by (simp_all add: raise_fault_ok)
  obtain m1 n1 where m1: "fault_done 1 0x3000 512 ?f n1 m1" using helper_ok [OF f(2,1), of 0] c0(2) by blast
  then have m1': "mem_ok n1 m1" "n1 < 2048" "mapped 1 0x3000 m1" "pte m1 2 = 0"
    using c0 m0(2) u2 pn by (auto simp: fault_done_def)
  note t1 = mem_okD(5) [OF m1'(1)]
  have h1: "half_invalid 1 0x2000 m1" using mapped_line [OF t1 m1'(3)] by (simp add: half_invalid_def)
  let ?g = "raise_fault 1 0x2000 m1"
  have "can_map 1 0x2000 n1 m1" using m1'(2,4) h1 pn by (simp add: can_map_def)
  then have g: "mem_ok n1 ?g" "at_fault 1 0x2000 ?g" "can_map 1 0x2000 n1 ?g" using m1'(1) by (simp_all add: raise_fault_ok)
  have pg: "pte ?g = pte m1" by (simp add: raise_fault_def)
  obtain m2 n2 where m2: "fault_done 1 0x2000 n1 ?g n2 m2" using helper_ok [OF g(1,2), of 0] m1'(2) by blast
  then have m2': "mem_ok n2 m2" "pte m2 2 \<noteq> 0" "\<forall>v. user_vpn v \<and> v \<noteq> 2 \<longrightarrow> pte m2 v = pte m1 v"
    using g(3) pg pn by (auto simp: fault_done_def mapped_def)
  let ?m = "m2\<lparr>core := core m1, tlb_table := tlb_table m1, tlb_entry_index_ptr := tlb_entry_index_ptr m1\<rparr>"
  have "tlb_ok ?m" by (rule tlb_ok_new_page [OF t1 m1'(4)]) (use m2'(3) in simp_all)
  then have ok: "mem_ok n2 ?m" using mem_okD [OF m2'(1)] by (simp add: mem_ok_def mem_frames_tlb)
  have tr: "translate 0x2000 (core ?g) = None"
    using no_pte_no_translation [OF mem_okD(5) [OF g(1)] g(2)] pg m1'(4) pn by simp
  have core: "core (raise_fault 1 0x2000 ?m) = core ?g" by (simp add: raise_fault_def)
  have h2: "half_invalid 1 0x2000 ?m" using h1 by (simp add: half_invalid_def)
  have p2: "pte ?m (page_number 0x2000) \<noteq> 0" using m2'(2) pn(1) by simp
  show thesis by (rule that [OF ok h2 p2 tr [folded core]])
qed

theorem half_filled_line_faults_forever_witness:
  "\<exists>m m'. pte m (page_number 0x2000) \<noteq> 0 \<and> ((\<lambda>x. Option.bind x (\<lambda>m. handle_tlb_exception_helper 0 1 (raise_fault 1 0x2000 m))) ^^ 3) (Some m)
     = Some m' \<and> translate 0x2000 (core (raise_fault 1 0x2000 m')) = None"
proof (rule half_filled_state)
  fix n m
  assume m: "mem_ok n m" "half_invalid 1 0x2000 m" "pte m (page_number 0x2000) \<noteq> 0"
    "translate 0x2000 (core (raise_fault 1 0x2000 m)) = None"
  have u: "unat (1 :: u32) < 256" "unat (0x2000 :: u32) < 2 ^ 31" by simp_all
  show ?thesis using half_filled_line_faults_forever [OF m(1) u m(2,4,3), of 3 0] m(3) by blast
qed

end
