(* ===== verification/Mac.thy ===== *)
theory Mac
  imports Entry
begin

text \<open>
  The network driver, \<^verbatim>\<open>drivers/mac.c\<close>, with the initialisation steps of its test task
  (\<^verbatim>\<open>test/test_net/test_regs3.c\<close>).

  The memory is a function from addresses to 32-bit words; a word access at an address that is not
  a multiple of four is an address error, a failure. The registers of the controller and of the
  interrupt unit lie between \<^verbatim>\<open>0xbfd00000\<close> and \<^verbatim>\<open>0xbff00000\<close>. The controller is not part of the sources:
  it is the argument \<open>D\<close>, with what a read of a register returns, what a write does, and what the
  controller does to the memory on its own while the processor waits. The debug printing of the
  driver is left out.
\<close>

section \<open>Memory and registers\<close>

record 'd device =
  dev_read :: "u32 \<Rightarrow> 'd \<Rightarrow> u32 \<times> 'd"
  dev_write :: "u32 \<Rightarrow> u32 \<Rightarrow> 'd \<Rightarrow> 'd"
  dev_run :: "(u32 \<Rightarrow> u32) \<Rightarrow> 'd \<Rightarrow> (u32 \<Rightarrow> u32) \<times> 'd"

record 'd net =
  words :: "u32 \<Rightarrow> u32"
  dev :: 'd
  send_desc_table_ptr :: u32
  recv_desc_table_ptr :: u32

abbreviation (input) "GMAC_BASE_ADDR \<equiv> 0xbfe10000 :: u32"
abbreviation (input) "DMA_BASE_ADDR \<equiv> 0xbfe11000 :: u32"
abbreviation (input) "GmacAddr0High \<equiv> 0x40 :: u32"
abbreviation (input) "GmacAddr0Low \<equiv> 0x44 :: u32"
abbreviation (input) "DmaTxPollDemand \<equiv> 0x4 :: u32"
abbreviation (input) "DmaRxPollDemand \<equiv> 0x8 :: u32"
abbreviation (input) "DmaStatus \<equiv> 0x14 :: u32"
abbreviation (input) "DmaControl \<equiv> 0x18 :: u32"
abbreviation (input) "DmaInterrupt \<equiv> 0x1c :: u32"
abbreviation (input) "DmaIntDisable \<equiv> 0 :: u32"
abbreviation (input) "DESC_SIZE \<equiv> 16 :: u32"
abbreviation (input) "INT1_SR \<equiv> 0xbfd01058 :: u32"
abbreviation (input) "INT1_EN \<equiv> 0xbfd0105c :: u32"
abbreviation (input) "INT1_CLR \<equiv> 0xbfd01064 :: u32"
abbreviation (input) "INT1_POL \<equiv> 0xbfd01068 :: u32"
abbreviation (input) "INT1_EDGE \<equiv> 0xbfd0106c :: u32"

definition is_reg :: "u32 \<Rightarrow> bool" where
  "is_reg addr \<longleftrightarrow> 0xbfd00000 \<le> addr \<and> addr < 0xbff00000"

definition reg_read_32 :: "'d device \<Rightarrow> u32 \<Rightarrow> 'd net \<Rightarrow> (u32 \<times> 'd net) option" where
  "reg_read_32 D addr h =
     (if addr AND 3 \<noteq> 0 then None
      else if is_reg addr then let (v, d) = dev_read D addr (dev h) in Some (v, h\<lparr>dev := d\<rparr>)
      else Some (words h addr, h))"

definition read_register :: "'d device \<Rightarrow> u32 \<Rightarrow> u32 \<Rightarrow> 'd net \<Rightarrow> (u32 \<times> 'd net) option" where
  "read_register D base offset h = (let addr = base + offset in reg_read_32 D addr h)"

definition reg_write_32 :: "'d device \<Rightarrow> u32 \<Rightarrow> u32 \<Rightarrow> 'd net \<Rightarrow> 'd net option" where
  "reg_write_32 D addr data h =
     (if addr AND 3 \<noteq> 0 then None
      else if is_reg addr then Some (h\<lparr>dev := dev_write D addr data (dev h)\<rparr>)
      else Some (h\<lparr>words := (words h)(addr := data)\<rparr>))"

text \<open>Read a register, set the given bits and write it back.\<close>

definition reg_or_32 :: "'d device \<Rightarrow> u32 \<Rightarrow> u32 \<Rightarrow> 'd net \<Rightarrow> 'd net option" where
  "reg_or_32 D addr bits h = do { (v, h) \<leftarrow> reg_read_32 D addr h; reg_write_32 D addr (v OR bits) h }"

section \<open>Initialisation of the controller\<close>

definition gmac_get_mac_addr :: "'d device \<Rightarrow> 'd net \<Rightarrow> (u8 list \<times> 'd net) option" where
  "gmac_get_mac_addr D h = do {
     (low, h) \<leftarrow> read_register D GMAC_BASE_ADDR GmacAddr0Low h;
     (high, h) \<leftarrow> read_register D GMAC_BASE_ADDR GmacAddr0High h;
     Some ([ucast (low AND 0xff), ucast (drop_bit 8 low AND 0xff), ucast (drop_bit 16 low AND 0xff),
            ucast (drop_bit 24 low AND 0xff), ucast (high AND 0xff), ucast (drop_bit 8 high AND 0xff)], h)
   }"

definition MacAddr :: "u8 list" where
  "MacAddr = [0x00, 0x55, 0x7b, 0xb5, 0x7d, 0xf7]"

definition set_mac_addr :: "'d device \<Rightarrow> u32 \<Rightarrow> 'd net \<Rightarrow> 'd net option" where
  "set_mac_addr D mac_addr h = do {
     let b = (\<lambda>i. ucast (MacAddr ! i) :: u32);
     h \<leftarrow> reg_write_32 D (mac_addr + 0x40) (push_bit 8 (b 5) OR b 4) h;
     reg_write_32 D (mac_addr + 0x44) (push_bit 24 (b 3) OR push_bit 16 (b 2) OR push_bit 8 (b 1) OR b 0) h
   }"

definition set_sram_ctr :: "'d device \<Rightarrow> 'd net \<Rightarrow> 'd net option" where
  "set_sram_ctr D h = reg_write_32 D 0xbfd00420 0x8000 h"

text \<open>The loop of \<^verbatim>\<open>s_reset\<close>; the delay inside it only counts a local variable down.\<close>

partial_function (option) s_reset_loop :: "'d device \<Rightarrow> u32 \<Rightarrow> 'd net \<Rightarrow> 'd net option" where
  "s_reset_loop D dma_addr h = do {
     (v, h) \<leftarrow> reg_read_32 D dma_addr h;
     if v AND 1 \<noteq> 0 then do { h \<leftarrow> reg_write_32 D dma_addr 1 h; s_reset_loop D dma_addr h }
     else Some h
   }"

definition s_reset :: "'d device \<Rightarrow> u32 \<Rightarrow> 'd net \<Rightarrow> 'd net option" where
  "s_reset D dma_addr h = do { h \<leftarrow> reg_write_32 D dma_addr 1 h; s_reset_loop D dma_addr h }"

definition disable_interrupt_all :: "'d device \<Rightarrow> u32 \<Rightarrow> 'd net \<Rightarrow> 'd net option" where
  "disable_interrupt_all D dma_addr h = reg_write_32 D (dma_addr + DmaInterrupt) DmaIntDisable h"

definition clear_interrupt :: "'d device \<Rightarrow> 'd net \<Rightarrow> 'd net option" where
  "clear_interrupt D h = do {
     (data, h) \<leftarrow> reg_read_32 D (0xbfe11000 + DmaStatus) h;
     reg_write_32 D (0xbfe11000 + DmaStatus) data h
   }"

text \<open>\<^verbatim>\<open>bzero\<close> of a table of \<open>n\<close> words.\<close>

definition zero_words :: "'d device \<Rightarrow> u32 \<Rightarrow> nat \<Rightarrow> 'd net \<Rightarrow> 'd net option" where
  "zero_words D addr n h = for_range 0 n (\<lambda>i. reg_write_32 D (addr + 4 * of_nat i) 0) h"

definition do_init_mac :: "'d device \<Rightarrow> u32 \<Rightarrow> u32 \<Rightarrow> 'd net \<Rightarrow> 'd net option" where
  "do_init_mac D send_desc_table recv_desc_table h = do {
     let mac_addr = 0xbfe10000;
     let dma_addr = 0xbfe11000;
     h \<leftarrow> set_sram_ctr D h;
     h \<leftarrow> s_reset D dma_addr h;
     h \<leftarrow> disable_interrupt_all D dma_addr h;
     h \<leftarrow> set_mac_addr D mac_addr h;
     h \<leftarrow> reg_write_32 D INT1_CLR 0xffffffff h;
     h \<leftarrow> reg_write_32 D INT1_POL 0xffffffff h;
     h \<leftarrow> reg_write_32 D INT1_EDGE 0 h;
     let h = h\<lparr>send_desc_table_ptr := send_desc_table, recv_desc_table_ptr := recv_desc_table\<rparr>;
     h \<leftarrow> zero_words D send_desc_table 256 h;
     zero_words D recv_desc_table 256 h
   }"

section \<open>Descriptors\<close>

record desc_t =
  des0 :: u32
  des1 :: u32
  des2 :: u32
  des3 :: u32

definition desc_at :: "(u32 \<Rightarrow> u32) \<Rightarrow> u32 \<Rightarrow> desc_t" where
  "desc_at w addr = \<lparr>des0 = w addr, des1 = w (addr + 4), des2 = w (addr + 8), des3 = w (addr + 12)\<rparr>"

definition write_desc :: "'d device \<Rightarrow> u32 \<Rightarrow> desc_t \<Rightarrow> 'd net \<Rightarrow> 'd net option" where
  "write_desc D addr d h = do {
     h \<leftarrow> reg_write_32 D addr (des0 d) h;
     h \<leftarrow> reg_write_32 D (addr + 4) (des1 d) h;
     h \<leftarrow> reg_write_32 D (addr + 8) (des2 d) h;
     reg_write_32 D (addr + 12) (des3 d) h
   }"

definition do_recv_desc_init :: "'d device \<Rightarrow> u32 \<Rightarrow> u32 \<Rightarrow> u32 \<Rightarrow> u32 \<Rightarrow> 'd net \<Rightarrow> (u32 \<times> 'd net) option" where
  "do_recv_desc_init D desc_addr buffer bufsize pnum h = do {
     (addr, h) \<leftarrow> for_range 1 (unat pnum) (\<lambda>cnt (addr, h). do {
       h \<leftarrow> write_desc D addr
         \<lparr>des0 = 0, des1 = push_bit 24 1 OR push_bit 31 1 OR (bufsize AND 0x7ff),
          des2 = (buffer + of_nat (cnt - 1) * bufsize) AND 0x1fffffff, des3 = (addr + DESC_SIZE) AND 0x1fffffff\<rparr> h;
       Some (addr + DESC_SIZE, h)
     }) (desc_addr, h);
     let cnt = max 1 (unat pnum);
     h \<leftarrow> write_desc D addr
       \<lparr>des0 = 0, des1 = push_bit 25 1 OR (bufsize AND 0x7ff),
        des2 = (buffer + of_nat (cnt - 1) * bufsize) AND 0x1fffffff, des3 = desc_addr AND 0x1fffffff\<rparr> h;
     Some (desc_addr, h)
   }"

definition do_send_desc_init :: "'d device \<Rightarrow> u32 \<Rightarrow> u32 \<Rightarrow> u32 \<Rightarrow> u32 \<Rightarrow> 'd net \<Rightarrow> (u32 \<times> 'd net) option" where
  "do_send_desc_init D desc_addr buffer bufsize pnum h = do {
     (addr, h) \<leftarrow> for_range 1 (unat pnum) (\<lambda>cnt (addr, h). do {
       h \<leftarrow> write_desc D addr
         \<lparr>des0 = 0, des1 = push_bit 30 1 OR push_bit 29 1 OR push_bit 24 1 OR (bufsize AND 0x7ff),
          des2 = buffer AND 0x1fffffff, des3 = (addr + DESC_SIZE) AND 0x1fffffff\<rparr> h;
       Some (addr + DESC_SIZE, h)
     }) (desc_addr, h);
     h \<leftarrow> write_desc D addr
       \<lparr>des0 = 0, des1 = push_bit 30 1 OR push_bit 29 1 OR push_bit 25 1 OR push_bit 24 1 OR (bufsize AND 0x7ff),
        des2 = buffer AND 0x1fffffff, des3 = desc_addr AND 0x1fffffff\<rparr> h;
     Some (desc_addr, h)
   }"

section \<open>Receiving and sending\<close>

text \<open>Hand \<open>n\<close> descriptors to the controller, and ask it \<open>n\<close> times to look at them.\<close>

definition own_all :: "'d device \<Rightarrow> u32 \<Rightarrow> nat \<Rightarrow> 'd net \<Rightarrow> 'd net option" where
  "own_all D rd n h = for_range 0 n (\<lambda>l. reg_write_32 D (rd + of_nat l * DESC_SIZE) 0x80000000) h"

definition start_recv :: "'d device \<Rightarrow> 'd net \<Rightarrow> 'd net option" where
  "start_recv D h = do {
     h \<leftarrow> reg_write_32 D (DMA_BASE_ADDR + 0xc) (recv_desc_table_ptr h) h;
     h \<leftarrow> reg_or_32 D GMAC_BASE_ADDR 0x4 h;
     h \<leftarrow> reg_or_32 D (DMA_BASE_ADDR + 0x18) 0x02200002 h;
     reg_write_32 D (DMA_BASE_ADDR + 0x1c) (0x10001 OR push_bit 6 1) h
   }"

definition net_recv :: "nat \<Rightarrow> 'd device \<Rightarrow> u32 \<Rightarrow> 'd net \<Rightarrow> 'd net option" where
  "net_recv n D rd h = do {
     h \<leftarrow> start_recv D h;
     h \<leftarrow> own_all D rd n h;
     for_range 0 n (\<lambda>l. reg_write_32 D (DMA_BASE_ADDR + DmaRxPollDemand) 1) h
   }"

definition do_net_recv :: "'d device \<Rightarrow> u32 \<Rightarrow> u32 \<Rightarrow> u32 \<Rightarrow> 'd net \<Rightarrow> (u32 \<times> 'd net) option" where
  "do_net_recv D rd rd_phy daddr h = do { h \<leftarrow> net_recv 64 D rd h; Some (0, h) }"

definition do_net_fast_recv :: "'d device \<Rightarrow> u32 \<Rightarrow> u32 \<Rightarrow> u32 \<Rightarrow> 'd net \<Rightarrow> (u32 \<times> 'd net) option" where
  "do_net_fast_recv D rd rd_phy daddr h = do { h \<leftarrow> net_recv 256 D rd h; Some (0, h) }"

definition device_step :: "'d device \<Rightarrow> 'd net \<Rightarrow> 'd net" where
  "device_step D h = (let (w, d) = dev_run D (words h) (dev h) in h\<lparr>words := w, dev := d\<rparr>)"

text \<open>The polling loop: the controller works between two looks at the descriptor.\<close>

partial_function (option) wait_sent :: "'d device \<Rightarrow> u32 \<Rightarrow> 'd net \<Rightarrow> 'd net option" where
  "wait_sent D addr h = do {
     (v, h) \<leftarrow> reg_read_32 D addr h;
     if own_bit v then wait_sent D addr (device_step D h) else Some h
   }"

definition start_send :: "'d device \<Rightarrow> u32 \<Rightarrow> 'd net \<Rightarrow> 'd net option" where
  "start_send D td_phy h = do {
     h \<leftarrow> reg_write_32 D (DMA_BASE_ADDR + 0x10) td_phy h;
     h \<leftarrow> reg_or_32 D GMAC_BASE_ADDR (push_bit 2 1 OR push_bit 3 1) h;
     h \<leftarrow> reg_or_32 D (DMA_BASE_ADDR + 0x18) 0x02202000 h;
     reg_write_32 D (DMA_BASE_ADDR + 0x1c) (0x10001 OR push_bit 6 1) h
   }"

definition do_net_send :: "'d device \<Rightarrow> u32 \<Rightarrow> u32 \<Rightarrow> 'd net \<Rightarrow> 'd net option" where
  "do_net_send D td td_phy h = do {
     h \<leftarrow> start_send D td_phy h;
     h \<leftarrow> own_all D td 64 h;
     for_range 0 64 (\<lambda>l h. do {
       h \<leftarrow> reg_write_32 D (DMA_BASE_ADDR + DmaTxPollDemand) 1 h;
       wait_sent D (td + of_nat l * DESC_SIZE) h
     }) h
   }"

section \<open>Interrupts and waiting\<close>

definition enable_mac_int :: "'d device \<Rightarrow> 'd net \<Rightarrow> 'd net option" where
  "enable_mac_int D h = reg_write_32 D INT1_EN (push_bit 3 1) h"

text \<open>The words \<^verbatim>\<open>des0\<close> of the receive table, as the routines of the kernel read them.\<close>

definition recv_des0 :: "'d net \<Rightarrow> nat \<Rightarrow> u32" where
  "recv_des0 h i = words h (recv_desc_table_ptr h + DESC_SIZE * of_nat i)"

definition wait_recv_package :: "'d device \<Rightarrow> 'd net \<times> kernel \<Rightarrow> ('d net \<times> kernel) option" where
  "wait_recv_package D = (\<lambda>(h, s). do {
     h \<leftarrow> enable_mac_int D h;
     s \<leftarrow> do_wait_recv_package (recv_des0 h) s;
     Some (h, s)
   })"

definition mac_interrupt :: "'d device \<Rightarrow> 'd net \<times> kernel \<Rightarrow> ('d net \<times> kernel) option" where
  "mac_interrupt D = (\<lambda>(h, s). do {
     h \<leftarrow> clear_interrupt D h;
     s \<leftarrow> irq_mac s;
     Some (h, s)
   })"

definition check_irq_mac :: "'d device \<Rightarrow> cpu \<Rightarrow> 'd net \<times> kernel \<Rightarrow> ('d net \<times> kernel) option" where
  "check_irq_mac D c = (\<lambda>(h, s). do {
     let cause = get_cp0_status c;
     let ip = drop_bit 8 cause AND 0xff;
     if ip AND push_bit 3 1 \<noteq> 0 then do {
       (v, h) \<leftarrow> reg_read_32 D INT1_SR h;
       if v AND push_bit 3 1 \<noteq> 0 then mac_interrupt D (h, s) else Some (h, s)
     } else Some (h, s)
   })"

section \<open>Addresses of a table\<close>

definition slot :: "u32 \<Rightarrow> nat \<Rightarrow> u32" where
  "slot base k = base + of_nat k * 16"

text \<open>A table of \<open>n\<close> descriptors in memory, below the registers.\<close>

definition table_ok :: "u32 \<Rightarrow> nat \<Rightarrow> bool" where
  "table_ok base n \<longleftrightarrow> base AND 3 = 0 \<and> unat base + 16 * n \<le> 0xbfd00000"

definition in_table :: "u32 \<Rightarrow> nat \<Rightarrow> u32 \<Rightarrow> bool" where
  "in_table base n a \<longleftrightarrow> unat base \<le> unat a \<and> unat a < unat base + 16 * n"

lemma aligned_iff: "(a :: u32) AND 3 = 0 \<longleftrightarrow> 4 dvd unat a"
proof -
  have "a AND 3 = take_bit 2 a" by (simp add: take_bit_eq_mask mask_eq_exp_minus_1)
  then have "unat (a AND 3) = unat a mod 4" by (simp add: take_bit_eq_mod unat_mod)
  then show ?thesis by (metis dvd_eq_mod_eq_0 unat_0 unat_eq_zero)
qed

lemma slot_unat:
  assumes "table_ok base n" "k < n" "unat j < 16"
  shows "unat (slot base k + j) = unat base + 16 * k + unat j"
proof -
  have b: "unat base + 16 * k + unat j < 2 ^ LENGTH(32)" using assms by (simp add: table_ok_def)
  have "slot base k + j = of_nat (unat base + 16 * k + unat j)" by (simp add: slot_def mult.commute)
  then show ?thesis using b by (simp only: unat_of_nat mod_less)
qed

lemmas slot_unat_0 = slot_unat [where j = 0, simplified]

lemma slot_eq:
  assumes "table_ok base n" "k < n" "m < n" "unat i < 16" "unat j < 16"
  shows "slot base k + i = slot base m + j \<longleftrightarrow> k = m \<and> i = j"
proof
  assume "slot base k + i = slot base m + j"
  then have "unat base + 16 * k + unat i = unat base + 16 * m + unat j"
    using slot_unat [OF assms(1,2,4)] slot_unat [OF assms(1,3,5)] by simp
  then have e: "16 * k + unat i = 16 * m + unat j" by linarith
  then have "k = m" using assms(4,5) by linarith
  then show "k = m \<and> i = j" using e by (simp add: word_unat_eq_iff)
qed simp

lemmas slot_eqs = slot_eq slot_eq [where i = 0, simplified] slot_eq [where j = 0, simplified]
  slot_eq [where i = 0 and j = 0, simplified]

lemma slot_memory:
  assumes "table_ok base n" "k < n" "unat j < 16" "4 dvd unat j"
  shows "(slot base k + j) AND 3 = 0" "\<not> is_reg (slot base k + j)" "in_table base n (slot base k + j)"
proof -
  note u = slot_unat [OF assms(1-3)]
  have "4 dvd unat base" using assms(1) by (simp add: table_ok_def aligned_iff)
  then show "(slot base k + j) AND 3 = 0" unfolding aligned_iff u using assms(4) by (intro dvd_add) auto
  have "unat base + 16 * k + unat j < 0xbfd00000" using assms by (simp add: table_ok_def)
  then show "\<not> is_reg (slot base k + j)" by (simp add: is_reg_def word_le_nat_alt u)
  show "in_table base n (slot base k + j)" using assms(2,3) by (simp add: in_table_def u)
qed

lemmas slot_memory_0 = slot_memory [where j = 0, simplified]

lemma write_memory: "a AND 3 = 0 \<Longrightarrow> \<not> is_reg a \<Longrightarrow> reg_write_32 D a v h = Some (h\<lparr>words := (words h)(a := v)\<rparr>)"
  by (simp add: reg_write_32_def)

lemma write_desc_memory:
  assumes "table_ok base n" "k < n"
  shows "write_desc D (slot base k) d h = Some (h\<lparr>words := (words h)(slot base k := des0 d,
    slot base k + 4 := des1 d, slot base k + 8 := des2 d, slot base k + 12 := des3 d)\<rparr>)"
  using slot_memory_0(1,2) [OF assms] slot_memory(1,2) [OF assms, of 4] slot_memory(1,2) [OF assms, of 8]
    slot_memory(1,2) [OF assms, of 12]
  by (simp add: write_desc_def write_memory)

section \<open>Rings\<close>

text \<open>The first \<open>m\<close> descriptors are as \<open>f\<close> says, and nothing else has changed.\<close>

definition filled :: "u32 \<Rightarrow> (nat \<Rightarrow> desc_t) \<Rightarrow> (u32 \<Rightarrow> u32) \<Rightarrow> nat \<Rightarrow> (u32 \<Rightarrow> u32) \<Rightarrow> bool" where
  "filled base f w0 m w \<longleftrightarrow> (\<forall>k < m. desc_at w (slot base k) = f k) \<and> (\<forall>a. \<not> in_table base m a \<longrightarrow> w a = w0 a)"

lemma filled_step:
  assumes ok: "table_ok base n" "m < n" and w: "filled base f w0 m w" and d: "d = f m"
  shows "filled base f w0 (Suc m) (w(slot base m := des0 d, slot base m + 4 := des1 d,
    slot base m + 8 := des2 d, slot base m + 12 := des3 d))" (is "filled _ _ _ _ ?w")
  unfolding filled_def
proof (intro conjI allI impI)
  fix k
  assume k: "k < Suc m"
  show "desc_at ?w (slot base k) = f k"
  proof (cases "k = m")
    case True
    then show ?thesis using slot_eqs [OF ok(1,2,2)] by (simp add: desc_at_def d)
  next
    case False
    then have "k < m" using k by simp
    then have "desc_at w (slot base k) = f k" "k < n" using w ok(2) by (simp_all add: filled_def)
    then show ?thesis using slot_eqs [OF ok(1) _ ok(2), of k] False by (simp add: desc_at_def)
  qed
next
  fix a
  assume a: "\<not> in_table base (Suc m) a"
  have "in_table base (Suc m) (slot base m + j)" if "unat j < 16" for j
    using slot_unat [OF ok that] that by (simp add: in_table_def)
  from this [of 0] this [of 4] this [of 8] this [of 12] have
    "a \<noteq> slot base m" "a \<noteq> slot base m + 4" "a \<noteq> slot base m + 8" "a \<noteq> slot base m + 12" using a by auto
  moreover have "w a = w0 a" using w a by (auto simp: filled_def in_table_def)
  ultimately show "?w a = w0 a" by simp
qed

definition recv_desc :: "u32 \<Rightarrow> u32 \<Rightarrow> u32 \<Rightarrow> nat \<Rightarrow> nat \<Rightarrow> desc_t" where
  "recv_desc base buffer bufsize n k =
     \<lparr>des0 = 0,
      des1 = (if k + 1 = n then push_bit 25 1 OR (bufsize AND 0x7ff)
              else push_bit 24 1 OR push_bit 31 1 OR (bufsize AND 0x7ff)),
      des2 = (buffer + of_nat k * bufsize) AND 0x1fffffff,
      des3 = slot base (if k + 1 = n then 0 else k + 1) AND 0x1fffffff\<rparr>"

lemma slot_Suc: "slot base k + 16 = slot base (Suc k)"
  by (simp add: slot_def algebra_simps)

lemma slot_0 [simp]: "slot base 0 = base"
  by (simp add: slot_def)

lemma write_desc_filled:
  assumes "table_ok base n" "m < n" "filled base f w0 m w"
  shows "\<exists>w'. write_desc D (slot base m) (f m) (h\<lparr>words := w\<rparr>) = Some (h\<lparr>words := w'\<rparr>) \<and> filled base f w0 (Suc m) w'"
  unfolding write_desc_memory [OF assms(1,2)]
  by (rule exI, rule conjI [OF _ filled_step [OF assms refl]]) simp

text \<open>The loop of both initialisations: descriptors 0 to \<open>n - 2\<close>.\<close>

lemma desc_loop:
  assumes ok: "table_ok base n" "0 < n"
    and f: "\<And>m. Suc m < n \<Longrightarrow> d (Suc m) (slot base m) = f m"
  shows "\<exists>w'. for_range 1 n (\<lambda>cnt (addr, h). do { h \<leftarrow> write_desc D addr (d cnt addr) h; Some (addr + 16, h) }) (base, h) =
    Some (slot base (n - 1), h\<lparr>words := w'\<rparr>) \<and> filled base f (words h) (n - 1) w'"
proof -
  let ?P = "\<lambda>cnt r. \<exists>w'. r = (slot base (cnt - 1), h\<lparr>words := w'\<rparr>) \<and> filled base f (words h) (cnt - 1) w'"
  let ?body = "\<lambda>cnt (addr, h). do { h \<leftarrow> write_desc D addr (d cnt addr) h; Some (addr + 16, h) }"
  have "\<exists>r. for_range 1 n ?body (base, h) = Some r \<and> ?P n r"
  proof (rule for_range_inv [where P = ?P])
    show "?P 1 (base, h)" by (intro exI [of _ "words h"]) (simp add: filled_def)
    show "1 \<le> n" using ok(2) by simp
  next
    fix cnt r
    assume c: "1 \<le> cnt" "cnt < n" "?P cnt r"
    then obtain m w where m: "cnt = Suc m" "m < n" "r = (slot base m, h\<lparr>words := w\<rparr>)" "filled base f (words h) m w"
      by (cases cnt) auto
    obtain w' where w': "write_desc D (slot base m) (f m) (h\<lparr>words := w\<rparr>) = Some (h\<lparr>words := w'\<rparr>)"
      "filled base f (words h) (Suc m) w'"
      using write_desc_filled [OF ok(1) m(2,4)] by blast
    have "?body cnt r = Some (slot base cnt, h\<lparr>words := w'\<rparr>)"
      using c(2) m(1,3) f [of m] w'(1) by (simp add: slot_Suc)
    moreover have "?P (Suc cnt) (slot base cnt, h\<lparr>words := w'\<rparr>)"
      using w'(2) m(1) by (intro exI [of _ w']) simp
    ultimately show "\<exists>r'. ?body cnt r = Some r' \<and> ?P (Suc cnt) r'" by blast
  qed
  then show ?thesis by auto
qed

lemma desc_last:
  assumes ok: "table_ok base n" "0 < n" and w: "filled base f w0 (n - 1) w" and d: "d = f (n - 1)"
  shows "\<exists>w'. write_desc D (slot base (n - 1)) d (h\<lparr>words := w\<rparr>) = Some (h\<lparr>words := w'\<rparr>) \<and> filled base f w0 n w'"
  using write_desc_filled [OF ok(1) _ w, of D h] ok(2) d by simp

lemma recv_desc_init_ring:
  assumes ok: "table_ok base (unat n)" "0 < n"
  shows "\<exists>w'. do_recv_desc_init D base buffer bufsize n h = Some (base, h\<lparr>words := w'\<rparr>) \<and>
    filled base (recv_desc base buffer bufsize (unat n)) (words h) (unat n) w'"
proof -
  let ?f = "recv_desc base buffer bufsize (unat n)"
  let ?d = "\<lambda>cnt addr. \<lparr>des0 = 0, des1 = push_bit 24 1 OR push_bit 31 1 OR (bufsize AND 0x7ff),
    des2 = (buffer + of_nat (cnt - 1) * bufsize) AND 0x1fffffff, des3 = (addr + 16) AND 0x1fffffff\<rparr>"
  let ?l = "\<lparr>des0 = 0, des1 = push_bit 25 1 OR (bufsize AND 0x7ff),
    des2 = (buffer + of_nat (unat n - 1) * bufsize) AND 0x1fffffff, des3 = base AND 0x1fffffff\<rparr>"
  have n: "0 < unat n" "max 1 (unat n) = unat n" using ok(2) by (simp_all add: word_less_nat_alt)
  have "?d (Suc m) (slot base m) = ?f m" if "Suc m < unat n" for m using that by (simp add: recv_desc_def slot_Suc)
  from desc_loop [where d = ?d, OF ok(1) n(1) this, of D h] obtain w1 where w1:
    "for_range 1 (unat n) (\<lambda>cnt (addr, h). do { h \<leftarrow> write_desc D addr (?d cnt addr) h; Some (addr + 16, h) }) (base, h) =
      Some (slot base (unat n - 1), h\<lparr>words := w1\<rparr>)" "filled base ?f (words h) (unat n - 1) w1" by blast
  have "?l = ?f (unat n - 1)" using n(1) by (simp add: recv_desc_def)
  from desc_last [OF ok(1) n(1) w1(2) this, of D h] w1(1) show ?thesis
    unfolding do_recv_desc_init_def Let_def n(2) by auto
qed

definition send_desc :: "u32 \<Rightarrow> u32 \<Rightarrow> u32 \<Rightarrow> nat \<Rightarrow> nat \<Rightarrow> desc_t" where
  "send_desc base buffer bufsize n k =
     \<lparr>des0 = 0,
      des1 = (if k + 1 = n then push_bit 30 1 OR push_bit 29 1 OR push_bit 25 1 OR push_bit 24 1 OR (bufsize AND 0x7ff)
              else push_bit 30 1 OR push_bit 29 1 OR push_bit 24 1 OR (bufsize AND 0x7ff)),
      des2 = buffer AND 0x1fffffff,
      des3 = slot base (if k + 1 = n then 0 else k + 1) AND 0x1fffffff\<rparr>"

lemma send_desc_init_ring:
  assumes ok: "table_ok base (unat n)" "0 < n"
  shows "\<exists>w'. do_send_desc_init D base buffer bufsize n h = Some (base, h\<lparr>words := w'\<rparr>) \<and>
    filled base (send_desc base buffer bufsize (unat n)) (words h) (unat n) w'"
proof -
  let ?f = "send_desc base buffer bufsize (unat n)"
  let ?d = "\<lambda>(cnt :: nat) addr. \<lparr>des0 = 0, des1 = push_bit 30 1 OR push_bit 29 1 OR push_bit 24 1 OR (bufsize AND 0x7ff),
    des2 = buffer AND 0x1fffffff, des3 = (addr + 16) AND 0x1fffffff\<rparr>"
  let ?l = "\<lparr>des0 = 0, des1 = push_bit 30 1 OR push_bit 29 1 OR push_bit 25 1 OR push_bit 24 1 OR (bufsize AND 0x7ff),
    des2 = buffer AND 0x1fffffff, des3 = base AND 0x1fffffff\<rparr>"
  have n: "0 < unat n" using ok(2) by (simp add: word_less_nat_alt)
  have "?d (Suc m) (slot base m) = ?f m" if "Suc m < unat n" for m using that by (simp add: send_desc_def slot_Suc)
  from desc_loop [where d = ?d, OF ok(1) n(1) this, of D h] obtain w1 where w1:
    "for_range 1 (unat n) (\<lambda>cnt (addr, h). do { h \<leftarrow> write_desc D addr (?d cnt addr) h; Some (addr + 16, h) }) (base, h) =
      Some (slot base (unat n - 1), h\<lparr>words := w1\<rparr>)" "filled base ?f (words h) (unat n - 1) w1" by blast
  have "?l = ?f (unat n - 1)" using n(1) by (simp add: send_desc_def)
  from desc_last [OF ok(1) n(1) w1(2) this, of D h] w1(1) show ?thesis
    unfolding do_send_desc_init_def by auto
qed


section \<open>Handing the ring to the controller\<close>

definition owned :: "u32 \<Rightarrow> nat \<Rightarrow> (u32 \<Rightarrow> u32) \<Rightarrow> nat \<Rightarrow> (u32 \<Rightarrow> u32) \<Rightarrow> bool" where
  "owned base n w0 m w \<longleftrightarrow>
     (\<forall>k < n. desc_at w (slot base k) =
        (if k < m then (desc_at w0 (slot base k))\<lparr>des0 := 0x80000000\<rparr> else desc_at w0 (slot base k))) \<and>
     (\<forall>a. \<not> in_table base n a \<longrightarrow> w a = w0 a)"

lemma owned_step:
  assumes ok: "table_ok base n" "m < n" and w: "owned base n w0 m w"
  shows "owned base n w0 (Suc m) (w(slot base m := 0x80000000))"
  unfolding owned_def
proof (intro conjI allI impI)
  fix k
  assume k: "k < n"
  then have "desc_at w (slot base k) =
      (if k < m then (desc_at w0 (slot base k))\<lparr>des0 := 0x80000000\<rparr> else desc_at w0 (slot base k))"
    using w by (simp add: owned_def)
  then show "desc_at (w(slot base m := 0x80000000)) (slot base k) =
      (if k < Suc m then (desc_at w0 (slot base k))\<lparr>des0 := 0x80000000\<rparr> else desc_at w0 (slot base k))"
    using slot_eqs [OF ok(1) k ok(2)] by (cases "k = m") (auto simp: desc_at_def)
next
  fix a
  assume "\<not> in_table base n a"
  then show "(w(slot base m := 0x80000000)) a = w0 a"
    using slot_memory_0(3) [OF ok] w by (auto simp: owned_def)
qed

lemma own_all_owned:
  assumes ok: "table_ok base n"
  shows "\<exists>w'. own_all D base n h = Some (h\<lparr>words := w'\<rparr>) \<and> owned base n (words h) n w'"
proof -
  let ?P = "\<lambda>m h'. \<exists>w'. h' = h\<lparr>words := w'\<rparr> \<and> owned base n (words h) m w'"
  have "\<exists>h'. for_range 0 n (\<lambda>l. reg_write_32 D (base + of_nat l * 16) 0x80000000) h = Some h' \<and> ?P n h'"
  proof (rule for_range_inv [where P = ?P])
    show "?P 0 h" by (intro exI [of _ "words h"]) (simp add: owned_def)
  next
    fix l h'
    assume "l < n" "?P l h'"
    then obtain w where w: "h' = h\<lparr>words := w\<rparr>" "owned base n (words h) l w" by blast
    have "reg_write_32 D (base + of_nat l * 16) 0x80000000 h' = Some (h\<lparr>words := w(slot base l := 0x80000000)\<rparr>)"
      using slot_memory_0(1,2) [OF ok \<open>l < n\<close>] w(1) by (simp add: write_memory slot_def)
    then show "\<exists>h''. reg_write_32 D (base + of_nat l * 16) 0x80000000 h' = Some h'' \<and> ?P (Suc l) h''"
      using owned_step [OF ok \<open>l < n\<close> w(2)] by blast
  qed simp
  then show ?thesis by (auto simp: own_all_def)
qed

lemma write_reg: "a AND 3 = 0 \<Longrightarrow> is_reg a \<Longrightarrow> reg_write_32 D a v h = Some (h\<lparr>dev := dev_write D a v (dev h)\<rparr>)"
  by (simp add: reg_write_32_def)

lemma or_reg:
  "a AND 3 = 0 \<Longrightarrow> is_reg a \<Longrightarrow> reg_or_32 D a b h =
     Some (h\<lparr>dev := dev_write D a (fst (dev_read D a (dev h)) OR b) (snd (dev_read D a (dev h)))\<rparr>)"
  by (simp add: reg_or_32_def reg_read_32_def write_reg case_prod_beta)

lemma register_addresses:
  "is_reg 0xbfe10000" "is_reg 0xbfe11004" "is_reg 0xbfe11008" "is_reg 0xbfe1100c" "is_reg 0xbfe11010"
  "is_reg 0xbfe11018" "is_reg 0xbfe1101c"
  by (simp_all add: is_reg_def)

lemma poll_demand: "\<exists>d. for_range 0 n (\<lambda>l. reg_write_32 D 0xbfe11008 1) h = Some (h\<lparr>dev := d\<rparr>)"
proof -
  have "\<exists>h'. for_range 0 n (\<lambda>l. reg_write_32 D 0xbfe11008 1) h = Some h' \<and> (\<exists>d. h' = h\<lparr>dev := d\<rparr>)"
  proof (rule for_range_inv [where P = "\<lambda>_ h'. \<exists>d. h' = h\<lparr>dev := d\<rparr>"])
    show "\<exists>d. h = h\<lparr>dev := d\<rparr>" by (intro exI [of _ "dev h"]) simp
  qed (auto simp: write_reg register_addresses)
  then show ?thesis by auto
qed

lemma net_recv_owned:
  assumes "table_ok rd n"
  shows "\<exists>w' d. net_recv n D rd h = Some (h\<lparr>words := w', dev := d\<rparr>) \<and> owned rd n (words h) n w'"
proof -
  obtain d1 where start: "start_recv D h = Some (h\<lparr>dev := d1\<rparr>)"
    by (simp add: start_recv_def write_reg or_reg register_addresses)
  obtain w' where w': "own_all D rd n (h\<lparr>dev := d1\<rparr>) = Some (h\<lparr>dev := d1, words := w'\<rparr>)" "owned rd n (words h) n w'"
    using own_all_owned [OF assms, of D "h\<lparr>dev := d1\<rparr>"] by auto
  obtain d where "for_range 0 n (\<lambda>l. reg_write_32 D 0xbfe11008 1) (h\<lparr>dev := d1, words := w'\<rparr>) =
      Some (h\<lparr>dev := d1, words := w'\<rparr>\<lparr>dev := d\<rparr>)"
    using poll_demand by metis
  then have "net_recv n D rd h = Some (h\<lparr>words := w', dev := d\<rparr>)"
    by (simp add: net_recv_def start w'(1))
  then show ?thesis using w'(2) by blast
qed


section \<open>A transmitting controller\<close>

text \<open>
  What sending relies on: writing bit 13 of the DMA control register starts the transmitter
  (\<open>on\<close>), which goes on while the interrupt mask and the poll demand register are written; a started
  transmitter gives every descriptor of the table back after finitely many steps of its own, and
  never takes one that it has not been given.
\<close>

definition run_step :: "'d device \<Rightarrow> (u32 \<Rightarrow> u32) \<times> 'd \<Rightarrow> (u32 \<Rightarrow> u32) \<times> 'd" where
  "run_step D = (\<lambda>(w, d). dev_run D w d)"

locale transmitter =
  fixes D :: "'d device" and on :: "'d \<Rightarrow> bool" and base :: u32
  assumes start: "bit v 13 \<Longrightarrow> on (dev_write D 0xbfe11018 v d)"
    and on_mask: "on d \<Longrightarrow> on (dev_write D 0xbfe1101c v d)"
    and on_poll: "on d \<Longrightarrow> on (dev_write D 0xbfe11004 v d)"
    and on_run: "on d \<Longrightarrow> on (snd (run_step D (w, d)))"
    and returned: "k < 64 \<Longrightarrow> \<not> own_bit (w (slot base k)) \<Longrightarrow> \<not> own_bit (fst (run_step D (w, d)) (slot base k))"
    and returns: "on d \<Longrightarrow> k < 64 \<Longrightarrow> \<exists>j. \<not> own_bit (fst ((run_step D ^^ j) (w, d)) (slot base k))"
begin

lemma wait_sent_returns:
  assumes ok: "table_ok base 64" "k < 64"
  shows "on (dev h) \<Longrightarrow> \<not> own_bit (fst ((run_step D ^^ j) (words h, dev h)) (slot base k)) \<Longrightarrow>
    \<exists>w d. wait_sent D (slot base k) h = Some (h\<lparr>words := w, dev := d\<rparr>) \<and> on d \<and> \<not> own_bit (w (slot base k)) \<and>
      (\<forall>m < 64. \<not> own_bit (words h (slot base m)) \<longrightarrow> \<not> own_bit (w (slot base m)))"
proof (induction j arbitrary: h)
  case 0
  have "wait_sent D (slot base k) h = Some h"
    using 0 slot_memory_0(1,2) [OF ok] by (subst wait_sent.simps) (simp add: reg_read_32_def)
  then show ?case using 0 by (intro exI [of _ "words h"] exI [of _ "dev h"]) simp
next
  case (Suc j)
  have read: "reg_read_32 D (slot base k) h = Some (words h (slot base k), h)"
    using slot_memory_0(1,2) [OF ok] by (simp add: reg_read_32_def)
  show ?case
  proof (cases "own_bit (words h (slot base k))")
    case False
    then have "wait_sent D (slot base k) h = Some h" by (subst wait_sent.simps) (simp add: read)
    then show ?thesis using False Suc.prems by (intro exI [of _ "words h"] exI [of _ "dev h"]) simp
  next
    case True
    let ?h = "device_step D h"
    have s: "words ?h = fst (run_step D (words h, dev h))" "dev ?h = snd (run_step D (words h, dev h))"
      "\<And>w d. ?h\<lparr>words := w, dev := d\<rparr> = h\<lparr>words := w, dev := d\<rparr>"
      by (simp_all add: device_step_def run_step_def case_prod_beta Let_def)
    have "on (dev ?h)" using on_run [OF Suc.prems(1)] s(2) by simp
    moreover have "\<not> own_bit (fst ((run_step D ^^ j) (words ?h, dev ?h)) (slot base k))"
      using Suc.prems(2) by (simp add: s funpow_Suc_right del: funpow.simps)
    ultimately obtain w d where w: "wait_sent D (slot base k) ?h = Some (?h\<lparr>words := w, dev := d\<rparr>)" "on d"
      "\<not> own_bit (w (slot base k))" "\<forall>m < 64. \<not> own_bit (words ?h (slot base m)) \<longrightarrow> \<not> own_bit (w (slot base m))"
      using Suc.IH by blast
    have "wait_sent D (slot base k) h = Some (h\<lparr>words := w, dev := d\<rparr>)"
      using True w(1) by (subst wait_sent.simps) (simp add: read s(3))
    moreover have "\<forall>m < 64. \<not> own_bit (words h (slot base m)) \<longrightarrow> \<not> own_bit (w (slot base m))"
      using w(4) returned s(1) by simp
    ultimately show ?thesis using w(2,3) by blast
  qed
qed

lemma net_send_returns:
  assumes ok: "table_ok base 64"
  shows "\<exists>w d. do_net_send D base td_phy h = Some (h\<lparr>words := w, dev := d\<rparr>) \<and> (\<forall>k < 64. \<not> own_bit (w (slot base k)))"
proof -
  define d2 where "d2 = dev_write D 0xbfe11010 td_phy (dev h)"
  define d3 where "d3 = dev_write D 0xbfe10000 (fst (dev_read D 0xbfe10000 d2) OR (push_bit 2 1 OR push_bit 3 1))
    (snd (dev_read D 0xbfe10000 d2))"
  define d1 where "d1 = dev_write D 0xbfe1101c (0x10001 OR push_bit 6 1)
    (dev_write D 0xbfe11018 (fst (dev_read D 0xbfe11018 d3) OR 0x02202000) (snd (dev_read D 0xbfe11018 d3)))"
  have "bit (v OR 0x02202000 :: u32) 13" for v by (simp add: bit_or_iff)
  then have d1: "start_send D td_phy h = Some (h\<lparr>dev := d1\<rparr>)" "on d1"
    unfolding d1_def
    by (simp_all add: start_send_def write_reg or_reg register_addresses d2_def d3_def on_mask start)
  obtain w1 where "own_all D base 64 (h\<lparr>dev := d1\<rparr>) = Some (h\<lparr>dev := d1\<rparr>\<lparr>words := w1\<rparr>)"
    using own_all_owned [OF ok] by blast
  then have w1: "own_all D base 64 (h\<lparr>dev := d1\<rparr>) = Some (h\<lparr>words := w1, dev := d1\<rparr>)" by simp
  let ?P = "\<lambda>l h'. \<exists>w d. h' = h\<lparr>words := w, dev := d\<rparr> \<and> on d \<and> (\<forall>k < l. \<not> own_bit (w (slot base k)))"
  let ?body = "\<lambda>l h. do { h \<leftarrow> reg_write_32 D (0xbfe11000 + 4) 1 h; wait_sent D (base + of_nat l * 16) h }"
  have "\<exists>h'. for_range 0 64 ?body (h\<lparr>words := w1, dev := d1\<rparr>) = Some h' \<and> ?P 64 h'"
  proof (rule for_range_inv [where P = ?P])
    show "?P 0 (h\<lparr>words := w1, dev := d1\<rparr>)" using d1(2) by blast
  next
    fix l h'
    assume l: "l < (64 :: nat)" "?P l h'"
    then obtain w d where w: "h' = h\<lparr>words := w, dev := d\<rparr>" "on d" "\<forall>k < l. \<not> own_bit (w (slot base k))" by blast
    let ?h = "h\<lparr>words := w, dev := dev_write D 0xbfe11004 1 d\<rparr>"
    have on: "on (dev ?h)" using on_poll [OF w(2)] by simp
    obtain j where "\<not> own_bit (fst ((run_step D ^^ j) (words ?h, dev ?h)) (slot base l))"
      using returns [OF on l(1)] by blast
    from wait_sent_returns [OF ok l(1) on this] obtain w2 d2 where
      w2: "wait_sent D (slot base l) ?h = Some (?h\<lparr>words := w2, dev := d2\<rparr>)" "on d2" "\<not> own_bit (w2 (slot base l))"
      "\<forall>m < 64. \<not> own_bit (words ?h (slot base m)) \<longrightarrow> \<not> own_bit (w2 (slot base m))" by blast
    have "?body l h' = Some (h\<lparr>words := w2, dev := d2\<rparr>)"
      using w(1) w2(1) by (simp add: write_reg register_addresses slot_def)
    moreover have "\<forall>k < Suc l. \<not> own_bit (w2 (slot base k))"
      using w(3) w2(3,4) l(1) by (simp add: less_Suc_eq)
    ultimately show "\<exists>h''. ?body l h' = Some h'' \<and> ?P (Suc l) h''" using w2(2) by blast
  qed simp
  then show ?thesis by (auto simp: do_net_send_def d1(1) w1)
qed

end


section \<open>A controller\<close>

text \<open>
  A controller with a transmitter that is off or on: started by bit 13 of the control register, it
  gives back, at each step, the first descriptor of the table that it holds.
\<close>

definition held :: "u32 \<Rightarrow> (u32 \<Rightarrow> u32) \<Rightarrow> nat list" where
  "held base w = filter (\<lambda>k. own_bit (w (slot base k))) [0..<64]"

definition dma_run :: "u32 \<Rightarrow> (u32 \<Rightarrow> u32) \<Rightarrow> bool \<Rightarrow> (u32 \<Rightarrow> u32) \<times> bool" where
  "dma_run base w d =
     (case held base w of [] \<Rightarrow> (w, d)
      | k # _ \<Rightarrow> if d then (w(slot base k := w (slot base k) AND 0x7fffffff), d) else (w, d))"

definition dma :: "u32 \<Rightarrow> bool device" where
  "dma base = \<lparr>dev_read = (\<lambda>a d. (0, d)), dev_write = (\<lambda>a v d. if a = 0xbfe11018 then bit v 13 else d),
     dev_run = dma_run base\<rparr>"

lemma not_own_masked: "\<not> own_bit (v AND 0x7fffffff)"
proof -
  have "(v AND 0x7fffffff) AND 0x80000000 = v AND (0x7fffffff AND 0x80000000)" by (simp only: and.assoc)
  then show ?thesis by (simp add: own_bit_def)
qed

lemma dma_step:
  assumes "table_ok base 64" "m < 64"
  shows "own_bit (fst (dma_run base w True) (slot base m)) \<longleftrightarrow> own_bit (w (slot base m)) \<and> held base w \<noteq> [] \<and> m \<noteq> hd (held base w)"
    and "\<not> own_bit (w (slot base m)) \<Longrightarrow> \<not> own_bit (fst (dma_run base w d) (slot base m))"
    and "snd (dma_run base w d) = d"
proof -
  have h: "k < 64 \<and> own_bit (w (slot base k))" if "held base w = k # ks" for k ks
  proof -
    have "k \<in> set (held base w)" using that by simp
    then show ?thesis by (simp add: held_def)
  qed
  have e: "held base w = [] \<Longrightarrow> \<not> own_bit (w (slot base m))"
    using assms(2) by (auto simp: held_def filter_empty_conv)
  show "own_bit (fst (dma_run base w True) (slot base m)) \<longleftrightarrow> own_bit (w (slot base m)) \<and> held base w \<noteq> [] \<and> m \<noteq> hd (held base w)"
    using e h slot_eqs(4) [OF assms(1)] assms(2)
    by (cases "held base w") (auto simp: dma_run_def not_own_masked)
  show "\<not> own_bit (w (slot base m)) \<Longrightarrow> \<not> own_bit (fst (dma_run base w d) (slot base m))"
    by (cases "held base w") (auto simp: dma_run_def not_own_masked)
  show "snd (dma_run base w d) = d" by (cases "held base w") (auto simp: dma_run_def)
qed

lemma held_run:
  assumes "table_ok base 64"
  shows "held base (fst (dma_run base w True)) = tl (held base w)"
proof (cases "held base w")
  case Nil
  then show ?thesis by (simp add: dma_run_def)
next
  case (Cons k ks)
  have d: "distinct (held base w)" by (simp add: held_def)
  have "held base (fst (dma_run base w True)) = filter (\<lambda>m. m \<noteq> k) (held base w)"
    unfolding held_def filter_filter using dma_step(1) [OF assms, of _ w] Cons by (intro filter_cong) (auto simp: held_def)
  also have "\<dots> = ks" using d Cons by (auto intro!: filter_True)
  finally show ?thesis using Cons by simp
qed

lemma dma_transmits:
  assumes "table_ok base 64"
  shows "held base (fst ((run_step (dma base) ^^ j) (w, True))) = drop j (held base w) \<and>
    snd ((run_step (dma base) ^^ j) (w, True))"
proof (induction j arbitrary: w)
  case (Suc j)
  have "run_step (dma base) (w, True) = (fst (dma_run base w True), True)"
    using dma_step(3) [OF assms, of 0 w True] by (simp add: run_step_def dma_def prod_eq_iff)
  then show ?case
    using Suc [of "fst (dma_run base w True)"] held_run [OF assms, of w]
    by (simp add: funpow_Suc_right drop_Suc del: funpow.simps)
qed simp

interpretation ctl: transmitter "dma 0xa0900000" "\<lambda>d. d" "0xa0900000"
proof
  have ok: "table_ok 0xa0900000 64" by (simp add: table_ok_def)
  fix v :: u32 and d :: bool and w :: "u32 \<Rightarrow> u32" and k :: nat
  show "bit v 13 \<Longrightarrow> dev_write (dma 0xa0900000) 0xbfe11018 v d" by (simp add: dma_def)
  show "d \<Longrightarrow> dev_write (dma 0xa0900000) 0xbfe1101c v d" "d \<Longrightarrow> dev_write (dma 0xa0900000) 0xbfe11004 v d"
    by (simp_all add: dma_def)
  show "d \<Longrightarrow> snd (run_step (dma 0xa0900000) (w, d))" using dma_step(3) [OF ok, of 0 w d] by (simp add: run_step_def dma_def)
  assume k: "k < 64"
  show "\<not> own_bit (w (slot 0xa0900000 k)) \<Longrightarrow> \<not> own_bit (fst (run_step (dma 0xa0900000) (w, d)) (slot 0xa0900000 k))"
    using dma_step(2) [OF ok k] by (simp add: run_step_def dma_def)
  assume d
  have "held 0xa0900000 (fst ((run_step (dma 0xa0900000) ^^ 64) (w, True))) = []"
    using dma_transmits [OF ok, of 64 w] by (simp add: held_def length_filter_le [THEN order_trans])
  then have "\<not> own_bit (fst ((run_step (dma 0xa0900000) ^^ 64) (w, d)) (slot 0xa0900000 k))"
    using k \<open>d\<close> by (auto simp: held_def filter_empty_conv)
  then show "\<exists>j. \<not> own_bit (fst ((run_step (dma 0xa0900000) ^^ j) (w, d)) (slot 0xa0900000 k))" by blast
qed


section \<open>The driver\<close>

lemma armed_ring:
  assumes ok: "table_ok base n" "k < n" and f: "filled base f w0 n w" and o: "owned base n w n w'"
  shows "desc_at w' (slot base k) = (f k)\<lparr>des0 := 0x80000000\<rparr>" "\<not> in_table base n a \<Longrightarrow> w' a = w0 a"
  using assms by (auto simp: filled_def owned_def)





text \<open>
  \<^verbatim>\<open>do_net_fast_recv\<close> hands over 256 descriptors, four times as many as the tables of the driver
  have: the word after the table of 64 is overwritten.
\<close>

lemma fast_recv_overruns:
  assumes "table_ok base 256"
  shows "\<exists>h'. do_net_fast_recv D base rd_phy daddr h = Some (0, h') \<and>
    words h' (slot base 64) = 0x80000000 \<and> \<not> in_table base 64 (slot base 64)"
proof -
  obtain w' d where w': "net_recv 256 D base h = Some (h\<lparr>words := w', dev := d\<rparr>)" "owned base 256 (words h) 256 w'"
    using net_recv_owned [OF assms, of D h] by auto
  have "desc_at w' (slot base 64) = (desc_at (words h) (slot base 64))\<lparr>des0 := 0x80000000\<rparr>"
    using w'(2) by (simp add: owned_def)
  then have "w' (slot base 64) = 0x80000000" by (simp add: desc_at_def)
  moreover have "\<not> in_table base 64 (slot base 64)" using slot_unat_0 [OF assms, of 64] by (simp add: in_table_def)
  ultimately show ?thesis using w'(1) by (simp add: do_net_fast_recv_def)
qed

text \<open>On registers that keep what is written, the address that is set is the one that is read back.\<close>

lemma mac_addr_roundtrip:
  assumes "\<And>a d. dev_read D a d = (bank d a, d)" "\<And>a v d. bank (dev_write D a v d) = (bank d)(a := v)"
  shows "\<exists>h'. set_mac_addr D GMAC_BASE_ADDR h = Some h' \<and> gmac_get_mac_addr D h' = Some (MacAddr, h')"
  by (simp add: set_mac_addr_def gmac_get_mac_addr_def read_register_def reg_write_32_def reg_read_32_def is_reg_def
      MacAddr_def assms)

end
