(* ===== verification/CString.thy ===== *)
theory CString
  imports Prelude
begin

text \<open>
  The string and memory library of the kernel, \<^verbatim>\<open>libs/string.c\<close>. A \<^verbatim>\<open>char *\<close> argument is
  the list of bytes from the pointer to the end of its object; a string of the source is a run of
  non-zero bytes followed by a zero byte. Pointers a function returns into its argument are
  indices. Running off the end of an object gives \<open>None\<close>.
\<close>

section \<open>Lengths, copies and comparisons\<close>

definition no_nul :: "u8 list \<Rightarrow> bool" where
  "no_nul cs \<longleftrightarrow> 0 \<notin> set cs"

lemma no_nul_simps [simp]:
  "no_nul []" "no_nul (c # cs) \<longleftrightarrow> c \<noteq> 0 \<and> no_nul cs"
  "no_nul (as @ bs) \<longleftrightarrow> no_nul as \<and> no_nul bs"
  by (auto simp: no_nul_def)

fun strlen :: "u8 list \<Rightarrow> nat option" where
  "strlen [] = None"
| "strlen (c # s) = (if c = 0 then Some 0 else map_option Suc (strlen s))"

fun memcpy :: "u8 list \<Rightarrow> u8 list \<Rightarrow> nat \<Rightarrow> u8 list option" where
  "memcpy dest src 0 = Some dest"
| "memcpy (d # dest) (c # src) (Suc len) = map_option ((#) c) (memcpy dest src len)"
| "memcpy _ _ (Suc len) = None"

fun memset :: "u8 list \<Rightarrow> u8 \<Rightarrow> nat \<Rightarrow> u8 list option" where
  "memset dest val 0 = Some dest"
| "memset (d # dest) val (Suc len) = map_option ((#) val) (memset dest val len)"
| "memset [] val (Suc len) = None"

definition bzero :: "u8 list \<Rightarrow> nat \<Rightarrow> u8 list option" where
  "bzero dest len = memset dest 0 len"

fun strcmp :: "u8 list \<Rightarrow> u8 list \<Rightarrow> int option" where
  "strcmp (a # s) (b # t) =
     (if a \<noteq> 0 \<and> b \<noteq> 0 \<and> a = b then strcmp s t
      else if a = 0 \<and> b = 0 then Some 0
      else if a = 0 then Some (-1)
      else Some 1)"
| "strcmp _ _ = None"

fun strcpy :: "u8 list \<Rightarrow> u8 list \<Rightarrow> u8 list option" where
  "strcpy (d # dest) (c # src) =
     (if c \<noteq> 0 then map_option ((#) c) (strcpy dest src) else Some (0 # dest))"
| "strcpy _ _ = None"

lemma strlen_cstr [simp]: "no_nul cs \<Longrightarrow> strlen (cs @ 0 # r) = Some (length cs)"
  by (induction cs) auto

lemma memcpy_eq:
  "memcpy dest src len =
     (if len \<le> length dest \<and> len \<le> length src then Some (take len src @ drop len dest) else None)"
  by (induction dest src len rule: memcpy.induct) (auto simp: min_def)

lemma memset_eq:
  "memset dest val len =
     (if len \<le> length dest then Some (replicate len val @ drop len dest) else None)"
  by (induction dest val len rule: memset.induct) auto

lemma bzero_eq:
  "bzero dest len = (if len \<le> length dest then Some (replicate len 0 @ drop len dest) else None)"
  by (simp add: bzero_def memset_eq)

lemma strcpy_cstr:
  "no_nul cs \<Longrightarrow> strcpy dest (cs @ 0 # r) =
     (if length cs < length dest then Some (cs @ 0 # drop (Suc (length cs)) dest) else None)"
proof (induction cs arbitrary: dest)
  case Nil
  then show ?case by (cases dest) auto
next
  case (Cons c cs)
  then show ?case by (cases dest) auto
qed

lemma strcmp_cstr:
  "no_nul as \<Longrightarrow> no_nul bs \<Longrightarrow>
   strcmp (as @ 0 # r) (bs @ 0 # q) =
     Some (if as = bs then 0 else if \<exists>c t. bs = as @ c # t then -1 else 1)"
proof (induction as arbitrary: bs)
  case Nil
  then show ?case by (cases bs) auto
next
  case (Cons a as)
  then show ?case by (cases bs) auto
qed

lemma strcmp_eq_0: "no_nul as \<Longrightarrow> no_nul bs \<Longrightarrow>
   strcmp (as @ 0 # r) (bs @ 0 # q) = Some 0 \<longleftrightarrow> as = bs"
  by (simp add: strcmp_cstr)

section \<open>In-place reversal\<close>

function reverse_loop :: "u8 list \<Rightarrow> nat \<Rightarrow> nat \<Rightarrow> u8 list option" where
  "reverse_loop s i j =
     (if i < j then do {
        si \<leftarrow> load s i;
        sj \<leftarrow> load s j;
        s \<leftarrow> store s i sj;
        s \<leftarrow> store s j si;
        reverse_loop s (Suc i) (j - 1)
      } else Some s)"
  by pat_completeness auto
termination
  by (relation "measure (\<lambda>(s, i, j). j - i)") auto

declare reverse_loop.simps [simp del]

definition reverse :: "u8 list \<Rightarrow> u8 list option" where
  "reverse s = do { n \<leftarrow> strlen s; reverse_loop s 0 (n - 1) }"

section \<open>Numbers to text\<close>

definition digit_char :: "u32 \<Rightarrow> u8" where
  "digit_char d = (if d < 10 then ucast d + 48 else ucast d - 10 + 97)"

function itohex_loop :: "u32 \<Rightarrow> u8 list \<Rightarrow> nat \<Rightarrow> u8 list option" where
  "itohex_loop n s i = do {
     s \<leftarrow> store s i (digit_char (n mod 16));
     if n div 16 > 0 then itohex_loop (n div 16) s (Suc i) else store s (Suc i) 0
   }"
  by pat_completeness auto
termination
  by (relation "measure (\<lambda>(n, s, i). unat n)")
    (auto simp: word_less_nat_alt unat_div)

definition itohex :: "u32 \<Rightarrow> u8 list \<Rightarrow> u8 list option" where
  "itohex n s = do { s \<leftarrow> itohex_loop n s 0; reverse s }"

function itoa_loop :: "u32 \<Rightarrow> u8 list \<Rightarrow> nat \<Rightarrow> u8 list option" where
  "itoa_loop n s i = do {
     s \<leftarrow> store s i (ucast (n mod 10) + 48);
     if n div 10 > 0 then itoa_loop (n div 10) s (Suc i) else store s (Suc i) 0
   }"
  by pat_completeness auto
termination
  by (relation "measure (\<lambda>(n, s, i). unat n)")
    (auto simp: word_less_nat_alt unat_div)

definition itoa :: "u32 \<Rightarrow> u8 list \<Rightarrow> u8 list option" where
  "itoa n s = do { s \<leftarrow> itoa_loop n s 0; reverse s }"

declare itohex_loop.simps [simp del] itoa_loop.simps [simp del]

section \<open>Text to numbers\<close>

fun atoi_loop :: "u8 list \<Rightarrow> u32 \<Rightarrow> u32 option" where
  "atoi_loop [] n = None"
| "atoi_loop (c # s) n = (if 48 \<le> c \<and> c \<le> 57 then atoi_loop s (n * 10 + ucast c - 48) else Some n)"

definition atoi :: "u8 list \<Rightarrow> u32 option" where
  "atoi s = atoi_loop s 0"

fun atoh_loop :: "u8 list \<Rightarrow> u32 \<Rightarrow> u32 option" where
  "atoh_loop [] n = None"
| "atoh_loop (c # s) n =
     (if (48 \<le> c \<and> c \<le> 57) \<or> (97 \<le> c \<and> c \<le> 102)
      then (if 48 \<le> c \<and> c \<le> 57 then atoh_loop s (n * 16 + ucast c - 48)
            else if 97 \<le> c \<and> c \<le> 102 then atoh_loop s (n * 16 + ucast c - 97)
            else atoh_loop s n)
      else Some n)"

definition atoh :: "u8 list \<Rightarrow> u32 option" where
  "atoh s = atoh_loop s 0"

definition is_hex_char :: "u8 \<Rightarrow> bool" where
  "is_hex_char c \<longleftrightarrow> (48 \<le> c \<and> c \<le> 57) \<or> (97 \<le> c \<and> c \<le> 102)"

fun htoi_loop :: "u8 list \<Rightarrow> u32 \<Rightarrow> u32 option" where
  "htoi_loop [] n = None"
| "htoi_loop (c # s) n =
     (if is_hex_char c
      then (if 48 \<le> c \<and> c \<le> 57 then htoi_loop s (n * 16 + ucast c - 48)
            else htoi_loop s (n * 16 + ucast c - 97 + 10))
      else Some n)"

definition htoi :: "u8 list \<Rightarrow> u32 option" where
  "htoi s = htoi_loop s 0"

section \<open>Searching\<close>

fun strpbrk_map :: "u8 list \<Rightarrow> u8 list \<Rightarrow> u8 list option" where
  "strpbrk_map [] m = None"
| "strpbrk_map (c # ctrl) m =
     (if c = 0 then Some m
      else strpbrk_map ctrl
        (m[unat (drop_bit 3 c) := m ! unat (drop_bit 3 c) OR push_bit (unat (c AND 7)) 1]))"

fun strpbrk_scan :: "u8 list \<Rightarrow> u8 list \<Rightarrow> nat \<Rightarrow> nat option option" where
  "strpbrk_scan m [] i = None"
| "strpbrk_scan m (c # s) i =
     (if c = 0 then Some None
      else if m ! unat (drop_bit 3 c) AND push_bit (unat (c AND 7)) 1 \<noteq> 0 then Some (Some i)
      else strpbrk_scan m s (Suc i))"

definition strpbrk :: "u8 list \<Rightarrow> u8 list \<Rightarrow> nat option option" where
  "strpbrk s control = do { m \<leftarrow> strpbrk_map control (replicate 32 0); strpbrk_scan m s 0 }"

fun in_accept :: "u8 \<Rightarrow> u8 list \<Rightarrow> bool option" where
  "in_accept p [] = None"
| "in_accept p (a # accept) =
     (if a = 0 then Some False else if p = a then Some True else in_accept p accept)"

fun strspn :: "u8 list \<Rightarrow> u8 list \<Rightarrow> nat option" where
  "strspn [] accept = None"
| "strspn (p # s) accept =
     (if p = 0 then Some 0
      else do { b \<leftarrow> in_accept p accept; if b then map_option Suc (strspn s accept) else Some 0 })"

fun strchr_loop :: "u8 list \<Rightarrow> u8 \<Rightarrow> nat \<Rightarrow> nat option option" where
  "strchr_loop [] c i = None"
| "strchr_loop (b # s) c i =
     (if b = 0 then Some None else if b = c then Some (Some i) else strchr_loop s c (Suc i))"

definition strchr :: "u8 list option \<Rightarrow> u8 \<Rightarrow> nat option option" where
  "strchr s c = (case s of None \<Rightarrow> Some None | Some s \<Rightarrow> strchr_loop s c 0)"

fun strrchr_loop :: "u8 list \<Rightarrow> u8 \<Rightarrow> nat \<Rightarrow> nat \<Rightarrow> nat option" where
  "strrchr_loop [] c i p_char = None"
| "strrchr_loop (b # s) c i p_char =
     (if b = 0 then Some p_char else strrchr_loop s c (Suc i) (if b = c then i else p_char))"

definition strrchr :: "u8 list option \<Rightarrow> u8 \<Rightarrow> nat option option" where
  "strrchr s c = (case s of None \<Rightarrow> Some None | Some s \<Rightarrow> map_option Some (strrchr_loop s c 0 0))"

section \<open>Tokens\<close>

text \<open>
  \<^verbatim>\<open>strtok\<close> cuts the buffer in place and keeps the position after the token in its static
  variable \<^verbatim>\<open>last\<close>; here the buffer and that position are passed and returned. The first
  component of the result is the start of the token, \<open>None\<close> the null pointer; a null position
  to continue from is \<open>None\<close> too, and following it fails.
\<close>

definition myStrtok_origin ::
    "u8 list \<Rightarrow> nat option \<Rightarrow> u8 list \<Rightarrow> nat option \<Rightarrow>
     (nat option \<times> u8 list \<times> nat option) option" where
  "myStrtok_origin buf str_arr delimiters temp_str = do {
     p \<leftarrow> (if str_arr = None then temp_str else str_arr);
     k \<leftarrow> strspn (drop p buf) delimiters;
     let p = p + k;
     c \<leftarrow> load buf p;
     if c = 0 then Some (None, buf, temp_str)
     else do {
       r \<leftarrow> strpbrk (drop p buf) delimiters;
       case r of
         None \<Rightarrow> do {
           e \<leftarrow> strchr (Some (drop p buf)) 0;
           Some (Some p, buf, map_option ((+) p) e)
         }
       | Some q \<Rightarrow> do {
           buf \<leftarrow> store buf (p + q) 0;
           Some (Some p, buf, Some (p + q + 1))
         }
     }
   }"

definition strtok ::
    "u8 list \<Rightarrow> nat option \<Rightarrow> u8 list \<Rightarrow> nat option \<Rightarrow>
     (nat option \<times> u8 list \<times> nat option) option" where
  "strtok buf str_arr delimiters last_ptr = myStrtok_origin buf str_arr delimiters last_ptr"

section \<open>Facts about numbers\<close>

lemma list_ends_cases:
  obtains "m = []" | x where "m = [x]" | x m' y where "m = x # m' @ [y]"
  by (metis rev_exhaust append_Nil append_Cons neq_Nil_conv)

lemma reverse_loop_spec:
  "reverse_loop (a @ m @ b) (length a) (length a + length m - 1) = Some (a @ rev m @ b)"
proof (induction "length m" arbitrary: a m b rule: less_induct)
  case less
  show ?case
  proof (cases m rule: list_ends_cases)
    case 1
    then show ?thesis by (subst reverse_loop.simps) auto
  next
    case (2 x)
    then show ?thesis by (simp add: reverse_loop.simps)
  next
    case (3 x m' y)
    have "reverse_loop ((a @ [y]) @ m' @ (x # b)) (length (a @ [y])) (length (a @ [y]) + length m' - 1)
        = Some ((a @ [y]) @ rev m' @ (x # b))"
      by (rule less) (simp add: 3)
    then show ?thesis
      by (subst reverse_loop.simps) (simp add: 3 nth_append list_update_append)
  qed
qed

lemma reverse_cstr: "no_nul cs \<Longrightarrow> reverse (cs @ 0 # r) = Some (rev cs @ 0 # r)"
  using reverse_loop_spec [of "[]" cs "0 # r"] by (simp add: reverse_def)

text \<open>The reference: the digits of a number in base \<open>b\<close>, most significant first.\<close>

function num_str :: "nat \<Rightarrow> nat \<Rightarrow> u8 list" where
  "num_str b n = (if b < 2 \<or> n < b then [digit_char (of_nat n)]
     else num_str b (n div b) @ [digit_char (of_nat (n mod b))])"
  by pat_completeness auto
termination
  by (relation "measure (\<lambda>(b, n). n)") auto
declare num_str.simps [simp del]

lemma digit_char_unat:
  assumes "d < 16"
  shows "unat (digit_char (of_nat d)) = (if d < 10 then d + 48 else d + 87)"
proof -
  have "d \<in> set [0..<16]" using assms by simp
  then show ?thesis unfolding digit_char_def by (auto simp: upt_conv_Cons)
qed

lemma digit_char_nz: "d < 16 \<Longrightarrow> digit_char (of_nat d) \<noteq> 0"
  using digit_char_unat [of d] by (metis add_is_0 unat_0 zero_neq_numeral)

lemma no_nul_num_str: "2 \<le> b \<Longrightarrow> b \<le> 16 \<Longrightarrow> no_nul (num_str b n)"
proof (induction b n rule: num_str.induct)
  case (1 b n)
  have "n mod b < 16" using 1 by (meson less_le_trans mod_less_divisor zero_less_numeral le_trans)
  then show ?case using 1 by (subst num_str.simps) (auto intro!: digit_char_nz)
qed

lemma emit_step:
  "i < length s \<Longrightarrow> take (Suc i) (s[i := x]) @ xs @ drop (Suc i + k) (s[i := x])
     = take i s @ (x # xs) @ drop (i + Suc k) s"
  by (simp add: take_Suc_conv_app_nth)

lemma num_str_step:
  "2 \<le> b \<Longrightarrow> b \<le> n \<Longrightarrow> num_str b n = num_str b (n div b) @ [digit_char (of_nat (n mod b))]"
  by (subst num_str.simps) simp

lemma num_str_last: "n < b \<Longrightarrow> num_str b n = [digit_char (of_nat n)]"
  by (subst num_str.simps) simp

lemma div_gt_0_iff: "0 < b \<Longrightarrow> (n :: u32) div b > 0 \<longleftrightarrow> b \<le> n"
  by (simp add: word_less_nat_alt word_le_nat_alt unat_div div_greater_zero_iff)

lemma itohex_loop_eq:
  "length (num_str 16 (unat n)) + i < length s \<Longrightarrow>
   itohex_loop n s i = Some (take i s @ (rev (num_str 16 (unat n)) @ [0]) @
     drop (i + Suc (length (num_str 16 (unat n)))) s)"
proof (induction n s i rule: itohex_loop.induct)
  case (1 n s i)
  define x where "x = digit_char (n mod 16)"
  have x: "x = digit_char (of_nat (unat n mod 16))"
    by (simp add: x_def word_arith_nat_mod)
  have i: "i < length s" using "1.prems" by simp
  show ?case
  proof (cases "n div 16 > 0")
    case True
    then have "16 \<le> unat n" by (simp add: div_gt_0_iff word_le_nat_alt)
    then have ns: "num_str 16 (unat n) = num_str 16 (unat (n div 16)) @ [x]"
      by (subst num_str_step) (simp_all add: x unat_div)
    have "itohex_loop (n div 16) (s[i := x]) (Suc i) = Some (take (Suc i) (s[i := x]) @
        (rev (num_str 16 (unat (n div 16))) @ [0]) @
        drop (Suc i + Suc (length (num_str 16 (unat (n div 16))))) (s[i := x]))"
      using "1.prems" True by (intro "1.IH") (simp_all add: ns i x_def)
    then show ?thesis
      using True i by (subst itohex_loop.simps)
        (simp add: x_def [symmetric] ns take_Suc_conv_app_nth)
  next
    case False
    then have "unat n < 16" by (simp add: div_gt_0_iff word_le_nat_alt)
    then have "num_str 16 (unat n) = [x]" by (simp add: num_str_last x)
    then show ?thesis
      using "1.prems" False
      by (subst itohex_loop.simps) (simp add: x_def [symmetric] i take_Suc_conv_app_nth list_update_append upd_conv_take_nth_drop)
  qed
qed


lemma digit_char_dec: "digit_char (of_nat (unat n mod 10)) = ucast ((n :: u32) mod 10) + 48"
proof -
  have "n mod 10 < 10" by (simp add: word_less_nat_alt unat_mod)
  then show ?thesis by (simp add: digit_char_def word_arith_nat_mod)
qed

lemma itoa_loop_eq:
  "length (num_str 10 (unat n)) + i < length s \<Longrightarrow>
   itoa_loop n s i = Some (take i s @ (rev (num_str 10 (unat n)) @ [0]) @
     drop (i + Suc (length (num_str 10 (unat n)))) s)"
proof (induction n s i rule: itoa_loop.induct)
  case (1 n s i)
  define x :: u8 where "x = ucast (n mod 10) + 48"
  have x: "x = digit_char (of_nat (unat n mod 10))"
    by (simp add: x_def digit_char_dec)
  have i: "i < length s" using "1.prems" by simp
  show ?case
  proof (cases "n div 10 > 0")
    case True
    then have "10 \<le> unat n" by (simp add: div_gt_0_iff word_le_nat_alt)
    then have ns: "num_str 10 (unat n) = num_str 10 (unat (n div 10)) @ [x]"
      by (subst num_str_step) (simp_all add: x unat_div)
    have "itoa_loop (n div 10) (s[i := x]) (Suc i) = Some (take (Suc i) (s[i := x]) @
        (rev (num_str 10 (unat (n div 10))) @ [0]) @
        drop (Suc i + Suc (length (num_str 10 (unat (n div 10))))) (s[i := x]))"
      using "1.prems" True by (intro "1.IH") (simp_all add: ns i x_def)
    then show ?thesis
      using True i by (subst itoa_loop.simps)
        (simp add: x_def [symmetric] ns take_Suc_conv_app_nth)
  next
    case False
    then have "unat n < 10" by (simp add: div_gt_0_iff word_le_nat_alt)
    then have "num_str 10 (unat n) = [x]" by (simp add: num_str_last x)
    then show ?thesis
      using "1.prems" False
      by (subst itoa_loop.simps) (simp add: x_def [symmetric] i take_Suc_conv_app_nth list_update_append upd_conv_take_nth_drop)
  qed
qed



lemma no_nul_rev [simp]: "no_nul (rev cs) = no_nul cs"
  by (simp add: no_nul_def)

lemma itoa_spec:
  "length (num_str 10 (unat n)) < length s \<Longrightarrow>
   itoa n s = Some (num_str 10 (unat n) @ 0 # drop (Suc (length (num_str 10 (unat n)))) s)"
  by (simp add: itoa_def itoa_loop_eq reverse_cstr no_nul_num_str)

lemma itohex_spec:
  "length (num_str 16 (unat n)) < length s \<Longrightarrow>
   itohex n s = Some (num_str 16 (unat n) @ 0 # drop (Suc (length (num_str 16 (unat n)))) s)"
  by (simp add: itohex_def itohex_loop_eq reverse_cstr no_nul_num_str)


lemma ucast_digit_char:
  assumes "d < 16"
  shows "ucast (digit_char (of_nat d)) = (of_nat (if d < 10 then d + 48 else d + 87) :: u32)"
proof -
  have "ucast (digit_char (of_nat d)) = (of_nat (unat (digit_char (of_nat d))) :: u32)"
    by simp
  then show ?thesis by (simp only: digit_char_unat [OF assms])
qed

lemma digit_char_dec_range: "d < 10 \<Longrightarrow> 48 \<le> digit_char (of_nat d) \<and> digit_char (of_nat d) \<le> 57"
  using digit_char_unat [of d] by (simp add: word_le_nat_alt)

lemma digit_char_hex_range: "10 \<le> d \<Longrightarrow> d < 16 \<Longrightarrow>
   97 \<le> digit_char (of_nat d) \<and> digit_char (of_nat d) \<le> 102 \<and> \<not> digit_char (of_nat d) \<le> 57"
  using digit_char_unat [of d] by (simp add: word_le_nat_alt)

lemma atoi_loop_digit:
  "d < 10 \<Longrightarrow> atoi_loop (digit_char (of_nat d) # r) acc = atoi_loop r (acc * 10 + of_nat d)"
  using digit_char_dec_range [of d] by (simp add: ucast_digit_char)

lemma htoi_loop_digit:
  "d < 16 \<Longrightarrow> htoi_loop (digit_char (of_nat d) # r) acc = htoi_loop r (acc * 16 + of_nat d)"
  using digit_char_dec_range [of d] digit_char_hex_range [of d]
  by (cases "d < 10") (simp_all add: ucast_digit_char is_hex_char_def)

lemma num_str_fold:
  assumes b: "2 \<le> b"
    and step: "\<And>d r acc. d < b \<Longrightarrow> f (digit_char (of_nat d) # r) acc = f r (acc * of_nat b + of_nat d)"
  shows "f (num_str b m @ r) (acc :: u32) = f r (acc * of_nat b ^ length (num_str b m) + of_nat m)"
proof (induction m arbitrary: r acc rule: less_induct)
  case (less m)
  show ?case
  proof (cases "m < b")
    case True
    then show ?thesis by (simp add: num_str_last step)
  next
    case False
    then have lt: "m div b < m" using b by simp
    have m: "of_nat m = (of_nat (m div b) * of_nat b + of_nat (m mod b) :: u32)"
      by (metis div_mult_mod_eq of_nat_add of_nat_mult)
    have "f (num_str b m @ r) acc = f (num_str b (m div b) @ digit_char (of_nat (m mod b)) # r) acc"
      using False b by (simp add: num_str_step)
    also have "\<dots> = f (digit_char (of_nat (m mod b)) # r)
        (acc * of_nat b ^ length (num_str b (m div b)) + of_nat (m div b))"
      by (rule less [OF lt])
    also have "\<dots> = f r (acc * of_nat b ^ length (num_str b m) + of_nat m)"
      using False b by (simp add: step num_str_step m algebra_simps)
    finally show ?thesis .
  qed
qed

lemma atoi_num_str: "c < 48 \<or> 57 < c \<Longrightarrow> atoi (num_str 10 m @ c # r) = Some (of_nat m)"
  using num_str_fold [of 10 atoi_loop m "c # r" 0] atoi_loop_digit
  by (auto simp: atoi_def)

lemma htoi_num_str: "\<not> is_hex_char c \<Longrightarrow> htoi (num_str 16 m @ c # r) = Some (of_nat m)"
  using num_str_fold [of 16 htoi_loop m "c # r" 0] htoi_loop_digit
  by (auto simp: htoi_def)

lemma num_str_length: "n < b ^ k \<Longrightarrow> 2 \<le> b \<Longrightarrow> 0 < k \<Longrightarrow> length (num_str b n) \<le> k"
proof (induction k arbitrary: n)
  case (Suc k)
  show ?case
  proof (cases "n < b")
    case True then show ?thesis by (simp add: num_str_last)
  next
    case False
    with Suc.prems have "0 < k" by (cases k) auto
    moreover have "n div b < b ^ k" using Suc.prems by (simp add: less_mult_imp_div_less mult.commute)
    ultimately show ?thesis using Suc.IH [of "n div b"] Suc.prems False by (simp add: num_str_step)
  qed
qed simp

section \<open>Facts about searching\<close>

text \<open>The control map of \<^verbatim>\<open>strpbrk\<close> read as a set of bytes.\<close>

definition in_map :: "u8 list \<Rightarrow> u8 \<Rightarrow> bool" where
  "in_map m c \<longleftrightarrow> bit (m ! unat (drop_bit 3 c)) (unat (c AND 7))"

lemma map_index: "unat (drop_bit 3 (c :: u8)) < 32"
proof -
  have "unat c < 2 ^ LENGTH(8)" by (rule unsigned_less)
  then show ?thesis by (simp add: drop_bit_eq_div unat_div)
qed

lemma and_exp_bit: "(w :: u8) AND 2 ^ k \<noteq> 0 \<longleftrightarrow> bit w k"
  by (metis and.commute and_exp_eq_0_iff_not_bit)

lemma map_key_inj:
  assumes "unat (drop_bit 3 c) = unat (drop_bit 3 (d :: u8))" "unat (c AND 7) = unat (d AND 7)"
  shows "c = d"
proof -
  from assms have a: "drop_bit 3 c = drop_bit 3 d" and b: "c AND 7 = d AND 7"
    by (simp_all add: word_unat_eq_iff)
  have "take_bit 3 c = take_bit 3 d" using b by (simp add: take_bit_eq_mask mask_eq_exp_minus_1)
  with a show "c = d" by (metis bits_ident)
qed

lemma in_map_upd:
  assumes "length m = 32"
  shows "in_map (m[unat (drop_bit 3 c) := m ! unat (drop_bit 3 c) OR 2 ^ unat (c AND 7)]) d
     \<longleftrightarrow> in_map m d \<or> c = d"
proof -
  have "c AND 7 \<le> 7" by (rule word_and_le1)
  then have "unat (c AND 7) < 8" by (simp add: word_le_nat_alt)
  then show ?thesis
    using map_index [of c] map_index [of d] assms map_key_inj [of c d]
    by (auto simp: in_map_def nth_list_update bit_or_iff bit_exp_iff)
qed

lemma strpbrk_map_spec:
  "no_nul ds \<Longrightarrow> length m = 32 \<Longrightarrow> \<exists>m'. strpbrk_map (ds @ 0 # r) m = Some m' \<and>
     (\<forall>c. in_map m' c \<longleftrightarrow> in_map m c \<or> c \<in> set ds)"
proof (induction ds arbitrary: m)
  case (Cons d ds)
  let ?m = "m[unat (drop_bit 3 d) := m ! unat (drop_bit 3 d) OR 2 ^ unat (d AND 7)]"
  obtain m' where "strpbrk_map (ds @ 0 # r) ?m = Some m'"
    "\<forall>c. in_map m' c \<longleftrightarrow> in_map ?m c \<or> c \<in> set ds"
    using Cons.IH [of ?m] Cons.prems by auto
  then show ?case using Cons.prems in_map_upd [of m d] by auto
qed simp

text \<open>The reference: the first position of \<open>cs\<close> that holds a member of \<open>D\<close>.\<close>

definition first_in :: "u8 set \<Rightarrow> u8 list \<Rightarrow> nat option" where
  "first_in D cs = (if set cs \<inter> D = {} then None else Some (length (takeWhile (\<lambda>c. c \<notin> D) cs)))"

lemma strpbrk_scan_spec:
  "no_nul cs \<Longrightarrow> (\<forall>c. in_map m c \<longleftrightarrow> c \<in> D) \<Longrightarrow>
   strpbrk_scan m (cs @ 0 # r) i = Some (map_option (\<lambda>k. i + k) (first_in D cs))"
  by (induction cs arbitrary: i) (auto simp: first_in_def and_exp_bit in_map_def [symmetric])

lemma strpbrk_spec:
  assumes "no_nul cs" and "no_nul ds"
  shows "strpbrk (cs @ 0 # r) (ds @ 0 # q) = Some (first_in (set ds) cs)"
proof -
  obtain m where "strpbrk_map (ds @ 0 # q) (replicate 32 0) = Some m"
    "\<forall>c. in_map m c \<longleftrightarrow> c \<in> set ds"
    using strpbrk_map_spec [of ds "replicate 32 0" q] assms
    by (auto simp: in_map_def map_index)
  then show ?thesis
    using assms strpbrk_scan_spec [of cs m "set ds" r 0]
    by (simp add: strpbrk_def option.map_ident)
qed

lemma in_accept_spec: "no_nul ds \<Longrightarrow> in_accept c (ds @ 0 # q) = Some (c \<in> set ds)"
  by (induction ds) auto

lemma strspn_spec:
  "no_nul cs \<Longrightarrow> no_nul ds \<Longrightarrow> strspn (cs @ 0 # r) (ds @ 0 # q) =
     Some (length (takeWhile (\<lambda>c. c \<in> set ds) cs))"
  by (induction cs) (auto simp: in_accept_spec)

lemma strchr_loop_spec: "no_nul cs \<Longrightarrow> strchr_loop (cs @ 0 # r) c i =
   Some (map_option (\<lambda>k. i + k) (first_in {c} cs))"
  by (induction cs arbitrary: i) (auto simp: first_in_def)

lemma strrchr_loop_notin: "no_nul cs \<Longrightarrow> c \<notin> set cs \<Longrightarrow> strrchr_loop (cs @ 0 # r) c i p = Some p"
  by (induction cs arbitrary: i) auto

lemma strrchr_loop_last:
  "no_nul as \<Longrightarrow> no_nul bs \<Longrightarrow> c \<noteq> 0 \<Longrightarrow> c \<notin> set bs \<Longrightarrow>
   strrchr_loop (as @ c # bs @ 0 # r) c i p = Some (i + length as)"
  by (induction as arbitrary: i p) (auto simp: strrchr_loop_notin)

section \<open>Defects of the library\<close>

text \<open>
  The last token of a string leaves a null pointer in \<^verbatim>\<open>last\<close>, because \<^verbatim>\<open>strchr\<close> of this
  library never finds the terminating zero; the next call with a null argument follows it.
\<close>

lemma strtok_last:
  assumes "no_nul (skip @ tok)" and "no_nul ds"
    and "set skip \<subseteq> set ds" and "tok \<noteq> []" and "set tok \<inter> set ds = {}"
  shows "strtok (pre @ skip @ tok @ 0 # r) (Some (length pre)) (ds @ 0 # q) saved =
     Some (Some (length pre + length skip), pre @ skip @ tok @ 0 # r, None)"
proof -
  obtain t ts where tok: "tok = t # ts" using assms(4) by (cases tok) auto
  have t: "t \<notin> set ds" using assms(5) tok by auto
  have "takeWhile (\<lambda>c. c \<in> set ds) (skip @ tok) = skip"
    using assms(3) t by (simp add: tok takeWhile_append2 subset_iff)
  then have spn: "strspn (skip @ tok @ 0 # r) (ds @ 0 # q) = Some (length skip)"
    using strspn_spec [of "skip @ tok" ds r q] assms(1,2) by simp
  have brk: "strpbrk (tok @ 0 # r) (ds @ 0 # q) = Some None"
    using strpbrk_spec [of tok ds r q] assms(1,2,5) by (simp add: first_in_def)
  have "first_in {0} tok = None"
    using assms(1) by (auto simp: first_in_def no_nul_def)
  then have chr: "strchr_loop (tok @ 0 # r) 0 0 = Some None"
    using strchr_loop_spec [of tok r 0 0] assms(1) by simp
  show ?thesis
    using assms(1) spn brk chr
    by (simp add: strtok_def myStrtok_origin_def strchr_def tok Let_def nth_append)
qed

lemma strtok_null: "strtok buf None ds None = None"
  by (simp add: strtok_def myStrtok_origin_def)

lemma strtok_exhausted:
  assumes "no_nul (skip @ tok)" and "no_nul ds"
    and "set skip \<subseteq> set ds" and "tok \<noteq> []" and "set tok \<inter> set ds = {}"
  shows "Option.bind (strtok (pre @ skip @ tok @ 0 # r) (Some (length pre)) (ds @ 0 # q) saved)
           (\<lambda>(p, buf, saved'). strtok buf None (ds @ 0 # q) saved') = None"
  using assms by (simp add: strtok_last strtok_null)

text \<open>\<^verbatim>\<open>atoh\<close> gives the letters the values 0 to 5, \<^verbatim>\<open>htoi\<close> the values 10 to 15.\<close>

lemma atoh_letter:
  assumes "97 \<le> c" and "c \<le> 102"
  shows "atoh [c, 0] = Some (ucast c - 97)" and "htoi [c, 0] = Some (ucast c - 97 + 10)"
proof -
  have "\<not> c \<le> 57" using assms by (auto simp: word_le_nat_alt)
  then show "atoh [c, 0] = Some (ucast c - 97)" and "htoi [c, 0] = Some (ucast c - 97 + 10)"
    using assms by (simp_all add: atoh_def htoi_def is_hex_char_def)
qed

section \<open>Properties\<close>

text \<open>
  Claim C16. \<^verbatim>\<open>strtok\<close> skips the leading delimiters, returns the start of the maximal run of
  non-delimiter bytes, overwrites the delimiter after it with a zero byte, leaves every other byte
  of the buffer as it was, and remembers the position after that delimiter; it does so both for the
  first call and for the calls that continue with a null argument.
\<close>

theorem strtok_cut:
  assumes "no_nul (skip @ tok @ d # more)" and "no_nul ds"
    and "set skip \<subseteq> set ds" and "tok \<noteq> []" and "set tok \<inter> set ds = {}" and "d \<in> set ds"
    and "start = Some (length pre) \<or> start = None \<and> saved = Some (length pre)"
  shows "strtok (pre @ skip @ tok @ d # more @ 0 # r) start (ds @ 0 # q) saved =
     Some (Some (length pre + length skip), pre @ skip @ tok @ 0 # more @ 0 # r,
           Some (length pre + length skip + length tok + 1))"
proof -
  obtain t ts where tok: "tok = t # ts" using assms(4) by (cases tok) auto
  have t: "t \<notin> set ds" using assms(5) tok by auto
  have start: "(if start = None then saved else start) = Some (length pre)"
    using assms(7) by auto
  have "strspn ((skip @ tok @ d # more) @ 0 # r) (ds @ 0 # q) =
     Some (length (takeWhile (\<lambda>c. c \<in> set ds) (skip @ tok @ d # more)))"
    using assms by (intro strspn_spec) auto
  also have "takeWhile (\<lambda>c. c \<in> set ds) (skip @ tok @ d # more) = skip"
    using assms(3) t by (simp add: tok takeWhile_append2 subset_iff)
  finally have spn: "strspn (skip @ tok @ d # more @ 0 # r) (ds @ 0 # q) = Some (length skip)"
    by simp
  have "strpbrk ((tok @ d # more) @ 0 # r) (ds @ 0 # q) = Some (first_in (set ds) (tok @ d # more))"
    using assms by (intro strpbrk_spec) auto
  also have "first_in (set ds) (tok @ d # more) = Some (length tok)"
    using assms(5,6) by (auto simp: first_in_def takeWhile_append disjoint_iff)
  finally have brk: "strpbrk (tok @ d # more @ 0 # r) (ds @ 0 # q) = Some (Some (length tok))"
    by simp
  show ?thesis
    using assms(1) spn brk
    by (simp add: strtok_def myStrtok_origin_def start tok Let_def nth_append list_update_append)
qed

theorem strtok_cut_witness:
  "strtok [32, 108, 115, 32, 97, 0] (Some 0) [32, 0] None =
     Some (Some 1, [32, 108, 115, 0, 97, 0], Some 4)"
  using strtok_cut [of "[32]" "[108, 115]" 32 "[97]" "[32]" "Some 0" "[]" None "[]" "[]"] by simp

text \<open>
  Claim C17. Printing a 32-bit number in decimal or in hexadecimal and reading the text back gives
  the number, for every number and every buffer of at least 11 (decimal) or 9 (hexadecimal) bytes:
  \<^verbatim>\<open>atoi\<close> inverts \<^verbatim>\<open>itoa\<close> and \<^verbatim>\<open>htoi\<close> inverts \<^verbatim>\<open>itohex\<close>.
\<close>

theorem number_text_roundtrip:
  assumes "11 \<le> length s" and "9 \<le> length t"
  shows "Option.bind (itoa n s) atoi = Some n \<and> Option.bind (itohex n t) htoi = Some n"
proof -
  have n: "unat n < 2 ^ 32" using unsigned_less [of n] by simp
  have "length (num_str 10 (unat n)) \<le> 10" and "length (num_str 16 (unat n)) \<le> 8"
    using n by (auto intro!: num_str_length)
  then show ?thesis
    using assms by (simp add: itoa_spec atoi_num_str itohex_spec htoi_num_str is_hex_char_def)
qed

theorem number_text_roundtrip_witness:
  "Option.bind (itoa 4294967295 (replicate 11 7)) atoi = Some 4294967295 \<and>
   Option.bind (itohex 4294967295 (replicate 9 7)) htoi = Some 4294967295"
  using number_text_roundtrip [of "replicate 11 7" "replicate 9 7" 4294967295] by simp

text \<open>
  The table-driven \<^verbatim>\<open>strpbrk\<close>, which sets one bit of a 32-byte map for every byte of
  the control string, returns the first position of the string that holds a byte of the control
  string, and the null pointer exactly when there is none.
\<close>

theorem strpbrk_first:
  assumes "no_nul cs" and "no_nul ds"
  shows "strpbrk (cs @ 0 # r) (ds @ 0 # q) = Some (first_in (set ds) cs)"
  using assms by (rule strpbrk_spec)

theorem strpbrk_first_witness:
  "strpbrk [97, 98, 47, 0] [46, 47, 0] = Some (first_in {46, 47} [97, 98, 47])"
  using strpbrk_first [of "[97, 98, 47]" "[46, 47]" "[]" "[]"] by simp

end
