(* ===== verification/Mailbox.thy ===== *)
theory Mailbox
  imports Process CString
begin

text \<open>
  Mailboxes, \<^verbatim>\<open>libs/mailbox.c\<close>: a table of mailboxes, opened by name, and sending and receiving with a
  mutex and two semaphores of the kernel.

  \<^verbatim>\<open>mbox_send\<close> and \<^verbatim>\<open>mbox_recv\<close> run in user programs: between two of their statements the timer may
  switch to another task, and their calls of the kernel may block. So the model keeps for each task
  the statement it has reached (\<open>mbox_at\<close>), one step is one statement of the running task, and
  a run of the system (\<open>mbox_run\<close>) interleaves the steps of all tasks with timer interrupts and
  calls on other objects in every possible way. A step that takes a message in or out of the array
  is an event.

  The locale \<open>sync_kernel\<close> is what the mailbox needs of the kernel: the effect of the calls on
  counters, waiting tasks and mutexes. It is interpreted on the kernel of \<open>Locking\<close> and
  \<open>Process\<close>, and the events of a run are shown to be those of a bounded stack.
\<close>

section \<open>The table of mailboxes\<close>

text \<open>The mutex and the semaphores of mailbox \<open>i\<close> are \<open>MboxLock i\<close>, \<open>MboxSend i\<close> and \<open>MboxRecv i\<close> of the kernel.\<close>

record mailbox_t =
  mbox_name :: "u8 list"
  mbox_count :: int
  mbox_ptr :: int
  mbox_msg :: "u8 list list"

abbreviation (input) "MAX_MBOX_LENGTH \<equiv> 32 :: nat"
abbreviation (input) "MAX_NUM_BOX \<equiv> 32 :: nat"

text \<open>Where a task is in \<^verbatim>\<open>mbox_send\<close> or \<^verbatim>\<open>mbox_recv\<close>: the statement it executes next.\<close>

datatype mbox_at = Outside
  | SendAcquire "u8 list" | SendPtr "u8 list" | SendCopy "u8 list" | SendRelease | SendUp
  | RecvAcquire nat | RecvCopy nat | RecvPtr | RecvRelease | RecvUp

record mbox_sys =
  kern :: kernel
  mboxs :: "mailbox_t list"
  code :: "pcb_id \<Rightarrow> mbox_at"

definition upd_box :: "nat \<Rightarrow> (mailbox_t \<Rightarrow> mailbox_t) \<Rightarrow> mbox_sys \<Rightarrow> mbox_sys" where
  "upd_box b f \<sigma> = \<sigma>\<lparr>mboxs := (mboxs \<sigma>)[b := f (mboxs \<sigma> ! b)]\<rparr>"

definition init_box :: "nat \<Rightarrow> mbox_sys \<Rightarrow> mbox_sys option" where
  "init_box i \<sigma> = do {
     name \<leftarrow> store (mbox_name (mboxs \<sigma> ! i)) 0 0;
     let \<sigma> = upd_box i (\<lambda>x. x\<lparr>mbox_name := name, mbox_count := 0\<rparr>) \<sigma>;
     Some (\<sigma>\<lparr>kern := do_mutex_lock_init (MboxLock i) (kern \<sigma>)\<rparr>)
   }"

definition mbox_init :: "mbox_sys \<Rightarrow> mbox_sys option" where
  "mbox_init \<sigma> = for_range 0 MAX_NUM_BOX init_box \<sigma>"

fun find_open :: "u8 list \<Rightarrow> mailbox_t list \<Rightarrow> nat \<Rightarrow> nat option option" where
  "find_open name [] i = Some None"
| "find_open name (x # xs) i = do {
     c \<leftarrow> strcmp name (mbox_name x);
     if c = 0 \<and> 0 < mbox_count x then Some (Some i) else find_open name xs (i + 1)
   }"

text \<open>When every mailbox is in use under another name, the function ends without a result.\<close>

definition mbox_open :: "u8 list \<Rightarrow> mbox_sys \<Rightarrow> (nat \<times> mbox_sys) option" where
  "mbox_open name \<sigma> = do {
     found \<leftarrow> find_open name (mboxs \<sigma>) 0;
     case found of
       Some i \<Rightarrow> Some (i, upd_box i (\<lambda>x. x\<lparr>mbox_count := mbox_count x + 1\<rparr>) \<sigma>)
     | None \<Rightarrow> (case scan_up (\<lambda>i. mbox_count (mboxs \<sigma> ! i) = 0) MAX_NUM_BOX 0 of
         None \<Rightarrow> None
       | Some i \<Rightarrow> do {
           let s = do_mutex_lock_init (MboxLock i) (kern \<sigma>);
           len \<leftarrow> strlen name;
           new_name \<leftarrow> memcpy (mbox_name (mboxs \<sigma> ! i)) name (len + 1);
           let s = do_semaphore_init (MboxSend i) (of_nat MAX_MBOX_LENGTH) s;
           let s = do_semaphore_init (MboxRecv i) 0 s;
           Some (i, upd_box i (\<lambda>x. x\<lparr>mbox_name := new_name, mbox_count := mbox_count x + 1, mbox_ptr := 0\<rparr>)
             (\<sigma>\<lparr>kern := s\<rparr>))
         })
   }"

definition mbox_close :: "nat \<Rightarrow> mbox_sys \<Rightarrow> mbox_sys" where
  "mbox_close b \<sigma> = upd_box b (\<lambda>x. x\<lparr>mbox_count := mbox_count x - 1\<rparr>) \<sigma>"

section \<open>Sending and receiving\<close>

text \<open>A message is copied into the array, or out of it.\<close>

datatype mbox_event = Put "u8 list" | Got "u8 list"

text \<open>The running task goes on at \<open>c\<close> when its call of the kernel, which ends in \<open>r\<close>, has returned.\<close>

definition go_on :: "mbox_at \<Rightarrow> mbox_sys \<Rightarrow> kernel option \<Rightarrow> (mbox_event list \<times> mbox_sys) option" where
  "go_on c \<sigma> r = do { s \<leftarrow> r; Some ([], \<sigma>\<lparr>kern := s, code := (code \<sigma>)(current_running (kern \<sigma>) := c)\<rparr>) }"

definition mbox_send :: "nat \<Rightarrow> u8 list \<Rightarrow> mbox_sys \<Rightarrow> (mbox_event list \<times> mbox_sys) option" where
  "mbox_send b m \<sigma> = go_on (SendAcquire m) \<sigma> (do_semaphore_down (MboxSend b) (kern \<sigma>))"

definition mbox_recv :: "nat \<Rightarrow> nat \<Rightarrow> mbox_sys \<Rightarrow> (mbox_event list \<times> mbox_sys) option" where
  "mbox_recv b n \<sigma> = go_on (RecvAcquire n) \<sigma> (do_semaphore_down (MboxRecv b) (kern \<sigma>))"

text \<open>\<^verbatim>\<open>ptr\<close> is never negative, so that \<^verbatim>\<open>%\<close> is \<open>mod\<close>.\<close>

definition put_msg :: "u8 list \<Rightarrow> mailbox_t \<Rightarrow> mailbox_t option" where
  "put_msg m x = do {
     old \<leftarrow> load (mbox_msg x) (nat (mbox_ptr x));
     new \<leftarrow> memcpy old m (length m);
     Some (x\<lparr>mbox_msg := (mbox_msg x)[nat (mbox_ptr x) := new]\<rparr>)
   }"

definition get_msg :: "nat \<Rightarrow> mailbox_t \<Rightarrow> u8 list option" where
  "get_msg n x = do { v \<leftarrow> load (mbox_msg x) (nat (mbox_ptr x)); memcpy (replicate n 0) v n }"

fun mbox_code :: "nat \<Rightarrow> mbox_at \<Rightarrow> mbox_sys \<Rightarrow> (mbox_event list \<times> mbox_sys) option" where
  "mbox_code b Outside \<sigma> = Some ([], \<sigma>)"
| "mbox_code b (SendAcquire m) \<sigma> = go_on (SendPtr m) \<sigma> (do_mutex_lock_acquire (MboxLock b) (kern \<sigma>))"
| "mbox_code b (SendPtr m) \<sigma> =
     go_on (SendCopy m) (upd_box b (\<lambda>x. x\<lparr>mbox_ptr := (mbox_ptr x + 1) mod int MAX_MBOX_LENGTH\<rparr>) \<sigma>) (Some (kern \<sigma>))"
| "mbox_code b (SendCopy m) \<sigma> = do {
     x \<leftarrow> put_msg m (mboxs \<sigma> ! b);
     (_, \<sigma>) \<leftarrow> go_on SendRelease (upd_box b (\<lambda>_. x) \<sigma>) (Some (kern \<sigma>));
     Some ([Put m], \<sigma>)
   }"
| "mbox_code b SendRelease \<sigma> = go_on SendUp \<sigma> (do_mutex_lock_release (MboxLock b) (kern \<sigma>))"
| "mbox_code b SendUp \<sigma> = go_on Outside \<sigma> (do_semaphore_up (MboxRecv b) (kern \<sigma>))"
| "mbox_code b (RecvAcquire n) \<sigma> = go_on (RecvCopy n) \<sigma> (do_mutex_lock_acquire (MboxLock b) (kern \<sigma>))"
| "mbox_code b (RecvCopy n) \<sigma> = do {
     m \<leftarrow> get_msg n (mboxs \<sigma> ! b);
     (_, \<sigma>) \<leftarrow> go_on RecvPtr \<sigma> (Some (kern \<sigma>));
     Some ([Got m], \<sigma>)
   }"
| "mbox_code b RecvPtr \<sigma> =
     go_on RecvRelease (upd_box b (\<lambda>x. x\<lparr>mbox_ptr := (mbox_ptr x + int MAX_MBOX_LENGTH - 1) mod int MAX_MBOX_LENGTH\<rparr>) \<sigma>)
       (Some (kern \<sigma>))"
| "mbox_code b RecvRelease \<sigma> = go_on RecvUp \<sigma> (do_mutex_lock_release (MboxLock b) (kern \<sigma>))"
| "mbox_code b RecvUp \<sigma> = go_on Outside \<sigma> (do_semaphore_up (MboxSend b) (kern \<sigma>))"

section \<open>Runs\<close>

text \<open>Calls of the kernel on objects other than those of the mailbox.\<close>

inductive other_call :: "nat \<Rightarrow> kernel \<Rightarrow> kernel \<Rightarrow> bool" for b :: nat where
  other_down: "m \<noteq> MboxSend b \<Longrightarrow> m \<noteq> MboxRecv b \<Longrightarrow> do_semaphore_down m s = Some s' \<Longrightarrow> other_call b s s'"
| other_up: "m \<noteq> MboxSend b \<Longrightarrow> m \<noteq> MboxRecv b \<Longrightarrow> do_semaphore_up m s = Some s' \<Longrightarrow> other_call b s s'"
| other_acquire: "l \<noteq> MboxLock b \<Longrightarrow> do_mutex_lock_acquire l s = Some s' \<Longrightarrow> other_call b s s'"
| other_release: "l \<noteq> MboxLock b \<Longrightarrow> do_mutex_lock_release l s = Some s' \<Longrightarrow> other_call b s s'"

inductive mbox_step :: "nat \<Rightarrow> mbox_sys \<Rightarrow> mbox_event list \<Rightarrow> mbox_sys \<Rightarrow> bool" for b :: nat where
  call_send: "in_user (kern \<sigma>) \<Longrightarrow> code \<sigma> (current_running (kern \<sigma>)) = Outside \<Longrightarrow>
    mbox_send b m \<sigma> = Some (es, \<sigma>') \<Longrightarrow> mbox_step b \<sigma> es \<sigma>'"
| call_recv: "in_user (kern \<sigma>) \<Longrightarrow> code \<sigma> (current_running (kern \<sigma>)) = Outside \<Longrightarrow>
    mbox_recv b n \<sigma> = Some (es, \<sigma>') \<Longrightarrow> mbox_step b \<sigma> es \<sigma>'"
| statement: "in_user (kern \<sigma>) \<Longrightarrow> mbox_code b (code \<sigma> (current_running (kern \<sigma>))) \<sigma> = Some (es, \<sigma>') \<Longrightarrow>
    mbox_step b \<sigma> es \<sigma>'"
| woken: "resume (kern \<sigma>) = Some s \<Longrightarrow> mbox_step b \<sigma> [] (\<sigma>\<lparr>kern := s\<rparr>)"
| timer: "irq_timer des0 (kern \<sigma>) = Some s \<Longrightarrow> mbox_step b \<sigma> [] (\<sigma>\<lparr>kern := s\<rparr>)"
| elsewhere: "in_user (kern \<sigma>) \<Longrightarrow> code \<sigma> (current_running (kern \<sigma>)) = Outside \<Longrightarrow>
    other_call b (kern \<sigma>) s \<Longrightarrow> mbox_step b \<sigma> [] (\<sigma>\<lparr>kern := s\<rparr>)"

inductive mbox_run :: "nat \<Rightarrow> mbox_sys \<Rightarrow> mbox_event list \<Rightarrow> mbox_sys \<Rightarrow> bool" for b :: nat and \<sigma>0 :: mbox_sys where
  run_start: "mbox_run b \<sigma>0 [] \<sigma>0"
| run_next: "mbox_run b \<sigma>0 es \<sigma> \<Longrightarrow> mbox_step b \<sigma> es' \<sigma>' \<Longrightarrow> mbox_run b \<sigma>0 (es @ es') \<sigma>'"

inductive_cases other_callE: "other_call b s s'"
inductive_cases mbox_stepE: "mbox_step b \<sigma> es \<sigma>'"

text \<open>
  A bounded stack of messages: the bytes taken out are those of the message on top, as far as both go.
\<close>

definition agree :: "u8 list \<Rightarrow> u8 list \<Rightarrow> bool" where
  "agree m x \<longleftrightarrow> take (length x) m = take (length m) x"

fun bounded_stack :: "u8 list list \<Rightarrow> mbox_event list \<Rightarrow> u8 list list option" where
  "bounded_stack st [] = Some st"
| "bounded_stack st (Put m # es) = (if length st < MAX_MBOX_LENGTH then bounded_stack (m # st) es else None)"
| "bounded_stack st (Got m # es) =
     (case st of [] \<Rightarrow> None | x # st' \<Rightarrow> if agree m x then bounded_stack st' es else None)"

section \<open>What the mailbox needs of the kernel\<close>

record sync =
  val :: "sem_id \<Rightarrow> u32"
  waits :: "sem_id \<Rightarrow> pcb_id set"
  held :: "mutex_id \<Rightarrow> bool"
  pend :: "pcb_id \<Rightarrow> mutex_id option"
  now :: pcb_id

definition switches :: "sync \<Rightarrow> sync \<Rightarrow> bool" where
  "switches a a' \<longleftrightarrow> (\<exists>t. a' = a\<lparr>now := t\<rparr> \<and> (\<forall>m. t \<notin> waits a m))"

definition downs :: "sem_id \<Rightarrow> sync \<Rightarrow> sync \<Rightarrow> bool" where
  "downs m a a' \<longleftrightarrow>
     (if val a m = 0 then switches (a\<lparr>waits := (waits a)(m := insert (now a) (waits a m))\<rparr>) a'
      else a' = a\<lparr>val := (val a)(m := val a m - 1)\<rparr>)"

definition ups :: "sem_id \<Rightarrow> sync \<Rightarrow> sync \<Rightarrow> bool" where
  "ups m a a' \<longleftrightarrow>
     (if waits a m = {} then a' = a\<lparr>val := (val a)(m := val a m + 1)\<rparr>
      else \<exists>t \<in> waits a m. a' = a\<lparr>waits := (waits a)(m := waits a m - {t})\<rparr>)"

definition acquires :: "mutex_id \<Rightarrow> sync \<Rightarrow> sync \<Rightarrow> bool" where
  "acquires l a a' \<longleftrightarrow>
     (if held a l then switches (a\<lparr>pend := (pend a)(now a := Some l)\<rparr>) a'
      else a' = a\<lparr>held := (held a)(l := True)\<rparr>)"

definition releases :: "mutex_id \<Rightarrow> sync \<Rightarrow> sync \<Rightarrow> bool" where
  "releases l a a' \<longleftrightarrow> a' = a\<lparr>held := (held a)(l := False)\<rparr>"

definition resumes :: "sync \<Rightarrow> sync \<Rightarrow> bool" where
  "resumes a a' \<longleftrightarrow>
     (case pend a (now a) of None \<Rightarrow> a' = a
      | Some l \<Rightarrow> acquires l (a\<lparr>pend := (pend a)(now a := None)\<rparr>) a')"

definition ticks :: "sync \<Rightarrow> sync \<Rightarrow> bool" where
  "ticks a a' \<longleftrightarrow> a' = a \<or> switches a a'"

section \<open>The invariant\<close>

text \<open>
  \<open>st\<close> is the stack of the messages in the mailbox. A send permit is in the semaphore, with a sender
  that has not stored its message yet, in the mailbox, or with a receiver that has not
  given it back; a receive permit for every message is in the semaphore, with a receiver that has
  not read, or with a sender that has stored its message and not told so yet.
\<close>

fun sending :: "mbox_at \<Rightarrow> bool" where
  "sending (SendAcquire m) = True" | "sending (SendPtr m) = True" | "sending (SendCopy m) = True" | "sending _ = False"

fun sent :: "mbox_at \<Rightarrow> bool" where
  "sent SendRelease = True" | "sent SendUp = True" | "sent _ = False"

fun receiving :: "mbox_at \<Rightarrow> bool" where
  "receiving (RecvAcquire n) = True" | "receiving (RecvCopy n) = True" | "receiving _ = False"

fun received :: "mbox_at \<Rightarrow> bool" where
  "received RecvPtr = True" | "received RecvRelease = True" | "received RecvUp = True" | "received _ = False"

fun wants_lock :: "mbox_at \<Rightarrow> bool" where
  "wants_lock (SendPtr m) = True" | "wants_lock (RecvCopy n) = True" | "wants_lock _ = False"

fun moving :: "mbox_at \<Rightarrow> bool" where
  "moving (SendCopy m) = True" | "moving RecvPtr = True" | "moving _ = False"

definition critical :: "mbox_at \<Rightarrow> bool" where
  "critical c \<longleftrightarrow> wants_lock c \<or> moving c \<or> c = SendRelease \<or> c = RecvRelease"

definition number :: "(mbox_at \<Rightarrow> bool) \<Rightarrow> (pcb_id \<Rightarrow> mbox_at) \<Rightarrow> pcb_id set \<Rightarrow> nat" where
  "number P pos W = card {p. P (pos p) \<and> p \<notin> W}"

text \<open>Finitely many tasks are in the code, and some task is between its move of \<^verbatim>\<open>ptr\<close> and its copy.\<close>

definition few :: "(pcb_id \<Rightarrow> mbox_at) \<Rightarrow> bool" where
  "few pos \<longleftrightarrow> finite {p. pos p \<noteq> Outside}"

definition moved :: "(pcb_id \<Rightarrow> mbox_at) \<Rightarrow> bool" where
  "moved pos \<longleftrightarrow> (\<exists>p. moving (pos p))"

definition places_ok :: "pcb_id set \<Rightarrow> pcb_id set \<Rightarrow> (pcb_id \<Rightarrow> mbox_at) \<Rightarrow> bool" where
  "places_ok WS WR pos \<longleftrightarrow> few pos \<and>
     (\<forall>p \<in> WS. \<exists>m. pos p = SendAcquire m) \<and> (\<forall>p \<in> WR. \<exists>n. pos p = RecvAcquire n)"

definition pend_ok :: "mutex_id \<Rightarrow> (pcb_id \<Rightarrow> mutex_id option) \<Rightarrow> (pcb_id \<Rightarrow> mbox_at) \<Rightarrow> bool" where
  "pend_ok l pd pos \<longleftrightarrow>
     (\<forall>p. pd p = Some l \<longrightarrow> wants_lock (pos p)) \<and> (\<forall>p. pos p \<noteq> Outside \<and> pd p \<noteq> None \<longrightarrow> pd p = Some l)"

definition in_cs :: "(pcb_id \<Rightarrow> mutex_id option) \<Rightarrow> (pcb_id \<Rightarrow> mbox_at) \<Rightarrow> pcb_id \<Rightarrow> bool" where
  "in_cs pd pos p \<longleftrightarrow> critical (pos p) \<and> pd p = None"

definition lock_ok :: "bool \<Rightarrow> (pcb_id \<Rightarrow> mutex_id option) \<Rightarrow> (pcb_id \<Rightarrow> mbox_at) \<Rightarrow> bool" where
  "lock_ok h pd pos \<longleftrightarrow>
     (\<forall>p. in_cs pd pos p \<longrightarrow> h) \<and> (\<forall>p q. in_cs pd pos p \<longrightarrow> in_cs pd pos q \<longrightarrow> p = q)"

definition permits_ok :: "u32 \<Rightarrow> u32 \<Rightarrow> pcb_id set \<Rightarrow> pcb_id set \<Rightarrow> (pcb_id \<Rightarrow> mbox_at) \<Rightarrow> nat \<Rightarrow> bool" where
  "permits_ok vs vr WS WR pos k \<longleftrightarrow>
     unat vs + number sending pos WS + k + number received pos {} = 32 \<and>
     unat vr + number receiving pos WR + number sent pos {} = k"

definition box_ok :: "bool \<Rightarrow> mailbox_t \<Rightarrow> u8 list list \<Rightarrow> bool" where
  "box_ok mv x st \<longleftrightarrow> length (mbox_msg x) = 32 \<and> (\<forall>v \<in> set (mbox_msg x). length v = 32) \<and>
     mbox_ptr x = int ((length st + (if mv then 1 else 0)) mod 32) \<and>
     (\<forall>i < length st. take (length (rev st ! i)) (mbox_msg x ! ((i + 1) mod 32)) = rev st ! i)"

definition mbox_core :: "nat \<Rightarrow> sync \<Rightarrow> (pcb_id \<Rightarrow> mbox_at) \<Rightarrow> mailbox_t \<Rightarrow> u8 list list \<Rightarrow> bool" where
  "mbox_core b a pos x st \<longleftrightarrow>
     places_ok (waits a (MboxSend b)) (waits a (MboxRecv b)) pos \<and> pend_ok (MboxLock b) (pend a) pos \<and>
     lock_ok (held a (MboxLock b)) (pend a) pos \<and>
     permits_ok (val a (MboxSend b)) (val a (MboxRecv b)) (waits a (MboxSend b)) (waits a (MboxRecv b)) pos (length st) \<and>
     box_ok (moved pos) x st"

definition mbox_inv :: "nat \<Rightarrow> sync \<Rightarrow> (pcb_id \<Rightarrow> mbox_at) \<Rightarrow> mailbox_t \<Rightarrow> u8 list list \<Rightarrow> bool" where
  "mbox_inv b a pos x st \<longleftrightarrow> mbox_core b a pos x st \<and> (\<forall>m. now a \<notin> waits a m)"

section \<open>Counting the tasks in the code\<close>

lemma few_code [simp]: "few (pos(q := c)) = few pos"
proof -
  have "{p. (pos(q := c)) p \<noteq> Outside} \<subseteq> insert q {p. pos p \<noteq> Outside}"
    and "{p. pos p \<noteq> Outside} \<subseteq> insert q {p. (pos(q := c)) p \<noteq> Outside}" by auto
  then show ?thesis unfolding few_def using finite_subset finite_insert by metis
qed

lemma number_split:
  assumes "few pos" and "\<not> P Outside" and "p \<notin> W"
  shows "number P pos W = number P pos (insert p W) + (if P (pos p) then 1 else 0)"
proof -
  let ?S = "{q. P (pos q) \<and> q \<notin> W}"
  have "?S \<subseteq> {p. pos p \<noteq> Outside}" using assms(2) by auto
  then have f: "finite ?S" using assms(1) finite_subset unfolding few_def by blast
  have "{q. P (pos q) \<and> q \<notin> insert p W} = ?S - {p}" by auto
  then show ?thesis
    using card_Suc_Diff1 [OF f, of p] assms(3) by (auto simp: number_def)
qed

lemma number_code [simp]: "p \<in> W \<Longrightarrow> number P (pos(p := c)) W = number P pos W"
  by (auto simp: number_def intro!: arg_cong [where f = card])

lemma number_move:
  assumes "few pos" and "\<not> P Outside" and "p \<notin> W"
  shows "number P (pos(p := c)) W + (if P (pos p) then 1 else 0) = number P pos W + (if P c then 1 else 0)"
proof -
  have "number P (pos(p := c)) W = number P pos (insert p W) + (if P c then 1 else 0)"
    using number_split [of "pos(p := c)" P p W] assms by simp
  then show ?thesis using number_split [of pos P p W] assms by simp
qed

lemma number_wake:
  assumes "few pos" and "\<not> P Outside" and "t \<in> W" and "P (pos t)"
  shows "number P pos (W - {t}) = number P pos W + 1"
  using number_split [of pos P t "W - {t}"] assms by (simp add: insert_absorb)

text \<open>The four numbers of the invariant when one task, which does not wait, moves on.\<close>

lemma numbers_move:
  assumes "few pos" and "p \<notin> WS" and "p \<notin> WR"
  shows "number sending (pos(p := c)) WS + (if sending (pos p) then 1 else 0) = number sending pos WS + (if sending c then 1 else 0)"
    and "number received (pos(p := c)) {} + (if received (pos p) then 1 else 0) = number received pos {} + (if received c then 1 else 0)"
    and "number receiving (pos(p := c)) WR + (if receiving (pos p) then 1 else 0) = number receiving pos WR + (if receiving c then 1 else 0)"
    and "number sent (pos(p := c)) {} + (if sent (pos p) then 1 else 0) = number sent pos {} + (if sent c then 1 else 0)"
  by (rule number_move; simp add: assms)+

lemma permits_start:
  assumes P: "permits_ok vs vr WS WR pos k" and p: "few pos" "p \<notin> WS" "p \<notin> WR" "pos p = Outside"
  shows "vs \<noteq> 0 \<Longrightarrow> permits_ok (vs - 1) vr WS WR (pos(p := SendAcquire m)) k"
    and "vr \<noteq> 0 \<Longrightarrow> permits_ok vs (vr - 1) WS WR (pos(p := RecvAcquire n)) k"
    and "permits_ok vs vr (insert p WS) WR (pos(p := SendAcquire m)) k"
    and "permits_ok vs vr WS (insert p WR) (pos(p := RecvAcquire n)) k"
proof -
  note s = numbers_move [OF p(1-3), of "SendAcquire m"] and r = numbers_move [OF p(1-3), of "RecvAcquire n"]
  have ns: "number sending (pos(p := SendAcquire m)) (insert p WS) = number sending pos WS"
    "number receiving (pos(p := RecvAcquire n)) (insert p WR) = number receiving pos WR"
    using number_split [OF p(1), of sending p WS] number_split [OF p(1), of receiving p WR] p(2-4) by simp_all
  have dec: "unat v = Suc (unat (v - 1))" if "v \<noteq> 0" for v :: u32 using that by (simp add: unat_minus_one unat_gt_0)
  show "vs \<noteq> 0 \<Longrightarrow> permits_ok (vs - 1) vr WS WR (pos(p := SendAcquire m)) k"
    using dec [of vs] P s p(4) by (simp add: permits_ok_def)
  show "vr \<noteq> 0 \<Longrightarrow> permits_ok vs (vr - 1) WS WR (pos(p := RecvAcquire n)) k"
    using dec [of vr] P r p(4) by (simp add: permits_ok_def)
  show "permits_ok vs vr (insert p WS) WR (pos(p := SendAcquire m)) k"
    and "permits_ok vs vr WS (insert p WR) (pos(p := RecvAcquire n)) k"
    using P s(2-4) r(1,2,4) ns p(4) by (simp_all add: permits_ok_def)
qed

text \<open>A task that goes on without a message or a permit changing hands.\<close>

lemma permits_move:
  assumes "permits_ok vs vr WS WR pos k" and "few pos" "p \<notin> WS" "p \<notin> WR"
    and "sending c = sending (pos p)" "received c = received (pos p)" "receiving c = receiving (pos p)" "sent c = sent (pos p)"
  shows "permits_ok vs vr WS WR (pos(p := c)) k"
  using assms(1) numbers_move [OF assms(2-4), of c] by (simp add: permits_ok_def assms(5-8))

text \<open>A message goes in or out.\<close>

lemma permits_event:
  assumes P: "permits_ok vs vr WS WR pos k" and p: "few pos" "p \<notin> WS" "p \<notin> WR"
  shows "pos p = SendCopy m \<Longrightarrow> k < 32 \<and> permits_ok vs vr WS WR (pos(p := SendRelease)) (Suc k)"
    and "pos p = RecvCopy n \<Longrightarrow> 0 < k \<and> permits_ok vs vr WS WR (pos(p := RecvPtr)) (k - 1)"
proof -
  note s = numbers_move [OF p, of SendRelease] and r = numbers_move [OF p, of RecvPtr]
  show "k < 32 \<and> permits_ok vs vr WS WR (pos(p := SendRelease)) (Suc k)" if "pos p = SendCopy m"
  proof -
    have e: "Suc (number sending (pos(p := SendRelease)) WS) = number sending pos WS" using s(1) that by simp
    show ?thesis using P s(2-4) that by (simp add: permits_ok_def flip: e)
  qed
  show "0 < k \<and> permits_ok vs vr WS WR (pos(p := RecvPtr)) (k - 1)" if "pos p = RecvCopy n"
  proof -
    have e: "Suc (number receiving (pos(p := RecvPtr)) WR) = number receiving pos WR" using r(3) that by simp
    show ?thesis using P r(1,2,4) that by (auto simp: permits_ok_def simp flip: e)
  qed
qed

text \<open>The last call of a send or a receive: a waiting task gets the permit, or the semaphore.\<close>

lemma permits_end:
  assumes P: "permits_ok vs vr WS WR pos k" and p: "few pos" "p \<notin> WS" "p \<notin> WR"
  shows "pos p = SendUp \<Longrightarrow> permits_ok vs (vr + 1) WS WR (pos(p := Outside)) k"
    and "pos p = RecvUp \<Longrightarrow> permits_ok (vs + 1) vr WS WR (pos(p := Outside)) k"
    and "pos p = SendUp \<Longrightarrow> t \<in> WR \<Longrightarrow> pos t = RecvAcquire n \<Longrightarrow> permits_ok vs vr WS (WR - {t}) (pos(p := Outside)) k"
    and "pos p = RecvUp \<Longrightarrow> t \<in> WS \<Longrightarrow> pos t = SendAcquire m \<Longrightarrow> permits_ok vs vr (WS - {t}) WR (pos(p := Outside)) k"
proof -
  note o = numbers_move [OF p, of Outside]
  have inc: "unat (v + 1) = unat v + 1" if "unat v \<le> 32" for v :: u32
    using that by (subst unat_add_lem [THEN iffD1]) simp_all
  have "unat vs \<le> 32" "unat vr \<le> 32" using P by (simp_all add: permits_ok_def)
  then show "pos p = SendUp \<Longrightarrow> permits_ok vs (vr + 1) WS WR (pos(p := Outside)) k"
    and "pos p = RecvUp \<Longrightarrow> permits_ok (vs + 1) vr WS WR (pos(p := Outside)) k"
    using P o by (auto simp: permits_ok_def inc)
  show "permits_ok vs vr WS (WR - {t}) (pos(p := Outside)) k" if "pos p = SendUp" "t \<in> WR" "pos t = RecvAcquire n"
  proof -
    have "t \<noteq> p" using that(2) p(3) by auto
    then have "number receiving (pos(p := Outside)) (WR - {t}) = Suc (number receiving (pos(p := Outside)) WR)"
      using that p(1) by (simp add: number_wake)
    then show ?thesis using P o that(1) by (simp add: permits_ok_def)
  qed
  show "permits_ok vs vr (WS - {t}) WR (pos(p := Outside)) k" if "pos p = RecvUp" "t \<in> WS" "pos t = SendAcquire m"
  proof -
    have "t \<noteq> p" using that(2) p(2) by auto
    then have "number sending (pos(p := Outside)) (WS - {t}) = Suc (number sending (pos(p := Outside)) WS)"
      using that p(1) by (simp add: number_wake)
    then show ?thesis using P o that(1) by (simp add: permits_ok_def)
  qed
qed

section \<open>The parts of the invariant when a task moves on\<close>

lemma critical_simps [simp]:
  "critical (SendPtr m)" "critical (SendCopy m)" "critical SendRelease" "critical (RecvCopy n)" "critical RecvPtr"
  "critical RecvRelease" "\<not> critical Outside" "\<not> critical (SendAcquire m)" "\<not> critical SendUp"
  "\<not> critical (RecvAcquire n)" "\<not> critical RecvUp"
  by (simp_all add: critical_def)

lemma places_move: "places_ok WS WR pos \<Longrightarrow> p \<notin> WS \<Longrightarrow> p \<notin> WR \<Longrightarrow> places_ok WS WR (pos(p := c))"
  by (auto simp: places_ok_def)

lemma places_queue:
  "places_ok WS WR pos \<Longrightarrow> p \<notin> WR \<Longrightarrow> places_ok (insert p WS) WR (pos(p := SendAcquire m))"
  "places_ok WS WR pos \<Longrightarrow> p \<notin> WS \<Longrightarrow> places_ok WS (insert p WR) (pos(p := RecvAcquire n))"
  by (auto simp: places_ok_def)

lemma places_wake: "places_ok WS WR pos \<Longrightarrow> places_ok (WS - X) (WR - Y) pos"
  by (auto simp: places_ok_def)

lemma pend_move: "pend_ok l pd pos \<Longrightarrow> pd p = None \<Longrightarrow> pend_ok l pd (pos(p := c))"
  by (auto simp: pend_ok_def)

lemma pend_block: "pend_ok l pd pos \<Longrightarrow> wants_lock c \<Longrightarrow> pend_ok l (pd(p := Some l)) (pos(p := c))"
  by (auto simp: pend_ok_def)

lemma lock_leave: "lock_ok h pd pos \<Longrightarrow> \<not> critical c \<Longrightarrow> lock_ok h pd (pos(p := c))"
  by (auto simp: lock_ok_def in_cs_def)

lemma lock_stay: "lock_ok h pd pos \<Longrightarrow> in_cs pd pos p \<Longrightarrow> lock_ok h pd (pos(p := c))"
  by (auto simp: lock_ok_def in_cs_def)

lemma lock_block: "lock_ok h pd pos \<Longrightarrow> lock_ok h (pd(p := Some l)) (pos(p := c))"
  by (auto simp: lock_ok_def in_cs_def)

lemma lock_take: "lock_ok False pd pos \<Longrightarrow> lock_ok True (pd(p := None)) (pos(p := c))"
  by (auto simp: lock_ok_def in_cs_def)

lemma lock_release:
  assumes "lock_ok h pd pos" "in_cs pd pos p" "\<not> critical c"
  shows "lock_ok False pd (pos(p := c))"
proof -
  have "\<not> in_cs pd (pos(p := c)) q" for q
  proof (cases "q = p")
    case False
    then have "\<not> in_cs pd pos q" using assms(1,2) unfolding lock_ok_def by blast
    then show ?thesis using False by (simp add: in_cs_def)
  qed (simp add: in_cs_def assms(3))
  then show ?thesis by (simp add: lock_ok_def)
qed

lemma moved_other: "\<not> moving (pos p) \<Longrightarrow> \<not> moving c \<Longrightarrow> moved (pos(p := c)) = moved pos"
  by (auto simp: moved_def)

text \<open>In the critical section only the task itself can be moving.\<close>

lemma moved_inside:
  assumes "lock_ok h pd pos" "pend_ok l pd pos" "in_cs pd pos p"
  shows "moved pos = moving (pos p)" "moved (pos(p := c)) = moving c"
proof -
  have "q = p" if "moving (pos q)" for q
  proof -
    have "critical (pos q)" "\<not> wants_lock (pos q)" "pos q \<noteq> Outside" using that by (cases "pos q"; simp)+
    then have "in_cs pd pos q" using assms(2) by (auto simp: in_cs_def pend_ok_def)
    then show ?thesis using assms(1,3) by (auto simp: lock_ok_def)
  qed
  then show "moved pos = moving (pos p)" "moved (pos(p := c)) = moving c" by (auto simp: moved_def)
qed

section \<open>Every step keeps the invariant\<close>

lemma mbox_coreD:
  assumes "mbox_core b a pos x st"
  shows "places_ok (waits a (MboxSend b)) (waits a (MboxRecv b)) pos" and "pend_ok (MboxLock b) (pend a) pos"
    and "lock_ok (held a (MboxLock b)) (pend a) pos"
    and "permits_ok (val a (MboxSend b)) (val a (MboxRecv b)) (waits a (MboxSend b)) (waits a (MboxRecv b)) pos (length st)"
    and "box_ok (moved pos) x st" and "few pos"
  using assms by (simp_all add: mbox_core_def places_ok_def)

lemma mbox_invD: "mbox_inv b a pos x st \<Longrightarrow> mbox_core b a pos x st" "mbox_inv b a pos x st \<Longrightarrow> now a \<notin> waits a m"
  by (simp_all add: mbox_inv_def)

lemma switch_inv: "mbox_core b a pos x st \<Longrightarrow> switches a a' \<Longrightarrow> mbox_inv b a' pos x st"
  by (auto simp: switches_def mbox_inv_def mbox_core_def)

lemma tick_inv: "mbox_inv b a pos x st \<Longrightarrow> ticks a a' \<Longrightarrow> mbox_inv b a' pos x st"
  by (auto simp: ticks_def dest: mbox_invD(1) intro: switch_inv)

text \<open>The first call of a send or a receive.\<close>

lemma start_send_inv:
  assumes I: "mbox_inv b a pos x st" and p: "pos (now a) = Outside" "pend a (now a) = None" and d: "downs (MboxSend b) a a'"
  shows "mbox_inv b a' (pos(now a := SendAcquire m)) x st"
proof -
  note C = mbox_coreD [OF mbox_invD(1) [OF I]] and w = mbox_invD(2) [OF I]
  note parts = pend_move [where p = "now a", OF C(2) p(2)] lock_leave [OF C(3)] moved_other [of pos "now a"]
    permits_start [OF C(4,6) w w p(1)] places_queue(1) [OF C(1) w] places_move [OF C(1) w w]
  show ?thesis
  proof (cases "val a (MboxSend b) = 0")
    case True
    let ?a = "a\<lparr>waits := (waits a)(MboxSend b := insert (now a) (waits a (MboxSend b)))\<rparr>"
    have "mbox_core b ?a (pos(now a := SendAcquire m)) x st" using C(5) p parts by (simp add: mbox_core_def)
    then show ?thesis using switch_inv True d by (simp add: downs_def)
  next
    case False
    then show ?thesis using w d C(5) p parts by (simp add: mbox_inv_def mbox_core_def downs_def)
  qed
qed

lemma start_recv_inv:
  assumes I: "mbox_inv b a pos x st" and p: "pos (now a) = Outside" "pend a (now a) = None" and d: "downs (MboxRecv b) a a'"
  shows "mbox_inv b a' (pos(now a := RecvAcquire n)) x st"
proof -
  note C = mbox_coreD [OF mbox_invD(1) [OF I]] and w = mbox_invD(2) [OF I]
  note parts = pend_move [where p = "now a", OF C(2) p(2)] lock_leave [OF C(3)] moved_other [of pos "now a"]
    permits_start [OF C(4,6) w w p(1)] places_queue(2) [OF C(1) w] places_move [OF C(1) w w]
  show ?thesis
  proof (cases "val a (MboxRecv b) = 0")
    case True
    let ?a = "a\<lparr>waits := (waits a)(MboxRecv b := insert (now a) (waits a (MboxRecv b)))\<rparr>"
    have "mbox_core b ?a (pos(now a := RecvAcquire n)) x st" using C(5) p parts by (simp add: mbox_core_def)
    then show ?thesis using switch_inv True d by (simp add: downs_def)
  next
    case False
    then show ?thesis using w d C(5) p parts by (simp add: mbox_inv_def mbox_core_def downs_def)
  qed
qed

text \<open>Taking the mutex of the mailbox, or waiting for it.\<close>

lemma take_inv:
  assumes I: "mbox_core b a pos x st" and free: "\<not> held a (MboxLock b)" and w: "\<And>m. p \<notin> waits a m"
    and c: "wants_lock c" "sending c = sending (pos p)" "receiving c = receiving (pos p)" "pos p \<noteq> Outside"
    and o: "\<not> moving (pos p)" "\<not> received (pos p)" "\<not> sent (pos p)"
  shows "mbox_core b (a\<lparr>held := (held a)(MboxLock b := True), pend := (pend a)(p := None)\<rparr>) (pos(p := c)) x st"
proof -
  note C = mbox_coreD [OF I]
  have c': "\<not> received c" "\<not> sent c" "\<not> moving c" using c(1) by (cases c; simp)+
  have "pend_ok (MboxLock b) ((pend a)(p := None)) (pos(p := c))" using C(2) by (auto simp: pend_ok_def)
  then show ?thesis
    using C(1,4,5,6) c c' o w places_move permits_move lock_take [of "pend a" pos p c] C(3) free moved_other [of pos p c]
    by (simp add: mbox_core_def)
qed

lemma wait_inv:
  assumes I: "mbox_core b a pos x st" and w: "\<And>m. p \<notin> waits a m"
    and c: "wants_lock c" "sending c = sending (pos p)" "receiving c = receiving (pos p)"
    and o: "\<not> moving (pos p)" "\<not> received (pos p)" "\<not> sent (pos p)"
  shows "mbox_core b (a\<lparr>pend := (pend a)(p := Some (MboxLock b))\<rparr>) (pos(p := c)) x st"
proof -
  note C = mbox_coreD [OF I]
  have c': "\<not> received c" "\<not> sent c" "\<not> moving c" using c(1) by (cases c; simp)+
  show ?thesis
    using C c c' o w places_move permits_move lock_block pend_block moved_other [of pos p c]
    by (simp add: mbox_core_def)
qed

lemma acquire_inv:
  assumes I: "mbox_inv b a pos x st" and pd: "pend a (now a) = None"
    and c: "pos (now a) = SendAcquire m \<and> c = SendPtr m \<or> pos (now a) = RecvAcquire n \<and> c = RecvCopy n"
    and d: "acquires (MboxLock b) a a'"
  shows "mbox_inv b a' (pos(now a := c)) x st"
proof -
  note C = mbox_invD(1) [OF I] and w = mbox_invD(2) [OF I]
  have p: "wants_lock c" "sending c = sending (pos (now a))" "receiving c = receiving (pos (now a))" "pos (now a) \<noteq> Outside"
    "\<not> moving (pos (now a))" "\<not> received (pos (now a))" "\<not> sent (pos (now a))" using c by auto
  show ?thesis
  proof (cases "held a (MboxLock b)")
    case True
    then show ?thesis using wait_inv [OF C w p(1,2,3,5,6,7)] switch_inv d by (simp add: acquires_def)
  next
    case False
    have "(pend a)(now a := None) = pend a" using pd by auto
    then show ?thesis using take_inv [OF C False w p] w d False by (simp add: acquires_def mbox_inv_def)
  qed
qed

lemma core_cong:
  assumes "mbox_core b a pos x st" and "held a' (MboxLock b) = held a (MboxLock b)" and "pend a' = pend a"
    and "\<And>m. m = MboxSend b \<or> m = MboxRecv b \<Longrightarrow> val a' m = val a m \<and> waits a' m = waits a m"
  shows "mbox_core b a' pos x st"
  using assms by (simp add: mbox_core_def)

lemma outside_pend:
  assumes "mbox_core b a pos x st" and "pos p = Outside" and "v \<noteq> Some (MboxLock b)"
  shows "mbox_core b (a\<lparr>pend := (pend a)(p := v)\<rparr>) pos x st"
proof -
  have cs: "in_cs ((pend a)(p := v)) pos = in_cs (pend a) pos" using assms(2) by (auto simp: in_cs_def fun_eq_iff)
  have "pend_ok (MboxLock b) ((pend a)(p := v)) pos" using mbox_coreD(2) [OF assms(1)] assms(2,3) by (auto simp: pend_ok_def)
  then show ?thesis using assms(1) by (simp add: mbox_core_def lock_ok_def cs)
qed

lemma resume_inv:
  assumes I: "mbox_inv b a pos x st" and d: "resumes a a'"
  shows "mbox_inv b a' pos x st"
proof (cases "pend a (now a)")
  case None
  then show ?thesis using I d by (simp add: resumes_def)
next
  case (Some l)
  note C = mbox_invD(1) [OF I] and w = mbox_invD(2) [OF I]
  let ?p = "now a"
  have acq: "acquires l (a\<lparr>pend := (pend a)(?p := None)\<rparr>) a'" using d Some by (simp add: resumes_def)
  show ?thesis
  proof (cases "held a l")
    case True
    have "a\<lparr>pend := (pend a)(?p := None)\<rparr>\<lparr>pend := (pend a)(?p := Some l)\<rparr> = a"
      using Some by (cases a) (auto simp: fun_upd_idem)
    then show ?thesis using acq True switch_inv [OF C] by (simp add: acquires_def)
  next
    case False
    have a': "a' = a\<lparr>held := (held a)(l := True), pend := (pend a)(?p := None)\<rparr>" using acq False by (simp add: acquires_def)
    have "mbox_core b a' pos x st"
    proof (cases "l = MboxLock b")
      case True
      then have "wants_lock (pos ?p)" using mbox_coreD(2) [OF C] Some by (simp add: pend_ok_def)
      moreover from this have "pos ?p \<noteq> Outside" "\<not> moving (pos ?p)" "\<not> received (pos ?p)" "\<not> sent (pos ?p)"
        by (cases "pos ?p"; simp)+
      ultimately show ?thesis using take_inv [OF C _ w, of "pos ?p"] False True a' by simp
    next
      case False
      then have "pos ?p = Outside" using mbox_coreD(2) [OF C] Some by (auto simp: pend_ok_def)
      from outside_pend [OF C this, of None] show ?thesis using False a' by (simp add: mbox_core_def)
    qed
    then show ?thesis using w a' by (simp add: mbox_inv_def)
  qed
qed

text \<open>Calls on other objects by a task that is not in the code.\<close>

lemma other_sem_inv:
  assumes I: "mbox_inv b a pos x st" and m: "m \<noteq> MboxSend b" "m \<noteq> MboxRecv b" and d: "downs m a a' \<or> ups m a a'"
  shows "mbox_inv b a' pos x st"
proof -
  note C = mbox_invD(1) [OF I] and w = mbox_invD(2) [OF I]
  have core: "mbox_core b (a\<lparr>waits := (waits a)(m := X)\<rparr>) pos x st" "mbox_core b (a\<lparr>val := (val a)(m := v)\<rparr>) pos x st" for X v
    using m by (auto intro!: core_cong [OF C])
  then have "mbox_inv b a' pos x st" if "switches (a\<lparr>waits := (waits a)(m := X)\<rparr>) a'" for X using that switch_inv by blast
  moreover have "mbox_inv b (a\<lparr>waits := (waits a)(m := waits a m - X)\<rparr>) pos x st"
    "mbox_inv b (a\<lparr>val := (val a)(m := v)\<rparr>) pos x st" for X v
    using w core by (simp_all add: mbox_inv_def)
  ultimately show ?thesis using d by (auto simp: downs_def ups_def split: if_splits)
qed

lemma other_lock_inv:
  assumes I: "mbox_inv b a pos x st" and l: "l \<noteq> MboxLock b" and o: "pos (now a) = Outside"
    and d: "acquires l a a' \<or> releases l a a'"
  shows "mbox_inv b a' pos x st"
proof -
  note C = mbox_invD(1) [OF I] and w = mbox_invD(2) [OF I]
  have "mbox_core b (a\<lparr>held := (held a)(l := v)\<rparr>) pos x st" for v using l by (auto intro!: core_cong [OF C])
  then show ?thesis
    using d w switch_inv outside_pend [OF C o, of "Some l"] l
    by (auto simp: acquires_def releases_def mbox_inv_def split: if_splits)
qed

text \<open>The array of messages.\<close>

lemma box_advance: "box_ok False x st \<Longrightarrow> box_ok True (x\<lparr>mbox_ptr := (mbox_ptr x + 1) mod 32\<rparr>) st"
  by (simp add: box_ok_def zmod_int mod_simps add.commute)

lemma box_retreat: "box_ok True x st \<Longrightarrow> box_ok False (x\<lparr>mbox_ptr := (mbox_ptr x + 32 - 1) mod 32\<rparr>) st"
  by (simp add: box_ok_def zmod_int mod_simps)

lemma box_put:
  assumes ok: "box_ok True x st" and k: "length st < 32" and m: "put_msg m x = Some x'"
  shows "box_ok False x' (m # st)"
proof -
  let ?k = "(length st + 1) mod 32"
  have len: "length (mbox_msg x) = 32" "\<forall>v \<in> set (mbox_msg x). length v = 32" and p: "nat (mbox_ptr x) = ?k"
    and ptr: "mbox_ptr x = int ?k"
    and old: "\<forall>i < length st. take (length (rev st ! i)) (mbox_msg x ! ((i + 1) mod 32)) = rev st ! i"
    using ok by (simp_all add: box_ok_def)
  have lv: "length (mbox_msg x ! ?k) = 32" using len by simp
  obtain new where new: "memcpy (mbox_msg x ! ?k) m (length m) = Some new" "x' = x\<lparr>mbox_msg := (mbox_msg x)[?k := new]\<rparr>"
    using m len p by (auto simp: put_msg_def split: Option.bind_splits)
  then have n: "take (length m) new = m" "length new = 32" using lv by (auto simp: memcpy_eq split: if_splits)
  have "take (length (rev (m # st) ! i)) (mbox_msg x' ! ((i + 1) mod 32)) = rev (m # st) ! i" if "i < length (m # st)" for i
  proof (cases "i = length st")
    case True
    then show ?thesis using n(1) len(1) by (simp add: new(2) nth_append)
  next
    case False
    then have i: "i < length st" using that by simp
    then have "(i + 1) mod 32 \<noteq> ?k" using k by (cases "length st = 31") simp_all
    then show ?thesis using i old by (simp add: new(2) nth_append)
  qed
  moreover have "\<forall>v \<in> set (mbox_msg x'). length v = 32" using len(2) n(2) set_update_subset_insert by (fastforce simp: new(2))
  ultimately show ?thesis using len(1) ptr by (simp add: box_ok_def new(2))
qed

lemma box_get:
  assumes ok: "box_ok False x (y # st)" and m: "get_msg n x = Some m"
  shows "agree m y" "box_ok True x st"
proof -
  let ?k = "(length st + 1) mod 32"
  have len: "length (mbox_msg x) = 32" "\<forall>v \<in> set (mbox_msg x). length v = 32" and p: "nat (mbox_ptr x) = ?k"
    and old: "\<And>i. i < Suc (length st) \<Longrightarrow> take (length (rev (y # st) ! i)) (mbox_msg x ! ((i + 1) mod 32)) = rev (y # st) ! i"
    using ok by (simp_all add: box_ok_def)
  have y: "take (length y) (mbox_msg x ! ?k) = y" using old [of "length st"] by (simp add: nth_append)
  have "m = take n (mbox_msg x ! ?k)" "n \<le> length (mbox_msg x ! ?k)"
    using m len(1) p by (auto simp: get_msg_def memcpy_eq split: if_splits)
  moreover have "take (min n (length y)) (mbox_msg x ! ?k) = take n y" using arg_cong [OF y, of "take n"] by simp
  ultimately show "agree m y" using y by (auto simp: agree_def min_def split: if_splits)
  have "take (length (rev st ! i)) (mbox_msg x ! ((i + 1) mod 32)) = rev st ! i" if "i < length st" for i
    using old [of i] that by (simp add: nth_append)
  then show "box_ok True x st" using ok by (simp add: box_ok_def)
qed


text \<open>The statements inside the critical section, and the last call.\<close>

lemma advance_inv:
  assumes I: "mbox_inv b a pos x st" and p: "pos (now a) = SendPtr m" "pend a (now a) = None"
  shows "mbox_inv b a (pos(now a := SendCopy m)) (x\<lparr>mbox_ptr := (mbox_ptr x + 1) mod 32\<rparr>) st"
proof -
  note C = mbox_coreD [OF mbox_invD(1) [OF I]] and w = mbox_invD(2) [OF I]
  have cs: "in_cs (pend a) pos (now a)" using p by (simp add: in_cs_def)
  note M = moved_inside [OF C(3,2) cs]
  show ?thesis
    using C(5) p w M places_move [OF C(1) w w] pend_move [OF C(2) p(2)] lock_stay [OF C(3) cs]
      permits_move [OF C(4,6) w w] box_advance [of x st]
    by (simp add: mbox_inv_def mbox_core_def)
qed

lemma retreat_inv:
  assumes I: "mbox_inv b a pos x st" and p: "pos (now a) = RecvPtr" "pend a (now a) = None"
  shows "mbox_inv b a (pos(now a := RecvRelease)) (x\<lparr>mbox_ptr := (mbox_ptr x + 32 - 1) mod 32\<rparr>) st"
proof -
  note C = mbox_coreD [OF mbox_invD(1) [OF I]] and w = mbox_invD(2) [OF I]
  have cs: "in_cs (pend a) pos (now a)" using p by (simp add: in_cs_def)
  note M = moved_inside [OF C(3,2) cs]
  show ?thesis
    using C(5) p w M places_move [OF C(1) w w] pend_move [OF C(2) p(2)] lock_stay [OF C(3) cs]
      permits_move [OF C(4,6) w w] box_retreat [of x st]
    by (simp add: mbox_inv_def mbox_core_def)
qed

lemma put_inv:
  assumes I: "mbox_inv b a pos x st" and p: "pos (now a) = SendCopy m" "pend a (now a) = None" and m: "put_msg m x = Some x'"
  shows "length st < 32" "mbox_inv b a (pos(now a := SendRelease)) x' (m # st)"
proof -
  note C = mbox_coreD [OF mbox_invD(1) [OF I]] and w = mbox_invD(2) [OF I]
  have cs: "in_cs (pend a) pos (now a)" using p by (simp add: in_cs_def)
  note M = moved_inside [OF C(3,2) cs] and E = permits_event(1) [OF C(4,6) w w p(1)]
  show k: "length st < 32" using E by simp
  show "mbox_inv b a (pos(now a := SendRelease)) x' (m # st)"
    using C(5) p(1) w M E places_move [OF C(1) w w] pend_move [OF C(2) p(2)] lock_stay [OF C(3) cs] box_put [OF _ k m]
    by (simp add: mbox_inv_def mbox_core_def)
qed

lemma get_inv:
  assumes I: "mbox_inv b a pos x st" and p: "pos (now a) = RecvCopy n" "pend a (now a) = None" and m: "get_msg n x = Some m"
  shows "\<exists>y st'. st = y # st' \<and> agree m y \<and> mbox_inv b a (pos(now a := RecvPtr)) x st'"
proof -
  note C = mbox_coreD [OF mbox_invD(1) [OF I]] and w = mbox_invD(2) [OF I]
  have cs: "in_cs (pend a) pos (now a)" using p by (simp add: in_cs_def)
  note M = moved_inside [OF C(3,2) cs] and E = permits_event(2) [OF C(4,6) w w p(1)]
  obtain y st' where st: "st = y # st'" using E by (cases st) auto
  have "box_ok False x (y # st')" using C(5) M(1) p(1) st by simp
  from box_get [OF this m] show ?thesis
    using st w p(1) M E places_move [OF C(1) w w] pend_move [OF C(2) p(2)] lock_stay [OF C(3) cs]
    by (simp add: mbox_inv_def mbox_core_def)
qed

lemma release_inv:
  assumes I: "mbox_inv b a pos x st" and pd: "pend a (now a) = None"
    and c: "pos (now a) = SendRelease \<and> c = SendUp \<or> pos (now a) = RecvRelease \<and> c = RecvUp"
    and d: "releases (MboxLock b) a a'"
  shows "mbox_inv b a' (pos(now a := c)) x st"
proof -
  note C = mbox_coreD [OF mbox_invD(1) [OF I]] and w = mbox_invD(2) [OF I]
  have cs: "in_cs (pend a) pos (now a)" using c pd by (auto simp: in_cs_def)
  have s: "sending c = sending (pos (now a))" "received c = received (pos (now a))" "receiving c = receiving (pos (now a))"
    "sent c = sent (pos (now a))" "\<not> critical c" "\<not> moving c" "\<not> moving (pos (now a))" using c by auto
  show ?thesis
    using C(5) w d moved_other [of pos "now a" c] s(6,7) places_move [OF C(1) w w] pend_move [OF C(2) pd] lock_release [OF C(3) cs s(5)]
      permits_move [OF C(4,6) w w s(1-4)]
    by (simp add: mbox_inv_def mbox_core_def releases_def)
qed

lemma end_send_inv:
  assumes I: "mbox_inv b a pos x st" and p: "pos (now a) = SendUp" "pend a (now a) = None" and d: "ups (MboxRecv b) a a'"
  shows "mbox_inv b a' (pos(now a := Outside)) x st"
proof -
  note C = mbox_coreD [OF mbox_invD(1) [OF I]] and w = mbox_invD(2) [OF I]
  have M: "moved (pos(now a := Outside)) = moved pos" using p(1) by (intro moved_other) simp_all
  note parts = places_move [OF C(1) w w, of Outside] pend_move [where c = Outside, OF C(2) p(2)]
    lock_leave [OF C(3) critical_simps(7), of "now a"]
  show ?thesis
  proof (cases "waits a (MboxRecv b) = {}")
    case True
    then show ?thesis
      using C(5) w d M parts permits_end(1) [OF C(4,6) w w p(1)] by (simp add: mbox_inv_def mbox_core_def ups_def)
  next
    case False
    then obtain t where t: "t \<in> waits a (MboxRecv b)" "a' = a\<lparr>waits := (waits a)(MboxRecv b := waits a (MboxRecv b) - {t})\<rparr>"
      using d by (auto simp: ups_def)
    obtain n where n: "pos t = RecvAcquire n" using C(1) t(1) by (auto simp: places_ok_def)
    show ?thesis
      using C(5) w M parts places_wake [OF parts(1), of "{}" "{t}"] permits_end(3) [OF C(4,6) w w p(1) t(1) n]
      by (simp add: mbox_inv_def mbox_core_def t(2))
  qed
qed

lemma end_recv_inv:
  assumes I: "mbox_inv b a pos x st" and p: "pos (now a) = RecvUp" "pend a (now a) = None" and d: "ups (MboxSend b) a a'"
  shows "mbox_inv b a' (pos(now a := Outside)) x st"
proof -
  note C = mbox_coreD [OF mbox_invD(1) [OF I]] and w = mbox_invD(2) [OF I]
  have M: "moved (pos(now a := Outside)) = moved pos" using p(1) by (intro moved_other) simp_all
  note parts = places_move [OF C(1) w w, of Outside] pend_move [where c = Outside, OF C(2) p(2)]
    lock_leave [OF C(3) critical_simps(7), of "now a"]
  show ?thesis
  proof (cases "waits a (MboxSend b) = {}")
    case True
    then show ?thesis
      using C(5) w d M parts permits_end(2) [OF C(4,6) w w p(1)] by (simp add: mbox_inv_def mbox_core_def ups_def)
  next
    case False
    then obtain t where t: "t \<in> waits a (MboxSend b)" "a' = a\<lparr>waits := (waits a)(MboxSend b := waits a (MboxSend b) - {t})\<rparr>"
      using d by (auto simp: ups_def)
    obtain m where m: "pos t = SendAcquire m" using C(1) t(1) by (auto simp: places_ok_def)
    show ?thesis
      using C(5) w M parts places_wake [OF parts(1), of "{t}" "{}"] permits_end(4) [OF C(4,6) w w p(1) t(1) m]
      by (simp add: mbox_inv_def mbox_core_def t(2))
  qed
qed

section \<open>The contract of the kernel\<close>

locale sync_kernel =
  fixes rep :: "'k \<Rightarrow> sync \<Rightarrow> bool"
    and down up :: "sem_id \<Rightarrow> 'k \<Rightarrow> 'k option"
    and acquire release :: "mutex_id \<Rightarrow> 'k \<Rightarrow> 'k option"
    and resumed :: "'k \<Rightarrow> 'k option"
    and tick :: "'t \<Rightarrow> 'k \<Rightarrow> 'k option"
  assumes down: "rep s a \<Longrightarrow> down m s = Some s' \<Longrightarrow> \<exists>a'. rep s' a' \<and> downs m a a'"
    and up: "rep s a \<Longrightarrow> up m s = Some s' \<Longrightarrow> \<exists>a'. rep s' a' \<and> ups m a a'"
    and acquire: "rep s a \<Longrightarrow> acquire l s = Some s' \<Longrightarrow> \<exists>a'. rep s' a' \<and> acquires l a a'"
    and release: "rep s a \<Longrightarrow> release l s = Some s' \<Longrightarrow> \<exists>a'. rep s' a' \<and> releases l a a'"
    and resumed: "rep s a \<Longrightarrow> resumed s = Some s' \<Longrightarrow> \<exists>a'. rep s' a' \<and> resumes a a'"
    and tick: "rep s a \<Longrightarrow> tick t s = Some s' \<Longrightarrow> \<exists>a'. rep s' a' \<and> ticks a a'"
begin

text \<open>What a call of the kernel does to the invariant of the mailbox.\<close>

lemma send_calls:
  assumes "rep s a" "mbox_inv b a pos x st" "pend a (now a) = None"
  shows "down (MboxSend b) s = Some s' \<Longrightarrow> pos (now a) = Outside \<Longrightarrow>
      \<exists>a'. rep s' a' \<and> mbox_inv b a' (pos(now a := SendAcquire m)) x st"
    and "acquire (MboxLock b) s = Some s' \<Longrightarrow> pos (now a) = SendAcquire m \<Longrightarrow>
      \<exists>a'. rep s' a' \<and> mbox_inv b a' (pos(now a := SendPtr m)) x st"
    and "release (MboxLock b) s = Some s' \<Longrightarrow> pos (now a) = SendRelease \<Longrightarrow>
      \<exists>a'. rep s' a' \<and> mbox_inv b a' (pos(now a := SendUp)) x st"
    and "up (MboxRecv b) s = Some s' \<Longrightarrow> pos (now a) = SendUp \<Longrightarrow>
      \<exists>a'. rep s' a' \<and> mbox_inv b a' (pos(now a := Outside)) x st"
  using down [OF assms(1), of "MboxSend b" s'] start_send_inv [OF assms(2) _ assms(3), of _ m] apply blast
  using acquire [OF assms(1), of "MboxLock b" s'] acquire_inv [OF assms(2,3), of m "SendPtr m"] apply blast
  using release [OF assms(1), of "MboxLock b" s'] release_inv [OF assms(2,3), of SendUp] apply blast
  using up [OF assms(1), of "MboxRecv b" s'] end_send_inv [OF assms(2) _ assms(3)] apply blast
  done

lemma recv_calls:
  assumes "rep s a" "mbox_inv b a pos x st" "pend a (now a) = None"
  shows "down (MboxRecv b) s = Some s' \<Longrightarrow> pos (now a) = Outside \<Longrightarrow>
      \<exists>a'. rep s' a' \<and> mbox_inv b a' (pos(now a := RecvAcquire n)) x st"
    and "acquire (MboxLock b) s = Some s' \<Longrightarrow> pos (now a) = RecvAcquire n \<Longrightarrow>
      \<exists>a'. rep s' a' \<and> mbox_inv b a' (pos(now a := RecvCopy n)) x st"
    and "release (MboxLock b) s = Some s' \<Longrightarrow> pos (now a) = RecvRelease \<Longrightarrow>
      \<exists>a'. rep s' a' \<and> mbox_inv b a' (pos(now a := RecvUp)) x st"
    and "up (MboxSend b) s = Some s' \<Longrightarrow> pos (now a) = RecvUp \<Longrightarrow>
      \<exists>a'. rep s' a' \<and> mbox_inv b a' (pos(now a := Outside)) x st"
  using down [OF assms(1), of "MboxRecv b" s'] start_recv_inv [OF assms(2) _ assms(3), of _ n] apply blast
  using acquire [OF assms(1), of "MboxLock b" s'] acquire_inv [OF assms(2,3), of _ "RecvCopy n" n] apply blast
  using release [OF assms(1), of "MboxLock b" s'] release_inv [OF assms(2,3), of RecvUp] apply blast
  using up [OF assms(1), of "MboxSend b" s'] end_recv_inv [OF assms(2) _ assms(3)] apply blast
  done

lemma other_steps:
  assumes "rep s a" "mbox_inv b a pos x st"
  shows "resumed s = Some s' \<Longrightarrow> \<exists>a'. rep s' a' \<and> mbox_inv b a' pos x st"
    and "tick t s = Some s' \<Longrightarrow> \<exists>a'. rep s' a' \<and> mbox_inv b a' pos x st"
    and "m \<noteq> MboxSend b \<Longrightarrow> m \<noteq> MboxRecv b \<Longrightarrow> down m s = Some s' \<or> up m s = Some s' \<Longrightarrow>
      \<exists>a'. rep s' a' \<and> mbox_inv b a' pos x st"
    and "l \<noteq> MboxLock b \<Longrightarrow> pos (now a) = Outside \<Longrightarrow> acquire l s = Some s' \<or> release l s = Some s' \<Longrightarrow>
      \<exists>a'. rep s' a' \<and> mbox_inv b a' pos x st"
proof -
  show "resumed s = Some s' \<Longrightarrow> \<exists>a'. rep s' a' \<and> mbox_inv b a' pos x st"
    using resumed [OF assms(1)] resume_inv [OF assms(2)] by blast
  show "tick t s = Some s' \<Longrightarrow> \<exists>a'. rep s' a' \<and> mbox_inv b a' pos x st"
    using tick [OF assms(1)] tick_inv [OF assms(2)] by blast
  show "m \<noteq> MboxSend b \<Longrightarrow> m \<noteq> MboxRecv b \<Longrightarrow> down m s = Some s' \<or> up m s = Some s' \<Longrightarrow>
      \<exists>a'. rep s' a' \<and> mbox_inv b a' pos x st"
    using down [OF assms(1), of m s'] up [OF assms(1), of m s'] other_sem_inv [OF assms(2), of m] by auto
  show "l \<noteq> MboxLock b \<Longrightarrow> pos (now a) = Outside \<Longrightarrow> acquire l s = Some s' \<or> release l s = Some s' \<Longrightarrow>
      \<exists>a'. rep s' a' \<and> mbox_inv b a' pos x st"
    using acquire [OF assms(1), of l s'] release [OF assms(1), of l s'] other_lock_inv [OF assms(2), of l] by auto
qed

end

section \<open>The kernel keeps the contract\<close>

definition sync_of :: "kernel \<Rightarrow> (qid \<Rightarrow> pcb_id list) \<Rightarrow> sync" where
  "sync_of s A = \<lparr>val = sem_value s, waits = (\<lambda>m. set (A (SemQ m))), held = (\<lambda>l. mutex_status s l = LOCKED),
     pend = (\<lambda>p. case resume_at s p of Return \<Rightarrow> None | Acquire l \<Rightarrow> Some l), now = current_running s\<rparr>"

definition kernel_rep :: "kernel \<Rightarrow> sync \<Rightarrow> bool" where
  "kernel_rep s a \<longleftrightarrow> (\<exists>A. state_ok {} s A \<and> running s \<and> a = sync_of s A)"

lemma kernel_rep_now: "kernel_rep s a \<Longrightarrow> now a \<notin> waits a m"
  using kernel_inv_running(3) by (auto simp: kernel_rep_def sync_of_def state_ok_def running_def queued_iff)

lemma schedule_switches:
  assumes "state_ok {} s A" and "do_scheduler s = Some s'"
  shows "\<exists>a'. kernel_rep s' a' \<and> switches (sync_of s A) a'"
proof -
  note S = scheduler_ok [OF state_okD(1,2) [OF assms(1)] assms(2) [unfolded do_scheduler_def]]
  obtain A' where A': "queues_rep s' A'" "kernel_inv {} s' A'" "\<And>q. q \<noteq> ReadyQ \<Longrightarrow> q \<noteq> SleepingQ \<Longrightarrow> A' q = A q"
    using S(1) by blast
  have "sync_inv s' A'" using S(2) A'(3) state_okD(3) [OF assms(1)] by (rule sync_inv_same)
  then have rep: "kernel_rep s' (sync_of s' A')" using A' S(3) by (auto simp: kernel_rep_def state_ok_def running_def)
  have e: "sync_of s' A' = (sync_of s A)\<lparr>now := current_running s'\<rparr>"
    using S(2) A'(3) by (simp add: sync_of_def same_sync_def)
  have "current_running s' \<notin> waits (sync_of s A) m" for m using kernel_rep_now [OF rep, of m] by (simp add: e)
  then have "switches (sync_of s A) (sync_of s' A')" using e by (auto simp: switches_def)
  then show ?thesis using rep by blast
qed

lemma sync_of_view [simp]: "sync_of (view s) A = sync_of s A" "sync_of (upd_pcb i f s) A = sync_of s A"
  by (simp_all add: sync_of_def)

lemma view_sync_of: "view s1 = upd_pcb i f (view s) \<Longrightarrow> sync_of s1 A = sync_of s A"
  by (metis sync_of_view)

lemma sync_of_other: "(\<And>m. q \<noteq> SemQ m) \<Longrightarrow> sync_of s (A(q := xs)) = sync_of s A"
  by (auto simp: sync_of_def fun_eq_iff)

lemma down_sim:
  assumes "kernel_rep s a" and step: "do_semaphore_down m s = Some s'"
  shows "\<exists>a'. kernel_rep s' a' \<and> downs m a a'"
proof -
  obtain A where A: "state_ok {} s A" "running s" and a: "a = sync_of s A" using assms(1) by (auto simp: kernel_rep_def)
  show ?thesis
  proof (cases "sem_value s m = 0")
    case True
    let ?c = "current_running s" and ?A = "A(SemQ m := A (SemQ m) @ [current_running s])"
    have "sync_inv s ?A" using True state_okD(3) [OF A(1)] by (simp add: sync_inv_def)
    then obtain s1 where s1: "queue_push (SemQ m) ?c (set_status ?c TASK_BLOCKED s) = Some s1" "state_ok {} s1 ?A"
      "view s1 = set_status ?c TASK_BLOCKED (view s)"
      using leave_state_ok [OF state_okD(1,2) [OF A(1)] A(2), of TASK_BLOCKED "SemQ m"] by auto
    have "do_scheduler s1 = Some s'" using step True s1(1) by (simp add: do_semaphore_down_def Let_def)
    from schedule_switches [OF s1(2) this] obtain a' where a': "kernel_rep s' a'" "switches (sync_of s1 ?A) a'" by blast
    have "sync_of s1 ?A = a\<lparr>waits := (waits a)(m := insert (now a) (waits a m))\<rparr>"
      unfolding view_sync_of [OF s1(3)] by (auto simp: a sync_of_def fun_eq_iff)
    moreover have "val a m = 0" using True by (simp add: a sync_of_def)
    ultimately show ?thesis using a' by (auto simp: downs_def)
  next
    case False
    then have s': "s' = set_sem m (sem_value s m - 1) s" using step by (simp add: do_semaphore_down_def)
    have "state_ok {} s' A" "running s'" using False A by (simp_all add: s' state_ok_def set_sem_def sync_inv_def running_def)
    moreover have "downs m a (sync_of s' A)" using False by (simp add: downs_def a s' sync_of_def set_sem_def)
    ultimately show ?thesis by (auto simp: kernel_rep_def)
  qed
qed

lemma up_sim:
  assumes "kernel_rep s a" and step: "do_semaphore_up m s = Some s'"
  shows "\<exists>a'. kernel_rep s' a' \<and> ups m a a'"
proof -
  obtain A where A: "state_ok {} s A" "running s" and a: "a = sync_of s A" using assms(1) by (auto simp: kernel_rep_def)
  note R = state_okD(1,2) [OF A(1)]
  show ?thesis
  proof (cases "A (SemQ m)")
    case Nil
    then have s': "s' = set_sem m (sem_value s m + 1) s"
      using step queue_is_empty_rep [OF R(1)] by (simp add: do_semaphore_up_def)
    have "state_ok {} s' A" "running s'" using Nil A by (simp_all add: s' state_ok_def set_sem_def sync_inv_def running_def)
    moreover have "ups m a (sync_of s' A)" using Nil by (simp add: ups_def a s' sync_of_def set_sem_def)
    ultimately show ?thesis by (auto simp: kernel_rep_def)
  next
    case (Cons x xs)
    let ?A = "A(SemQ m := xs, ReadyQ := A ReadyQ @ [x])"
    obtain s1 s2 where s: "queue_dequeue (SemQ m) s = Some (x, s1)"
      "queue_push ReadyQ x (set_status x TASK_READY s1) = Some s2" "queues_rep s2 ?A" "kernel_inv {} s2 ?A"
      "view s2 = set_status x TASK_READY (view s)"
      using wake_first_inv [OF R Cons] by auto
    have "sync_inv (view s2) ?A" unfolding s(5) using state_okD(3) [OF A(1)] Cons by (auto simp: sync_inv_def)
    then have "state_ok {} s2 ?A" using s(3,4) by (simp add: state_ok_def)
    moreover have "s' = s2" using step s(1,2) Cons queue_is_empty_rep [OF R(1)] by (simp add: do_semaphore_up_def Let_def)
    moreover have "distinct (x # xs)" using queues_repD(1) [OF R(1), of "SemQ m"] Cons by simp
    then have "sync_of s2 ?A = a\<lparr>waits := (waits a)(m := waits a m - {x})\<rparr>"
      unfolding view_sync_of [OF s(5)] using Cons by (auto simp: a sync_of_def fun_eq_iff)
    then have "ups m a (sync_of s2 ?A)" using Cons by (auto simp: ups_def a sync_of_def)
    ultimately show ?thesis using wake_first_running(1) [OF R(2) Cons A(2) s(5)] by (auto simp: kernel_rep_def)
  qed
qed

lemma acquire_sim:
  assumes "kernel_rep s a" and step: "do_mutex_lock_acquire l s = Some s'"
  shows "\<exists>a'. kernel_rep s' a' \<and> acquires l a a'"
proof -
  obtain A where A: "state_ok {} s A" "running s" and a: "a = sync_of s A" using assms(1) by (auto simp: kernel_rep_def)
  show ?thesis
  proof (cases "mutex_status s l = LOCKED")
    case True
    let ?s = "s\<lparr>resume_at := (resume_at s)(current_running s := Acquire l)\<rparr>"
    let ?c = "current_running s" and ?A = "A(MutexQ l := A (MutexQ l) @ [current_running s])"
    have ok: "state_ok {} ?s A" "running ?s" using A by (simp_all add: state_ok_def sync_inv_def running_def)
    have "sync_inv ?s ?A" using True state_okD(3) [OF A(1)] by (simp add: sync_inv_def)
    then obtain s1 where s1: "queue_push (MutexQ l) ?c (set_status ?c TASK_BLOCKED ?s) = Some s1" "state_ok {} s1 ?A"
      "view s1 = set_status ?c TASK_BLOCKED (view ?s)"
      using leave_state_ok [OF state_okD(1,2) [OF ok(1)] ok(2), of TASK_BLOCKED "MutexQ l"] by auto
    have "do_scheduler s1 = Some s'"
      using step True s1(1) ok(2) by (simp add: do_mutex_lock_acquire_def do_block_def Let_def running_def)
    from schedule_switches [OF s1(2) this] obtain a' where a': "kernel_rep s' a'" "switches (sync_of s1 ?A) a'" by blast
    have "sync_of s1 ?A = a\<lparr>pend := (pend a)(now a := Some l)\<rparr>"
      unfolding view_sync_of [OF s1(3)] by (auto simp: a sync_of_def fun_eq_iff)
    moreover have "held a l" using True by (simp add: a sync_of_def)
    ultimately show ?thesis using a' by (auto simp: acquires_def)
  next
    case False
    then have s': "s' = take_lock l s" using step by (simp add: do_mutex_lock_acquire_def)
    have "sync_of s' A = a\<lparr>held := (held a)(l := True)\<rparr>"
      by (auto simp: s' a sync_of_def take_lock_def set_mutex_def Let_def fun_eq_iff split: option.splits)
    then have "acquires l a (sync_of s' A)" using False by (simp add: acquires_def a sync_of_def)
    then show ?thesis using take_lock_state_ok [OF A, of l] s' by (auto simp: kernel_rep_def)
  qed
qed

lemma release_sim:
  assumes "kernel_rep s a" and step: "do_mutex_lock_release l s = Some s'"
  shows "\<exists>a'. kernel_rep s' a' \<and> releases l a a'"
proof -
  obtain A where A: "state_ok {} s A" "running s" and a: "a = sync_of s A" using assms(1) by (auto simp: kernel_rep_def)
  obtain A' where A': "state_ok {} s' A'" "current_running s' = current_running s"
    "\<forall>q. q \<noteq> MutexQ l \<and> q \<noteq> ReadyQ \<longrightarrow> A' q = A q" "mutex_status s' = (mutex_status s)(l := UNLOCKED)"
    "\<forall>i. status (pcbs s' i) = (if i \<in> set (A (MutexQ l)) then TASK_READY else status (pcbs s i))"
    using do_mutex_lock_release_state_ok [OF A(1), of l] step by auto
  have "running s'"
    using A'(2,5) A(2) kernel_inv_running(3) [OF state_okD(2) [OF A(1)]] by (simp add: running_def queued_iff)
  moreover have "resume_at s' = resume_at s \<and> sem_value s' = sem_value s"
  proof (cases "mutex_status s l = LOCKED")
    case True
    from do_mutex_lock_release_rep [OF state_okD(1,2) [OF A(1)] True] show ?thesis
      using step by (auto simp: same_sync_def set_mutex_def)
  next
    case False
    then show ?thesis using step by (simp add: do_mutex_lock_release_free)
  qed
  then have "sync_of s' A' = a\<lparr>held := (held a)(l := False)\<rparr>"
    using A'(2-4) by (auto simp: a sync_of_def fun_eq_iff)
  ultimately show ?thesis using A'(1) by (auto simp: kernel_rep_def releases_def)
qed

lemma resume_sim:
  assumes rep: "kernel_rep s a" and step: "resume s = Some s'"
  shows "\<exists>a'. kernel_rep s' a' \<and> resumes a a'"
proof (cases "resume_at s (current_running s)")
  case Return
  then show ?thesis using assms by (auto simp: resume_def resumes_def kernel_rep_def sync_of_def)
next
  case (Acquire l)
  let ?s = "s\<lparr>resume_at := (resume_at s)(current_running s := Return)\<rparr>"
  obtain A where A: "state_ok {} s A" "running s" and a: "a = sync_of s A" using rep by (auto simp: kernel_rep_def)
  have "sync_of ?s A = a\<lparr>pend := (pend a)(now a := None)\<rparr>" by (auto simp: a sync_of_def fun_eq_iff)
  then have "kernel_rep ?s (a\<lparr>pend := (pend a)(now a := None)\<rparr>)"
    using A unfolding kernel_rep_def by (intro exI [of _ A]) (simp add: state_ok_def sync_inv_def running_def)
  from acquire_sim [OF this, of l s'] show ?thesis
    using step Acquire by (simp add: resume_def resumes_def a sync_of_def)
qed

lemma timer_sim:
  assumes rep: "kernel_rep s a" and step: "irq_timer des0 s = Some s'"
  shows "\<exists>a'. kernel_rep s' a' \<and> ticks a a'"
proof -
  obtain A where A: "state_ok {} s A" "running s" and a: "a = sync_of s A" using rep by (auto simp: kernel_rep_def)
  let ?s = "s\<lparr>time_elapsed := time_elapsed s + 15\<rparr>"
  have ok: "state_ok {} ?s A" "running ?s" "sync_of ?s A = a"
    using A by (simp_all add: state_ok_def sync_inv_def running_def a sync_of_def)
  obtain s1 B where s1: "check_recv_block_queue des0 ?s = Some s1" "state_ok {} s1 B" "running s1" "sync_of s1 B = a"
  proof (cases "check_recv_block_queue des0 ?s = Some ?s")
    case True
    then show ?thesis using that ok by blast
  next
    case False
    then have "check_recv_block_queue des0 ?s = do_unblock_one RecvBlockQ ?s"
      by (auto simp: check_recv_block_queue_def split: if_splits)
    moreover obtain s1 B where "do_unblock_one RecvBlockQ ?s = Some s1" "state_ok {} s1 B" "running s1"
      "\<forall>r. r \<noteq> RecvBlockQ \<and> r \<noteq> ReadyQ \<longrightarrow> B r = A r" "same_sync ?s s1" "current_running s1 = current_running ?s"
      using do_unblock_one_state_ok [OF ok(1,2), of RecvBlockQ] by blast
    ultimately show ?thesis using that [of s1 B] ok(3) by (simp add: sync_of_def same_sync_def)
  qed
  show ?thesis
  proof (cases "mode (pcbs s1 (current_running s1)) = KERNEL_MODE")
    case True
    then have "s' = s1" using step s1(1) by (simp add: irq_timer_def Let_def)
    then show ?thesis using s1(2-4) by (auto simp: ticks_def kernel_rep_def)
  next
    case False
    let ?s2 = "upd_pcb (current_running s1) (\<lambda>t. t\<lparr>mode := KERNEL_MODE\<rparr>) s1"
    obtain s3 where s3: "do_scheduler ?s2 = Some s3" "s' = upd_pcb (current_running s3) (\<lambda>t. t\<lparr>mode := USER_MODE\<rparr>) s3"
      using step s1(1) False by (auto simp: irq_timer_def Let_def split: Option.bind_splits)
    have "state_ok {} ?s2 B" using s1(2) by (simp add: state_ok_def)
    from schedule_switches [OF this s3(1)] obtain a' where a': "kernel_rep s3 a'" "switches a a'" using s1(4) by auto
    moreover have "kernel_rep s' a'" using a'(1) unfolding kernel_rep_def s3(2) by (simp add: state_ok_def)
    ultimately show ?thesis by (auto simp: ticks_def)
  qed
qed

interpretation ks: sync_kernel kernel_rep do_semaphore_down do_semaphore_up do_mutex_lock_acquire do_mutex_lock_release
  resume irq_timer
  by unfold_locales (erule (1) down_sim up_sim acquire_sim release_sim resume_sim timer_sim)+

section \<open>Runs keep the invariant\<close>

definition sys_inv :: "nat \<Rightarrow> mbox_sys \<Rightarrow> u8 list list \<Rightarrow> bool" where
  "sys_inv b \<sigma> st \<longleftrightarrow> b < length (mboxs \<sigma>) \<and> (\<exists>a. kernel_rep (kern \<sigma>) a \<and> mbox_inv b a (code \<sigma>) (mboxs \<sigma> ! b) st)"

lemma rep_running: "kernel_rep s a \<Longrightarrow> now a = current_running s"
  "kernel_rep s a \<Longrightarrow> in_user s \<longleftrightarrow> pend a (current_running s) = None"
  by (auto simp: kernel_rep_def sync_of_def in_user_def split: pending.splits)

lemma statement_inv:
  assumes I: "sys_inv b \<sigma> st" and u: "in_user (kern \<sigma>)"
    and step: "mbox_code b (code \<sigma> (current_running (kern \<sigma>))) \<sigma> = Some (es, \<sigma>')"
  shows "\<exists>st'. bounded_stack st es = Some st' \<and> sys_inv b \<sigma>' st'"
proof -
  obtain a where b: "b < length (mboxs \<sigma>)" and rep: "kernel_rep (kern \<sigma>) a" and inv: "mbox_inv b a (code \<sigma>) (mboxs \<sigma> ! b) st"
    using I by (auto simp: sys_inv_def)
  note now = rep_running(1) [OF rep]
  have pd: "pend a (now a) = None" using rep_running(2) [OF rep] u now by simp
  note K = ks.send_calls [OF rep inv pd] ks.recv_calls [OF rep inv pd]
    and M = advance_inv [OF inv _ pd] retreat_inv [OF inv _ pd] put_inv [OF inv _ pd] get_inv [OF inv _ pd]
  show ?thesis
  proof (cases "code \<sigma> (current_running (kern \<sigma>))")
    case Outside
    then show ?thesis using step I by simp
  next
    case (SendAcquire m)
    then show ?thesis using step b K(2) [of _ m] by (auto simp: go_on_def sys_inv_def now split: Option.bind_splits)
  next
    case (SendPtr m)
    then show ?thesis using step b rep M(1) by (auto simp: go_on_def sys_inv_def now upd_box_def)
  next
    case (SendCopy m)
    then show ?thesis using step b rep M(3,4) by (fastforce simp: go_on_def sys_inv_def now upd_box_def split: Option.bind_splits)
  next
    case SendRelease
    then show ?thesis using step b K(3) by (auto simp: go_on_def sys_inv_def now split: Option.bind_splits)
  next
    case SendUp
    then show ?thesis using step b K(4) by (auto simp: go_on_def sys_inv_def now split: Option.bind_splits)
  next
    case (RecvAcquire n)
    then show ?thesis using step b K(6) [of _ n] by (auto simp: go_on_def sys_inv_def now split: Option.bind_splits)
  next
    case (RecvCopy n)
    then show ?thesis using step b rep M(5) by (fastforce simp: go_on_def sys_inv_def now split: Option.bind_splits)
  next
    case RecvPtr
    then show ?thesis using step b rep M(2) by (auto simp: go_on_def sys_inv_def now upd_box_def)
  next
    case RecvRelease
    then show ?thesis using step b K(7) by (auto simp: go_on_def sys_inv_def now split: Option.bind_splits)
  next
    case RecvUp
    then show ?thesis using step b K(8) by (auto simp: go_on_def sys_inv_def now split: Option.bind_splits)
  qed
qed

lemma call_inv:
  assumes I: "sys_inv b \<sigma> st" and u: "in_user (kern \<sigma>)" "code \<sigma> (current_running (kern \<sigma>)) = Outside"
  shows "mbox_send b m \<sigma> = Some (es, \<sigma>') \<Longrightarrow> es = [] \<and> sys_inv b \<sigma>' st"
    and "mbox_recv b n \<sigma> = Some (es, \<sigma>') \<Longrightarrow> es = [] \<and> sys_inv b \<sigma>' st"
    and "other_call b (kern \<sigma>) s \<Longrightarrow> sys_inv b (\<sigma>\<lparr>kern := s\<rparr>) st"
proof -
  obtain a where b: "b < length (mboxs \<sigma>)" and rep: "kernel_rep (kern \<sigma>) a" and inv: "mbox_inv b a (code \<sigma>) (mboxs \<sigma> ! b) st"
    using I by (auto simp: sys_inv_def)
  note now = rep_running(1) [OF rep]
  have pd: "pend a (now a) = None" using rep_running(2) [OF rep] u(1) now by simp
  show "mbox_send b m \<sigma> = Some (es, \<sigma>') \<Longrightarrow> es = [] \<and> sys_inv b \<sigma>' st"
    using b u(2) ks.send_calls(1) [OF rep inv pd, of _ m] by (auto simp: mbox_send_def go_on_def sys_inv_def now split: Option.bind_splits)
  show "mbox_recv b n \<sigma> = Some (es, \<sigma>') \<Longrightarrow> es = [] \<and> sys_inv b \<sigma>' st"
    using b u(2) ks.recv_calls(1) [OF rep inv pd, of _ n] by (auto simp: mbox_recv_def go_on_def sys_inv_def now split: Option.bind_splits)
  show "other_call b (kern \<sigma>) s \<Longrightarrow> sys_inv b (\<sigma>\<lparr>kern := s\<rparr>) st"
    using b u(2) ks.other_steps(3,4) [OF rep inv] by (elim other_callE) (auto simp: sys_inv_def now)
qed

lemma step_inv:
  assumes "mbox_step b \<sigma> es \<sigma>'" and I: "sys_inv b \<sigma> st"
  shows "\<exists>st'. bounded_stack st es = Some st' \<and> sys_inv b \<sigma>' st'"
proof -
  obtain a where b: "b < length (mboxs \<sigma>)" and rep: "kernel_rep (kern \<sigma>) a" and inv: "mbox_inv b a (code \<sigma>) (mboxs \<sigma> ! b) st"
    using I by (auto simp: sys_inv_def)
  show ?thesis
    using assms(1)
  proof cases
    case (call_send m)
    then show ?thesis using call_inv(1) [OF I call_send] by auto
  next
    case (call_recv n)
    then show ?thesis using call_inv(2) [OF I call_recv] by auto
  next
    case statement
    then show ?thesis using statement_inv [OF I] by blast
  next
    case (woken s)
    then show ?thesis using b ks.other_steps(1) [OF rep inv] by (auto simp: sys_inv_def)
  next
    case (timer des0 s)
    then show ?thesis using b ks.other_steps(2) [OF rep inv] by (auto simp: sys_inv_def)
  next
    case (elsewhere s)
    then show ?thesis using call_inv(3) [OF I] by auto
  qed
qed

lemma bounded_stack_append: "bounded_stack st (es @ es') = Option.bind (bounded_stack st es) (\<lambda>st. bounded_stack st es')"
  by (induction st es rule: bounded_stack.induct) (auto split: list.splits)

lemma bounded_stack_length: "bounded_stack st es = Some st' \<Longrightarrow> length st \<le> 32 \<Longrightarrow> length st' \<le> 32"
  by (induction st es rule: bounded_stack.induct) (auto split: list.splits if_splits)

lemma run_inv: "mbox_run b \<sigma>0 es \<sigma> \<Longrightarrow> sys_inv b \<sigma>0 [] \<Longrightarrow> \<exists>st. bounded_stack [] es = Some st \<and> sys_inv b \<sigma> st"
proof (induction rule: mbox_run.induct)
  case run_start
  then show ?case by simp
next
  case (run_next es \<sigma> es' \<sigma>')
  then obtain st where st: "bounded_stack [] es = Some st" "sys_inv b \<sigma> st" by blast
  then show ?case using step_inv [OF run_next.hyps(2) st(2)] by (auto simp: bounded_stack_append)
qed

section \<open>A newly opened mailbox\<close>

text \<open>
  The state of an unused mailbox: nobody waits on its objects or is in the code, and its array has
  the size the type says.
\<close>

definition box_idle :: "nat \<Rightarrow> mbox_sys \<Rightarrow> bool" where
  "box_idle b \<sigma> \<longleftrightarrow> mbox_count (mboxs \<sigma> ! b) = 0 \<and>
     queue_is_empty (MutexQ (MboxLock b)) (kern \<sigma>) \<and> queue_is_empty (SemQ (MboxSend b)) (kern \<sigma>) \<and>
     queue_is_empty (SemQ (MboxRecv b)) (kern \<sigma>) \<and>
     (\<forall>p. resume_at (kern \<sigma>) p \<noteq> Acquire (MboxLock b)) \<and> (\<forall>p. code \<sigma> p = Outside) \<and>
     length (mbox_msg (mboxs \<sigma> ! b)) = 32 \<and> (\<forall>v \<in> set (mbox_msg (mboxs \<sigma> ! b)). length v = 32)"

lemma find_open_count: "find_open name xs i = Some (Some j) \<Longrightarrow> i \<le> j \<and> j < i + length xs \<and> 0 < mbox_count (xs ! (j - i))"
proof (induction name xs i rule: find_open.induct)
  case (2 name x xs i)
  obtain c where c: "strcmp name (mbox_name x) = Some c" using "2.prems" by (auto split: Option.bind_splits)
  show ?case
  proof (cases "c = 0 \<and> 0 < mbox_count x")
    case True
    then show ?thesis using "2.prems" c by simp
  next
    case False
    then have "find_open name xs (i + 1) = Some (Some j)" using "2.prems" c by (simp split: if_splits)
    from "2.IH" [OF c False this] have j: "i + 1 \<le> j" "j < i + 1 + length xs" "0 < mbox_count (xs ! (j - (i + 1)))" by auto
    then have "j - i = Suc (j - (i + 1))" by simp
    then show ?thesis using j by simp
  qed
qed simp

lemma open_new:
  assumes "mbox_open name \<sigma> = Some (b, \<sigma>')" and "mbox_count (mboxs \<sigma> ! b) = 0" and "length (mboxs \<sigma>) = 32"
  shows "b < 32" and "code \<sigma>' = code \<sigma>" and "length (mboxs \<sigma>') = 32" and "mbox_ptr (mboxs \<sigma>' ! b) = 0"
    and "mbox_msg (mboxs \<sigma>' ! b) = mbox_msg (mboxs \<sigma> ! b)"
    and "kern \<sigma>' = do_semaphore_init (MboxRecv b) 0 (do_semaphore_init (MboxSend b) 32 (do_mutex_lock_init (MboxLock b) (kern \<sigma>)))"
proof -
  have "find_open name (mboxs \<sigma>) 0 = Some None"
    using assms(1,2) find_open_count [of name "mboxs \<sigma>" 0] by (auto simp: mbox_open_def split: Option.bind_splits option.splits)
  then obtain nm where "scan_up (\<lambda>i. mbox_count (mboxs \<sigma> ! i) = 0) 32 0 = Some b" and
    \<sigma>': "\<sigma>' = upd_box b (\<lambda>x. x\<lparr>mbox_name := nm, mbox_count := mbox_count x + 1, mbox_ptr := 0\<rparr>)
      (\<sigma>\<lparr>kern := do_semaphore_init (MboxRecv b) 0 (do_semaphore_init (MboxSend b) 32 (do_mutex_lock_init (MboxLock b) (kern \<sigma>)))\<rparr>)"
    using assms(1) by (auto simp: mbox_open_def Let_def split: Option.bind_splits option.splits)
  from scan_up_Some [OF this(1)] show b: "b < 32" by simp
  show "code \<sigma>' = code \<sigma>" "length (mboxs \<sigma>') = 32" "mbox_ptr (mboxs \<sigma>' ! b) = 0"
    "mbox_msg (mboxs \<sigma>' ! b) = mbox_msg (mboxs \<sigma> ! b)"
    "kern \<sigma>' = do_semaphore_init (MboxRecv b) 0 (do_semaphore_init (MboxSend b) 32 (do_mutex_lock_init (MboxLock b) (kern \<sigma>)))"
    using b assms(3) by (simp_all add: \<sigma>' upd_box_def)
qed

lemma init_objects_ok:
  assumes ok: "state_ok {} s A" "running s"
  shows "A (MutexQ l) = [] \<Longrightarrow> state_ok {} (do_mutex_lock_init l s) A \<and> running (do_mutex_lock_init l s)"
    and "A (SemQ m) = [] \<Longrightarrow> state_ok {} (do_semaphore_init m v s) A \<and> running (do_semaphore_init m v s)"
proof -
  assume e: "A (MutexQ l) = []"
  have "state_ok {} (set_mutex l UNLOCKED s) A" "running (set_mutex l UNLOCKED s)"
    using ok e by (auto simp: state_ok_def sync_inv_def set_mutex_def running_def)
  from queue_init_state_ok [OF this(1) e this(2)] show "state_ok {} (do_mutex_lock_init l s) A \<and> running (do_mutex_lock_init l s)"
    by (simp add: do_mutex_lock_init_def)
next
  assume e: "A (SemQ m) = []"
  have "state_ok {} (set_sem m v s) A" "running (set_sem m v s)"
    using ok e by (auto simp: state_ok_def sync_inv_def set_sem_def running_def)
  from queue_init_state_ok [OF this(1) e this(2)] show "state_ok {} (do_semaphore_init m v s) A \<and> running (do_semaphore_init m v s)"
    by (simp add: do_semaphore_init_def)
qed

lemma number_outside: "\<not> P Outside \<Longrightarrow> number P (\<lambda>_. Outside) W = 0"
  by (simp add: number_def)

lemma init_values:
  "sem_value (do_semaphore_init m v s) = (sem_value s)(m := v)" "resume_at (do_semaphore_init m v s) = resume_at s"
  "sem_value (do_mutex_lock_init l s) = sem_value s" "resume_at (do_mutex_lock_init l s) = resume_at s"
  by (simp_all add: do_semaphore_init_def do_mutex_lock_init_def set_sem_def set_mutex_def queue_init_def upd_queue_def)

lemma open_inv:
  assumes ok: "sys_ok (kern \<sigma>)" and len: "length (mboxs \<sigma>) = 32" and open_b: "mbox_open name \<sigma> = Some (b, \<sigma>')"
    and idle: "box_idle b \<sigma>"
  shows "sys_inv b \<sigma>' []"
proof -
  obtain A where A: "state_ok {} (kern \<sigma>) A" "running (kern \<sigma>)" using ok by (rule sys_okE)
  have c0: "mbox_count (mboxs \<sigma> ! b) = 0" using idle by (simp add: box_idle_def)
  note N = open_new [OF open_b c0 len]
  note E = queue_is_empty_rep [OF state_okD(1) [OF A(1)]]
  have q: "A (MutexQ (MboxLock b)) = []" "A (SemQ (MboxSend b)) = []" "A (SemQ (MboxRecv b)) = []"
    using idle E by (simp_all add: box_idle_def)
  let ?s1 = "do_mutex_lock_init (MboxLock b) (kern \<sigma>)"
  have s1: "state_ok {} ?s1 A" "running ?s1" using init_objects_ok(1) [OF A q(1)] by simp_all
  let ?s2 = "do_semaphore_init (MboxSend b) 32 ?s1"
  have s2: "state_ok {} ?s2 A" "running ?s2" using init_objects_ok(2) [OF s1 q(2)] by simp_all
  have "state_ok {} (kern \<sigma>') A" "running (kern \<sigma>')" using init_objects_ok(2) [OF s2 q(3), of 0] by (simp_all add: N(6))
  then have rep: "kernel_rep (kern \<sigma>') (sync_of (kern \<sigma>') A)" by (auto simp: kernel_rep_def)
  define a where "a = sync_of (kern \<sigma>') A"
  have r: "resume_at (kern \<sigma>) p \<noteq> Acquire (MboxLock b)" for p using idle by (simp add: box_idle_def)
  have f: "val a (MboxSend b) = 32" "val a (MboxRecv b) = 0" "waits a (MboxSend b) = {}" "waits a (MboxRecv b) = {}"
    by (simp_all add: a_def sync_of_def N(6) init_values q)
  have g: "pend a p \<noteq> Some (MboxLock b)" for p using r [of p] by (auto simp: a_def sync_of_def N(6) init_values split: pending.splits)
  have o: "code \<sigma>' = (\<lambda>_. Outside)" using N(2) idle by (auto simp: box_idle_def)
  have "box_ok False (mboxs \<sigma>' ! b) []" using N(4,5) idle by (simp add: box_ok_def box_idle_def)
  then have "mbox_core b a (code \<sigma>') (mboxs \<sigma>' ! b) []"
    unfolding mbox_core_def o
    using f g number_outside by (simp add: places_ok_def few_def pend_ok_def lock_ok_def in_cs_def permits_ok_def moved_def)
  then have "mbox_inv b a (code \<sigma>') (mboxs \<sigma>' ! b) []" using kernel_rep_now [OF rep] by (simp add: mbox_inv_def a_def)
  then show ?thesis using rep N(1,3) unfolding sys_inv_def a_def by auto
qed

section \<open>A task alone with the mailbox\<close>

text \<open>The running task may call, and nobody holds or waits for an object of the mailbox.\<close>

definition free_box :: "nat \<Rightarrow> mbox_sys \<Rightarrow> bool" where
  "free_box b \<sigma> \<longleftrightarrow> in_user (kern \<sigma>) \<and> code \<sigma> (current_running (kern \<sigma>)) = Outside \<and>
     mutex_status (kern \<sigma>) (MboxLock b) = UNLOCKED \<and> queue_is_empty (MutexQ (MboxLock b)) (kern \<sigma>) \<and>
     queue_is_empty (SemQ (MboxSend b)) (kern \<sigma>) \<and> queue_is_empty (SemQ (MboxRecv b)) (kern \<sigma>)"

lemma locked_fields:
  "sem_value (take_lock l s) = sem_value s" "resume_at (take_lock l s) = resume_at s" "queues (take_lock l s) = queues s"
  "current_running (take_lock l s) = current_running s" "mutex_status (take_lock l s) = (mutex_status s)(l := LOCKED)"
  by (simp_all add: take_lock_def set_mutex_def Let_def upd_pcb_def split: option.splits)

lemma release_alone:
  assumes "mutex_status s l = LOCKED" and "head (queues s (MutexQ l)) = None"
  shows "do_mutex_lock_release l s = Some (set_mutex l UNLOCKED s)"
  using assms
  by (simp add: do_mutex_lock_release_def Let_def clear_waiters.simps set_mutex_def do_unblock_all.simps queue_is_empty_def)

lemma run_statement:
  assumes "mbox_run b \<sigma>0 es \<sigma>" and "in_user (kern \<sigma>)" and "mbox_code b c \<sigma> = Some (es', \<sigma>')"
    and "code \<sigma> (current_running (kern \<sigma>)) = c"
  shows "mbox_run b \<sigma>0 (es @ es') \<sigma>'"
  using assms by (auto intro: run_next statement)

lemma calls_alone:
  assumes k: "in_user k" "mutex_status k l = UNLOCKED" "queue_is_empty (MutexQ l) k" "queue_is_empty (SemQ m2) k"
    and m: "sem_value k m1 \<noteq> 0" "m1 \<noteq> m2"
  obtains k1 k2 k3 k4 where "do_semaphore_down m1 k = Some k1" and "do_mutex_lock_acquire l k1 = Some k2"
    and "do_mutex_lock_release l k2 = Some k3" and "do_semaphore_up m2 k3 = Some k4"
    and "\<forall>k' \<in> {k1, k2, k3, k4}. current_running k' = current_running k \<and> in_user k'"
    and "queues k4 = queues k \<and> mutex_status k4 l = UNLOCKED"
    and "sem_value k4 = (sem_value k)(m1 := sem_value k m1 - 1, m2 := sem_value k m2 + 1)"
proof -
  define k1 where "k1 = set_sem m1 (sem_value k m1 - 1) k"
  define k2 where "k2 = take_lock l k1"
  define k3 where "k3 = set_mutex l UNLOCKED k2"
  define k4 where "k4 = set_sem m2 (sem_value k3 m2 + 1) k3"
  note K = k1_def k2_def k3_def k4_def set_sem_def set_mutex_def locked_fields queue_is_empty_def
  show ?thesis
  proof
    show "do_semaphore_down m1 k = Some k1" "do_mutex_lock_acquire l k1 = Some k2" "do_mutex_lock_release l k2 = Some k3"
      "do_semaphore_up m2 k3 = Some k4"
      using k(2-4) m by (simp_all add: do_semaphore_down_def do_mutex_lock_acquire_def release_alone do_semaphore_up_def K)
    show "\<forall>k' \<in> {k1, k2, k3, k4}. current_running k' = current_running k \<and> in_user k'" using k(1) by (simp add: in_user_def K)
    show "queues k4 = queues k \<and> mutex_status k4 l = UNLOCKED" by (simp add: K)
    show "sem_value k4 = (sem_value k)(m1 := sem_value k m1 - 1, m2 := sem_value k m2 + 1)" using m(2) by (simp add: K fun_eq_iff)
  qed
qed

lemma send_alone:
  assumes f: "free_box b \<lparr>kern = k, mboxs = bs, code = cd\<rparr>" and v: "sem_value k (MboxSend b) \<noteq> 0" and b: "b < length bs"
    and x: "x1 = (bs ! b)\<lparr>mbox_ptr := (mbox_ptr (bs ! b) + 1) mod 32\<rparr>" and m: "put_msg m x1 = Some x2"
  shows "\<exists>s. mbox_run b \<lparr>kern = k, mboxs = bs, code = cd\<rparr> [Put m] \<lparr>kern = s, mboxs = bs[b := x2], code = cd\<rparr> \<and>
    free_box b \<lparr>kern = s, mboxs = bs[b := x2], code = cd\<rparr> \<and>
    sem_value s = (sem_value k)(MboxSend b := sem_value k (MboxSend b) - 1, MboxRecv b := sem_value k (MboxRecv b) + 1)"
proof -
  define p where "p = current_running k"
  note F = f [unfolded free_box_def, simplified, folded p_def]
  obtain k1 k2 k3 k4 where call: "do_semaphore_down (MboxSend b) k = Some k1" "do_mutex_lock_acquire (MboxLock b) k1 = Some k2"
    "do_mutex_lock_release (MboxLock b) k2 = Some k3" "do_semaphore_up (MboxRecv b) k3 = Some k4"
    and ctl: "\<forall>k' \<in> {k1, k2, k3, k4}. current_running k' = p \<and> in_user k'"
    and last: "queues k4 = queues k \<and> mutex_status k4 (MboxLock b) = UNLOCKED"
      "sem_value k4 = (sem_value k)(MboxSend b := sem_value k (MboxSend b) - 1, MboxRecv b := sem_value k (MboxRecv b) + 1)"
    using calls_alone [of k "MboxLock b" "MboxRecv b" "MboxSend b"] F v unfolding p_def by blast
  let ?\<sigma> = "\<lparr>kern = k, mboxs = bs, code = cd\<rparr>" and ?at = "\<lambda>c. cd(p := c)"
  note S = go_on_def upd_box_def call ctl [simplified] p_def [symmetric]
  have "mbox_send b m ?\<sigma> = Some ([], \<lparr>kern = k1, mboxs = bs, code = ?at (SendAcquire m)\<rparr>)" by (simp add: mbox_send_def S)
  then have r: "mbox_run b ?\<sigma> [] \<lparr>kern = k1, mboxs = bs, code = ?at (SendAcquire m)\<rparr>"
    using run_next [OF run_start call_send [of ?\<sigma> b m]] F p_def by simp
  from run_statement [OF r, of "SendAcquire m"] have r: "mbox_run b ?\<sigma> [] \<lparr>kern = k2, mboxs = bs, code = ?at (SendPtr m)\<rparr>"
    by (simp add: S)
  from run_statement [OF r, of "SendPtr m"] have r: "mbox_run b ?\<sigma> [] \<lparr>kern = k2, mboxs = bs[b := x1], code = ?at (SendCopy m)\<rparr>"
    by (simp add: S x)
  from run_statement [OF r, of "SendCopy m"]
  have r: "mbox_run b ?\<sigma> [Put m] \<lparr>kern = k2, mboxs = bs[b := x2], code = ?at SendRelease\<rparr>"
    using m b by (simp add: S)
  from run_statement [OF r, of SendRelease] have r: "mbox_run b ?\<sigma> [Put m] \<lparr>kern = k3, mboxs = bs[b := x2], code = ?at SendUp\<rparr>"
    by (simp add: S)
  have "?at Outside = cd" using F by auto
  with run_statement [OF r, of SendUp] have r: "mbox_run b ?\<sigma> [Put m] \<lparr>kern = k4, mboxs = bs[b := x2], code = cd\<rparr>"
    by (simp add: S)
  then show ?thesis using F last ctl by (intro exI [of _ k4]) (simp add: free_box_def queue_is_empty_def)
qed

lemma recv_alone:
  assumes f: "free_box b \<lparr>kern = k, mboxs = bs, code = cd\<rparr>" and v: "sem_value k (MboxRecv b) \<noteq> 0" and b: "b < length bs"
    and m: "get_msg n (bs ! b) = Some m" and x: "x = (bs ! b)\<lparr>mbox_ptr := (mbox_ptr (bs ! b) + 32 - 1) mod 32\<rparr>"
  shows "\<exists>s. mbox_run b \<lparr>kern = k, mboxs = bs, code = cd\<rparr> [Got m] \<lparr>kern = s, mboxs = bs[b := x], code = cd\<rparr> \<and>
    free_box b \<lparr>kern = s, mboxs = bs[b := x], code = cd\<rparr> \<and>
    sem_value s = (sem_value k)(MboxRecv b := sem_value k (MboxRecv b) - 1, MboxSend b := sem_value k (MboxSend b) + 1)"
proof -
  define p where "p = current_running k"
  note F = f [unfolded free_box_def, simplified, folded p_def]
  obtain k1 k2 k3 k4 where call: "do_semaphore_down (MboxRecv b) k = Some k1" "do_mutex_lock_acquire (MboxLock b) k1 = Some k2"
    "do_mutex_lock_release (MboxLock b) k2 = Some k3" "do_semaphore_up (MboxSend b) k3 = Some k4"
    and ctl: "\<forall>k' \<in> {k1, k2, k3, k4}. current_running k' = p \<and> in_user k'"
    and last: "queues k4 = queues k \<and> mutex_status k4 (MboxLock b) = UNLOCKED"
      "sem_value k4 = (sem_value k)(MboxRecv b := sem_value k (MboxRecv b) - 1, MboxSend b := sem_value k (MboxSend b) + 1)"
    using calls_alone [of k "MboxLock b" "MboxSend b" "MboxRecv b"] F v unfolding p_def by blast
  let ?\<sigma> = "\<lparr>kern = k, mboxs = bs, code = cd\<rparr>" and ?at = "\<lambda>c. cd(p := c)"
  note S = go_on_def upd_box_def call ctl [simplified] p_def [symmetric]
  have "mbox_recv b n ?\<sigma> = Some ([], \<lparr>kern = k1, mboxs = bs, code = ?at (RecvAcquire n)\<rparr>)" by (simp add: mbox_recv_def S)
  then have r: "mbox_run b ?\<sigma> [] \<lparr>kern = k1, mboxs = bs, code = ?at (RecvAcquire n)\<rparr>"
    using run_next [OF run_start call_recv [of ?\<sigma> b n]] F p_def by simp
  from run_statement [OF r, of "RecvAcquire n"] have r: "mbox_run b ?\<sigma> [] \<lparr>kern = k2, mboxs = bs, code = ?at (RecvCopy n)\<rparr>"
    by (simp add: S)
  from run_statement [OF r, of "RecvCopy n"] have r: "mbox_run b ?\<sigma> [Got m] \<lparr>kern = k2, mboxs = bs, code = ?at RecvPtr\<rparr>"
    by (simp add: S m)
  from run_statement [OF r, of RecvPtr] have r: "mbox_run b ?\<sigma> [Got m] \<lparr>kern = k2, mboxs = bs[b := x], code = ?at RecvRelease\<rparr>"
    by (simp add: S x)
  from run_statement [OF r, of RecvRelease] have r: "mbox_run b ?\<sigma> [Got m] \<lparr>kern = k3, mboxs = bs[b := x], code = ?at RecvUp\<rparr>"
    by (simp add: S)
  have "?at Outside = cd" using F by auto
  with run_statement [OF r, of RecvUp] have r: "mbox_run b ?\<sigma> [Got m] \<lparr>kern = k4, mboxs = bs[b := x], code = cd\<rparr>"
    by (simp add: S)
  then show ?thesis using F last ctl by (intro exI [of _ k4]) (simp add: free_box_def queue_is_empty_def)
qed

lemma run_trans: "mbox_run b \<sigma>1 es' \<sigma>2 \<Longrightarrow> mbox_run b \<sigma>0 es \<sigma>1 \<Longrightarrow> mbox_run b \<sigma>0 (es @ es') \<sigma>2"
proof (induction rule: mbox_run.induct)
  case (run_next es' \<sigma> es'' \<sigma>')
  then show ?case using mbox_run.run_next [OF _ run_next.hyps(2)] by fastforce
qed simp

lemma quiet_permits:
  assumes "sys_inv b \<sigma> st" and "\<forall>p. code \<sigma> p = Outside"
  shows "sem_value (kern \<sigma>) (MboxRecv b) = of_nat (length st)" "sem_value (kern \<sigma>) (MboxSend b) = of_nat (32 - length st)"
proof -
  obtain a where a: "kernel_rep (kern \<sigma>) a" "mbox_core b a (code \<sigma>) (mboxs \<sigma> ! b) st"
    using assms(1) by (auto simp: sys_inv_def mbox_inv_def)
  have v: "val a = sem_value (kern \<sigma>)" using a(1) by (auto simp: kernel_rep_def sync_of_def)
  have o: "code \<sigma> = (\<lambda>_. Outside)" using assms(2) by auto
  have "length st = unat (sem_value (kern \<sigma>) (MboxRecv b))" "32 - length st = unat (sem_value (kern \<sigma>) (MboxSend b))"
    using mbox_coreD(4) [OF a(2)] by (auto simp: o v permits_ok_def number_outside)
  then show "sem_value (kern \<sigma>) (MboxRecv b) = of_nat (length st)" "sem_value (kern \<sigma>) (MboxSend b) = of_nat (32 - length st)"
    by simp_all
qed

section \<open>Properties\<close>


text \<open>
  Claim C39. A send to a mailbox with room that nobody else is using, and a receive after it, return
  without blocking; the receiver gets the first bytes of the message, and the semaphores, the mutex and
  the position in the array are as before.
\<close>

theorem send_then_receive:
  assumes "free_box b \<sigma>" and "sem_value (kern \<sigma>) (MboxSend b) \<noteq> 0" and "sem_value (kern \<sigma>) (MboxRecv b) + 1 \<noteq> 0"
    and "b < length (mboxs \<sigma>)" and "0 \<le> mbox_ptr (mboxs \<sigma> ! b)" and "mbox_ptr (mboxs \<sigma> ! b) < 32"
    and "length (mbox_msg (mboxs \<sigma> ! b)) = 32" and "\<forall>v \<in> set (mbox_msg (mboxs \<sigma> ! b)). length v = 32"
    and "n \<le> length m" and "length m \<le> 32"
  shows "\<exists>\<tau>. mbox_run b \<sigma> [Put m, Got (take n m)] \<tau> \<and> free_box b \<tau> \<and> sem_value (kern \<tau>) = sem_value (kern \<sigma>) \<and>
    mbox_ptr (mboxs \<tau> ! b) = mbox_ptr (mboxs \<sigma> ! b)"
proof -
  define x0 where "x0 = mboxs \<sigma> ! b"
  define i where "i = nat ((mbox_ptr x0 + 1) mod 32)"
  define x1 where "x1 = x0\<lparr>mbox_ptr := (mbox_ptr x0 + 1) mod 32\<rparr>"
  define x2 where "x2 = x1\<lparr>mbox_msg := (mbox_msg x0)[i := m @ drop (length m) (mbox_msg x0 ! i)]\<rparr>"
  obtain k bs cd where \<sigma>: "\<sigma> = \<lparr>kern = k, mboxs = bs, code = cd\<rparr>" by (cases \<sigma>) auto
  have i: "i < 32" by (simp add: i_def nat_less_iff)
  then have old: "length (mbox_msg x0 ! i) = 32" "i < length (mbox_msg x0)" using assms(7,8) by (simp_all add: x0_def)
  have "put_msg m x1 = Some x2" using old assms(10) by (simp add: put_msg_def x1_def x2_def memcpy_eq i_def)
  from send_alone [of b k bs cd x1 m x2, OF _ _ _ _ this] obtain s1 where s1:
    "mbox_run b \<sigma> [Put m] \<lparr>kern = s1, mboxs = bs[b := x2], code = cd\<rparr>" "free_box b \<lparr>kern = s1, mboxs = bs[b := x2], code = cd\<rparr>"
    "sem_value s1 = (sem_value k)(MboxSend b := sem_value k (MboxSend b) - 1, MboxRecv b := sem_value k (MboxRecv b) + 1)"
    using assms(1,2,4) by (auto simp: \<sigma> x0_def x1_def)
  have "get_msg n x2 = Some (take n m)" using old assms(9,10) by (simp add: get_msg_def x2_def x1_def memcpy_eq flip: i_def)
  moreover have "bs[b := x2] ! b = x2" using assms(4) by (simp add: \<sigma>)
  ultimately obtain s2 where s2: "mbox_run b \<lparr>kern = s1, mboxs = bs[b := x2], code = cd\<rparr> [Got (take n m)]
      \<lparr>kern = s2, mboxs = bs[b := x2\<lparr>mbox_ptr := (mbox_ptr x2 + 32 - 1) mod 32\<rparr>], code = cd\<rparr>"
    "free_box b \<lparr>kern = s2, mboxs = bs[b := x2\<lparr>mbox_ptr := (mbox_ptr x2 + 32 - 1) mod 32\<rparr>], code = cd\<rparr>"
    "sem_value s2 = (sem_value s1)(MboxRecv b := sem_value s1 (MboxRecv b) - 1, MboxSend b := sem_value s1 (MboxSend b) + 1)"
    using recv_alone [OF s1(2) _ _ _ refl, of n "take n m"] s1(3) assms(3,4) by (auto simp: \<sigma>)
  have "sem_value s2 = sem_value k" using s1(3) s2(3) by (auto simp: fun_eq_iff)
  moreover have "(mbox_ptr x2 + 32 - 1) mod 32 = mbox_ptr x0"
    using assms(5,6) by (simp add: x2_def x1_def x0_def mod_simps)
  ultimately show ?thesis
    using run_trans [OF s2(1) s1(1)] s2(2) assms(4) by (intro exI conjI) (auto simp: \<sigma> x0_def)
qed

lemma example_run:
  obtains \<sigma> \<sigma>0 where "sys_ok (kern \<sigma>)" and "length (mboxs \<sigma>) = 32" and "mbox_open [97, 0] \<sigma> = Some (0, \<sigma>0)" and "box_idle 0 \<sigma>"
    and "free_box 0 \<sigma>0" and "sem_value (kern \<sigma>0) (MboxSend 0) = 32" and "sem_value (kern \<sigma>0) (MboxRecv 0) = 0"
    and "length (mboxs \<sigma>0) = 32" and "mbox_ptr (mboxs \<sigma>0 ! 0) = 0" and "mbox_msg (mboxs \<sigma>0 ! 0) = replicate 32 (replicate 32 0)"
proof -
  obtain s0 where s0: "state_ok {} s0 (\<lambda>_. [])" "running s0" using boot_state [of 2 1] by auto
  define s where "s = s0\<lparr>resume_at := (\<lambda>_. Return)\<rparr>"
  have ok: "state_ok {} s (\<lambda>_. [])" "running s" using s0 by (simp_all add: s_def state_ok_def sync_inv_def running_def)
  have e: "queue_is_empty q s" for q using queue_is_empty_rep [OF state_okD(1) [OF ok(1)]] by simp
  define x where "x = \<lparr>mbox_name = replicate 32 (0 :: u8), mbox_count = 0, mbox_ptr = 0, mbox_msg = replicate 32 (replicate 32 0)\<rparr>"
  define \<sigma> where "\<sigma> = \<lparr>kern = s, mboxs = replicate 32 x, code = (\<lambda>_. Outside)\<rparr>"
  have "replicate 32 (0 :: u8) = 0 # replicate 31 0" by (simp flip: replicate_Suc)
  then have "strcmp [97, 0] (mbox_name x) = Some 1" by (simp add: x_def)
  then have "find_open [97, 0] (replicate n x) i = Some None" for n i by (induction n arbitrary: i) (simp_all add: x_def)
  moreover have "scan_up (\<lambda>i. mbox_count (mboxs \<sigma> ! i) = 0) 32 0 = Some 0" by (subst scan_up.simps) (simp add: \<sigma>_def x_def)
  ultimately obtain \<sigma>0 where o: "mbox_open [97, 0] \<sigma> = Some (0, \<sigma>0)"
    by (auto simp: mbox_open_def \<sigma>_def x_def memcpy_eq Let_def)
  have c0: "mbox_count (mboxs \<sigma> ! 0) = 0" and l: "length (mboxs \<sigma>) = 32" by (simp_all add: \<sigma>_def x_def)
  note N = open_new [OF o c0 l]
  show ?thesis
  proof (rule that [OF _ l o])
    show "sys_ok (kern \<sigma>)" using sys_okI [OF ok] by (simp add: \<sigma>_def)
    show "box_idle 0 \<sigma>" using e by (simp add: box_idle_def \<sigma>_def x_def s_def)
    show "sem_value (kern \<sigma>0) (MboxSend 0) = 32" "sem_value (kern \<sigma>0) (MboxRecv 0) = 0" by (simp_all add: N(6) init_values)
    show "length (mboxs \<sigma>0) = 32" "mbox_ptr (mboxs \<sigma>0 ! 0) = 0" by (rule N(3), rule N(4))
    show "mbox_msg (mboxs \<sigma>0 ! 0) = replicate 32 (replicate 32 0)" by (simp add: N(5)) (simp add: \<sigma>_def x_def)
    show "free_box 0 \<sigma>0"
      using e by (simp add: free_box_def N(2,6) in_user_def init_values)
        (simp add: \<sigma>_def s_def do_semaphore_init_def do_mutex_lock_init_def set_sem_def set_mutex_def queue_init_def upd_queue_def
          queue_is_empty_def)
  qed
qed

theorem send_then_receive_witness:
  "\<exists>\<sigma> \<tau>. free_box 0 \<sigma> \<and> mbox_run 0 \<sigma> [Put [1, 2, 3], Got [1, 2]] \<tau> \<and> free_box 0 \<tau>"
proof -
  obtain \<sigma> where s: "free_box 0 \<sigma>" "sem_value (kern \<sigma>) (MboxSend 0) = 32" "sem_value (kern \<sigma>) (MboxRecv 0) = 0"
    "length (mboxs \<sigma>) = 32" "mbox_ptr (mboxs \<sigma> ! 0) = 0" "mbox_msg (mboxs \<sigma> ! 0) = replicate 32 (replicate 32 0)"
    using example_run by metis
  have "sem_value (kern \<sigma>) (MboxSend 0) \<noteq> 0" "sem_value (kern \<sigma>) (MboxRecv 0) + 1 \<noteq> 0" using s(2,3) by simp_all
  from send_then_receive [OF s(1) this, of 2 "[1, 2, 3]"] show ?thesis using s(1,4-6) by auto
qed


end
