(* ===== verification/Printk.thy ===== *)
theory Printk
  imports CString
begin

text \<open>
  Formatted output, \<^verbatim>\<open>libs/printk.c\<close>, and the two routines of \<^verbatim>\<open>arch/mips/pmon/common.c\<close> it ends in.

  A pointer into a C object is the list of the bytes from the pointed-to byte on, as in the
  string library. The variable argument list is a list of machine words and strings; taking an
  argument that is missing or of the other kind is a failure. The local arrays \<^verbatim>\<open>buff\<close> and \<^verbatim>\<open>bf\<close> of
  the C code are not initialised: the formatter takes both as arguments, and its lemmas hold
  for all of their contents.

  The routines of the ROM that put characters on the serial line are outside the sources: the
  model records the calls, in order, with their arguments.
\<close>

section \<open>Calls of the ROM\<close>

datatype port_event = Printch u8 | Printstr "u8 list"

definition port_write_ch :: "u8 \<Rightarrow> port_event list \<Rightarrow> port_event list" where
  "port_write_ch ch out = out @ [Printch ch]"

definition port_write :: "u8 list \<Rightarrow> port_event list \<Rightarrow> port_event list" where
  "port_write str out = out @ [Printstr str]"

text \<open>What the calls put on the line: a character, or the characters before the first NUL.\<close>

definition event_bytes :: "port_event \<Rightarrow> u8 list" where
  "event_bytes e = (case e of Printch c \<Rightarrow> [c] | Printstr s \<Rightarrow> takeWhile (\<lambda>c. c \<noteq> 0) s)"

definition line_bytes :: "port_event list \<Rightarrow> u8 list" where
  "line_bytes es = concat (map event_bytes es)"

section \<open>Numbers\<close>

fun mini_strlen :: "u8 list \<Rightarrow> nat option" where
  "mini_strlen [] = None"
| "mini_strlen (c # s) = (if c \<noteq> 0 then map_option Suc (mini_strlen s) else Some 0)"

text \<open>The \<^verbatim>\<open>do\<close> loop of \<^verbatim>\<open>mini_itoa\<close>: the digits from the last to the first, from position \<open>p\<close> on.\<close>

definition mini_digit :: "bool \<Rightarrow> u32 \<Rightarrow> u8" where
  "mini_digit uppercase digit =
     (if digit < 10 then 48 + ucast digit else (if uppercase then 65 else 97) + ucast digit - 10)"

function mini_digits :: "u32 \<Rightarrow> u32 \<Rightarrow> bool \<Rightarrow> u8 list \<Rightarrow> nat \<Rightarrow> (u8 list \<times> nat) option" where
  "mini_digits value radix uppercase buffer p = (if radix = 0 then None else do {
     buffer \<leftarrow> store buffer p (mini_digit uppercase (value mod radix));
     if 0 <s value div radix then mini_digits (value div radix) radix uppercase buffer (p + 1)
     else Some (buffer, p + 1)
   })"
  by pat_completeness auto
termination
  by (relation "measure (\<lambda>(_, _, _, buffer, p). length buffer - p)") (auto simp: store_def split: if_splits)

function mini_pad :: "nat \<Rightarrow> u8 list \<Rightarrow> nat \<Rightarrow> (u8 list \<times> nat) option" where
  "mini_pad zero_pad buffer p =
     (if p < zero_pad then do { buffer \<leftarrow> store buffer p 48; mini_pad zero_pad buffer (p + 1) }
      else Some (buffer, p))"
  by pat_completeness auto
termination
  by (relation "measure (\<lambda>(z, _, p). z - p)") auto

function mini_reverse :: "nat \<Rightarrow> nat \<Rightarrow> u8 list \<Rightarrow> u8 list option" where
  "mini_reverse len i buffer =
     (if i < len div 2 then do {
        j \<leftarrow> load buffer i;
        k \<leftarrow> load buffer (len - i - 1);
        buffer \<leftarrow> store buffer i k;
        buffer \<leftarrow> store buffer (len - i - 1) j;
        mini_reverse len (i + 1) buffer
      } else Some buffer)"
  by pat_completeness auto
termination
  by (relation "measure (\<lambda>(len, i, _). len div 2 - i)") auto

declare mini_digits.simps [simp del] mini_pad.simps [simp del] mini_reverse.simps [simp del]

definition mini_itoa :: "u32 \<Rightarrow> u32 \<Rightarrow> bool \<Rightarrow> bool \<Rightarrow> u8 list \<Rightarrow> nat \<Rightarrow> (u8 list \<times> nat) option" where
  "mini_itoa value radix uppercase unsig buffer zero_pad =
     (if 16 < radix then Some (buffer, 0) else do {
        let negative = (value <s 0 \<and> \<not> unsig);
        let value = (if negative then - value else value);
        (buffer, p) \<leftarrow> mini_digits value radix uppercase buffer 0;
        (buffer, p) \<leftarrow> mini_pad zero_pad buffer p;
        (buffer, p) \<leftarrow> if negative then map_option (\<lambda>b. (b, p + 1)) (store buffer p 45) else Some (buffer, p);
        buffer \<leftarrow> store buffer p 0;
        buffer \<leftarrow> mini_reverse p 0 buffer;
        Some (buffer, p)
      })"

section \<open>The output buffer\<close>

record mini_buff =
  buffer :: "u8 list"
  pbuffer :: nat
  buffer_len :: u32

definition mini_full :: "mini_buff \<Rightarrow> bool" where
  "mini_full b \<longleftrightarrow> buffer_len b \<le> of_nat (pbuffer b) + 1"

definition mini_putc :: "u8 \<Rightarrow> mini_buff \<Rightarrow> mini_buff option" where
  "mini_putc ch b = (if mini_full b then Some b else do {
     s \<leftarrow> store (buffer b) (pbuffer b) ch;
     s \<leftarrow> store s (pbuffer b + 1) 0;
     Some (b\<lparr>buffer := s, pbuffer := pbuffer b + 1\<rparr>)
   })"

fun mini_copy :: "u8 list \<Rightarrow> nat \<Rightarrow> mini_buff \<Rightarrow> mini_buff option" where
  "mini_copy s 0 b = Some b"
| "mini_copy [] (Suc n) b = None"
| "mini_copy (c # s) (Suc n) b = do {
     t \<leftarrow> store (buffer b) (pbuffer b) c;
     mini_copy s n (b\<lparr>buffer := t, pbuffer := pbuffer b + 1\<rparr>)
   }"

definition mini_puts :: "u8 list \<Rightarrow> nat \<Rightarrow> mini_buff \<Rightarrow> mini_buff option" where
  "mini_puts s len b = do {
     let room = unat (buffer_len b - of_nat (pbuffer b) - 1);
     let len = (if room < len then room else len);
     b \<leftarrow> mini_copy s len b;
     t \<leftarrow> store (buffer b) (pbuffer b) 0;
     Some (b\<lparr>buffer := t\<rparr>)
   }"

section \<open>The formatter\<close>

datatype va_item = VInt u32 | VStr "u8 list"

definition next_ch :: "u8 list \<Rightarrow> (u8 \<times> u8 list) option" where
  "next_ch fmt = (case fmt of [] \<Rightarrow> None | ch # fmt \<Rightarrow> Some (ch, fmt))"

text \<open>After \<^verbatim>\<open>%\<close>: the conversion character, the padding and the rest; the inner \<open>None\<close> is \<^verbatim>\<open>goto end\<close>.\<close>

definition conversion :: "u8 list \<Rightarrow> (u8 \<times> nat \<times> u8 list) option option" where
  "conversion fmt = do {
     (ch, fmt) \<leftarrow> next_ch fmt;
     if ch = 48 then do {
       (ch, fmt) \<leftarrow> next_ch fmt;
       if ch = 0 then Some None else do {
         let zero_pad = (if 48 \<le> ch \<and> ch \<le> 57 then unat (ch - 48) else 0);
         (ch, fmt) \<leftarrow> next_ch fmt;
         Some (if ch = 0 then None else Some (ch, zero_pad, fmt))
       }
     } else Some (if ch = 0 then None else Some (ch, 0, fmt))
   }"

definition convert :: "u8 \<Rightarrow> nat \<Rightarrow> va_item list \<Rightarrow> u8 list \<Rightarrow> mini_buff \<Rightarrow> (va_item list \<times> u8 list \<times> mini_buff) option" where
  "convert ch zero_pad va bf b =
     (if ch = 117 \<or> ch = 100 then (case va of VInt v # va \<Rightarrow> do {
          (bf, len) \<leftarrow> mini_itoa v 10 False (ch = 117) bf zero_pad;
          b \<leftarrow> mini_puts bf len b;
          Some (va, bf, b) } | _ \<Rightarrow> None)
      else if ch = 120 \<or> ch = 88 then (case va of VInt v # va \<Rightarrow> do {
          (bf, len) \<leftarrow> mini_itoa v 16 (ch = 88) True bf zero_pad;
          b \<leftarrow> mini_puts bf len b;
          Some (va, bf, b) } | _ \<Rightarrow> None)
      else if ch = 99 then (case va of VInt v # va \<Rightarrow> do {
          b \<leftarrow> mini_putc (ucast v) b;
          Some (va, bf, b) } | _ \<Rightarrow> None)
      else if ch = 115 then (case va of VStr s # va \<Rightarrow> do {
          len \<leftarrow> mini_strlen s;
          b \<leftarrow> mini_puts s len b;
          Some (va, bf, b) } | _ \<Rightarrow> None)
      else do {
          b \<leftarrow> mini_putc ch b;
          Some (va, bf, b) })"

lemma conversion_shorter:
  "conversion fmt = Some (Some (ch, z, fmt')) \<Longrightarrow> length fmt' < length fmt"
  by (auto simp: conversion_def next_ch_def Let_def split: list.splits if_splits)

lemma next_ch_Some: "next_ch fmt = Some (c, r) \<longleftrightarrow> fmt = c # r"
  by (auto simp: next_ch_def split: list.splits)

function mini_format :: "u8 list \<Rightarrow> va_item list \<Rightarrow> u8 list \<Rightarrow> mini_buff \<Rightarrow> mini_buff option" where
  "mini_format fmt va bf b = do {
     (ch, fmt) \<leftarrow> next_ch fmt;
     if ch = 0 then Some b
     else if mini_full b then Some b
     else if ch \<noteq> 37 then do { b \<leftarrow> mini_putc ch b; mini_format fmt va bf b }
     else do {
       c \<leftarrow> conversion fmt;
       case c of None \<Rightarrow> Some b
       | Some (ch, zero_pad, fmt) \<Rightarrow> do {
           (va, bf, b) \<leftarrow> convert ch zero_pad va bf b;
           mini_format fmt va bf b
         }
     }
   }"
  by pat_completeness auto
termination
  by (relation "measure (\<lambda>(fmt, _). length fmt)")
    (auto simp: next_ch_Some dest!: conversion_shorter)

declare mini_format.simps [simp del]

definition mini_vsnprintf :: "u8 list \<Rightarrow> u32 \<Rightarrow> u8 list \<Rightarrow> va_item list \<Rightarrow> u8 list \<Rightarrow> (u8 list \<times> nat) option" where
  "mini_vsnprintf buf len fmt va bf = do {
     b \<leftarrow> mini_format fmt va bf \<lparr>buffer = buf, pbuffer = 0, buffer_len = len\<rparr>;
     Some (buffer b, pbuffer b)
   }"

text \<open>\<^verbatim>\<open>printk\<close> and \<^verbatim>\<open>printf\<close>, with the local arrays filled with zeros at entry.\<close>

definition format_256 :: "u8 list \<Rightarrow> va_item list \<Rightarrow> (u8 list \<times> nat) option" where
  "format_256 fmt va = do {
     (buff, ret) \<leftarrow> mini_vsnprintf (replicate 256 0) 256 fmt va (replicate 24 0);
     buff \<leftarrow> store buff ret 0;
     Some (buff, ret)
   }"

definition printk :: "u8 list \<Rightarrow> va_item list \<Rightarrow> port_event list \<Rightarrow> (nat \<times> port_event list) option" where
  "printk fmt va out = do {
     (buff, ret) \<leftarrow> format_256 fmt va;
     Some (ret, port_write buff out)
   }"

definition printf :: "(u8 list \<Rightarrow> 's \<Rightarrow> 's option) \<Rightarrow> u8 list \<Rightarrow> va_item list \<Rightarrow> 's \<Rightarrow> (nat \<times> 's) option" where
  "printf sys_write fmt va s = do {
     (buff, ret) \<leftarrow> format_256 fmt va;
     s \<leftarrow> sys_write buff s;
     Some (ret, s)
   }"


section \<open>The text of a number\<close>

definition upper :: "bool \<Rightarrow> u8 \<Rightarrow> u8" where
  "upper up c = (if up \<and> 97 \<le> c then c - 32 else c)"

text \<open>The reference: a sign, zeros up to the width, the digits in the base.\<close>

definition num_text :: "bool \<Rightarrow> nat \<Rightarrow> nat \<Rightarrow> nat \<Rightarrow> u8 list" where
  "num_text up b z n = replicate (z - length (num_str b n)) 48 @ map (upper up) (num_str b n)"

definition int_text :: "u32 \<Rightarrow> bool \<Rightarrow> bool \<Rightarrow> nat \<Rightarrow> nat \<Rightarrow> u8 list" where
  "int_text v up unsig b z =
     (if v <s 0 \<and> \<not> unsig then 45 # num_text up b z (unat (- v)) else num_text up b z (unat v))"

lemma mini_digit_upper:
  assumes "d < 16"
  shows "mini_digit up (of_nat d) = upper up (digit_char (of_nat d))"
proof -
  have "d \<in> set [0..<16]" using assms by simp
  then show ?thesis unfolding digit_char_def mini_digit_def upper_def by (cases up) (auto simp: upt_conv_Cons)
qed

lemma sless_0_small: "unat (w :: u32) < 2 ^ 31 \<Longrightarrow> 0 <s w \<longleftrightarrow> 0 < w"
proof -
  assume a: "unat w < 2 ^ 31"
  have "int (unat w) < int (2 ^ 31)" using a by (simp only: of_nat_less_iff)
  then have u: "uint w < 2 ^ 31" by simp
  have "0 \<le> uint w" by simp
  then have "- (2 ^ 31) \<le> uint w" by (rule order_trans [rotated]) simp
  then have "sint w = uint w" unfolding sint_uint by (intro signed_take_bit_int_eq_self) (use u in simp_all)
  then show ?thesis by (simp add: word_sless_alt word_less_def)
qed

lemma quotient_positive:
  assumes "2 \<le> (r :: u32)"
  shows "0 <s v div r \<longleftrightarrow> r \<le> v"
proof -
  have r: "2 \<le> unat r" using assms by (simp add: word_le_nat_alt)
  have "unat v < 2 ^ LENGTH(32)" by (rule unsigned_less)
  then have "unat v div 2 < 2 ^ 31" by simp
  moreover have "unat v div unat r \<le> unat v div 2" using r by (simp add: div_le_mono2)
  ultimately have "unat (v div r) < 2 ^ 31" by (simp add: unat_div)
  moreover have "0 < r" using r by (simp add: word_less_nat_alt)
  ultimately show ?thesis by (simp add: sless_0_small div_gt_0_iff)
qed

lemma mini_digits_eq:
  assumes "2 \<le> r" "r \<le> 16" "p + length (num_str (unat r) (unat v)) \<le> length buf"
  shows "mini_digits v r up buf p = Some (take p buf @ rev (map (upper up) (num_str (unat r) (unat v))) @
     drop (p + length (num_str (unat r) (unat v))) buf, p + length (num_str (unat r) (unat v)))"
  using assms
proof (induction v r up buf p rule: mini_digits.induct)
  case (1 v r up buf p)
  have r: "r \<noteq> 0" "2 \<le> unat r" "unat r \<le> 16" using 1(2,3) by (auto simp: word_le_nat_alt)
  define x where "x = upper up (digit_char (of_nat (unat v mod unat r)))"
  have "v mod r = of_nat (unat v mod unat r)" by (simp add: word_arith_nat_mod)
  moreover have "unat v mod unat r < 16" using r mod_less_divisor [of "unat r" "unat v"] by linarith
  ultimately have x: "mini_digit up (v mod r) = x" by (simp add: x_def mini_digit_upper)
  have p: "p < length buf" using "1.prems"(3) by (subst (asm) num_str.simps) (auto split: if_splits)
  show ?case
  proof (cases "r \<le> v")
    case True
    then have "unat r \<le> unat v" by (simp add: word_le_nat_alt)
    then have ns: "map (upper up) (num_str (unat r) (unat v)) = map (upper up) (num_str (unat r) (unat (v div r))) @ [x]"
      "length (num_str (unat r) (unat v)) = Suc (length (num_str (unat r) (unat (v div r))))"
      using num_str_step [OF r(2)] by (simp_all add: x_def unat_div)
    have "mini_digits (v div r) r up (buf[p := x]) (p + 1) = Some (take (p + 1) (buf[p := x]) @
        rev (map (upper up) (num_str (unat r) (unat (v div r)))) @
        drop (p + 1 + length (num_str (unat r) (unat (v div r)))) (buf[p := x]),
        p + 1 + length (num_str (unat r) (unat (v div r))))"
      using "1.prems" True r(1) x p quotient_positive [OF 1(2)] by (intro "1.IH") (simp_all add: ns)
    then show ?thesis
      using True p r(1) x quotient_positive [OF 1(2)]
      by (subst mini_digits.simps) (simp add: ns take_Suc_conv_app_nth)
  next
    case False
    then have "unat v < unat r" by (simp add: word_le_nat_alt)
    then have ns: "map (upper up) (num_str (unat r) (unat v)) = [x]" "length (num_str (unat r) (unat v)) = 1"
      using num_str_last [of "unat v" "unat r"] by (simp_all add: x_def)
    show ?thesis
      using False p r(1) x quotient_positive [OF 1(2)]
      by (subst mini_digits.simps) (simp add: ns upd_conv_take_nth_drop)
  qed
qed

lemma mini_pad_eq:
  "max z p \<le> length buf \<Longrightarrow> mini_pad z buf p = Some (take p buf @ replicate (z - p) 48 @ drop (max z p) buf, max z p)"
proof (induction z buf p rule: mini_pad.induct)
  case (1 z buf p)
  show ?case
  proof (cases "p < z")
    case True
    then have "z - p = Suc (z - Suc p)" "max z p = z" "max z (Suc p) = z" by simp_all
    then show ?thesis using 1 True
      by (subst mini_pad.simps) (simp add: take_Suc_conv_app_nth)
  next
    case False
    then show ?thesis by (subst mini_pad.simps) (simp add: max_def)
  qed
qed

lemma mini_reverse_eq:
  "0 < len \<Longrightarrow> i < len \<Longrightarrow> mini_reverse len i buf = reverse_loop buf i (len - i - 1)"
proof (induction len i buf rule: mini_reverse.induct)
  case (1 len i buf)
  have lt: "i < len div 2 \<longleftrightarrow> i < len - i - 1" using "1.prems" by linarith
  show ?case
  proof (cases "i < len div 2")
    case True
    then have "i + 1 < len" "len - (i + 1) - 1 = len - i - 1 - 1" by linarith+
    then show ?thesis
      using True lt "1.IH" [OF True]
      by (subst mini_reverse.simps, subst reverse_loop.simps) (simp add: load_def store_def)
  next
    case False
    then show ?thesis using lt by (subst mini_reverse.simps, subst reverse_loop.simps) simp
  qed
qed


lemma num_str_length_word: "10 \<le> b \<Longrightarrow> length (num_str b (unat (v :: u32))) \<le> 10"
proof -
  assume b: "10 \<le> b"
  have "unat v < 2 ^ LENGTH(32)" by (rule unsigned_less)
  then have "unat v < 10 ^ 10" by simp
  also have "(10 :: nat) ^ 10 \<le> b ^ 10" using b by (rule power_mono) simp
  finally show ?thesis using b by (intro num_str_length) auto
qed

lemma num_text_length: "10 \<le> b \<Longrightarrow> z \<le> 9 \<Longrightarrow> length (num_text up b z (unat (v :: u32))) \<le> 10"
  using num_str_length_word [of b v] by (simp add: num_text_def)

lemma int_text_length: "10 \<le> b \<Longrightarrow> z \<le> 9 \<Longrightarrow> length (int_text v up unsig b z) \<le> 11"
  using num_text_length [of b z up v] num_text_length [of b z up "- v"] by (simp add: int_text_def)

lemma mini_itoa_eq:
  fixes v :: u32 and up unsig :: bool
  assumes "10 \<le> r" "r \<le> 16" "z \<le> 9" "12 \<le> length buf"
  defines "t \<equiv> int_text v up unsig (unat r) z"
  shows "\<exists>buf'. mini_itoa v r up unsig buf z = Some (buf', length t) \<and> take (length t) buf' = t \<and>
    length buf' = length buf \<and> length t < length buf"
proof -
  define neg where "neg \<longleftrightarrow> v <s 0 \<and> \<not> unsig"
  define w where "w = (if neg then - v else v)"
  define ds where "ds = map (upper up) (num_str (unat r) (unat w))"
  define pad :: "u8 list" where "pad = replicate (z - length ds) 48"
  have r: "10 \<le> unat r" "2 \<le> r" using assms(1) by (auto simp: word_le_nat_alt)
  have len: "length (num_str (unat r) (unat w)) = length ds" by (simp add: ds_def)
  have ds: "length ds \<le> 10" using num_str_length_word [OF r(1), of w] by (simp add: len)
  have t: "t = (if neg then [45] else []) @ pad @ ds"
    by (simp add: t_def int_text_def neg_def num_text_def w_def pad_def ds_def)
  define p where "p = max z (length ds)"
  have p: "p = length (pad @ ds)" "p \<le> 10" using ds assms(3) by (simp_all add: p_def pad_def max_def)
  have 1: "mini_digits w r up buf 0 = Some (rev ds @ drop (length ds) buf, length ds)"
    using mini_digits_eq [OF r(2) assms(2), of 0 w buf up] ds assms(4) by (simp add: len ds_def [symmetric])
  have 2: "mini_pad z (rev ds @ drop (length ds) buf) (length ds) = Some (rev ds @ rev pad @ drop p buf, p)"
    using ds assms(3,4) by (subst mini_pad_eq) (simp_all add: p_def pad_def max_def)
  let ?b = "rev t @ drop (length t) buf"
  have lt: "length t = p + (if neg then 1 else 0)" by (simp add: t p(1))
  have 3: "(if neg then map_option (\<lambda>b. (b, p + 1)) (store (rev ds @ rev pad @ drop p buf) p 45)
      else Some (rev ds @ rev pad @ drop p buf, p)) = Some (?b, length t)"
  proof (cases neg)
    case True
    have "drop p buf = buf ! p # drop (Suc p) buf" using p(2) assms(4) by (simp add: Cons_nth_drop_Suc)
    then show ?thesis using True p assms(4) by (simp add: lt) (simp add: t list_update_append)
  qed (simp add: t p(1))
  have "length t < length buf" using lt p(2) assms(4) by simp
  then have d: "drop (length t) buf = buf ! length t # drop (Suc (length t)) buf" by (simp add: Cons_nth_drop_Suc)
  have 4: "store ?b (length t) 0 = Some (rev t @ 0 # drop (Suc (length t)) buf)"
    unfolding d by (simp add: list_update_append)
  have "ds \<noteq> []" unfolding ds_def by (subst num_str.simps) simp
  then have "0 < length t" by (simp add: t)
  then have 5: "mini_reverse (length t) 0 (rev t @ 0 # drop (Suc (length t)) buf) = Some (t @ 0 # drop (Suc (length t)) buf)"
    using reverse_loop_spec [of "[]" "rev t" "0 # drop (Suc (length t)) buf"] by (simp add: mini_reverse_eq)
  have "\<not> 16 < r" using assms(2) by simp
  then have "mini_itoa v r up unsig buf z = Some (t @ 0 # drop (Suc (length t)) buf, length t)"
    unfolding mini_itoa_def Let_def neg_def [symmetric] w_def [symmetric] using 1 2 3 4 5 by simp
  then show ?thesis using \<open>length t < length buf\<close> by simp
qed


section \<open>The text of a format\<close>

definition conversion_text :: "u8 \<Rightarrow> nat \<Rightarrow> va_item list \<Rightarrow> (u8 list \<times> va_item list) option" where
  "conversion_text ch z va =
     (if ch = 117 \<or> ch = 100 then (case va of VInt v # va \<Rightarrow> Some (int_text v False (ch = 117) 10 z, va) | _ \<Rightarrow> None)
      else if ch = 120 \<or> ch = 88 then (case va of VInt v # va \<Rightarrow> Some (int_text v (ch = 88) True 16 z, va) | _ \<Rightarrow> None)
      else if ch = 99 then (case va of VInt v # va \<Rightarrow> Some ([ucast v], va) | _ \<Rightarrow> None)
      else if ch = 115 then (case va of VStr s # va \<Rightarrow>
          if 0 \<in> set s then Some (takeWhile (\<lambda>c. c \<noteq> 0) s, va) else None | _ \<Rightarrow> None)
      else Some ([ch], va))"

text \<open>The reference: the text that the format and the arguments describe, of whatever length.\<close>

function format_text :: "u8 list \<Rightarrow> va_item list \<Rightarrow> u8 list option" where
  "format_text fmt va = do {
     (ch, fmt) \<leftarrow> next_ch fmt;
     if ch = 0 then Some []
     else if ch \<noteq> 37 then map_option ((#) ch) (format_text fmt va)
     else do {
       c \<leftarrow> conversion fmt;
       case c of None \<Rightarrow> Some []
       | Some (ch, z, fmt) \<Rightarrow> do {
           (t, va) \<leftarrow> conversion_text ch z va;
           map_option ((@) t) (format_text fmt va)
         }
     }
   }"
  by pat_completeness auto
termination
  by (relation "measure (\<lambda>(fmt, _). length fmt)")
    (auto simp: next_ch_Some dest!: conversion_shorter)

declare format_text.simps [simp del]

section \<open>What is written\<close>

definition buff_ok :: "mini_buff \<Rightarrow> bool" where
  "buff_ok b \<longleftrightarrow> pbuffer b < unat (buffer_len b) \<and> unat (buffer_len b) \<le> length (buffer b)"

definition room :: "mini_buff \<Rightarrow> nat" where
  "room b = unat (buffer_len b) - 1 - pbuffer b"

definition wrote :: "mini_buff \<Rightarrow> u8 list \<Rightarrow> mini_buff \<Rightarrow> bool" where
  "wrote b t b' \<longleftrightarrow> buff_ok b' \<and> buffer_len b' = buffer_len b \<and>
     length (buffer b') = length (buffer b) \<and> pbuffer b' = pbuffer b + length (take (room b) t) \<and>
     take (pbuffer b') (buffer b') = take (pbuffer b) (buffer b) @ take (room b) t \<and>
     drop (unat (buffer_len b)) (buffer b') = drop (unat (buffer_len b)) (buffer b)"

lemma wroteD:
  assumes "wrote b t b'"
  shows "buff_ok b'" "buffer_len b' = buffer_len b" "length (buffer b') = length (buffer b)"
    "pbuffer b' = pbuffer b + length (take (room b) t)"
    "take (pbuffer b') (buffer b') = take (pbuffer b) (buffer b) @ take (room b) t"
    "drop (unat (buffer_len b)) (buffer b') = drop (unat (buffer_len b)) (buffer b)"
  using assms unfolding wrote_def by blast+

lemma wrote_trans:
  assumes "wrote b t b1" "wrote b1 u b2"
  shows "wrote b (t @ u) b2"
proof -
  note 1 = wroteD [OF assms(1)] and 2 = wroteD [OF assms(2)]
  have "room b1 = room b - length t" by (simp add: room_def 1(2,4))
  then have tu: "take (room b) (t @ u) = take (room b) t @ take (room b1) u" by simp
  have "pbuffer b2 = pbuffer b + length (take (room b) t @ take (room b1) u)"
    by (simp only: 2(4) 1(4) length_append add.assoc)
  moreover have "take (pbuffer b2) (buffer b2) = take (pbuffer b) (buffer b) @ take (room b) t @ take (room b1) u"
    by (simp only: 2(5) 1(5) append_assoc)
  moreover have "drop (unat (buffer_len b)) (buffer b2) = drop (unat (buffer_len b)) (buffer b)"
    using 2(6) 1(6) unfolding 1(2) by (rule trans)
  moreover have "buffer_len b2 = buffer_len b" "length (buffer b2) = length (buffer b)"
    by (simp_all only: 1 2)
  ultimately show ?thesis unfolding wrote_def tu using 2(1) by blast
qed

lemma wrote_refl: "buff_ok b \<Longrightarrow> room b = 0 \<or> t = [] \<Longrightarrow> wrote b t b"
  by (auto simp: wrote_def)

lemma mini_full_room:
  assumes "buff_ok b"
  shows "mini_full b \<longleftrightarrow> room b = 0"
    and "unat (buffer_len b - of_nat (pbuffer b) - 1) = room b"
proof -
  have n: "unat (buffer_len b) < 2 ^ LENGTH(32)" by (rule unsigned_less)
  then have p: "unat (of_nat (pbuffer b) + 1 :: u32) = pbuffer b + 1"
    using assms by (simp add: buff_ok_def unat_word_ariths unat_of_nat)
  then show "mini_full b \<longleftrightarrow> room b = 0" by (auto simp: mini_full_def word_le_nat_alt room_def)
  have "of_nat (pbuffer b) + 1 \<le> buffer_len b" using p assms by (simp add: word_le_nat_alt buff_ok_def)
  then have "unat (buffer_len b - (of_nat (pbuffer b) + 1)) = unat (buffer_len b) - (pbuffer b + 1)"
    by (simp add: unat_sub p)
  then show "unat (buffer_len b - of_nat (pbuffer b) - 1) = room b"
    by (simp add: room_def diff_diff_add)
qed

lemma mini_putc_wrote:
  assumes "buff_ok b"
  shows "\<exists>b'. mini_putc ch b = Some b' \<and> wrote b [ch] b'"
proof (cases "room b = 0")
  case True
  then show ?thesis using assms mini_full_room [OF assms] by (simp add: mini_putc_def wrote_refl)
next
  case False
  then have "pbuffer b + 1 < unat (buffer_len b)" "pbuffer b + 1 < length (buffer b)"
    using assms by (auto simp: room_def buff_ok_def)
  then show ?thesis
    using False assms mini_full_room [OF assms]
    by (auto simp: mini_putc_def wrote_def buff_ok_def take_Suc_conv_app_nth take_Cons')
qed

lemma mini_copy_wrote:
  "buff_ok b \<Longrightarrow> n \<le> room b \<Longrightarrow> n \<le> length s \<Longrightarrow> \<exists>b'. mini_copy s n b = Some b' \<and> wrote b (take n s) b'"
proof (induction s n b rule: mini_copy.induct)
  case (1 s b)
  then show ?case by (simp add: wrote_refl)
next
  case (2 n b)
  then show ?case by simp
next
  case (3 c s n b)
  have p: "pbuffer b + 1 < unat (buffer_len b)" "pbuffer b < length (buffer b)" "Suc 0 \<le> room b"
    using "3.prems" by (auto simp: room_def buff_ok_def)
  let ?b = "b\<lparr>buffer := (buffer b)[pbuffer b := c], pbuffer := pbuffer b + 1\<rparr>"
  have w: "wrote b [c] ?b" using p "3.prems"(1)
    by (simp add: wrote_def buff_ok_def take_Suc_conv_app_nth take_Cons')
  moreover have "buff_ok ?b" "n \<le> room ?b" using w "3.prems"(2) by (simp_all add: wrote_def room_def)
  ultimately obtain b' where "mini_copy s n ?b = Some b'" "wrote ?b (take n s) b'"
    using "3.IH" [of "(buffer b)[pbuffer b := c]"] "3.prems"(3) p(2) by auto
  moreover from this(2) have "wrote b (take (Suc n) (c # s)) b'" using wrote_trans [OF w] by simp
  ultimately show ?case using p(2) by simp
qed

lemma wrote_take: "room b \<le> n \<Longrightarrow> wrote b (take n t) b' = wrote b t b'"
  by (simp add: wrote_def min_def)

lemma mini_puts_wrote:
  assumes "buff_ok b" "n \<le> length s"
  shows "\<exists>b'. mini_puts s n b = Some b' \<and> wrote b (take n s) b'"
proof -
  obtain b1 where b1: "mini_copy s (min n (room b)) b = Some b1" "wrote b (take (min n (room b)) s) b1"
    using mini_copy_wrote [OF assms(1), of "min n (room b)" s] assms(2) by force
  have w: "wrote b (take n s) b1" using b1(2) by (simp add: wrote_def min_def split: if_splits)
  then have "buff_ok b1" by (simp add: wrote_def)
  then have ok: "pbuffer b1 < unat (buffer_len b1)" "unat (buffer_len b1) \<le> length (buffer b1)"
    by (simp_all add: buff_ok_def)
  moreover have "(if room b < n then room b else n) = min n (room b)" by simp
  ultimately have "mini_puts s n b = Some (b1\<lparr>buffer := (buffer b1)[pbuffer b1 := 0]\<rparr>)"
    using b1(1) mini_full_room(2) [OF assms(1)] by (simp add: mini_puts_def)
  moreover have "wrote b (take n s) (b1\<lparr>buffer := (buffer b1)[pbuffer b1 := 0]\<rparr>)"
    using w ok by (auto simp: wrote_def buff_ok_def)
  ultimately show ?thesis by blast
qed

lemma mini_strlen_takeWhile:
  "0 \<in> set s \<Longrightarrow> mini_strlen s = Some (length (takeWhile (\<lambda>c. c \<noteq> 0) s))"
  by (induction s) auto

lemma digit_value: "48 \<le> c \<Longrightarrow> c \<le> 57 \<Longrightarrow> unat (c - 48 :: u8) \<le> 9"
  by (simp add: unat_sub word_le_nat_alt)

lemma conversion_pad: "conversion fmt = Some (Some (ch, z, r)) \<Longrightarrow> z \<le> 9"
  by (auto simp: conversion_def next_ch_def Let_def split: list.splits if_splits intro!: digit_value)


text \<open>One conversion writes its text, as far as there is room.\<close>

lemma convert_int_wrote:
  assumes "buff_ok b" "12 \<le> length bf" "z \<le> 9" "r = 10 \<or> r = 16"
  shows "\<exists>bf' b'. mini_itoa v r up unsig bf z = Some (bf', length (int_text v up unsig (unat r) z)) \<and>
    length bf' = length bf \<and>
    mini_puts bf' (length (int_text v up unsig (unat r) z)) b = Some b' \<and> wrote b (int_text v up unsig (unat r) z) b'"
proof -
  have r: "10 \<le> r" "r \<le> 16" using assms(4) by auto
  obtain bf' where bf': "mini_itoa v r up unsig bf z = Some (bf', length (int_text v up unsig (unat r) z))"
    "take (length (int_text v up unsig (unat r) z)) bf' = int_text v up unsig (unat r) z"
    "length bf' = length bf" "length (int_text v up unsig (unat r) z) < length bf"
    using mini_itoa_eq [OF r assms(3,2), of v up unsig] by blast
  then show ?thesis
    using mini_puts_wrote [OF assms(1), of "length (int_text v up unsig (unat r) z)" bf'] by simp
qed

lemma convert_wrote:
  assumes "buff_ok b" "12 \<le> length bf" "z \<le> 9" and t: "conversion_text ch z va = Some (t, va')"
  shows "\<exists>bf' b'. convert ch z va bf b = Some (va', bf', b') \<and> 12 \<le> length bf' \<and> wrote b t b'"
proof (cases "ch \<in> {117, 100, 120, 88}")
  case True
  then obtain v where v: "va = VInt v # va'"
    using t by (auto simp: conversion_text_def split: list.splits va_item.splits)
  show ?thesis
    using True t v assms(2) convert_int_wrote [OF assms(1-3), of 10 v False "ch = 117"]
      convert_int_wrote [OF assms(1-3), of 16 v "ch = 88" True]
    by (auto simp: conversion_text_def convert_def)
next
  case False
  then show ?thesis
  proof (cases "ch = 115")
    case True
    then obtain s where s: "va = VStr s # va'" "0 \<in> set s" "t = takeWhile (\<lambda>c. c \<noteq> 0) s"
      using t by (auto simp: conversion_text_def split: list.splits va_item.splits if_splits)
    have "take (length t) s = t" by (metis append_eq_conv_conj s(3) takeWhile_dropWhile_id)
    moreover have "length t \<le> length s" by (simp add: s(3) length_takeWhile_le)
    ultimately show ?thesis
      using mini_puts_wrote [OF assms(1), of "length t" s] True s mini_strlen_takeWhile [OF s(2)] assms(2)
      by (auto simp: convert_def)
  next
    case False
    then obtain k where k: "t = [k]" "convert ch z va bf b = do { b \<leftarrow> mini_putc k b; Some (va', bf, b) }"
      using \<open>ch \<notin> _\<close> t by (auto simp: conversion_text_def convert_def split: list.splits va_item.splits if_splits)
    obtain b' where "mini_putc k b = Some b'" "wrote b [k] b'" using mini_putc_wrote [OF assms(1)] by blast
    then show ?thesis using k assms(2) by simp
  qed
qed

lemma mini_format_wrote:
  "buff_ok b \<Longrightarrow> 12 \<le> length bf \<Longrightarrow> format_text fmt va = Some t \<Longrightarrow>
   \<exists>b'. mini_format fmt va bf b = Some b' \<and> wrote b t b'"
proof (induction fmt arbitrary: va bf b t rule: length_induct)
  case (1 fmt)
  note prems = "1.prems"(3) [unfolded format_text.simps [of fmt va]]
  obtain ch r where fmt: "next_ch fmt = Some (ch, r)" using prems by (cases "next_ch fmt") auto
  show ?case
  proof (cases "ch = 0 \<or> mini_full b")
    case True
    then have "mini_format fmt va bf b = Some b" using fmt by (subst mini_format.simps) auto
    moreover have "wrote b t b"
      using True prems fmt mini_full_room(1) [OF "1.prems"(1)] "1.prems"(1) by (auto intro: wrote_refl)
    ultimately show ?thesis by blast
  next
    case False
    show ?thesis
    proof (cases "ch = 37")
      case chr: False
      obtain u where u: "format_text r va = Some u" "t = [ch] @ u" using prems fmt False chr by auto
      obtain b1 where b1: "mini_putc ch b = Some b1" "wrote b [ch] b1"
        using mini_putc_wrote [OF "1.prems"(1)] by blast
      then have "buff_ok b1" by (simp add: wrote_def)
      moreover have "length r < length fmt" using fmt by (simp add: next_ch_Some)
      ultimately obtain b2 where b2: "mini_format r va bf b1 = Some b2" "wrote b1 u b2"
        using "1.IH" "1.prems"(2) u(1) by blast
      have "mini_format fmt va bf b = Some b2"
        using fmt False chr b1(1) b2(1) by (subst mini_format.simps) simp
      then show ?thesis using wrote_trans [OF b1(2) b2(2)] u(2) by blast
    next
      case True
      obtain c where c: "conversion r = Some c" using prems fmt False True by (cases "conversion r") auto
      show ?thesis
      proof (cases c)
        case None
        then have "mini_format fmt va bf b = Some b" using fmt False True c by (subst mini_format.simps) simp
        moreover have "t = []" using fmt False True c prems None by simp
        ultimately show ?thesis using wrote_refl "1.prems"(1) by blast
      next
        case (Some x)
        then obtain k z q where x: "c = Some (k, z, q)" by (cases x) auto
        obtain u va' w where u: "conversion_text k z va = Some (u, va')" "format_text q va' = Some w" "t = u @ w"
          using prems fmt False True c x by (auto simp: bind_eq_Some_conv)
        have z: "z \<le> 9" using conversion_pad c x by blast
        obtain bf' b1 where b1: "convert k z va bf b = Some (va', bf', b1)" "12 \<le> length bf'" "wrote b u b1"
          using convert_wrote [OF "1.prems"(1,2) z u(1)] by blast
        then have "buff_ok b1" by (simp add: wrote_def)
        moreover have "length q < length fmt" using fmt conversion_shorter [of r k z q] c x by (simp add: next_ch_Some)
        ultimately obtain b2 where b2: "mini_format q va' bf' b1 = Some b2" "wrote b1 w b2"
          using "1.IH" b1(2) u(2) by blast
        have "mini_format fmt va bf b = Some b2"
          using fmt False True c x b1(1) b2(1) by (subst mini_format.simps) simp
        then show ?thesis using wrote_trans [OF b1(3) b2(2)] u(3) by blast
      qed
    qed
  qed
qed


lemma mini_vsnprintf_text:
  assumes "format_text fmt va = Some t" "0 < n" "unat n \<le> length buf" "12 \<le> length bf"
  shows "\<exists>buf'. mini_vsnprintf buf n fmt va bf = Some (buf', length (take (unat n - 1) t)) \<and>
    length buf' = length buf \<and> take (length (take (unat n - 1) t)) buf' = take (unat n - 1) t \<and>
    drop (unat n) buf' = drop (unat n) buf"
proof -
  let ?b = "\<lparr>buffer = buf, pbuffer = 0, buffer_len = n\<rparr>"
  have "buff_ok ?b" using assms(2,3) by (simp add: buff_ok_def word_less_nat_alt)
  then obtain b' where b': "mini_format fmt va bf ?b = Some b'" "wrote ?b t b'"
    using mini_format_wrote assms(1,4) by blast
  have w: "pbuffer b' = length (take (unat n - 1) t)" "length (buffer b') = length buf"
    "take (pbuffer b') (buffer b') = take (unat n - 1) t" "drop (unat n) (buffer b') = drop (unat n) buf"
    using wroteD [OF b'(2)] by (simp_all add: room_def)
  show ?thesis using b'(1) w(2-4) unfolding w(1) by (simp add: mini_vsnprintf_def w(1))
qed

lemma printk_text:
  assumes "format_text fmt va = Some t"
  shows "\<exists>buff. printk fmt va out = Some (length (take 255 t), out @ [Printstr buff]) \<and>
    length buff = 256 \<and> take (length (take 255 t)) buff = take 255 t \<and> buff ! length (take 255 t) = 0"
proof -
  obtain buf' where b: "mini_vsnprintf (replicate 256 0) 256 fmt va (replicate 24 0) = Some (buf', length (take 255 t))"
    "length buf' = 256" "take (length (take 255 t)) buf' = take 255 t"
    using mini_vsnprintf_text [OF assms, of 256 "replicate 256 0" "replicate 24 0"] by auto
  then show ?thesis by (simp add: printk_def format_256_def port_write_def)
qed

lemma takeWhile_text:
  assumes "no_nul t" "take (length t) s = t" "length t < length s" "s ! length t = 0"
  shows "takeWhile (\<lambda>c. c \<noteq> 0) s = t"
proof -
  have "s = t @ 0 # drop (Suc (length t)) s" using assms(2-4) by (metis Cons_nth_drop_Suc append_take_drop_id)
  moreover have "takeWhile (\<lambda>c. c \<noteq> 0) (t @ 0 # r) = t" for r
    using assms(1) by (induction t) (auto simp: no_nul_def)
  ultimately show ?thesis by metis
qed

text \<open>A short text without NUL reaches the line as it is.\<close>

lemma printk_line:
  assumes "format_text fmt va = Some t" "length t < 256" "no_nul t"
  shows "\<exists>out'. printk fmt va out = Some (length t, out') \<and> line_bytes out' = line_bytes out @ t"
proof -
  have "take 255 t = t" using assms(2) by simp
  then obtain buff where "printk fmt va out = Some (length t, out @ [Printstr buff])"
    "length buff = 256" "take (length t) buff = t" "buff ! length t = 0"
    using printk_text [OF assms(1), of out] by auto
  then show ?thesis using takeWhile_text [OF assms(3), of buff] assms(2) by (simp add: line_bytes_def event_bytes_def)
qed

text \<open>
  Claim C34. The formatter never writes outside its buffer and implements the text the format
  describes: for every buffer of at least \<open>n > 0\<close> bytes, whatever it and the scratch array hold,
  \<^verbatim>\<open>mini_vsnprintf\<close> returns the length of the text cut to \<open>n - 1\<close> bytes, the buffer starts with
  that cut text, and the bytes from \<open>n\<close> on are unchanged. \<^verbatim>\<open>printk\<close> hands the text, cut to 255 bytes
  and ended by a NUL, to the ROM.
\<close>

theorem formatter_stays_in_buffer:
  assumes "format_text fmt va = Some t" "0 < n" "unat n \<le> length buf" "length bf = 24"
  shows "(\<exists>buf'. mini_vsnprintf buf n fmt va bf = Some (buf', min (length t) (unat n - 1)) \<and>
      length buf' = length buf \<and> take (min (length t) (unat n - 1)) buf' = take (unat n - 1) t \<and>
      drop (unat n) buf' = drop (unat n) buf) \<and>
    (\<exists>buff. printk fmt va out = Some (min (length t) 255, out @ [Printstr buff]) \<and> length buff = 256 \<and>
      take (min (length t) 255) buff = take 255 t \<and> buff ! min (length t) 255 = 0)"
  using mini_vsnprintf_text [OF assms(1-3), of bf] printk_text [OF assms(1), of out] assms(4) by simp

text \<open>The format \<^verbatim>\<open>%c[%d;%dH\<close> with -7 and 12 in a buffer of 8 bytes: the last character is cut.\<close>

theorem formatter_stays_in_buffer_witness:
  "\<exists>buf'. mini_vsnprintf (replicate 9 1) 8 [37, 99, 91, 37, 100, 59, 37, 100, 72, 0] [VInt 27, VInt (- 7), VInt 12]
      (replicate 24 0) = Some (buf', 7) \<and> take 7 buf' = [27, 91, 45, 55, 59, 49, 50] \<and> drop 8 buf' = [1]"
proof -
  have "format_text [37, 99, 91, 37, 100, 59, 37, 100, 72, 0] [VInt 27, VInt (- 7), VInt 12] =
      Some [27, 91, 45, 55, 59, 49, 50, 72]"
    by code_simp
  note r = formatter_stays_in_buffer [OF this, of 8 "replicate 9 1" "replicate 24 0" "[]"]
  have m: "min (length [27, 91, 45, 55, 59, 49, 50, 72 :: u8]) (unat (8 :: u32) - 1) = 7"
    "take (unat (8 :: u32) - 1) [27, 91, 45, 55, 59, 49, 50, 72 :: u8] = [27, 91, 45, 55, 59, 49, 50]"
    "unat (8 :: u32) = 8"
    by simp_all
  from conjunct1 [OF r [unfolded m(1,2), unfolded m(3)]] show ?thesis by auto
qed

end
