(* ===== verification/Shell.thy ===== *)
theory Shell
  imports Printk Process
begin

text \<open>
  The shell, \<^verbatim>\<open>test/test_shell.c\<close>: the loop that collects the characters typed on the serial line and
  runs a command at each carriage return.

  One turn of the loop is \<open>shell_turn\<close>, with the characters that wait at the serial port; \<open>shell_key\<close> is
  the rest of it, with the character that \<^verbatim>\<open>read_uart_ch\<close> returned. What the
  shell does is a list of actions, calls of \<^verbatim>\<open>printf\<close> and system calls, in order; a pointer into the input buffer that
  is handed to a system call is the list of the bytes from there on. The tables that
  \<^verbatim>\<open>sys_ps\<close>, \<^verbatim>\<open>sys_ls\<close>, \<^verbatim>\<open>sys_cat\<close> and \<^verbatim>\<open>sys_find\<close> leave for the shell to print are arguments. Reading
  or writing outside of a buffer is a failure.
\<close>

section \<open>Input and actions\<close>

definition ascii :: "string \<Rightarrow> u8 list" where
  "ascii s = map of_char s"

abbreviation (input) "INPUT_BUFFER_MAX_LENGTH \<equiv> 1000 :: nat"
abbreviation (input) "MAX_PATH_LENGTH \<equiv> 512 :: nat"
abbreviation (input) "MAX_PARAMETER_LENGTH \<equiv> 20 :: nat"
abbreviation (input) "MAX_PARAMETER_NUM \<equiv> 10 :: nat"
abbreviation (input) "num_test_tasks \<equiv> 24 :: u32"
abbreviation (input) "CR \<equiv> 13 :: u8"
abbreviation (input) "SPACE \<equiv> 32 :: u8"

record shell =
  Buffer :: "u8 list"
  input_length :: u32
  pointer :: nat
  position :: nat
  param_buffer :: "u8 list"

datatype path_fn = Cd | Mkdir | Rmdir | Touch | Cat | Wc | Rm | Chmod | Man

datatype paths_fn = Find | Rename | Symlink | Link | Diff | Mv | Cp

datatype shell_call = Sys_ps | Sys_screen_clear | Sys_move_cursor u32 u32 | Sys_spawn u32 | Sys_kill u32
  | Sys_mkfs | Sys_statfs | Sys_ls | Sys_pwd | Sys_du | Sys_df
  | Sys_path path_fn "u8 list" | Sys_paths paths_fn "u8 list" "u8 list"

text \<open>\<^verbatim>\<open>exec\<close> saves and restores the cursor variables of the screen driver around its call.\<close>

datatype action = Printf "u8 list" "va_item list" | Call shell_call | Save_cursor | Restore_cursor

record answers =
  ps_table :: "process_show_t list"
  ls_buffer :: "u8 list list"
  cat_buffer :: "u8 list"
  find_result :: u32

text \<open>The serial port gives the characters that are waiting, until there are none; the last one is returned.\<close>

fun read_uart_loop :: "u8 \<Rightarrow> u8 list \<Rightarrow> u8" where
  "read_uart_loop ch [] = ch"
| "read_uart_loop ch (c # cs) = read_uart_loop c cs"

definition read_uart_ch :: "u8 list \<Rightarrow> u8" where
  "read_uart_ch port = read_uart_loop 0 port"

definition init_InputBuffer :: "shell \<Rightarrow> shell" where
  "init_InputBuffer st = st\<lparr>input_length := 0, pointer := 0\<rparr>"

definition init_ProcessShow :: "process_show_t list \<Rightarrow> process_show_t list option" where
  "init_ProcessShow ps = for_range 0 20 (\<lambda>i ps. do { e \<leftarrow> load ps i; store ps i (e\<lparr>show_num := 0\<rparr>) }) ps"

definition status_type_to_string :: "task_status_t \<Rightarrow> u8 list" where
  "status_type_to_string st = ascii
     (case st of TASK_BLOCKED \<Rightarrow> ''TASK_BLOCKED'' | TASK_RUNNING \<Rightarrow> ''TASK_RUNNING'' | TASK_READY \<Rightarrow> ''TASK_READY''
      | TASK_EXITED \<Rightarrow> ''TASK_EXITED'' | TASK_CREATED \<Rightarrow> ''TASK_CREATED'' | TASK_SLEEPING \<Rightarrow> ''TASK_SLEEPING'') @ [0]"

fun handle_input_loop :: "nat \<Rightarrow> nat \<Rightarrow> u8 list \<Rightarrow> u8 list option" where
  "handle_input_loop 0 p buf = Some buf"
| "handle_input_loop (Suc n) p buf = do {
     c \<leftarrow> load buf p;
     if c = CR then store buf p 0 else handle_input_loop n (p + 1) buf
   }"

definition handle_input :: "nat \<Rightarrow> u8 list \<Rightarrow> u8 list option" where
  "handle_input p buf = handle_input_loop MAX_PATH_LENGTH p buf"

text \<open>\<^verbatim>\<open>param_buffer[j].param[k]\<close> is byte \<^verbatim>\<open>20 * j + k\<close> of the array.\<close>

fun separate_loop :: "nat \<Rightarrow> nat \<Rightarrow> nat \<Rightarrow> nat \<Rightarrow> u8 list \<Rightarrow> u8 list \<Rightarrow> u8 list option" where
  "separate_loop 0 p j k buf pb = Some pb"
| "separate_loop (Suc n) p j k buf pb = do {
     c \<leftarrow> load buf p;
     if c = 0 then store pb (MAX_PARAMETER_LENGTH * j + k) 0
     else if c = SPACE then do {
       pb \<leftarrow> store pb (MAX_PARAMETER_LENGTH * j + k) 0;
       separate_loop n (p + 1) (j + 1) 0 buf pb
     }
     else do {
       pb \<leftarrow> store pb (MAX_PARAMETER_LENGTH * j + k) c;
       separate_loop n (p + 1) j (k + 1) buf pb
     }
   }"

definition separate_params :: "nat \<Rightarrow> shell \<Rightarrow> shell option" where
  "separate_params p st = do {
     pb \<leftarrow> bzero (param_buffer st) (MAX_PARAMETER_NUM * MAX_PARAMETER_LENGTH);
     pb \<leftarrow> separate_loop INPUT_BUFFER_MAX_LENGTH p 0 0 (Buffer st) pb;
     Some (st\<lparr>param_buffer := pb\<rparr>)
   }"

section \<open>Commands\<close>

definition out :: "string \<Rightarrow> va_item list \<Rightarrow> action" where
  "out s va = Printf (ascii s @ [0]) va"

definition prompt :: action where
  "prompt = out ''> root@UCAS_OS: '' []"

definition newline :: string where
  "newline = [CHR 0x0A]"

fun show_ps :: "process_show_t list \<Rightarrow> action list option" where
  "show_ps [] = None"
| "show_ps (e # es) =
     (if 0 \<le>s show_num e
      then map_option ((#) (out (''[%d] PID : %d STATUS : %s'' @ newline)
        [VInt (show_num e), VInt (show_pid e), VStr (status_type_to_string (show_status e))])) (show_ps es)
      else Some [])"

fun show_ls :: "u8 list list \<Rightarrow> action list option" where
  "show_ls [] = None"
| "show_ls (d # ds) = do {
     c \<leftarrow> load d 0;
     if c \<noteq> 0 then map_option ((#) (out ''  %s'' [VStr d])) (show_ls ds) else Some []
   }"

fun show_cat :: "u8 list \<Rightarrow> action list option" where
  "show_cat [] = None"
| "show_cat (c # cs) = (if c \<noteq> 0 then map_option ((#) (out ''%c'' [VInt (ucast c)])) (show_cat cs) else Some [])"

text \<open>The branches of the command interpreter, in the order of the code, each with the word it starts with.\<close>

datatype command = Do_ps | Do_clear | Do_exec | Do_kill | Do_plain shell_call | Do_ls | Do_path path_fn | Do_paths paths_fn | Do_dump

definition commands :: "(u8 list \<times> command) list" where
  "commands = map (\<lambda>(w, c). (ascii w, c))
    [(''ps'', Do_ps), (''clear'', Do_clear), (''exec '', Do_exec), (''kill '', Do_kill),
     (''mkfs'', Do_plain Sys_mkfs), (''statfs'', Do_plain Sys_statfs), (''cd '', Do_path Cd),
     (''mkdir '', Do_path Mkdir), (''rmdir '', Do_path Rmdir), (''ls'', Do_ls), (''touch '', Do_path Touch),
     (''cat '', Do_path Cat), (''find '', Do_paths Find), (''rename '', Do_paths Rename),
     (''ln -s '', Do_paths Symlink), (''ln '', Do_paths Link), (''pwd'', Do_plain Sys_pwd), (''dump'', Do_dump),
     (''du'', Do_plain Sys_du), (''df'', Do_plain Sys_df), (''diff '', Do_paths Diff), (''wc '', Do_path Wc),
     (''rm '', Do_path Rm), (''mv '', Do_paths Mv), (''cp '', Do_paths Cp), (''chmod '', Do_path Chmod),
     (''man '', Do_path Man)]"

text \<open>Compare the input at \<open>p\<close> with a word, character by character up to the first difference.\<close>

fun typed :: "u8 list \<Rightarrow> nat \<Rightarrow> u8 list \<Rightarrow> bool option" where
  "typed buf p [] = Some True"
| "typed buf p (c # w) = do { d \<leftarrow> load buf p; if d = c then typed buf (p + 1) w else Some False }"

definition task_number :: "nat \<Rightarrow> shell \<Rightarrow> u32 option option" where
  "task_number p st = do {
     k \<leftarrow> atoi (drop p (Buffer st));
     Some (if 0 \<le>s k \<and> k \<le> num_test_tasks - 1 then Some k else None)
   }"

text \<open>
  The body of a branch, \<open>p\<close> being the place behind its word; \<open>None\<close> inside is a condition that does not
  hold, after which the next branch is tried.
\<close>

fun run_command :: "command \<Rightarrow> nat \<Rightarrow> answers \<Rightarrow> shell \<Rightarrow> (action list \<times> shell) option option" where
  "run_command Do_ps p ans st = do {
     acts \<leftarrow> show_ps (ps_table ans);
     Some (Some ([Call Sys_ps, out (''[PROCESS TABLE]'' @ newline) []] @ acts @ [prompt], st))
   }"
| "run_command Do_clear p ans st =
     Some (Some ([Call Sys_screen_clear, Call (Sys_move_cursor 1 15),
       out (''-----------------COMMAND-------------------'' @ newline) [], prompt], st))"
| "run_command Do_exec p ans st = do {
     n \<leftarrow> task_number p st;
     Some (case n of None \<Rightarrow> None
       | Some k \<Rightarrow> Some ([out (''exec test_tasks[%d].'' @ newline) [VInt k], Save_cursor, Call (Sys_spawn k),
           Restore_cursor, prompt], st))
   }"
| "run_command Do_kill p ans st = do {
     n \<leftarrow> task_number p st;
     Some (case n of None \<Rightarrow> None
       | Some k \<Rightarrow> Some ([out (''kill process PID = %d'' @ newline) [VInt k], Call (Sys_kill k), prompt], st))
   }"
| "run_command (Do_plain c) p ans st = Some (Some ([Call c, prompt], st))"
| "run_command Do_ls p ans st = do {
     acts \<leftarrow> show_ls (ls_buffer ans);
     Some (Some ([Call Sys_ls] @ acts @ [out newline [], prompt], st))
   }"
| "run_command (Do_path f) p ans st = do {
     buf \<leftarrow> handle_input p (Buffer st);
     acts \<leftarrow> (if f = Cat then do { a \<leftarrow> show_cat (cat_buffer ans); Some (out (''cat output:'' @ newline) [] # a) }
              else Some []);
     Some (Some ([Call (Sys_path f (drop p buf))] @ acts @ [prompt], st\<lparr>Buffer := buf\<rparr>))
   }"
| "run_command (Do_paths f) p ans st = do {
     buf \<leftarrow> handle_input p (Buffer st);
     st \<leftarrow> separate_params p (st\<lparr>Buffer := buf\<rparr>);
     let acts = (if f = Find then
         [out ((if find_result ans = 1 then ''Exist in the directory'' else ''Not exist in the directory'') @ newline) []]
       else []);
     Some (Some ([Call (Sys_paths f (param_buffer st) (drop MAX_PARAMETER_LENGTH (param_buffer st)))] @ acts @ [prompt], st))
   }"
| "run_command Do_dump p ans st = Some (Some ([prompt], st))"

fun dispatch :: "(u8 list \<times> command) list \<Rightarrow> answers \<Rightarrow> shell \<Rightarrow> (action list \<times> shell) option" where
  "dispatch [] ans st = Some ([], st)"
| "dispatch ((w, c) # cs) ans st = do {
     b \<leftarrow> typed (Buffer st) (pointer st) w;
     r \<leftarrow> (if b then run_command c (pointer st + length w) ans st else Some None);
     case r of None \<Rightarrow> dispatch cs ans st | Some (acts, st) \<Rightarrow> Some (acts, st)
   }"

text \<open>One turn of the loop of \<^verbatim>\<open>test_shell\<close>.\<close>

definition shell_key :: "answers \<Rightarrow> u8 \<Rightarrow> shell \<Rightarrow> (action list \<times> shell) option" where
  "shell_key ans ch st =
     (if ch = 0 then Some ([], st)
      else do {
        buf \<leftarrow> store (Buffer st) (position st) ch;
        let st = st\<lparr>Buffer := buf, input_length := input_length st + 1, position := position st + 1\<rparr>;
        let echo = out ''%c'' [VInt (ucast ch)];
        if ch = CR then do {
          (acts, st) \<leftarrow> dispatch commands ans st;
          Some (echo # acts, st\<lparr>pointer := position st\<rparr>)
        }
        else Some ([echo], st)
      })"

definition shell_turn :: "answers \<Rightarrow> u8 list \<Rightarrow> shell \<Rightarrow> (action list \<times> shell) option" where
  "shell_turn ans port st = shell_key ans (read_uart_ch port) st"

fun shell_keys :: "answers \<Rightarrow> u8 list \<Rightarrow> shell \<Rightarrow> (action list \<times> shell) option" where
  "shell_keys ans [] st = Some ([], st)"
| "shell_keys ans (ch # chs) st = do {
     (a1, st) \<leftarrow> shell_key ans ch st;
     (a2, st) \<leftarrow> shell_keys ans chs st;
     Some (a1 @ a2, st)
   }"

text \<open>The start of \<^verbatim>\<open>test_shell\<close>.\<close>

definition test_shell :: "process_show_t list \<Rightarrow> shell \<Rightarrow> (action list \<times> process_show_t list \<times> shell) option" where
  "test_shell ps st = do {
     let st = init_InputBuffer (st\<lparr>position := 0\<rparr>);
     ps \<leftarrow> init_ProcessShow ps;
     Some ([Call (Sys_move_cursor 1 50), out (''-----------------COMMAND-------------------'' @ newline) [], prompt], ps, st)
   }"

section \<open>Finding the command\<close>

fun clash :: "u8 list \<Rightarrow> u8 list \<Rightarrow> bool" where
  "clash (a # as) (b # bs) = (a \<noteq> b \<or> clash as bs)"
| "clash _ _ = False"

lemma clash_append: "clash w l \<Longrightarrow> clash w (l @ r)"
  by (induction w l rule: clash.induct) auto

lemma drop_ConsD:
  assumes "drop p buf = a # l"
  shows "p < length buf" "buf ! p = a" "load buf p = Some a" "drop (Suc p) buf = l"
proof -
  show p: "p < length buf" using assms by (metis drop_eq_Nil leI list.distinct(1))
  show a: "buf ! p = a" using assms by (rule nth_via_drop)
  show "load buf p = Some a" using p a by simp
  have "drop (Suc p) buf = tl (drop p buf)" by (simp add: drop_Suc tl_drop)
  then show "drop (Suc p) buf = l" using assms by simp
qed

lemma typed_clash: "clash w l \<Longrightarrow> drop p buf = l @ r \<Longrightarrow> typed buf p w = Some False"
proof (induction w l arbitrary: p rule: clash.induct)
  case (1 a as b bs)
  then have "drop p buf = b # bs @ r" by simp
  then show ?case using 1 drop_ConsD(3,4) [of p buf b "bs @ r"] by auto
qed auto

lemma typed_prefix: "drop p buf = w @ r \<Longrightarrow> typed buf p w = Some True"
proof (induction w arbitrary: p)
  case (Cons a w)
  then have "drop p buf = a # w @ r" by simp
  then show ?case using Cons drop_ConsD(3,4) [of p buf a "w @ r"] by simp
qed simp

text \<open>The first branch whose word the line starts with is taken, if all earlier words differ from the line.\<close>

lemma dispatch_first:
  assumes "\<forall>(w', c') \<in> set pre. clash w' l" and "drop (pointer st) (Buffer st) = l @ r" and "l = w @ l'"
    and "run_command c (pointer st + length w) ans st = Some (Some res)"
  shows "dispatch (pre @ (w, c) # post) ans st = Some res"
  using assms
proof (induction pre)
  case Nil
  then show ?case using typed_prefix [of "pointer st" "Buffer st" w "l' @ r"] by (cases res) simp
next
  case (Cons a pre)
  obtain w' c' where a: "a = (w', c')" by (cases a)
  have "typed (Buffer st) (pointer st) w' = Some False" using Cons.prems(1,2) a by (intro typed_clash) auto
  then show ?case using Cons a by simp
qed

text \<open>No word of the table hides a later one, except \<^verbatim>\<open>ln -s\<close> and \<^verbatim>\<open>dump\<close> the shorter words after them.\<close>

fun distinct_words :: "(u8 list \<times> command) list \<Rightarrow> (u8 list \<times> command) list \<Rightarrow> bool" where
  "distinct_words pre [] = True"
| "distinct_words pre ((w, c) # cs) =
     (list_all (\<lambda>(w', c'). clash w' w \<or> (c = Do_paths Link \<and> c' = Do_paths Symlink) \<or> c' = Do_dump \<and> w = ascii ''du'') pre \<and>
      distinct_words (pre @ [(w, c)]) cs)"

lemma commands_distinct: "distinct_words [] commands"
  by (simp add: commands_def ascii_def)

lemma distinct_wordsD:
  "distinct_words pre cs \<Longrightarrow> (w, c) \<in> set cs \<Longrightarrow> \<exists>pre' post. pre @ cs = pre' @ (w, c) # post \<and>
     (\<forall>(w', c') \<in> set pre'. clash w' w \<or> (c = Do_paths Link \<and> c' = Do_paths Symlink) \<or> c' = Do_dump \<and> w = ascii ''du'')"
proof (induction pre cs rule: distinct_words.induct)
  case (2 pre w' c' cs)
  show ?case
  proof (cases "(w, c) = (w', c')")
    case True
    then show ?thesis using "2.prems"(1) by (intro exI [of _ pre] exI [of _ cs]) (auto simp: list_all_iff)
  next
    case False
    then have "(w, c) \<in> set cs" "distinct_words (pre @ [(w', c')]) cs" using "2.prems" by auto
    then show ?thesis using "2.IH" by simp
  qed
qed simp

section \<open>Typing a line\<close>

text \<open>The shell between two lines.\<close>

definition shell_ready :: "shell \<Rightarrow> bool" where
  "shell_ready st \<longleftrightarrow> length (Buffer st) = 1000 \<and> length (param_buffer st) = 200 \<and> pointer st = position st"

fun calls :: "action list \<Rightarrow> shell_call list" where
  "calls [] = []"
| "calls (Call c # as) = c # calls as"
| "calls (_ # as) = calls as"

lemma calls_append [simp]: "calls (a @ b) = calls a @ calls b"
  by (induction a rule: calls.induct) auto

lemma no_calls [simp]: "calls (out s va # as) = calls as" "calls (prompt # as) = calls as"
  by (simp_all add: out_def prompt_def)

lemma show_cat_calls: "show_cat cs = Some as \<Longrightarrow> calls as = []"
  by (induction cs arbitrary: as) (auto split: if_splits)

lemma show_cat_ends: "0 \<in> set cs \<Longrightarrow> \<exists>as. show_cat cs = Some as"
  by (induction cs) auto

lemma keys_typed:
  assumes "CR \<notin> set line" "0 \<notin> set line" "position st + length line \<le> length (Buffer st)"
  shows "\<exists>as. shell_keys ans line st = Some (as, st\<lparr>Buffer := take (position st) (Buffer st) @ line @ drop (position st + length line) (Buffer st),
      input_length := input_length st + of_nat (length line), position := position st + length line\<rparr>) \<and> calls as = []"
  using assms
proof (induction line arbitrary: st)
  case Nil
  then show ?case by simp
next
  case (Cons ch line)
  let ?st = "st\<lparr>Buffer := (Buffer st)[position st := ch], input_length := input_length st + 1, position := position st + 1\<rparr>"
  have key: "shell_key ans ch st = Some ([out ''%c'' [VInt (ucast ch)]], ?st)"
    using Cons.prems by (auto simp: shell_key_def Let_def)
  have "CR \<notin> set line" "0 \<notin> set line" "position ?st + length line \<le> length (Buffer ?st)" using Cons.prems by auto
  from Cons.IH [OF this] obtain as where as: "shell_keys ans line ?st = Some (as, ?st\<lparr>Buffer := take (position ?st) (Buffer ?st) @ line @
      drop (position ?st + length line) (Buffer ?st), input_length := input_length ?st + of_nat (length line),
      position := position ?st + length line\<rparr>)" "calls as = []" by blast
  have "take (Suc (position st)) ((Buffer st)[position st := ch]) = take (position st) (Buffer st) @ [ch]"
    using Cons.prems(3) by (simp add: take_Suc_conv_app_nth)
  then show ?case using key as by (simp add: add.assoc)
qed

lemma shell_keys_append:
  "shell_keys ans (a @ b) st = do { (a1, st) \<leftarrow> shell_keys ans a st; (a2, st) \<leftarrow> shell_keys ans b st; Some (a1 @ a2, st) }"
proof (induction a arbitrary: st)
  case (Cons ch a)
  then show ?case by (cases "shell_key ans ch st") (auto split: Option.bind_splits)
qed (simp add: case_prod_beta)

lemma enter_runs:
  assumes "shell_ready st" "CR \<notin> set line" "0 \<notin> set line" "position st + length line < 1000"
    and run: "\<And>st' r. shell_ready (st'\<lparr>pointer := position st'\<rparr>) \<Longrightarrow> pointer st' = position st \<Longrightarrow>
      position st' = position st + length line + 1 \<Longrightarrow> drop (pointer st') (Buffer st') = line @ CR # r \<Longrightarrow>
      \<exists>acts st''. dispatch commands ans st' = Some (acts, st'') \<and> P (calls acts) \<and> shell_ready (st''\<lparr>pointer := position st''\<rparr>)"
  shows "\<exists>acts st''. shell_keys ans (line @ [CR]) st = Some (acts, st'') \<and> P (calls acts) \<and> shell_ready st''"
proof -
  have len: "length (Buffer st) = 1000" "pointer st = position st" "length (param_buffer st) = 200"
    using assms(1) by (simp_all add: shell_ready_def)
  let ?st1 = "st\<lparr>Buffer := take (position st) (Buffer st) @ line @ drop (position st + length line) (Buffer st),
      input_length := input_length st + of_nat (length line), position := position st + length line\<rparr>"
  obtain as where as: "shell_keys ans line st = Some (as, ?st1)" "calls as = []"
    using keys_typed [OF assms(2,3), of st ans] assms(4) len(1) by auto
  define buf where "buf = (Buffer ?st1)[position st + length line := CR]"
  let ?st2 = "?st1\<lparr>Buffer := buf, input_length := input_length ?st1 + 1, position := position st + length line + 1\<rparr>"
  have l: "length (Buffer ?st1) = 1000" using assms(4) len(1) by simp
  have buf: "buf = take (position st) (Buffer st) @ line @ CR # drop (Suc (position st + length line)) (Buffer st)"
  proof -
    have "drop (position st + length line) (Buffer st) =
        Buffer st ! (position st + length line) # drop (Suc (position st + length line)) (Buffer st)"
      using assms(4) len(1) by (simp add: Cons_nth_drop_Suc)
    then show ?thesis using assms(4) len(1) by (simp add: buf_def list_update_append)
  qed
  have "drop (position st) buf = line @ CR # drop (Suc (position st + length line)) (Buffer st)"
    unfolding buf using assms(4) len(1) by simp
  moreover have "shell_ready (?st2\<lparr>pointer := position ?st2\<rparr>)" using len l by (simp add: shell_ready_def buf_def)
  ultimately obtain acts st'' where d: "dispatch commands ans ?st2 = Some (acts, st'')" "P (calls acts)"
    "shell_ready (st''\<lparr>pointer := position st''\<rparr>)"
    using run [of ?st2] len(2) by auto
  have "shell_key ans CR ?st1 = Some (out ''%c'' [VInt (ucast CR)] # acts, st''\<lparr>pointer := position st''\<rparr>)"
    using d(1) l assms(4) by (simp add: shell_key_def Let_def buf_def)
  then show ?thesis using as d(2,3) by (simp add: shell_keys_append)
qed

lemma handle_input_line:
  assumes "drop p buf = arg @ CR # r" "CR \<notin> set arg" "length arg < n"
  shows "handle_input_loop n p buf = Some (take p buf @ arg @ 0 # r)"
  using assms
proof (induction arg arbitrary: p n)
  case Nil
  obtain m where n: "n = Suc m" using Nil.prems(3) by (cases n) auto
  note D = drop_ConsD [of p buf CR r]
  have "buf = take p buf @ CR # r" using Nil.prems(1) by (metis append_Nil append_take_drop_id)
  then have "buf[p := 0] = take p buf @ 0 # r"
    using D(1) Nil.prems(1) by (metis append_Nil length_take less_imp_le list_update_length min.absorb2)
  then show ?case using D Nil.prems(1) n by simp
next
  case (Cons a arg)
  obtain m where n: "n = Suc m" "length arg < m" using Cons.prems(3) by (cases n) auto
  have c: "drop p buf = a # (arg @ CR # r)" using Cons.prems(1) by simp
  note D = drop_ConsD [OF c]
  have "handle_input_loop m (Suc p) buf = Some (take (Suc p) buf @ arg @ 0 # r)"
    using Cons.IH [OF D(4) _ n(2)] Cons.prems(2) by simp
  then show ?case using D Cons.prems(2) n(1) by (simp add: take_Suc_conv_app_nth)
qed

lemma separate_copy:
  assumes "drop p buf = a @ r" "0 \<notin> set a" "SPACE \<notin> set a" "20 * j + k + length a \<le> length pb"
  shows "separate_loop (length a + n) p j k buf pb =
    separate_loop n (p + length a) j (k + length a) buf (take (20 * j + k) pb @ a @ drop (20 * j + k + length a) pb)"
  using assms
proof (induction a arbitrary: p k pb)
  case (Cons c a)
  have d: "drop p buf = c # (a @ r)" using Cons.prems(1) by simp
  note D = drop_ConsD [OF d]
  let ?q = "20 * j + k"
  have q: "?q < length pb" using Cons.prems(4) by simp
  have "separate_loop (length a + n) (Suc p) j (Suc k) buf (pb[?q := c]) =
      separate_loop n (Suc p + length a) j (Suc k + length a) buf
        (take (20 * j + Suc k) (pb[?q := c]) @ a @ drop (20 * j + Suc k + length a) (pb[?q := c]))"
    using Cons.prems by (intro Cons.IH [OF D(4)]) auto
  moreover have "take (20 * j + Suc k) (pb[?q := c]) = take ?q pb @ [c]" using q by (simp add: take_Suc_conv_app_nth)
  ultimately show ?case using D q Cons.prems(2,3) by (auto simp: add.assoc)
qed simp

lemma separate_two:
  assumes d: "drop p buf = a1 @ SPACE # a2 @ 0 # r" and a1: "0 \<notin> set a1" "SPACE \<notin> set a1" "length a1 < 20"
    and a2: "0 \<notin> set a2" "SPACE \<notin> set a2" "length a2 < 20"
  shows "separate_loop 1000 p 0 0 buf (replicate 200 0) =
    Some (a1 @ replicate (20 - length a1) 0 @ a2 @ replicate (180 - length a2) 0)"
proof -
  define m where "m = 998 - length a1 - length a2"
  define pb where "pb = a1 @ replicate (200 - length a1) (0 :: u8)"
  define pb' where "pb' = a1 @ replicate (20 - length a1) 0 @ a2 @ replicate (180 - length a2) (0 :: u8)"
  have n: "1000 = length a1 + Suc (length a2 + Suc m)" using a1(3) a2(3) by (simp add: m_def)
  have s1: "separate_loop 1000 p 0 0 buf (replicate 200 0) = separate_loop (Suc (length a2 + Suc m)) (p + length a1) 0 (length a1) buf pb"
    unfolding n using separate_copy [OF d a1(1,2), of 0 0 "replicate 200 0" "Suc (length a2 + Suc m)"] a1(3) by (simp add: pb_def)
  have d1: "drop (p + length a1) buf = SPACE # (a2 @ 0 # r)" using arg_cong [OF d, of "drop (length a1)"] by (simp add: add.commute)
  note D1 = drop_ConsD [OF d1]
  have same: "pb[length a1 := 0] = pb" using a1(3) by (simp add: pb_def list_update_append list_update_same_conv)
  have s2: "separate_loop (Suc (length a2 + Suc m)) (p + length a1) 0 (length a1) buf pb =
      separate_loop (length a2 + Suc m) (Suc (p + length a1)) 1 0 buf pb"
    using D1 a1(3) same by (simp add: pb_def)
  have "take 20 pb @ a2 @ drop (20 + length a2) pb = pb'"
    using a1(3) a2(3) by (simp add: pb_def pb'_def flip: replicate_add)
  then have s3: "separate_loop (length a2 + Suc m) (Suc (p + length a1)) 1 0 buf pb =
      separate_loop (Suc m) (Suc (p + length a1) + length a2) 1 (length a2) buf pb'"
    using separate_copy [OF D1(4) a2(1,2), of 1 0 pb "Suc m"] a1(3) a2(3) by (simp add: pb_def)
  have "drop (Suc (p + length a1) + length a2) buf = 0 # r"
    using arg_cong [OF D1(4), of "drop (length a2)"] by (simp add: add.commute)
  note D2 = drop_ConsD [OF this]
  have "\<not> 20 + length a2 - length a1 < 20 - length a1" using a1(3) by arith
  then have "pb' ! (20 + length a2) = 0" "20 + length a2 < length pb'" using a1(3) a2(3) by (simp_all add: pb'_def nth_append)
  then have "pb'[20 + length a2 := 0] = pb'" "20 + length a2 < length pb'" by (simp_all add: list_update_same_conv)
  then have "separate_loop (Suc m) (Suc (p + length a1) + length a2) 1 (length a2) buf pb' = Some pb'" using D2 by simp
  then show ?thesis unfolding s1 s2 s3 pb'_def .
qed

lemma separate_params_two:
  assumes "drop p (Buffer st) = a1 @ SPACE # a2 @ 0 # r" "0 \<notin> set a1" "SPACE \<notin> set a1" "length a1 < 20"
    "0 \<notin> set a2" "SPACE \<notin> set a2" "length a2 < 20" "length (param_buffer st) = 200"
  shows "separate_params p st = Some (st\<lparr>param_buffer := a1 @ replicate (20 - length a1) 0 @ a2 @ replicate (180 - length a2) 0\<rparr>)"
  using separate_two [OF assms(1-7)] assms(8) by (simp add: separate_params_def bzero_eq)

section \<open>Properties\<close>

lemma path_command:
  assumes c: "(w, Do_path f) \<in> set commands" and st: "drop (pointer st) (Buffer st) = (w @ arg) @ CR # r"
    "shell_ready (st\<lparr>pointer := position st\<rparr>)"
    and arg: "CR \<notin> set arg" "length arg < 512" "0 \<in> set (cat_buffer ans)"
  shows "\<exists>acts st' r. dispatch commands ans st = Some (acts, st') \<and> calls acts = [Sys_path f (arg @ 0 # r)] \<and>
    shell_ready (st'\<lparr>pointer := position st'\<rparr>)"
proof -
  let ?p = "pointer st + length w"
  obtain pre post where pp: "commands = pre @ (w, Do_path f) # post"
    "\<forall>(w', c') \<in> set pre. clash w' w \<or> c' = Do_dump \<and> w = ascii ''du''"
    using distinct_wordsD [OF commands_distinct c] by auto
  have "w \<noteq> ascii ''du''" using c by (auto simp: commands_def ascii_def)
  then have cl: "\<forall>(w', c') \<in> set pre. clash w' (w @ arg @ [CR])" using pp(2) by (auto intro: clash_append)
  have dp: "drop ?p (Buffer st) = arg @ CR # r" using arg_cong [OF st(1), of "drop (length w)"] by (simp add: add.commute)
  define buf where "buf = take ?p (Buffer st) @ arg @ 0 # r"
  have hi: "handle_input ?p (Buffer st) = Some buf" using handle_input_line [OF dp arg(1,2)] by (simp add: handle_input_def buf_def)
  have lp: "length (Buffer st) = ?p + length (arg @ CR # r)"
  proof -
    have "length (drop ?p (Buffer st)) = length (arg @ CR # r)" unfolding dp ..
    then show ?thesis by simp
  qed
  then have b: "drop ?p buf = arg @ 0 # r" "length buf = length (Buffer st)" by (simp_all add: buf_def)
  obtain as where as: "show_cat (cat_buffer ans) = Some as" "calls as = []"
    using show_cat_ends [OF arg(3)] show_cat_calls by blast
  let ?acts = "[Call (Sys_path f (arg @ 0 # r))] @ (if f = Cat then out (''cat output:'' @ newline) [] # as else []) @ [prompt]"
  have "run_command (Do_path f) ?p ans st = Some (Some (?acts, st\<lparr>Buffer := buf\<rparr>))" using hi as(1) b(1) by simp
  from dispatch_first [OF cl, of st r w "arg @ [CR]", OF _ _ this] have
    "dispatch commands ans st = Some (?acts, st\<lparr>Buffer := buf\<rparr>)" unfolding pp(1) using st(1) by simp
  moreover have "shell_ready (st\<lparr>Buffer := buf, pointer := position st\<rparr>)" using st(2) b(2) by (simp add: shell_ready_def)
  moreover have "calls ?acts = [Sys_path f (arg @ 0 # r)]" using as(2) by simp
  ultimately show ?thesis by fastforce
qed

lemma symlink_clash:
  assumes "a1 \<noteq> ascii ''-s''" "SPACE \<notin> set a1"
  shows "clash (ascii ''ln -s '') (ascii ''ln '' @ a1 @ SPACE # l)"
proof (cases a1)
  case (Cons x xs)
  then show ?thesis using assms by (cases xs; cases "tl xs") (auto simp: ascii_def)
qed (simp add: ascii_def)

lemma paths_command:
  assumes c: "(w, Do_paths f) \<in> set commands" and st: "drop (pointer st) (Buffer st) = (w @ a1 @ SPACE # a2) @ CR # r"
    "shell_ready (st\<lparr>pointer := position st\<rparr>)"
    and a1: "CR \<notin> set a1" "0 \<notin> set a1" "SPACE \<notin> set a1" "length a1 < 20" "f = Link \<Longrightarrow> a1 \<noteq> ascii ''-s''"
    and a2: "CR \<notin> set a2" "0 \<notin> set a2" "SPACE \<notin> set a2" "length a2 < 20"
  shows "\<exists>acts st' r1 r2. dispatch commands ans st = Some (acts, st') \<and> calls acts = [Sys_paths f (a1 @ 0 # r1) (a2 @ 0 # r2)] \<and>
    shell_ready (st'\<lparr>pointer := position st'\<rparr>)"
proof -
  let ?p = "pointer st + length w" and ?arg = "a1 @ SPACE # a2"
  obtain pre post where pp: "commands = pre @ (w, Do_paths f) # post"
    "\<forall>(w', c') \<in> set pre. clash w' w \<or> f = Link \<and> c' = Do_paths Symlink \<or> c' = Do_dump \<and> w = ascii ''du''"
    using distinct_wordsD [OF commands_distinct c] by auto
  have "w \<noteq> ascii ''du''" using c by (auto simp: commands_def ascii_def)
  moreover have "w' = ascii ''ln -s ''" if "(w', Do_paths Symlink) \<in> set pre" for w'
  proof -
    have "(w', Do_paths Symlink) \<in> set commands" using that by (simp add: pp(1))
    then show ?thesis by (auto simp: commands_def)
  qed
  moreover have "f = Link \<Longrightarrow> w = ascii ''ln ''" using c by (auto simp: commands_def)
  ultimately have cl: "\<forall>(w', c') \<in> set pre. clash w' (w @ ?arg @ [CR])"
    using pp(2) symlink_clash [OF a1(5,3), of "a2 @ [CR]"] by (auto intro: clash_append)
  have dp: "drop ?p (Buffer st) = ?arg @ CR # r" using arg_cong [OF st(1), of "drop (length w)"] by (simp add: add.commute)
  define buf where "buf = take ?p (Buffer st) @ ?arg @ 0 # r"
  have hi: "handle_input ?p (Buffer st) = Some buf"
    using handle_input_line [OF dp, of 512] a1(1,4) a2(1,4) by (simp add: handle_input_def buf_def)
  have lp: "length (Buffer st) = ?p + length (?arg @ CR # r)"
  proof -
    have "length (drop ?p (Buffer st)) = length (?arg @ CR # r)" unfolding dp ..
    then show ?thesis by simp
  qed
  then have b: "drop ?p buf = a1 @ SPACE # a2 @ 0 # r" "length buf = length (Buffer st)" by (simp_all add: buf_def)
  define pb where "pb = a1 @ replicate (20 - length a1) 0 @ a2 @ replicate (180 - length a2) (0 :: u8)"
  have sp: "separate_params ?p (st\<lparr>Buffer := buf\<rparr>) = Some (st\<lparr>Buffer := buf, param_buffer := pb\<rparr>)"
    using separate_params_two [of ?p "st\<lparr>Buffer := buf\<rparr>" a1 a2 r] b(1) a1 a2 st(2) by (simp add: shell_ready_def pb_def)
  have r: "replicate (20 - length a1) (0 :: u8) = 0 # replicate (19 - length a1) 0" "replicate (180 - length a2) (0 :: u8) = 0 # replicate (179 - length a2) 0"
    using a1(4) a2(4) by (simp_all flip: replicate_Suc add: Suc_diff_le)
  have pb: "pb = a1 @ 0 # (replicate (19 - length a1) 0 @ a2 @ replicate (180 - length a2) 0)"
    by (simp add: pb_def r(1))
  have pb2: "drop 20 pb = a2 @ 0 # replicate (179 - length a2) 0" using a1(4) by (simp add: pb_def r(2))
  let ?acts = "[Call (Sys_paths f pb (drop 20 pb))] @ (if f = Find then
      [out ((if find_result ans = 1 then ''Exist in the directory'' else ''Not exist in the directory'') @ newline) []] else []) @ [prompt]"
  have "run_command (Do_paths f) ?p ans st = Some (Some (?acts, st\<lparr>Buffer := buf, param_buffer := pb\<rparr>))"
    using hi sp by (simp add: Let_def)
  from dispatch_first [OF cl, of st r w "?arg @ [CR]", OF _ _ this] have
    "dispatch commands ans st = Some (?acts, st\<lparr>Buffer := buf, param_buffer := pb\<rparr>)" unfolding pp(1) using st(1) by simp
  moreover have "shell_ready (st\<lparr>Buffer := buf, param_buffer := pb, pointer := position st\<rparr>)"
    using st(2) b(2) a1(4) a2(4) by (simp add: shell_ready_def pb_def)
  moreover have "calls ?acts = [Sys_paths f pb (drop 20 pb)]" by simp
  ultimately show ?thesis using pb pb2 by fastforce
qed



text \<open>Characters that arrive together are lost, but for the last one.\<close>

lemma typed_too_fast: "port \<noteq> [] \<Longrightarrow> shell_turn ans port st = shell_key ans (last port) st"
proof -
  have "read_uart_loop ch port = (if port = [] then ch else last port)" for ch by (induction port arbitrary: ch) auto
  then show "port \<noteq> [] \<Longrightarrow> shell_turn ans port st = shell_key ans (last port) st" by (simp add: shell_turn_def read_uart_ch_def)
qed

text \<open>
  The input buffer is never started again: every character typed since the start takes one byte of it,
  and the one after the thousandth is written behind its end.
\<close>

lemma buffer_used_up:
  assumes "length (Buffer st) = 1000" "ch \<noteq> 0"
  shows "position st = 1000 \<Longrightarrow> shell_key ans ch st = None"
    and "ch \<noteq> CR \<Longrightarrow> shell_key ans ch st = Some (acts, st') \<Longrightarrow> position st' = position st + 1"
  using assms by (auto simp: shell_key_def store_def Let_def split: if_splits Option.bind_splits)

end
