(* ===== verification/Scanf.thy ===== *)
theory Scanf
  imports CString
begin

text \<open>
  Input of numbers, \<^verbatim>\<open>libs/scanf.c\<close>: a line such as \<^verbatim>\<open>0x120\<close> is collected one character per call, and at
  the carriage return the number is stored for the caller.

  The serial port is outside the sources: what it holds when it is looked at is an argument, one list
  of characters per call of \<^verbatim>\<open>read_uart_ch_s\<close>. The call \<^verbatim>\<open>do_scanf\<close> waits for a character; when the port
  gives none in all the looks it is given, the model gives \<open>None\<close>.
\<close>

text \<open>\<^verbatim>\<open>buffer\<close> is \<open>None\<close> before \<^verbatim>\<open>init_InputBuffer_s\<close>: a null pointer.\<close>

record input_s =
  buffer :: "u8 list option"
  buffer_length :: u32
  input_length :: u32
  pointer :: nat
  index :: nat

definition init_InputBuffer_s :: "u8 list \<Rightarrow> input_s \<Rightarrow> input_s" where
  "init_InputBuffer_s Buffer_s p = p\<lparr>buffer := Some Buffer_s, buffer_length := 1000, input_length := 0, pointer := 0\<rparr>"

fun read_loop :: "u8 \<Rightarrow> u8 list \<Rightarrow> u8" where
  "read_loop ch [] = ch"
| "read_loop ch (c # cs) = read_loop c cs"

definition read_uart_ch_s :: "u8 list \<Rightarrow> u8" where
  "read_uart_ch_s port = read_loop 0 port"

text \<open>What \<^verbatim>\<open>do_scanf\<close> stores at a carriage return: the number of a line that starts with \<^verbatim>\<open>0x\<close>.\<close>

definition line_number :: "u8 list \<Rightarrow> nat \<Rightarrow> u32 option option" where
  "line_number buf p = do {
     c0 \<leftarrow> load buf p;
     if c0 \<noteq> 48 then Some None
     else do {
       c1 \<leftarrow> load buf (p + 1);
       if c1 \<noteq> 120 then Some None
       else do {
         k \<leftarrow> atoh (drop (p + 2) buf);
         Some (if 0 \<le>s k \<and> k \<le> 0x80000000 then Some k else None)
       }
     }
   }"

definition scanf_char :: "u8 \<Rightarrow> u32 \<times> input_s \<Rightarrow> (u32 \<times> input_s) option" where
  "scanf_char ch = (\<lambda>(mem, p). do {
     buf \<leftarrow> buffer p;
     buf \<leftarrow> store buf (index p) ch;
     let p = p\<lparr>buffer := Some buf, input_length := input_length p + 1, index := index p + 1\<rparr>;
     if ch = 13 then do {
       n \<leftarrow> line_number buf (pointer p);
       Some (case n of None \<Rightarrow> mem | Some k \<Rightarrow> k, p\<lparr>pointer := index p\<rparr>)
     }
     else Some (mem, p)
   })"

fun do_scanf :: "u8 list list \<Rightarrow> u32 \<times> input_s \<Rightarrow> (u8 \<times> u32 \<times> input_s) option" where
  "do_scanf [] st = None"
| "do_scanf (port # ports) st =
     (let ch = read_uart_ch_s port
      in if ch \<noteq> 0 then do { st \<leftarrow> scanf_char ch st; Some (ch, st) } else do_scanf ports st)"

section \<open>Lines\<close>

text \<open>Only the last of the characters that are waiting is kept.\<close>

lemma read_uart_last: "read_uart_ch_s port = (if port = [] then 0 else last port)"
proof -
  have "read_loop ch port = (if port = [] then ch else last port)" for ch by (induction port arbitrary: ch) auto
  then show ?thesis by (simp add: read_uart_ch_s_def)
qed

fun scanf_chars :: "u8 list \<Rightarrow> u32 \<times> input_s \<Rightarrow> (u32 \<times> input_s) option" where
  "scanf_chars [] st = Some st"
| "scanf_chars (c # cs) st = do { (_, st) \<leftarrow> do_scanf [[c]] st; scanf_chars cs st }"

definition hex_digits :: "u8 list \<Rightarrow> u32" where
  "hex_digits ds = fold (\<lambda>d n. n * 16 + ucast d - 48) ds 0"

lemma atoh_digits: "\<forall>d \<in> set ds. 48 \<le> d \<and> d \<le> 57 \<Longrightarrow> atoh (ds @ 13 # r) = Some (hex_digits ds)"
proof -
  assume "\<forall>d \<in> set ds. 48 \<le> d \<and> d \<le> 57"
  then have "atoh_loop (ds @ 13 # r) n = Some (fold (\<lambda>d n. n * 16 + ucast d - 48) ds n)" for n
    by (induction ds arbitrary: n) auto
  then show ?thesis by (simp add: atoh_def hex_digits_def)
qed

lemma scanf_chars_append: "scanf_chars (a @ b) st = Option.bind (scanf_chars a st) (scanf_chars b)"
proof (induction a arbitrary: st)
  case (Cons c a)
  then show ?case by (cases "do_scanf [[c]] st") auto
qed simp

lemma scanf_typed:
  assumes "0 \<notin> set cs" "13 \<notin> set cs" "buffer p = Some buf" "index p + length cs \<le> length buf"
  shows "\<exists>n. scanf_chars cs (mem, p) = Some (mem, p\<lparr>buffer := Some (take (index p) buf @ cs @ drop (index p + length cs) buf),
    input_length := n, index := index p + length cs\<rparr>)"
  using assms
proof (induction cs arbitrary: p buf)
  case Nil
  then show ?case by (intro exI [of _ "input_length p"]) simp
next
  case (Cons c cs)
  let ?p = "p\<lparr>buffer := Some (buf[index p := c]), input_length := input_length p + 1, index := index p + 1\<rparr>"
  have s: "do_scanf [[c]] (mem, p) = Some (c, mem, ?p)"
    using Cons.prems by (auto simp: read_uart_last scanf_char_def Let_def)
  obtain n where "scanf_chars cs (mem, ?p) = Some (mem, ?p\<lparr>buffer := Some (take (index ?p) (buf[index p := c]) @ cs @
      drop (index ?p + length cs) (buf[index p := c])), input_length := n, index := index ?p + length cs\<rparr>)"
    using Cons.IH [of ?p "buf[index p := c]"] Cons.prems by auto
  moreover have "take (Suc (index p)) (buf[index p := c]) = take (index p) buf @ [c]"
    using Cons.prems(4) by (simp add: take_Suc_conv_app_nth)
  ultimately show ?case using s by (intro exI [of _ n]) simp
qed

text \<open>
  Typing \<^verbatim>\<open>0x\<close>, decimal digits and a carriage return stores the hexadecimal number, and the next line
  starts behind it.
\<close>

lemma scanf_reads_number:
  assumes ds: "\<forall>d \<in> set ds. 48 \<le> d \<and> d \<le> 57" and k: "0 \<le>s hex_digits ds" "hex_digits ds \<le> 0x80000000"
    and p: "buffer p = Some buf" "pointer p = index p" "index p + length ds + 3 \<le> length buf"
  shows "\<exists>p'. scanf_chars ([48, 120] @ ds @ [13]) (mem, p) = Some (hex_digits ds, p') \<and> pointer p' = index p' \<and>
    index p' = index p + length ds + 3"
proof -
  let ?cs = "[48, 120] @ ds"
  have "(13 :: u8) \<notin> set ds" "0 \<notin> set ds" using ds by (auto simp: word_le_nat_alt)
  then obtain n where t: "scanf_chars ?cs (mem, p) = Some (mem, p\<lparr>buffer := Some (take (index p) buf @ ?cs @ drop (index p + length ?cs) buf),
    input_length := n, index := index p + length ?cs\<rparr>)" (is "_ = Some (mem, ?p)")
    using scanf_typed [of ?cs p buf mem] p by auto
  define b where "b = take (index p) buf @ ?cs @ 13 # drop (index p + length ds + 3) buf"
  have "drop (index p + length ds + 2) buf = buf ! (index p + length ds + 2) # drop (index p + length ds + 3) buf"
    using p(3) by (simp add: Cons_nth_drop_Suc numeral_3_eq_3)
  then have b: "(take (index p) buf @ ?cs @ drop (index p + length ?cs) buf)[index p + length ?cs := 13] = b"
    using p(3) by (simp add: b_def list_update_append add.commute add.left_commute)
  have "load b (index p) = Some 48" "load b (index p + 1) = Some 120" "drop (index p + 2) b = ds @ 13 # drop (index p + length ds + 3) buf"
    using p(3) by (simp_all add: b_def load_def nth_append)
  then have "line_number b (index p) = Some (Some (hex_digits ds))" using k atoh_digits [OF ds] by (simp add: line_number_def)
  then have "do_scanf [[13]] (mem, ?p) = Some (13, hex_digits ds, ?p\<lparr>buffer := Some b, input_length := n + 1,
      index := index p + length ds + 3, pointer := index p + length ds + 3\<rparr>)"
    using b p by (simp add: read_uart_last scanf_char_def Let_def numeral_3_eq_3)
  then have "scanf_chars (?cs @ [13]) (mem, p) = Some (hex_digits ds, ?p\<lparr>buffer := Some b, input_length := n + 1,
      index := index p + length ds + 3, pointer := index p + length ds + 3\<rparr>)"
    unfolding scanf_chars_append [of ?cs "[13]"] t by (simp del: do_scanf.simps)
  then show ?thesis by auto
qed

end
