(* ===== verification/Bitmap.thy ===== *)
theory Bitmap
  imports Prelude
begin

text \<open>
  The bit maps of \<^verbatim>\<open>libs/bitmap.c\<close>, with which the file system tracks used blocks and used
  inodes. A map is an array of bytes; bit \<open>i\<close> of the map is bit \<open>i mod 8\<close> of byte \<open>i div 8\<close>.
  An index past the array is a memory error (\<open>None\<close>).

  The second part gives the contract of the three operations as the locale \<open>bit_set\<close> over the set
  of indices whose bit is one, proves the linear search for a free bit inside it, and interprets
  the locale on the code.
\<close>

section \<open>The operations of bitmap.c\<close>

definition check_bitmap :: "u8 list \<Rightarrow> u32 \<Rightarrow> bool option" where
  "check_bitmap bitmap index = do {
     let byte = index div 8;
     let offset = (ucast (index mod 8) :: u8);
     b \<leftarrow> load bitmap (unat byte);
     let shift = (ucast (push_bit (unat offset) (1 :: u32) AND ucast b) :: u8);
     Some (shift \<noteq> 0)
   }"

definition set_bitmap :: "u8 list \<Rightarrow> u32 \<Rightarrow> u8 list option" where
  "set_bitmap bitmap index = do {
     let byte = index div 8;
     let offset = (ucast (index mod 8) :: u8);
     b \<leftarrow> load bitmap (unat byte);
     store bitmap (unat byte) (ucast (ucast b OR push_bit (unat offset) (1 :: u32)))
   }"

definition unset_bitmap :: "u8 list \<Rightarrow> u32 \<Rightarrow> u8 list option" where
  "unset_bitmap bitmap index = do {
     let byte = index div 8;
     let offset = (ucast (index mod 8) :: u8);
     b \<leftarrow> load bitmap (unat byte);
     store bitmap (unat byte) (ucast (ucast b AND NOT (push_bit (unat offset) (1 :: u32))))
   }"

section \<open>The set a bit map stands for\<close>

definition bits :: "u8 list \<Rightarrow> nat set" where
  "bits bm = {i. i < 8 * length bm \<and> bit (bm ! (i div 8)) (i mod 8)}"

lemma byte_index [simp]:
  fixes i :: u32
  shows "unat (i div 8) = unat i div 8" and "unat (ucast (i mod 8) :: u8) = unat i mod 8"
proof -
  show "unat (i div 8) = unat i div 8" by (simp add: unat_div)
  have "unat (i mod 8) = unat i mod 8" by (simp add: unat_mod)
  then show "unat (ucast (i mod 8) :: u8) = unat i mod 8"
    by (simp add: unsigned_ucast_eq take_bit_nat_def)
qed

lemma masked_byte:
  fixes b :: u8
  assumes "k < 8"
  shows "(ucast (push_bit k (1 :: u32) AND ucast b) :: u8) \<noteq> 0 \<longleftrightarrow> bit b k"
proof -
  have "bit (ucast (push_bit k (1 :: u32) AND ucast b) :: u8) n \<longleftrightarrow> n = k \<and> bit b k" for n
    using assms by (auto simp: bit_simps)
  then show ?thesis using assms by (metis bit_eqI bit_0_eq bot_apply bot_bool_def)
qed

lemma set_byte:
  fixes b :: u8
  assumes "k < 8"
  shows "bit (ucast (ucast b OR push_bit k (1 :: u32)) :: u8) n \<longleftrightarrow> bit b n \<or> n = k"
  using assms by (auto simp: bit_simps dest: bit_imp_le_length)

lemma unset_byte:
  fixes b :: u8
  assumes "k < 8"
  shows "bit (ucast (ucast b AND NOT (push_bit k (1 :: u32))) :: u8) n \<longleftrightarrow> bit b n \<and> n \<noteq> k"
  using assms by (auto simp: bit_simps dest: bit_imp_le_length)

lemma div_mod_eq_8: "(i :: nat) = j \<longleftrightarrow> i div 8 = j div 8 \<and> i mod 8 = j mod 8"
  by (metis div_mult_mod_eq)

lemma byte_in: "(i :: nat) < 8 * n \<Longrightarrow> i div 8 < n"
  by (simp add: less_mult_imp_div_less mult.commute)

lemma byte_out: "\<not> (i :: nat) < 8 * n \<Longrightarrow> \<not> i div 8 < n"
  by linarith

lemma check_bitmap_spec:
  "check_bitmap bm i = (if unat i < 8 * length bm then Some (unat i \<in> bits bm) else None)"
  using byte_in byte_out [of "unat i" "length bm"]
  by (auto simp: check_bitmap_def load_def masked_byte bits_def simp del: push_bit_of_1)

lemma set_bitmap_spec:
  assumes "unat i < 8 * length bm"
  obtains bm' where "set_bitmap bm i = Some bm'" and "length bm' = length bm"
    and "bits bm' = insert (unat i) (bits bm)"
proof
  let ?b = "ucast (ucast (bm ! (unat i div 8)) OR push_bit (unat i mod 8) (1 :: u32)) :: u8"
  let ?bm = "bm[unat i div 8 := ?b]"
  show "set_bitmap bm i = Some ?bm"
    using assms byte_in by (simp add: set_bitmap_def del: push_bit_of_1)
  show "length ?bm = length bm" by simp
  show "bits ?bm = insert (unat i) (bits bm)"
    using assms byte_in set_byte [of "unat i mod 8"] div_mod_eq_8 [of _ "unat i"]
    by (auto simp: bits_def nth_list_update simp del: push_bit_of_1)
qed

lemma unset_bitmap_spec:
  assumes "unat i < 8 * length bm"
  obtains bm' where "unset_bitmap bm i = Some bm'" and "length bm' = length bm"
    and "bits bm' = bits bm - {unat i}"
proof
  let ?b = "ucast (ucast (bm ! (unat i div 8)) AND NOT (push_bit (unat i mod 8) (1 :: u32))) :: u8"
  let ?bm = "bm[unat i div 8 := ?b]"
  show "unset_bitmap bm i = Some ?bm"
    using assms byte_in by (simp add: unset_bitmap_def del: push_bit_of_1)
  show "length ?bm = length bm" by simp
  show "bits ?bm = bits bm - {unat i}"
    using assms byte_in unset_byte [of "unat i mod 8"] div_mod_eq_8 [of _ "unat i"]
    by (auto simp: bits_def nth_list_update simp del: push_bit_of_1)
qed

section \<open>The contract and the search for a free bit\<close>

locale bit_set =
  fixes check :: "'m \<Rightarrow> u32 \<Rightarrow> bool option"
    and put :: "'m \<Rightarrow> u32 \<Rightarrow> 'm option"
    and clear :: "'m \<Rightarrow> u32 \<Rightarrow> 'm option"
    and members :: "'m \<Rightarrow> nat set"
    and size_of :: "'m \<Rightarrow> nat"
  assumes check_in: "unat i < size_of m \<Longrightarrow> check m i = Some (unat i \<in> members m)"
    and put_in: "unat i < size_of m \<Longrightarrow>
      \<exists>m'. put m i = Some m' \<and> size_of m' = size_of m \<and> members m' = insert (unat i) (members m)"
    and clear_in: "unat i < size_of m \<Longrightarrow>
      \<exists>m'. clear m i = Some m' \<and> size_of m' = size_of m \<and> members m' = members m - {unat i}"
begin

lemma check_after_put:
  "put m i = Some m' \<Longrightarrow> unat i < size_of m \<Longrightarrow> unat j < size_of m \<Longrightarrow>
   check m' j = (if j = i then Some True else check m j)"
  using put_in [of i m] by (auto simp: check_in word_unat_eq_iff)

lemma check_after_clear:
  "clear m i = Some m' \<Longrightarrow> unat i < size_of m \<Longrightarrow> unat j < size_of m \<Longrightarrow>
   check m' j = (if j = i then Some False else check m j)"
  using clear_in [of i m] by (auto simp: check_in word_unat_eq_iff)

lemma clear_undoes_put:
  assumes "unat i < size_of m" and "check m i = Some False"
  shows "\<exists>m' m''. put m i = Some m' \<and> clear m' i = Some m'' \<and> members m'' = members m"
proof -
  have i: "unat i \<notin> members m" using assms by (simp add: check_in)
  obtain m' where m': "put m i = Some m'" "size_of m' = size_of m"
    "members m' = insert (unat i) (members m)"
    using put_in assms(1) by blast
  obtain m'' where "clear m' i = Some m''" "members m'' = members m' - {unat i}"
    using clear_in [of i m'] assms(1) m'(2) by auto
  with m' i show ?thesis by auto
qed

end

locale bit_search = bit_set +
  fixes scan :: "'a \<Rightarrow> u32 \<Rightarrow> u32 option"
  assumes scan_step: "scan m j = Option.bind (check m j) (\<lambda>b. if b then scan m (j + 1) else Some j)"
begin

text \<open>The search ends at the first member-free index, whatever the number of steps to it.\<close>

lemma scan_to:
  assumes "unat j + k < size_of m" and "size_of m \<le> 2 ^ 32"
    and "\<forall>i < k. unat j + i \<in> members m" and "unat j + k \<notin> members m"
  shows "scan m j = Some (j + of_nat k)"
  using assms
proof (induction k arbitrary: j)
  case 0
  then show ?case by (simp add: scan_step check_in)
next
  case (Suc k)
  have "unat j \<in> members m" using Suc.prems(3) by force
  then have j: "scan m j = scan m (j + 1)"
    using Suc.prems(1) by (simp add: scan_step [of m j] check_in)
  have "unat j + 1 < 2 ^ 32" using Suc.prems(1,2) by linarith
  then have up: "unat (j + 1) = unat j + 1" by (simp add: unat_add_lem [THEN iffD1])
  have "\<forall>i < k. unat (j + 1) + i \<in> members m"
    using Suc.prems(3) up by (metis Suc_mono add.assoc plus_1_eq_Suc)
  then have "scan m (j + 1) = Some (j + 1 + of_nat k)"
    using Suc.prems up by (intro Suc.IH) auto
  then show ?case by (simp add: j algebra_simps)
qed

lemma scan_least:
  assumes "unat j \<le> n" and "n < size_of m" and "size_of m \<le> 2 ^ 32"
    and "\<forall>i. unat j \<le> i \<and> i < n \<longrightarrow> i \<in> members m" and "n \<notin> members m"
  shows "scan m j = Some (of_nat n)"
proof -
  have "scan m j = Some (j + of_nat (n - unat j))"
    using assms by (intro scan_to) auto
  moreover have "j + of_nat (n - unat j) = (of_nat n :: u32)"
    using assms(1) by (simp add: of_nat_diff)
  ultimately show ?thesis by simp
qed

end

interpretation bitmap: bit_set check_bitmap set_bitmap unset_bitmap bits "\<lambda>bm. 8 * length bm"
proof unfold_locales
  fix i :: u32 and m :: "u8 list"
  assume i: "unat i < 8 * length m"
  show "check_bitmap m i = Some (unat i \<in> bits m)"
    using i by (simp add: check_bitmap_spec)
  show "\<exists>m'. set_bitmap m i = Some m' \<and> 8 * length m' = 8 * length m \<and>
      bits m' = insert (unat i) (bits m)"
    using i by (metis set_bitmap_spec)
  show "\<exists>m'. unset_bitmap m i = Some m' \<and> 8 * length m' = 8 * length m \<and>
      bits m' = bits m - {unat i}"
    using i by (metis unset_bitmap_spec)
qed

section \<open>Properties\<close>

text \<open>
  Claim C18. The operations of \<^verbatim>\<open>bitmap.c\<close> on any bit of an array implement a set of indices:
  \<^verbatim>\<open>set_bitmap\<close> inserts the index and \<^verbatim>\<open>unset_bitmap\<close> deletes it, without changing the size of
  the array, and a later \<^verbatim>\<open>check_bitmap\<close> of any index \<open>j\<close> answers by membership.
\<close>

theorem bitmap_refines_set:
  assumes "unat i < 8 * length bm" and "unat j < 8 * length bm"
  shows "Option.bind (set_bitmap bm i) (\<lambda>b. check_bitmap b j) = Some (j = i \<or> unat j \<in> bits bm) \<and>
    Option.bind (unset_bitmap bm i) (\<lambda>b. check_bitmap b j) = Some (j \<noteq> i \<and> unat j \<in> bits bm) \<and>
    check_bitmap bm j = Some (unat j \<in> bits bm)"
proof -
  obtain b1 where b1: "set_bitmap bm i = Some b1" using assms(1) by (metis set_bitmap_spec)
  obtain b2 where b2: "unset_bitmap bm i = Some b2" using assms(1) by (metis unset_bitmap_spec)
  show ?thesis
    using bitmap.check_after_put [OF b1] bitmap.check_after_clear [OF b2] assms
    by (auto simp: b1 b2 bitmap.check_in)
qed

theorem bitmap_refines_set_witness:
  "Option.bind (set_bitmap [0, 4] 9) (\<lambda>b. check_bitmap b 10) = Some True"
  using bitmap_refines_set [of 9 "[0, 4]" 10] by (simp add: bits_def)

end
