(* ===== verification/Fs_Layout.thy ===== *)
theory Fs_Layout
  imports CString Bitmap
begin

text \<open>
  The on-disk structures of \<^verbatim>\<open>include/os/fs.h\<close>: the constants of the layout, and the C structs
  \<^verbatim>\<open>superblock_t\<close>, \<^verbatim>\<open>inode_t\<close>, \<^verbatim>\<open>dentry_t\<close> and \<^verbatim>\<open>file_descriptor_t\<close>. The kernel copies inodes and
  directory entries to and from block buffers with \<^verbatim>\<open>memcpy\<close>, so each of them is a record
  together with its image of 128 bytes in the little-endian order of the MIPS target. The super
  block is only accessed in place: its fields are the 32-bit cells of the buffer.
\<close>

section \<open>Constants\<close>

abbreviation (input) BLOCK_SIZE :: nat where "BLOCK_SIZE \<equiv> 4096"
abbreviation (input) FS_SIZE :: nat where "FS_SIZE \<equiv> 1073741824"
abbreviation (input) FS_START_SD_OFFSET :: u32 where "FS_START_SD_OFFSET \<equiv> 0x20000000"
abbreviation (input) FS_MAGIC_NUMBER :: u32 where "FS_MAGIC_NUMBER \<equiv> 0x2e575159"
abbreviation (input) SUPERBLOCK_BLOCK_INDEX :: u32 where "SUPERBLOCK_BLOCK_INDEX \<equiv> 0"
abbreviation (input) BLOCK_BMP_BLOCK_INDEX :: u32 where "BLOCK_BMP_BLOCK_INDEX \<equiv> 1"
abbreviation (input) BLOCK_BMP_BLOCKS_NUM :: nat where "BLOCK_BMP_BLOCKS_NUM \<equiv> 8"
abbreviation (input) INODE_BMP_BLOCK_INDEX :: u32 where "INODE_BMP_BLOCK_INDEX \<equiv> 9"
abbreviation (input) INODE_TABLE_BLOCK_INDEX :: u32 where "INODE_TABLE_BLOCK_INDEX \<equiv> 10"
abbreviation (input) INODE_TABLE_BLOCKS_NUM :: nat where "INODE_TABLE_BLOCKS_NUM \<equiv> 256"
abbreviation (input) DATA_BLOCK_INDEX :: u32 where "DATA_BLOCK_INDEX \<equiv> 266"
abbreviation (input) BLOCK_NUM :: nat where "BLOCK_NUM \<equiv> 262144"
abbreviation (input) BLOCK_BITMAP_SIZE :: nat where "BLOCK_BITMAP_SIZE \<equiv> 32768"
abbreviation (input) INODE_SIZE :: nat where "INODE_SIZE \<equiv> 128"
abbreviation (input) INODE_NUM :: nat where "INODE_NUM \<equiv> 8192"
abbreviation (input) INODE_BITMAP_SIZE :: nat where "INODE_BITMAP_SIZE \<equiv> 1024"
abbreviation (input) INODE_NUM_PER_BLOCK :: nat where "INODE_NUM_PER_BLOCK \<equiv> 32"
abbreviation (input) MAX_DIRECT_NUM :: nat where "MAX_DIRECT_NUM \<equiv> 12"
abbreviation (input) MAX_NAME_LENGTH :: nat where "MAX_NAME_LENGTH \<equiv> 64"
abbreviation (input) DENTRY_SIZE :: nat where "DENTRY_SIZE \<equiv> 128"
abbreviation (input) MAX_PATH_LENGTH :: nat where "MAX_PATH_LENGTH \<equiv> 512"
abbreviation (input) DENTRY_NUM_PER_BLOCK :: nat where "DENTRY_NUM_PER_BLOCK \<equiv> 32"
abbreviation (input) MAX_FILE_DESCRIPTOR_NUM :: nat where "MAX_FILE_DESCRIPTOR_NUM \<equiv> 32"
abbreviation (input) POINTER_PER_BLOCK :: nat where "POINTER_PER_BLOCK \<equiv> 1024"
abbreviation (input) FIRST_POINTER :: nat where "FIRST_POINTER \<equiv> 12"
abbreviation (input) SECOND_POINTER :: nat where "SECOND_POINTER \<equiv> 1036"
abbreviation (input) THIRD_POINTER :: nat where "THIRD_POINTER \<equiv> 1049612"
abbreviation (input) MAX_BLOCK_INDEX :: nat where "MAX_BLOCK_INDEX \<equiv> 1074791436"
abbreviation (input) MAX_LS_NUM :: nat where "MAX_LS_NUM \<equiv> 10"
abbreviation (input) MAX_DENTRY_BLOCK_NUM :: nat where "MAX_DENTRY_BLOCK_NUM \<equiv> 12"
abbreviation (input) FILE_READ_MAX_LENGTH :: nat where "FILE_READ_MAX_LENGTH \<equiv> 20480"
abbreviation (input) FILE_WRITE_MAX_LENGTH :: nat where "FILE_WRITE_MAX_LENGTH \<equiv> 20480"
abbreviation (input) CAT_MAX_LENGTH :: nat where "CAT_MAX_LENGTH \<equiv> 20480"
abbreviation (input) CAT_LENGTH :: u32 where "CAT_LENGTH \<equiv> 200"

text \<open>The constants are computed in \<^verbatim>\<open>fs.h\<close> from the sizes; the numbers above are their values.\<close>

lemma layout_constants:
  "BLOCK_NUM * BLOCK_SIZE = FS_SIZE" "BLOCK_BITMAP_SIZE * 8 = BLOCK_NUM"
  "BLOCK_BMP_BLOCKS_NUM * BLOCK_SIZE = BLOCK_BITMAP_SIZE"
  "INODE_NUM_PER_BLOCK * INODE_SIZE = BLOCK_SIZE"
  "INODE_TABLE_BLOCKS_NUM * INODE_NUM_PER_BLOCK = INODE_NUM" "INODE_BITMAP_SIZE * 8 = INODE_NUM"
  "DENTRY_NUM_PER_BLOCK * DENTRY_SIZE = BLOCK_SIZE" "POINTER_PER_BLOCK * 4 = BLOCK_SIZE"
  "SECOND_POINTER = FIRST_POINTER + POINTER_PER_BLOCK"
  "THIRD_POINTER = SECOND_POINTER + POINTER_PER_BLOCK ^ 2"
  "MAX_BLOCK_INDEX = THIRD_POINTER + POINTER_PER_BLOCK ^ 3"
  "unat DATA_BLOCK_INDEX = 1 + BLOCK_BMP_BLOCKS_NUM + 1 + INODE_TABLE_BLOCKS_NUM"
  by simp_all

abbreviation (input) S_IFDIR :: u16 where "S_IFDIR \<equiv> 0x4000"
abbreviation (input) S_IFREG :: u16 where "S_IFREG \<equiv> 0x8000"
abbreviation (input) S_IFLNK :: u16 where "S_IFLNK \<equiv> 0xA000"
abbreviation (input) S_IFMT :: u16 where "S_IFMT \<equiv> 0xF000"

definition S_ISDIR :: "u16 \<Rightarrow> bool" where
  "S_ISDIR m \<longleftrightarrow> m AND S_IFMT = S_IFDIR"

definition S_ISREG :: "u16 \<Rightarrow> bool" where
  "S_ISREG m \<longleftrightarrow> m AND S_IFMT = S_IFREG"

definition S_ISLNK :: "u16 \<Rightarrow> bool" where
  "S_ISLNK m \<longleftrightarrow> m AND S_IFMT = S_IFLNK"

section \<open>Runs of 32-bit cells\<close>

definition le32s :: "u32 list \<Rightarrow> u8 list" where
  "le32s ws = concat (map le32 ws)"

definition cells :: "u8 list \<Rightarrow> nat \<Rightarrow> nat \<Rightarrow> u32 list" where
  "cells bs off n = map (\<lambda>i. get32 bs (off + 4 * i)) [0..<n]"

lemma length_le32s [simp]: "length (le32s ws) = 4 * length ws"
  by (induction ws) (auto simp: le32s_def)

lemma le32s_simps: "le32s [] = []" "le32s (w # ws) = le32 w @ le32s ws"
  "le32s (ws @ vs) = le32s ws @ le32s vs"
  by (simp_all add: le32s_def)

lemma length_cells [simp]: "length (cells bs off n) = n"
  by (simp add: cells_def)

lemma nth_cells [simp]: "i < n \<Longrightarrow> cells bs off n ! i = get32 bs (off + 4 * i)"
  by (simp add: cells_def)

lemma get32_append:
  "get32 (as @ bs) off = (if off + 4 \<le> length as then get32 as off
     else if length as \<le> off then get32 bs (off - length as) else get32 (as @ bs) off)"
  by (auto simp: get32_def slice_def)

lemma get32_left: "off + 4 \<le> length as \<Longrightarrow> get32 (as @ bs) off = get32 as off"
  by (simp add: get32_append)

lemma get32_right: "length as \<le> off \<Longrightarrow> get32 (as @ bs) off = get32 bs (off - length as)"
  by (subst get32_append) auto

lemma get32_le32s: "i < length ws \<Longrightarrow> get32 (le32s ws @ bs) (4 * i) = ws ! i"
proof (induction ws arbitrary: i)
  case (Cons w ws)
  show ?case
  proof (cases i)
    case 0
    then show ?thesis by (simp add: le32s_simps get32_def slice_def)
  next
    case (Suc k)
    have "get32 (le32 w @ le32s ws @ bs) (4 + 4 * k) = get32 (le32s ws @ bs) (4 * k)"
      by (subst get32_right) simp_all
    then show ?thesis using Cons Suc by (simp add: le32s_simps)
  qed
qed simp

lemma cells_le32s: "4 * length ws = n * 4 \<Longrightarrow> cells (le32s ws @ bs) 0 n = ws"
  by (intro nth_equalityI) (auto simp: get32_le32s)

lemma le32_of_le32: "length bs = 4 \<Longrightarrow> le32 (of_le32 bs) = bs"
proof -
  assume "length bs = 4"
  then obtain a b c d where bs: "bs = [a, b, c, d]"
    by (auto simp: numeral_eq_Suc length_Suc_conv)
  have "ucast (of_le32 bs) = a" "ucast (drop_bit 8 (of_le32 bs)) = b"
    "ucast (drop_bit 16 (of_le32 bs)) = c" "ucast (drop_bit 24 (of_le32 bs)) = d"
    by (rule bit_word_eqI; auto simp: bs of_le32_def bit_simps dest: bit_imp_le_length)+
  then show ?thesis by (simp add: le32_def bs)
qed

lemma le16_of_le16: "length bs = 2 \<Longrightarrow> le16 (of_le16 bs) = bs"
proof -
  assume "length bs = 2"
  then obtain a b where bs: "bs = [a, b]"
    by (auto simp: numeral_eq_Suc length_Suc_conv)
  have "ucast (of_le16 bs) = a" "ucast (drop_bit 8 (of_le16 bs)) = b"
    by (rule bit_word_eqI; auto simp: bs of_le16_def bit_simps dest: bit_imp_le_length)+
  then show ?thesis by (simp add: le16_def bs)
qed

lemma slice_add: "slice bs off (a + b) = slice bs off a @ slice bs (off + a) b"
  by (simp add: slice_def take_add drop_drop add.commute)

lemma le32s_cells: "off + 4 * n \<le> length bs \<Longrightarrow> le32s (cells bs off n) = slice bs off (4 * n)"
proof (induction n)
  case (Suc n)
  have "le32 (get32 bs (off + 4 * n)) = slice bs (off + 4 * n) 4"
    using Suc.prems by (simp add: get32_def le32_of_le32)
  moreover have "slice bs off (4 * Suc n) = slice bs off (4 * n) @ slice bs (off + 4 * n) 4"
    using slice_add [of bs off "4 * n" 4] by (simp add: add.commute)
  ultimately show ?case using Suc by (simp add: cells_def le32s_simps)
qed (simp add: cells_def slice_def le32s_def)

section \<open>Inodes\<close>

record inode_t =
  i_fmode :: u16
  i_links_cnt :: u16
  i_fsize :: u32
  i_fnum :: u32
  i_atime :: u32
  i_ctime :: u32
  i_mtime :: u32
  i_direct_table :: "u32 list"
  i_indirect_block_1_ptr :: u32
  i_indirect_block_2_ptr :: u32
  i_indirect_block_3_ptr :: u32
  i_num :: u32
  i_padding :: "u32 list"

definition inode_ok :: "inode_t \<Rightarrow> bool" where
  "inode_ok ino \<longleftrightarrow> length (i_direct_table ino) = MAX_DIRECT_NUM \<and> length (i_padding ino) = 10"

lemma inode_ok_update [simp]:
  "inode_ok (ino \<lparr> i_indirect_block_1_ptr := k \<rparr>) = inode_ok ino"
  "inode_ok (ino \<lparr> i_fsize := k \<rparr>) = inode_ok ino" "inode_ok (ino \<lparr> i_fnum := k \<rparr>) = inode_ok ino"
  "inode_ok (ino \<lparr> i_links_cnt := l \<rparr>) = inode_ok ino"
  "inode_ok (ino \<lparr> i_direct_table := (i_direct_table ino)[i := k] \<rparr>) = inode_ok ino"
  by (simp_all add: inode_ok_def)

definition inode_bytes :: "inode_t \<Rightarrow> u8 list" where
  "inode_bytes ino = le16 (i_fmode ino) @ le16 (i_links_cnt ino) @
     le32s ([i_fsize ino, i_fnum ino, i_atime ino, i_ctime ino, i_mtime ino] @ i_direct_table ino @
       [i_indirect_block_1_ptr ino, i_indirect_block_2_ptr ino, i_indirect_block_3_ptr ino,
        i_num ino] @ i_padding ino)"

definition bytes_inode :: "u8 list \<Rightarrow> inode_t" where
  "bytes_inode bs = (let w = cells bs 4 31 in
     \<lparr> i_fmode = of_le16 (slice bs 0 2), i_links_cnt = of_le16 (slice bs 2 2),
       i_fsize = w ! 0, i_fnum = w ! 1, i_atime = w ! 2, i_ctime = w ! 3, i_mtime = w ! 4,
       i_direct_table = take 12 (drop 5 w), i_indirect_block_1_ptr = w ! 17,
       i_indirect_block_2_ptr = w ! 18, i_indirect_block_3_ptr = w ! 19, i_num = w ! 20,
       i_padding = drop 21 w \<rparr>)"

lemma length_inode_bytes [simp]: "inode_ok ino \<Longrightarrow> length (inode_bytes ino) = INODE_SIZE"
  by (simp add: inode_bytes_def inode_ok_def)

lemma inode_ok_bytes_inode [simp]: "inode_ok (bytes_inode bs)"
  by (simp add: bytes_inode_def inode_ok_def Let_def)

lemma cells_after: "length as = off \<Longrightarrow> cells (as @ bs) off n = cells bs 0 n"
  by (intro nth_equalityI) (simp_all add: get32_right)

lemma list_split_12: "length xs = 12 \<Longrightarrow> length ys = 10 \<Longrightarrow>
   take 12 (drop 5 ([a, b, c, d, e] @ xs @ [f, g, h, i] @ ys)) = xs \<and>
   drop 21 ([a, b, c, d, e] @ xs @ [f, g, h, i] @ ys) = ys \<and>
   ([a, b, c, d, e] @ xs @ [f, g, h, i] @ ys) ! 17 = f \<and>
   ([a, b, c, d, e] @ xs @ [f, g, h, i] @ ys) ! 18 = g \<and>
   ([a, b, c, d, e] @ xs @ [f, g, h, i] @ ys) ! 19 = h \<and>
   ([a, b, c, d, e] @ xs @ [f, g, h, i] @ ys) ! 20 = i"
  by (simp add: nth_append)

lemma bytes_inode_inode_bytes:
  assumes "inode_ok ino"
  shows "bytes_inode (inode_bytes ino) = ino"
proof -
  let ?w = "[i_fsize ino, i_fnum ino, i_atime ino, i_ctime ino, i_mtime ino] @ i_direct_table ino @
    [i_indirect_block_1_ptr ino, i_indirect_block_2_ptr ino, i_indirect_block_3_ptr ino,
     i_num ino] @ i_padding ino"
  have len: "length (i_direct_table ino) = 12" "length (i_padding ino) = 10"
    using assms by (simp_all add: inode_ok_def)
  have "cells (le32s ?w @ []) 0 31 = ?w" by (rule cells_le32s) (simp add: len)
  then have w: "cells (inode_bytes ino) 4 31 = ?w"
    unfolding inode_bytes_def append_assoc [symmetric, of "le16 _"]
    by (subst cells_after) simp_all
  have m: "of_le16 (slice (inode_bytes ino) 0 2) = i_fmode ino"
    "of_le16 (slice (inode_bytes ino) 2 2) = i_links_cnt ino"
    by (simp_all add: inode_bytes_def slice_def)
  show ?thesis
    unfolding bytes_inode_def Let_def w m using list_split_12 [OF len] by simp
qed

lemma inode_bytes_bytes_inode:
  assumes "length bs = INODE_SIZE"
  shows "inode_bytes (bytes_inode bs) = bs"
proof -
  let ?w = "cells bs 4 31"
  have "[?w ! 0, ?w ! 1, ?w ! 2, ?w ! 3, ?w ! 4] @ take 12 (drop 5 ?w) @
     [?w ! 17, ?w ! 18, ?w ! 19, ?w ! 20] @ drop 21 ?w = ?w"
    by (simp add: cells_def upt_rec)
  then have "inode_bytes (bytes_inode bs) = slice bs 0 2 @ slice bs 2 2 @ slice bs 4 124"
    using assms by (simp add: inode_bytes_def bytes_inode_def Let_def le16_of_le16 le32s_cells)
  also have "\<dots> = slice bs 0 128"
    using slice_add [of bs 0 2 126] slice_add [of bs 2 2 124] by (simp only: add_0 numeral_plus_numeral add_num_simps)
  also have "\<dots> = bs" using assms by (simp add: slice_def)
  finally show ?thesis .
qed

section \<open>Directory entries\<close>

record dentry_t =
  d_inum :: u32
  d_name :: "u8 list"
  d_padding :: "u8 list"

definition dentry_ok :: "dentry_t \<Rightarrow> bool" where
  "dentry_ok d \<longleftrightarrow> length (d_name d) = MAX_NAME_LENGTH \<and> length (d_padding d) = 60"

definition dentry_bytes :: "dentry_t \<Rightarrow> u8 list" where
  "dentry_bytes d = le32 (d_inum d) @ d_name d @ d_padding d"

definition bytes_dentry :: "u8 list \<Rightarrow> dentry_t" where
  "bytes_dentry bs = \<lparr> d_inum = get32 bs 0, d_name = slice bs 4 64, d_padding = slice bs 68 60 \<rparr>"

lemma length_dentry_bytes [simp]: "dentry_ok d \<Longrightarrow> length (dentry_bytes d) = DENTRY_SIZE"
  by (simp add: dentry_bytes_def dentry_ok_def)

lemma bytes_dentry_dentry_bytes: "dentry_ok d \<Longrightarrow> bytes_dentry (dentry_bytes d) = d"
  by (simp add: bytes_dentry_def dentry_bytes_def dentry_ok_def get32_def slice_def)

lemma dentry_bytes_bytes_dentry: "length bs = DENTRY_SIZE \<Longrightarrow> dentry_bytes (bytes_dentry bs) = bs"
  using slice_add [of bs 0 4 124] slice_add [of bs 4 64 60]
  by (simp add: bytes_dentry_def dentry_bytes_def get32_def le32_of_le32) (simp add: slice_def)

lemma dentry_ok_bytes_dentry [simp]: "length bs = DENTRY_SIZE \<Longrightarrow> dentry_ok (bytes_dentry bs)"
  by (simp add: bytes_dentry_def dentry_ok_def)

definition zero_dentry :: dentry_t where
  "zero_dentry = \<lparr> d_inum = 0, d_name = replicate 64 0, d_padding = replicate 60 0 \<rparr>"

definition is_empty_dnetry :: "dentry_t \<Rightarrow> bool" where
  "is_empty_dnetry d \<longleftrightarrow> d_inum d = 0 \<and> d_name d ! 0 = 0"

section \<open>File descriptors\<close>

record file_descriptor_t =
  fd_inum :: u32
  fd_mode :: u32
  fd_r_offset :: u32
  fd_w_offset :: u32

definition zero_fd :: file_descriptor_t where
  "zero_fd = \<lparr> fd_inum = 0, fd_mode = 0, fd_r_offset = 0, fd_w_offset = 0 \<rparr>"

definition is_empty_fd :: "file_descriptor_t \<Rightarrow> bool" where
  "is_empty_fd fd \<longleftrightarrow> fd_inum fd = 0 \<and> fd_mode fd = 0 \<and> fd_r_offset fd = 0 \<and> fd_w_offset fd = 0"

lemma is_empty_fd_zero: "is_empty_fd fd \<longleftrightarrow> fd = zero_fd"
  by (cases fd) (simp add: is_empty_fd_def zero_fd_def)

section \<open>Fields of the super block\<close>

abbreviation (input) s_disk_size :: nat where "s_disk_size \<equiv> 0"
abbreviation (input) s_block_size :: nat where "s_block_size \<equiv> 4"
abbreviation (input) s_magic :: nat where "s_magic \<equiv> 8"
abbreviation (input) s_total_inodes_cnt :: nat where "s_total_inodes_cnt \<equiv> 12"
abbreviation (input) s_total_blocks_cnt :: nat where "s_total_blocks_cnt \<equiv> 16"
abbreviation (input) s_free_inode_cnt :: nat where "s_free_inode_cnt \<equiv> 20"
abbreviation (input) s_free_blocks_cnt :: nat where "s_free_blocks_cnt \<equiv> 24"
abbreviation (input) s_blockbmp_block_index :: nat where "s_blockbmp_block_index \<equiv> 28"
abbreviation (input) s_inodebmp_block_index :: nat where "s_inodebmp_block_index \<equiv> 32"
abbreviation (input) s_inodetable_block_index :: nat where "s_inodetable_block_index \<equiv> 36"
abbreviation (input) s_data_block_index :: nat where "s_data_block_index \<equiv> 40"
abbreviation (input) s_inode_size :: nat where "s_inode_size \<equiv> 48"
abbreviation (input) s_dentry_size :: nat where "s_dentry_size \<equiv> 52"

end
