(* ===== verification/Fs_Disk.thy ===== *)
theory Fs_Disk
  imports Fs_Layout
begin

text \<open>
  The lowest layer of the file system: the SD card, the block operations and the \<^verbatim>\<open>sync_*\<close>
  functions of \<^verbatim>\<open>kernel/fs/fs.c\<close>, and the library routines \<^verbatim>\<open>sdread\<close> and \<^verbatim>\<open>sdwrite\<close> of
  \<^verbatim>\<open>libepmon\<close> beneath them.

  The file system uses a card through the two routines collected in \<open>sd_dev\<close>; what it relies on
  is the locale \<open>sd_card\<close>: a block read returns 4096 bytes, and a read after a write of an
  aligned block sees exactly that write. The locale is provided by \<^verbatim>\<open>libepmon\<close> over the routines
  of the boot ROM, which are code outside the repository: they are the fields of \<open>rom\<close>, and the
  locale \<open>boot_rom\<close> states what they do with a sector or a block.

  The state \<open>fs_state\<close> holds the static variables of \<^verbatim>\<open>fs.c\<close> whose contents survive a call.
  The other block buffers are cleared or overwritten before each use; they are local values here.
\<close>

section \<open>The card and the state of the file system\<close>

record 'c sd_dev =
  sdread_op :: "'c \<Rightarrow> u32 \<Rightarrow> nat \<Rightarrow> u8 list"
  sdwrite_op :: "'c \<Rightarrow> u8 list \<Rightarrow> u32 \<Rightarrow> 'c"

record 'c fs_state =
  sdcard :: 'c
  superblock_buffer :: "u8 list"
  blockbmp_buffer :: "u8 list"
  inodebmp_block_buffer :: "u8 list"
  file_descriptor_table :: "file_descriptor_t list"
  root_inode :: inode_t
  current_dir :: inode_t
  current_dir_link :: inode_t
  cat_buffer :: "u8 list"
  ls_buffer :: "dentry_t list"
  fs_ticks :: u32

section \<open>Blocks\<close>

definition sd_card_read :: "'c sd_dev \<Rightarrow> 'c fs_state \<Rightarrow> u32 \<Rightarrow> nat \<Rightarrow> u8 list" where
  "sd_card_read dev s sd_offset n = sdread_op dev (sdcard s) sd_offset n"

definition sd_card_write :: "'c sd_dev \<Rightarrow> u8 list \<Rightarrow> u32 \<Rightarrow> 'c fs_state \<Rightarrow> 'c fs_state" where
  "sd_card_write dev src sd_offset s = s \<lparr> sdcard := sdwrite_op dev (sdcard s) src sd_offset \<rparr>"

definition write_block :: "'c sd_dev \<Rightarrow> u32 \<Rightarrow> u8 list \<Rightarrow> 'c fs_state \<Rightarrow> 'c fs_state" where
  "write_block dev block_index block_buffer s =
     (let sd_offset = block_index * of_nat BLOCK_SIZE + FS_START_SD_OFFSET
      in sd_card_write dev block_buffer sd_offset s)"

definition read_block :: "'c sd_dev \<Rightarrow> 'c fs_state \<Rightarrow> u32 \<Rightarrow> u8 list" where
  "read_block dev s block_index =
     (let sd_offset = block_index * of_nat BLOCK_SIZE + FS_START_SD_OFFSET
      in sd_card_read dev s sd_offset BLOCK_SIZE)"

section \<open>Memory to disk\<close>

definition sync_to_disk_inode_bmp :: "'c sd_dev \<Rightarrow> 'c fs_state \<Rightarrow> 'c fs_state" where
  "sync_to_disk_inode_bmp dev s = write_block dev INODE_BMP_BLOCK_INDEX (inodebmp_block_buffer s) s"

definition sync_to_disk_block_bmp :: "'c sd_dev \<Rightarrow> 'c fs_state \<Rightarrow> 'c fs_state" where
  "sync_to_disk_block_bmp dev s =
     fold (\<lambda>i s. write_block dev (BLOCK_BMP_BLOCK_INDEX + of_nat i)
             (slice (blockbmp_buffer s) (BLOCK_SIZE * i) BLOCK_SIZE) s)
       [0..<BLOCK_BMP_BLOCKS_NUM] s"

definition sync_to_disk_superblock :: "'c sd_dev \<Rightarrow> 'c fs_state \<Rightarrow> 'c fs_state" where
  "sync_to_disk_superblock dev s = write_block dev SUPERBLOCK_BLOCK_INDEX (superblock_buffer s) s"

definition sync_to_disk_inode_table ::
    "'c sd_dev \<Rightarrow> u32 \<Rightarrow> u8 list \<Rightarrow> 'c fs_state \<Rightarrow> 'c fs_state" where
  "sync_to_disk_inode_table dev inode_table_offset inodetable_block_buffer s =
     write_block dev (INODE_TABLE_BLOCK_INDEX + inode_table_offset) inodetable_block_buffer s"

definition sync_to_disk_file_data ::
    "'c sd_dev \<Rightarrow> u32 \<Rightarrow> u8 list \<Rightarrow> 'c fs_state \<Rightarrow> 'c fs_state" where
  "sync_to_disk_file_data dev block_index data_block_buffer s =
     write_block dev block_index data_block_buffer s"

definition sync_to_disk_dentry ::
    "'c sd_dev \<Rightarrow> u32 \<Rightarrow> u8 list \<Rightarrow> 'c fs_state \<Rightarrow> 'c fs_state" where
  "sync_to_disk_dentry dev block_index dentry_block_buffer s =
     write_block dev block_index dentry_block_buffer s"

section \<open>Disk to memory\<close>

definition sync_from_disk_inode_bmp :: "'c sd_dev \<Rightarrow> 'c fs_state \<Rightarrow> 'c fs_state" where
  "sync_from_disk_inode_bmp dev s =
     s \<lparr> inodebmp_block_buffer := read_block dev s INODE_BMP_BLOCK_INDEX \<rparr>"

definition sync_from_disk_block_bmp :: "'c sd_dev \<Rightarrow> 'c fs_state \<Rightarrow> 'c fs_state" where
  "sync_from_disk_block_bmp dev s =
     fold (\<lambda>i s. s \<lparr> blockbmp_buffer := splice (blockbmp_buffer s) (BLOCK_SIZE * i)
             (read_block dev s (BLOCK_BMP_BLOCK_INDEX + of_nat i)) \<rparr>)
       [0..<BLOCK_BMP_BLOCKS_NUM] s"

definition sync_from_disk_superblock :: "'c sd_dev \<Rightarrow> 'c fs_state \<Rightarrow> 'c fs_state" where
  "sync_from_disk_superblock dev s =
     s \<lparr> superblock_buffer := read_block dev s SUPERBLOCK_BLOCK_INDEX \<rparr>"

definition sync_from_disk_inode_table :: "'c sd_dev \<Rightarrow> 'c fs_state \<Rightarrow> u32 \<Rightarrow> u8 list" where
  "sync_from_disk_inode_table dev s inode_table_offset =
     read_block dev s (INODE_TABLE_BLOCK_INDEX + inode_table_offset)"

definition sync_from_disk_file_data :: "'c sd_dev \<Rightarrow> 'c fs_state \<Rightarrow> u32 \<Rightarrow> u8 list" where
  "sync_from_disk_file_data dev s block_index = read_block dev s block_index"

definition sync_from_disk_dentry :: "'c sd_dev \<Rightarrow> 'c fs_state \<Rightarrow> u32 \<Rightarrow> u8 list" where
  "sync_from_disk_dentry dev s block_index = read_block dev s block_index"

definition clear_block_index :: "'c sd_dev \<Rightarrow> u32 \<Rightarrow> 'c fs_state \<Rightarrow> 'c fs_state" where
  "clear_block_index dev block_index s =
     write_block dev block_index (replicate (POINTER_PER_BLOCK * 4) 0) s"

section \<open>Inodes in the inode table\<close>

definition write_to_buffer_inode :: "inode_t \<Rightarrow> u8 list \<Rightarrow> u8 list" where
  "write_to_buffer_inode ino inodetable_block_buffer =
     splice inodetable_block_buffer (unat (i_num ino mod of_nat INODE_NUM_PER_BLOCK) * INODE_SIZE)
       (inode_bytes ino)"

definition sync_from_disk_inode :: "'c sd_dev \<Rightarrow> 'c fs_state \<Rightarrow> u32 \<Rightarrow> inode_t" where
  "sync_from_disk_inode dev s inum =
     (let inode_table_offset = inum div of_nat INODE_NUM_PER_BLOCK;
          buf = sync_from_disk_inode_table dev s inode_table_offset
      in bytes_inode (slice buf (unat (inum mod of_nat INODE_NUM_PER_BLOCK) * INODE_SIZE) INODE_SIZE))"

definition sync_to_disk_inode :: "'c sd_dev \<Rightarrow> inode_t \<Rightarrow> 'c fs_state \<Rightarrow> 'c fs_state" where
  "sync_to_disk_inode dev ino s =
     (let inode_table_offset = i_num ino div of_nat INODE_NUM_PER_BLOCK;
          buf = sync_from_disk_inode_table dev s inode_table_offset;
          buf = write_to_buffer_inode ino buf
      in sync_to_disk_inode_table dev inode_table_offset buf s)"

section \<open>The contract of the card\<close>

definition block_aligned :: "u32 \<Rightarrow> bool" where
  "block_aligned a \<longleftrightarrow> unat a mod BLOCK_SIZE = 0"

locale sd_card =
  fixes dev :: "'c sd_dev"
  assumes read_length: "block_aligned a \<Longrightarrow> length (sdread_op dev c a BLOCK_SIZE) = BLOCK_SIZE"
    and read_same: "block_aligned a \<Longrightarrow> length bs = BLOCK_SIZE \<Longrightarrow>
      sdread_op dev (sdwrite_op dev c bs a) a BLOCK_SIZE = bs"
    and read_other: "block_aligned a \<Longrightarrow> block_aligned b \<Longrightarrow> a \<noteq> b \<Longrightarrow> length bs = BLOCK_SIZE \<Longrightarrow>
      sdread_op dev (sdwrite_op dev c bs a) b BLOCK_SIZE = sdread_op dev c b BLOCK_SIZE"

text \<open>What a block operation leaves alone, for any card.\<close>

lemma write_block_frame [simp]:
  "superblock_buffer (write_block dev b buf s) = superblock_buffer s"
  "blockbmp_buffer (write_block dev b buf s) = blockbmp_buffer s"
  "inodebmp_block_buffer (write_block dev b buf s) = inodebmp_block_buffer s"
  "file_descriptor_table (write_block dev b buf s) = file_descriptor_table s"
  "root_inode (write_block dev b buf s) = root_inode s"
  "current_dir (write_block dev b buf s) = current_dir s"
  "current_dir_link (write_block dev b buf s) = current_dir_link s"
  "cat_buffer (write_block dev b buf s) = cat_buffer s"
  "ls_buffer (write_block dev b buf s) = ls_buffer s"
  "fs_ticks (write_block dev b buf s) = fs_ticks s"
  by (simp_all add: write_block_def sd_card_write_def)

lemma read_block_frame [simp]:
  "read_block dev (s \<lparr> superblock_buffer := v1 \<rparr>) b = read_block dev s b"
  "read_block dev (s \<lparr> blockbmp_buffer := v1 \<rparr>) b = read_block dev s b"
  "read_block dev (s \<lparr> inodebmp_block_buffer := v1 \<rparr>) b = read_block dev s b"
  "read_block dev (s \<lparr> file_descriptor_table := v2 \<rparr>) b = read_block dev s b"
  "read_block dev (s \<lparr> root_inode := v3 \<rparr>) b = read_block dev s b"
  "read_block dev (s \<lparr> current_dir := v3 \<rparr>) b = read_block dev s b"
  "read_block dev (s \<lparr> current_dir_link := v3 \<rparr>) b = read_block dev s b"
  "read_block dev (s \<lparr> cat_buffer := v1 \<rparr>) b = read_block dev s b"
  "read_block dev (s \<lparr> ls_buffer := v4 \<rparr>) b = read_block dev s b"
  by (simp_all add: read_block_def sd_card_read_def)

lemma sync_to_disk_frame [simp]:
  "superblock_buffer (sync_to_disk_superblock dev s) = superblock_buffer s"
  "blockbmp_buffer (sync_to_disk_superblock dev s) = blockbmp_buffer s"
  "inodebmp_block_buffer (sync_to_disk_superblock dev s) = inodebmp_block_buffer s"
  "file_descriptor_table (sync_to_disk_superblock dev s) = file_descriptor_table s"
  "root_inode (sync_to_disk_superblock dev s) = root_inode s"
  "current_dir (sync_to_disk_superblock dev s) = current_dir s"
  "current_dir_link (sync_to_disk_superblock dev s) = current_dir_link s"
  "fs_ticks (sync_to_disk_superblock dev s) = fs_ticks s"
  "superblock_buffer (sync_to_disk_inode_bmp dev s) = superblock_buffer s"
  "blockbmp_buffer (sync_to_disk_inode_bmp dev s) = blockbmp_buffer s"
  "inodebmp_block_buffer (sync_to_disk_inode_bmp dev s) = inodebmp_block_buffer s"
  "file_descriptor_table (sync_to_disk_inode_bmp dev s) = file_descriptor_table s"
  "root_inode (sync_to_disk_inode_bmp dev s) = root_inode s"
  "current_dir (sync_to_disk_inode_bmp dev s) = current_dir s"
  "current_dir_link (sync_to_disk_inode_bmp dev s) = current_dir_link s"
  "fs_ticks (sync_to_disk_inode_bmp dev s) = fs_ticks s"
  "superblock_buffer (sync_to_disk_inode dev ino s) = superblock_buffer s"
  "blockbmp_buffer (sync_to_disk_inode dev ino s) = blockbmp_buffer s"
  "inodebmp_block_buffer (sync_to_disk_inode dev ino s) = inodebmp_block_buffer s"
  "file_descriptor_table (sync_to_disk_inode dev ino s) = file_descriptor_table s"
  "root_inode (sync_to_disk_inode dev ino s) = root_inode s"
  "current_dir (sync_to_disk_inode dev ino s) = current_dir s"
  "current_dir_link (sync_to_disk_inode dev ino s) = current_dir_link s"
  "fs_ticks (sync_to_disk_inode dev ino s) = fs_ticks s"
  "superblock_buffer (clear_block_index dev b s) = superblock_buffer s"
  "blockbmp_buffer (clear_block_index dev b s) = blockbmp_buffer s"
  "inodebmp_block_buffer (clear_block_index dev b s) = inodebmp_block_buffer s"
  "file_descriptor_table (clear_block_index dev b s) = file_descriptor_table s"
  "root_inode (clear_block_index dev b s) = root_inode s"
  "current_dir (clear_block_index dev b s) = current_dir s"
  "current_dir_link (clear_block_index dev b s) = current_dir_link s"
  "fs_ticks (clear_block_index dev b s) = fs_ticks s"
  by (simp_all add: sync_to_disk_superblock_def sync_to_disk_inode_bmp_def sync_to_disk_inode_def
      sync_to_disk_inode_table_def clear_block_index_def Let_def)

lemma sync_from_disk_inode_frame [simp]:
  "sync_from_disk_inode dev (s \<lparr> superblock_buffer := v1 \<rparr>) k = sync_from_disk_inode dev s k"
  "sync_from_disk_inode dev (s \<lparr> blockbmp_buffer := v1 \<rparr>) k = sync_from_disk_inode dev s k"
  "sync_from_disk_inode dev (s \<lparr> inodebmp_block_buffer := v1 \<rparr>) k = sync_from_disk_inode dev s k"
  "sync_from_disk_inode dev (s \<lparr> file_descriptor_table := v2 \<rparr>) k = sync_from_disk_inode dev s k"
  "sync_from_disk_inode dev (s \<lparr> root_inode := v3 \<rparr>) k = sync_from_disk_inode dev s k"
  "sync_from_disk_inode dev (s \<lparr> current_dir := v3 \<rparr>) k = sync_from_disk_inode dev s k"
  by (simp_all add: sync_from_disk_inode_def sync_from_disk_inode_table_def)

lemma inode_ok_sync [simp]: "inode_ok (sync_from_disk_inode dev s k)"
  by (simp add: sync_from_disk_inode_def Let_def)

text \<open>
  The block bit map is written and read as eight blocks. Folding over them is opened once, here.
\<close>

lemma sync_block_bmp_cases: "[0..<BLOCK_BMP_BLOCKS_NUM] = [0, 1, 2, 3, 4, 5, 6, 7]"
  by (simp add: upt_rec)

lemma fold_frame: "(\<And>x s. f (g x s) = f s) \<Longrightarrow> f (fold g xs s) = f s"
  by (induction xs arbitrary: s) auto

lemma sync_block_bmp_frame [simp]:
  "superblock_buffer (sync_to_disk_block_bmp dev s) = superblock_buffer s"
  "blockbmp_buffer (sync_to_disk_block_bmp dev s) = blockbmp_buffer s"
  "inodebmp_block_buffer (sync_to_disk_block_bmp dev s) = inodebmp_block_buffer s"
  "file_descriptor_table (sync_to_disk_block_bmp dev s) = file_descriptor_table s"
  "root_inode (sync_to_disk_block_bmp dev s) = root_inode s"
  "current_dir (sync_to_disk_block_bmp dev s) = current_dir s"
  "current_dir_link (sync_to_disk_block_bmp dev s) = current_dir_link s"
  "fs_ticks (sync_to_disk_block_bmp dev s) = fs_ticks s"
  by (simp_all add: sync_to_disk_block_bmp_def fold_frame)

definition block_base :: "u32 \<Rightarrow> u32" where
  "block_base b = b * 4096 + 0x20000000"

lemma block_base_aligned: "block_aligned (block_base b)"
proof -
  have "unat (block_base b) = (unat b * 4096 + 131072 * 4096) mod 4294967296"
    by (simp add: block_base_def unat_word_ariths mod_simps)
  moreover have "(unat b * 4096 + 131072 * 4096) mod 4294967296 mod 4096 =
      (unat b * 4096 + 131072 * 4096) mod 4096"
    by (rule mod_mod_cancel) simp
  ultimately show ?thesis by (simp add: block_aligned_def)
qed

lemma block_base_inj:
  assumes "unat a < 2 ^ 20" and "unat b < 2 ^ 20" and "block_base a = block_base b"
  shows "a = b"
proof -
  have "unat (a * 4096) = unat (b * (4096 :: u32))" using assms(3) by (simp add: block_base_def)
  then have "unat a * 4096 mod 4294967296 = unat b * 4096 mod 4294967296"
    by (simp add: unat_word_ariths)
  then show ?thesis using assms(1,2) by (simp add: word_unat_eq_iff)
qed

definition on_card :: "u32 \<Rightarrow> bool" where
  "on_card b \<longleftrightarrow> unat b < 2 ^ 20"

lemma on_card_numeral [simp]:
  "on_card 0" "on_card 1" "on_card 9" "on_card 266"
  "k < 256 \<Longrightarrow> on_card (10 + of_nat k)" "k < 8 \<Longrightarrow> on_card (1 + of_nat k)"
proof -
  show "on_card (10 + of_nat k)" if "k < 256"
  proof -
    have "(10 + of_nat k :: u32) = of_nat (10 + k)" by simp
    then show ?thesis unfolding on_card_def using that by (simp only: unat_of_nat) simp
  qed
  show "on_card (1 + of_nat k)" if "k < 8"
  proof -
    have "(1 + of_nat k :: u32) = of_nat (1 + k)" by simp
    then show ?thesis unfolding on_card_def using that by (simp only: unat_of_nat) simp
  qed
qed (simp_all add: on_card_def)

lemma unat_bmp_block: "k < 8 \<Longrightarrow> unat (1 + of_nat k :: u32) = 1 + k"
proof -
  assume "k < 8"
  moreover have "(1 + of_nat k :: u32) = of_nat (1 + k)" by simp
  ultimately show ?thesis by (simp only: unat_of_nat) simp
qed

text \<open>The eight bit map blocks of the card, joined.\<close>

definition disk_block_bmp :: "'c sd_dev \<Rightarrow> 'c fs_state \<Rightarrow> u8 list" where
  "disk_block_bmp dev s =
     concat (map (\<lambda>i. read_block dev s (1 + of_nat i)) [0..<BLOCK_BMP_BLOCKS_NUM])"

text \<open>The block of the inode table that holds an inode, and its place in the block.\<close>

definition inode_block :: "u32 \<Rightarrow> u32" where
  "inode_block k = 10 + k div 32"

definition table_block :: "u32 \<Rightarrow> bool" where
  "table_block b \<longleftrightarrow> 10 \<le> unat b \<and> unat b < 266"

lemma unat_inode_block: "unat k < INODE_NUM \<Longrightarrow> unat (inode_block k) = 10 + unat k div 32"
proof -
  assume "unat k < INODE_NUM"
  then have "unat k div 32 < 256" by simp
  then show ?thesis by (simp add: inode_block_def unat_word_ariths unat_div)
qed

lemma inode_block_facts:
  assumes "unat k < INODE_NUM"
  shows "on_card (inode_block k)" and "table_block (inode_block k)"
  using unat_inode_block [OF assms] assms by (simp_all add: on_card_def table_block_def)

lemma inode_slot: "unat (k mod (32 :: u32)) * 128 + 128 \<le> 4096"
proof -
  have "unat (k mod 32) < 32" by (simp add: unat_mod)
  then show ?thesis by simp
qed

lemma inode_slot_eq:
  assumes "unat k < INODE_NUM" and "unat l < INODE_NUM" and "inode_block k = inode_block l"
    and "unat (k mod 32) = unat (l mod 32)"
  shows "k = l"
proof -
  have "unat k div 32 = unat l div 32"
    using assms(3) unat_inode_block [OF assms(1)] unat_inode_block [OF assms(2)] by simp
  moreover have "unat k mod 32 = unat l mod 32" using assms(4) by (simp add: unat_mod)
  ultimately have "unat k = unat l" by (metis div_mult_mod_eq)
  then show ?thesis by (simp add: word_unat_eq_iff)
qed

lemma sync_from_disk_inode_eq:
  "sync_from_disk_inode dev s k =
     bytes_inode (slice (read_block dev s (inode_block k)) (unat (k mod 32) * 128) 128)"
  by (simp add: sync_from_disk_inode_def sync_from_disk_inode_table_def inode_block_def Let_def)

lemma sync_to_disk_inode_eq:
  "sync_to_disk_inode dev ino s = write_block dev (inode_block (i_num ino))
     (splice (read_block dev s (inode_block (i_num ino))) (unat (i_num ino mod 32) * 128)
       (inode_bytes ino)) s"
  by (simp add: sync_to_disk_inode_def sync_to_disk_inode_table_def sync_from_disk_inode_table_def
      write_to_buffer_inode_def inode_block_def Let_def)

context sd_card
begin

lemma length_read_block [simp]: "length (read_block dev s b) = BLOCK_SIZE"
  using read_length [OF block_base_aligned] by (simp add: read_block_def sd_card_read_def block_base_def)

lemma read_write_block:
  assumes "on_card b" and "on_card b'" and "length buf = BLOCK_SIZE"
  shows "read_block dev (write_block dev b buf s) b' = (if b' = b then buf else read_block dev s b')"
proof (cases "b' = b")
  case True
  then show ?thesis
    using assms(3) read_same [OF block_base_aligned, of buf]
    by (simp add: read_block_def write_block_def sd_card_read_def sd_card_write_def block_base_def)
next
  case False
  then have "block_base b \<noteq> block_base b'"
    using assms(1,2) block_base_inj by (auto simp: on_card_def)
  then show ?thesis
    using False assms(3) read_other [OF block_base_aligned block_base_aligned, of b b' buf]
    by (simp add: read_block_def write_block_def sd_card_read_def sd_card_write_def block_base_def)
qed

lemma read_sync_block_bmp:
  assumes "on_card b" and "length (blockbmp_buffer s) = BLOCK_BITMAP_SIZE"
  shows "read_block dev (sync_to_disk_block_bmp dev s) b =
    (if 1 \<le> unat b \<and> unat b \<le> 8 then slice (blockbmp_buffer s) (4096 * (unat b - 1)) 4096
     else read_block dev s b)"
proof -
  let ?f = "\<lambda>i s. write_block dev (1 + of_nat i) (slice (blockbmp_buffer s) (4096 * i) 4096) s"
  have frame: "blockbmp_buffer (fold ?f xs s) = blockbmp_buffer s" for xs
    by (simp add: fold_frame)
  have "n \<le> 8 \<Longrightarrow> read_block dev (fold ?f [0..<n] s) b =
    (if 1 \<le> unat b \<and> unat b \<le> n then slice (blockbmp_buffer s) (4096 * (unat b - 1)) 4096
     else read_block dev s b)" for n
  proof (induction n)
    case (Suc n)
    have eq: "b = 1 + of_nat n \<longleftrightarrow> unat b = 1 + n"
      using Suc.prems by (simp add: word_unat_eq_iff unat_bmp_block)
    have n: "n < 8" using Suc.prems by simp
    have "read_block dev (fold ?f [0..<Suc n] s) b =
      (if b = 1 + of_nat n then slice (blockbmp_buffer s) (4096 * n) 4096
       else read_block dev (fold ?f [0..<n] s) b)"
      using assms n by (simp add: read_write_block frame)
    then show ?case using Suc eq by auto
  qed auto
  from this [of 8] show ?thesis by (simp add: sync_to_disk_block_bmp_def)
qed

lemma disk_block_bmp_sync:
  assumes "length (blockbmp_buffer s) = BLOCK_BITMAP_SIZE"
  shows "disk_block_bmp dev (sync_to_disk_block_bmp dev s) = blockbmp_buffer s"
proof -
  have "read_block dev (sync_to_disk_block_bmp dev s) (1 + of_nat i) =
      slice (blockbmp_buffer s) (4096 * i) 4096" if "i < 8" for i
    using assms that by (simp add: read_sync_block_bmp unat_bmp_block)
  then have "disk_block_bmp dev (sync_to_disk_block_bmp dev s) =
      concat (map (\<lambda>i. slice (blockbmp_buffer s) (4096 * i) 4096) [0..<8])"
    unfolding disk_block_bmp_def by (intro arg_cong [where f = concat] map_cong) auto
  also have "\<dots> = blockbmp_buffer s"
  proof -
    have "concat (map (\<lambda>i. slice bs (4096 * i) 4096) [0..<n]) = slice bs 0 (4096 * n)"
      for bs :: "u8 list" and n
    proof (induction n)
      case (Suc n)
      have "slice bs 0 (4096 * n + 4096) = slice bs 0 (4096 * n) @ slice bs (4096 * n) 4096"
        using slice_add [of bs 0 "4096 * n" 4096] by simp
      with Suc show ?case by (simp add: add.commute)
    qed (simp add: slice_def)
    from this [of _ 8] assms show ?thesis by (simp add: slice_def)
  qed
  finally show ?thesis .
qed

lemma sync_from_disk_block_bmp_eq:
  assumes "length (blockbmp_buffer s) = BLOCK_BITMAP_SIZE"
  shows "sync_from_disk_block_bmp dev s = s \<lparr> blockbmp_buffer := disk_block_bmp dev s \<rparr>"
proof -
  let ?f = "\<lambda>i s. s \<lparr> blockbmp_buffer :=
    splice (blockbmp_buffer s) (4096 * i) (read_block dev s (1 + of_nat i)) \<rparr>"
  let ?c = "\<lambda>n. concat (map (\<lambda>i. read_block dev s (1 + of_nat i)) [0..<n])"
  have len: "length (?c n) = 4096 * n" for n by (induction n) auto
  have "n \<le> 8 \<Longrightarrow> fold ?f [0..<n] s = s \<lparr> blockbmp_buffer := ?c n @ drop (4096 * n) (blockbmp_buffer s) \<rparr>"
    for n
  proof (induction n)
    case (Suc n)
    have "splice (?c n @ drop (4096 * n) (blockbmp_buffer s)) (4096 * n) (read_block dev s (1 + of_nat n))
      = ?c n @ read_block dev s (1 + of_nat n) @ drop (4096 * Suc n) (blockbmp_buffer s)"
      by (simp add: splice_def len)
    then show ?case using Suc by simp
  qed simp
  from this [of 8] assms show ?thesis
    by (simp add: sync_from_disk_block_bmp_def disk_block_bmp_def)
qed

lemma length_disk_block_bmp [simp]: "length (disk_block_bmp dev s) = BLOCK_BITMAP_SIZE"
  by (simp add: disk_block_bmp_def length_concat comp_def upt_rec)

lemma disk_block_bmp_cong:
  "(\<And>k. k < 8 \<Longrightarrow> read_block dev t (1 + of_nat k) = read_block dev s (1 + of_nat k)) \<Longrightarrow>
   disk_block_bmp dev t = disk_block_bmp dev s"
  unfolding disk_block_bmp_def by (intro arg_cong [where f = concat] map_cong) auto

lemma read_sync_inode:
  assumes "inode_ok ino" and "unat (i_num ino) < INODE_NUM" and "on_card b" and "\<not> table_block b"
  shows "read_block dev (sync_to_disk_inode dev ino s) b = read_block dev s b"
  using assms inode_block_facts [OF assms(2)] inode_slot [of "i_num ino"]
  by (auto simp: sync_to_disk_inode_eq read_write_block)

lemma sync_inode:
  assumes "inode_ok ino" and "unat (i_num ino) < INODE_NUM" and "unat k < INODE_NUM"
  shows "sync_from_disk_inode dev (sync_to_disk_inode dev ino s) k =
    (if k = i_num ino then ino else sync_from_disk_inode dev s k)"
proof -
  let ?l = "i_num ino"
  have len: "length (inode_bytes ino) = 128" using assms(1) by simp
  note slots = inode_slot [of ?l] inode_slot [of k]
  have card: "on_card (inode_block ?l)" "on_card (inode_block k)"
    using assms(2,3) by (simp_all add: inode_block_facts)
  show ?thesis
  proof (cases "inode_block k = inode_block ?l")
    case same: True
    show ?thesis
    proof (cases "k = ?l")
      case True
      then show ?thesis using slots card len assms(1)
        by (simp add: sync_from_disk_inode_eq sync_to_disk_inode_eq read_write_block mem_simps
            bytes_inode_inode_bytes)
    next
      case False
      then have "unat (k mod 32) \<noteq> unat (?l mod 32)" using inode_slot_eq assms(2,3) same by blast
      then have "unat (k mod 32) * 128 + 128 \<le> unat (?l mod 32) * 128 \<or>
        unat (?l mod 32) * 128 + 128 \<le> unat (k mod 32) * 128" by linarith
      then show ?thesis using slots card len same False
        by (simp add: sync_from_disk_inode_eq sync_to_disk_inode_eq read_write_block
            slice_splice_other)
    qed
  next
    case False
    then show ?thesis using slots card len
      by (auto simp: sync_from_disk_inode_eq sync_to_disk_inode_eq read_write_block)
  qed
qed

lemma sync_from_disk_inode_cong:
  "unat k < INODE_NUM \<Longrightarrow> (\<And>b. on_card b \<Longrightarrow> table_block b \<Longrightarrow> read_block dev t b = read_block dev s b) \<Longrightarrow>
   sync_from_disk_inode dev t k = sync_from_disk_inode dev s k"
  by (simp add: sync_from_disk_inode_eq inode_block_facts)

end

end
