(* ===== verification/Libepmon.thy ===== *)
theory Libepmon
  imports Fs_Disk
begin

text \<open>
  The library \<^verbatim>\<open>libepmon\<close> (\<^verbatim>\<open>other/libepmon/libepmon_src\<close>) through which the kernel reaches the
  SD card: \<^verbatim>\<open>memcopy.c\<close>, \<^verbatim>\<open>isQEMU.c\<close>, \<^verbatim>\<open>sdread.c\<close> and \<^verbatim>\<open>sdwrite.c\<close>. On the board the two
  routines move whole sectors of 512 bytes through a bounce buffer; under QEMU they hand the call
  to the ROM. The ROM routines are not in the repository: they are the fields of \<open>rom\<close>, with their
  documented behaviour in the locale \<open>boot_rom\<close>. The state of the card as the file system sees it
  is the card itself together with the bounce buffer of \<^verbatim>\<open>sdwrite\<close>, which keeps its contents
  between calls.
\<close>

section \<open>memcopy\<close>

text \<open>Source and destination are addresses of one memory, so that the copy may overlap.\<close>

fun memcopy_down :: "u8 list \<Rightarrow> nat \<Rightarrow> nat \<Rightarrow> nat \<Rightarrow> u8 list option" where
  "memcopy_down mem t f 0 = Some mem"
| "memcopy_down mem t f (Suc n) = do {
     b \<leftarrow> load mem (f + n);
     mem \<leftarrow> store mem (t + n) b;
     memcopy_down mem t f n
   }"

fun memcopy_up :: "u8 list \<Rightarrow> nat \<Rightarrow> nat \<Rightarrow> nat \<Rightarrow> u8 list option" where
  "memcopy_up mem t f 0 = Some mem"
| "memcopy_up mem t f (Suc n) = do {
     b \<leftarrow> load mem f;
     mem \<leftarrow> store mem t b;
     memcopy_up mem (t + 1) (f + 1) n
   }"

definition memcopy :: "u8 list \<Rightarrow> nat \<Rightarrow> nat \<Rightarrow> nat \<Rightarrow> u8 list option" where
  "memcopy mem s1 s2 n = (if s2 < s1 then memcopy_down mem s1 s2 n else memcopy_up mem s1 s2 n)"

lemma memcopy_down_spec:
  "f < t \<Longrightarrow> t + n \<le> length mem \<Longrightarrow>
   memcopy_down mem t f n = Some (splice mem t (slice mem f n))"
proof (induction n arbitrary: mem)
  case (Suc n)
  let ?m = "mem[t + n := mem ! (f + n)]"
  have "memcopy_down mem t f (Suc n) = memcopy_down ?m t f n"
    using Suc.prems by simp
  also have "\<dots> = Some (splice ?m t (slice ?m f n))" using Suc by simp
  also have "splice ?m t (slice ?m f n) = splice mem t (slice mem f (Suc n))"
    using Suc.prems
    by (intro nth_equalityI)
      (auto simp: nth_splice nth_slice nth_list_update)
  finally show ?case .
qed (simp add: splice_def slice_def)

lemma memcopy_up_spec:
  "t \<le> f \<Longrightarrow> f + n \<le> length mem \<Longrightarrow> memcopy_up mem t f n = Some (splice mem t (slice mem f n))"
proof (induction n arbitrary: mem t f)
  case (Suc n)
  let ?m = "mem[t := mem ! f]"
  have "memcopy_up mem t f (Suc n) = memcopy_up ?m (t + 1) (f + 1) n"
    using Suc.prems by simp
  also have "\<dots> = Some (splice ?m (t + 1) (slice ?m (f + 1) n))" using Suc by simp
  also have "splice ?m (t + 1) (slice ?m (f + 1) n) = splice mem t (slice mem f (Suc n))"
    using Suc.prems
    by (intro nth_equalityI) (auto simp: nth_splice nth_slice nth_list_update Suc_diff_Suc Suc_le_eq)
  finally show ?case .
qed (simp add: splice_def slice_def)

section \<open>sdread and sdwrite\<close>

record 'c rom =
  probe_word :: u32
  new_sdcard_read :: "'c \<Rightarrow> u32 \<Rightarrow> nat \<Rightarrow> u8 list"
  new_sdcard_write :: "'c \<Rightarrow> u32 \<Rightarrow> u8 list \<Rightarrow> 'c"
  Read_Single_Block :: "'c \<Rightarrow> u32 \<Rightarrow> u8 list"
  Write_Single_Block :: "'c \<Rightarrow> u32 \<Rightarrow> u8 list \<Rightarrow> 'c"

definition isQEMU :: "'c rom \<Rightarrow> bool" where
  "isQEMU r \<longleftrightarrow> probe_word r = 0x27bdffa8"

definition once :: "u32 \<Rightarrow> u32 \<Rightarrow> u32" where
  "once pos left = (if 512 - (pos AND 511) < left then 512 - (pos AND 511) else left)"

lemma low_bits_512: "unat (pos AND (511 :: u32)) = unat pos mod 512"
proof -
  have "pos AND 511 = pos mod 512"
    using take_bit_eq_mask [of 9 pos] take_bit_eq_mod [of 9 pos] by (simp add: mask_eq_exp_minus_1)
  then show ?thesis by (simp add: unat_mod)
qed

lemma unat_once: "unat (once pos left) = min (512 - unat pos mod 512) (unat left)"
proof -
  have "unat (512 - (pos AND 511)) = 512 - unat pos mod 512"
    using low_bits_512 [of pos] by (subst unat_sub) (simp_all add: word_le_nat_alt less_imp_le)
  then show ?thesis by (simp add: once_def word_less_nat_alt min_def)
qed

lemma once_shrinks: "left \<noteq> 0 \<Longrightarrow> unat (left - once pos left) < unat left"
proof -
  assume "left \<noteq> 0"
  then have "0 < unat left" by (simp add: unat_gt_0)
  moreover have "0 < unat (once pos left)" using \<open>0 < unat left\<close> by (simp add: unat_once)
  moreover have "unat (once pos left) \<le> unat left" by (simp add: unat_once)
  ultimately show ?thesis by (simp add: unat_sub word_le_nat_alt)
qed

function sdread_loop :: "'c rom \<Rightarrow> 'c \<Rightarrow> u32 \<Rightarrow> u32 \<Rightarrow> u8 list" where
  "sdread_loop r c pos left =
     (if left = 0 then []
      else let indexbuf = Read_Single_Block r c (drop_bit 9 pos); n = once pos left
           in slice indexbuf (unat (pos AND 511)) (unat n) @ sdread_loop r c (pos + n) (left - n))"
  by pat_completeness auto
termination by (relation "measure (\<lambda>(r, c, pos, left). unat left)") (auto intro: once_shrinks)

function sdwrite_loop :: "'c rom \<Rightarrow> 'c \<times> u8 list \<Rightarrow> u8 list \<Rightarrow> u32 \<Rightarrow> u32 \<Rightarrow> 'c \<times> u8 list" where
  "sdwrite_loop r st buf pos left =
     (if left = 0 then st
      else let (c, indexbuf) = st; n = once pos left;
               indexbuf = splice indexbuf (unat (pos AND 511)) (take (unat n) buf);
               c = Write_Single_Block r c (drop_bit 9 pos) (take 512 indexbuf)
           in sdwrite_loop r (c, indexbuf) (drop (unat n) buf) (pos + n) (left - n))"
  by pat_completeness auto
termination by (relation "measure (\<lambda>(r, st, buf, pos, left). unat left)") (auto intro: once_shrinks)

declare sdread_loop.simps [simp del] sdwrite_loop.simps [simp del]

definition sdread :: "'c rom \<Rightarrow> 'c \<times> u8 list \<Rightarrow> u32 \<Rightarrow> nat \<Rightarrow> u8 list" where
  "sdread r st base n =
     (if isQEMU r then new_sdcard_read r (fst st) base n
      else sdread_loop r (fst st) base (of_nat n))"

definition sdwrite :: "'c rom \<Rightarrow> 'c \<times> u8 list \<Rightarrow> u8 list \<Rightarrow> u32 \<Rightarrow> 'c \<times> u8 list" where
  "sdwrite r st buf base =
     (if isQEMU r then (new_sdcard_write r (fst st) base buf, snd st)
      else sdwrite_loop r st buf base (of_nat (length buf)))"

definition libepmon :: "'c rom \<Rightarrow> ('c \<times> u8 list) sd_dev" where
  "libepmon r = \<lparr> sdread_op = sdread r, sdwrite_op = sdwrite r \<rparr>"

section \<open>Whole sectors\<close>

lemma sector_step:
  assumes "unat pos mod 512 = 0" and "left = of_nat (512 * Suc k)" and "512 * Suc k < 2 ^ 32"
  shows "once pos left = 512" and "left - 512 = of_nat (512 * k)" and "pos AND (511 :: u32) = 0"
    and "left \<noteq> 0"
proof -
  have left: "unat left = 512 * Suc k"
    unfolding assms(2) using assms(3) by (simp only: unat_of_nat) simp
  have "unat (once pos left) = 512" using left assms(1) by (simp add: unat_once min_def)
  then show "once pos left = 512" by (simp add: word_unat_eq_iff)
  show "left - 512 = of_nat (512 * k)" by (simp add: assms(2))
  show "pos AND 511 = 0" using low_bits_512 [of pos] assms(1) by (simp add: word_unat_eq_iff)
  show "left \<noteq> 0" using left by auto
qed

lemma next_sector:
  fixes pos :: u32
  assumes "unat pos + 512 < 2 ^ 32"
  shows "drop_bit 9 (pos + 512) = drop_bit 9 pos + 1" and "unat (pos + 512) = unat pos + 512"
proof -
  show p: "unat (pos + 512) = unat pos + 512" using assms by (simp add: unat_word_ariths)
  have "unat (drop_bit 9 pos + 1) = unat pos div 512 + 1"
    using assms by (simp add: unat_word_ariths drop_bit_eq_div unat_div)
  moreover have "unat (drop_bit 9 (pos + 512)) = unat pos div 512 + 1"
    using p by (simp add: drop_bit_eq_div unat_div)
  ultimately show "drop_bit 9 (pos + 512) = drop_bit 9 pos + 1" by (simp add: word_unat_eq_iff)
qed

lemma sectors_Suc: "[0..<Suc k] = 0 # map Suc [0..<k]"
  by (simp add: upt_conv_Cons map_Suc_upt del: upt_Suc)

lemma sdread_loop_sectors:
  assumes "\<And>j. length (Read_Single_Block r c j) = 512"
    and "unat pos mod 512 = 0" and "unat pos + 512 * k \<le> 2 ^ 32" and "512 * k < 2 ^ 32"
  shows "sdread_loop r c pos (of_nat (512 * k)) =
    concat (map (\<lambda>i. Read_Single_Block r c (drop_bit 9 pos + of_nat i)) [0..<k])"
  using assms(2-)
proof (induction k arbitrary: pos)
  case 0
  then show ?case by (simp add: sdread_loop.simps)
next
  case (Suc k)
  note st = sector_step [OF Suc.prems(1) refl Suc.prems(3)]
  have "sdread_loop r c pos (of_nat (512 * Suc k)) =
      Read_Single_Block r c (drop_bit 9 pos) @ sdread_loop r c (pos + 512) (of_nat (512 * k))"
    by (subst sdread_loop.simps) (simp only: st Let_def if_False, simp add: slice_def assms(1))
  also have "sdread_loop r c (pos + 512) (of_nat (512 * k)) =
      concat (map (\<lambda>i. Read_Single_Block r c (drop_bit 9 pos + 1 + of_nat i)) [0..<k])"
  proof (cases k)
    case 0
    then show ?thesis by (simp add: sdread_loop.simps)
  next
    case (Suc j)
    then have "unat pos + 512 < 2 ^ 32" using Suc.prems(2) by simp
    note nx = next_sector [OF this]
    show ?thesis using Suc.IH [of "pos + 512"] Suc.prems nx by simp
  qed
  finally show ?case by (simp add: sectors_Suc comp_def algebra_simps del: upt_Suc)
qed

lemma sdwrite_loop_sectors:
  assumes "unat pos mod 512 = 0" and "unat pos + 512 * k \<le> 2 ^ 32" and "512 * k < 2 ^ 32"
    and "length buf = 512 * k"
  shows "fst (sdwrite_loop r (c, ib) buf pos (of_nat (512 * k))) =
    fold (\<lambda>i c. Write_Single_Block r c (drop_bit 9 pos + of_nat i) (slice buf (512 * i) 512)) [0..<k] c"
  using assms
proof (induction k arbitrary: pos buf c ib)
  case 0
  then show ?case by (simp add: sdwrite_loop.simps)
next
  case (Suc k)
  note st = sector_step [OF Suc.prems(1) refl Suc.prems(3)]
  let ?ib = "splice ib 0 (take 512 buf)" and ?buf = "drop 512 buf"
  let ?c = "Write_Single_Block r c (drop_bit 9 pos) (take 512 buf)"
  have "take 512 ?ib = take 512 buf" using Suc.prems(4) by (simp add: splice_def)
  then have "sdwrite_loop r (c, ib) buf pos (of_nat (512 * Suc k)) =
      sdwrite_loop r (?c, ?ib) ?buf (pos + 512) (of_nat (512 * k))"
    by (subst sdwrite_loop.simps) (simp only: st Let_def if_False split_conv, simp)
  moreover have "fst (sdwrite_loop r (?c, ?ib) ?buf (pos + 512) (of_nat (512 * k))) =
      fold (\<lambda>i c. Write_Single_Block r c (drop_bit 9 pos + 1 + of_nat i) (slice ?buf (512 * i) 512))
        [0..<k] ?c"
  proof (cases k)
    case 0
    then show ?thesis by (simp add: sdwrite_loop.simps)
  next
    case (Suc j)
    then have "unat pos + 512 < 2 ^ 32" using Suc.prems(2) by simp
    note nx = next_sector [OF this]
    show ?thesis using Suc.IH [of "pos + 512" ?buf ?c ?ib] Suc.prems nx by simp
  qed
  ultimately show ?case
    by (simp add: sectors_Suc fold_map comp_def algebra_simps slice_def del: upt_Suc)
qed

section \<open>What the ROM promises, and the card it makes\<close>

lemma aligned_sectors:
  assumes "block_aligned a"
  shows "unat a mod 512 = 0" and "unat a + 512 * 8 \<le> 2 ^ 32"
    and "i < 8 \<Longrightarrow> unat (drop_bit 9 a + of_nat i) = unat a div 512 + i"
    and "i < 8 \<Longrightarrow> unat (drop_bit 9 a + of_nat i) < 2 ^ 23"
proof -
  obtain q where q: "unat a = 4096 * q" using assms by (auto simp: block_aligned_def)
  have "unat a < 2 ^ LENGTH(32)" by (rule unsigned_less)
  then have lt: "q < 2 ^ 20" using q by simp
  have "unat a = 512 * (8 * q)" using q by simp
  then show "unat a mod 512 = 0" by (simp only: mod_mult_self1_is_0)
  show "unat a + 512 * 8 \<le> 2 ^ 32" using q lt by simp
  have d: "unat (drop_bit 9 a) = 8 * q" using q by (simp add: drop_bit_eq_div unat_div)
  show u: "unat (drop_bit 9 a + of_nat i) = unat a div 512 + i" if "i < 8"
  proof -
    have "drop_bit 9 a = of_nat (8 * q)" unfolding d [symmetric] by simp
    then have "drop_bit 9 a + of_nat i = of_nat (8 * q + i)" by simp
    then show ?thesis using lt that q by (simp only: unat_of_nat) simp
  qed
  show "unat (drop_bit 9 a + of_nat i) < 2 ^ 23" if "i < 8" using u [OF that] that lt q by simp
qed

lemma sector_eq:
  assumes "block_aligned a" and "block_aligned b" and "i < 8" and "j < 8"
  shows "drop_bit 9 a + of_nat i = drop_bit 9 b + of_nat j \<longleftrightarrow> a = b \<and> i = j"
proof -
  obtain q where q: "unat a = 4096 * q" using assms(1) by (auto simp: block_aligned_def)
  obtain p where p: "unat b = 4096 * p" using assms(2) by (auto simp: block_aligned_def)
  have "drop_bit 9 a + of_nat i = drop_bit 9 b + of_nat j \<longleftrightarrow> 8 * q + i = 8 * p + j"
    using q p by (simp add: word_unat_eq_iff aligned_sectors(3) [OF assms(1,3)]
        aligned_sectors(3) [OF assms(2,4)])
  also have "\<dots> \<longleftrightarrow> q = p \<and> i = j" using assms(3,4) by (cases q p rule: linorder_cases) auto
  finally show ?thesis using q p by (auto simp: word_unat_eq_iff)
qed

locale boot_rom =
  fixes r :: "'c rom"
  assumes sector_length: "length (Read_Single_Block r c k) = 512"
    and sector_same: "unat k < 2 ^ 23 \<Longrightarrow> length bs = 512 \<Longrightarrow>
      Read_Single_Block r (Write_Single_Block r c k bs) k = bs"
    and sector_other: "unat k < 2 ^ 23 \<Longrightarrow> unat l < 2 ^ 23 \<Longrightarrow> k \<noteq> l \<Longrightarrow> length bs = 512 \<Longrightarrow>
      Read_Single_Block r (Write_Single_Block r c k bs) l = Read_Single_Block r c l"
    and qemu_length: "length (new_sdcard_read r c a n) = n"
    and qemu_same: "length bs = BLOCK_SIZE \<Longrightarrow> block_aligned a \<Longrightarrow>
      new_sdcard_read r (new_sdcard_write r c a bs) a BLOCK_SIZE = bs"
    and qemu_other: "length bs = BLOCK_SIZE \<Longrightarrow> block_aligned a \<Longrightarrow> block_aligned b \<Longrightarrow> a \<noteq> b \<Longrightarrow>
      new_sdcard_read r (new_sdcard_write r c a bs) b BLOCK_SIZE = new_sdcard_read r c b BLOCK_SIZE"
begin

lemma read_sectors:
  assumes "block_aligned a"
  shows "sdread_loop r c a 4096 =
    concat (map (\<lambda>i. Read_Single_Block r c (drop_bit 9 a + of_nat i)) [0..<8])"
  using sdread_loop_sectors [OF sector_length aligned_sectors(1,2) [OF assms], of c] by simp

lemma read_written_sectors:
  assumes "block_aligned a" and "block_aligned b" and "length bs = BLOCK_SIZE" and "j < 8"
  shows "Read_Single_Block r (fst (sdwrite_loop r (c, ib) bs a 4096)) (drop_bit 9 b + of_nat j) =
    (if a = b then slice bs (512 * j) 512 else Read_Single_Block r c (drop_bit 9 b + of_nat j))"
proof -
  let ?f = "\<lambda>i c. Write_Single_Block r c (drop_bit 9 a + of_nat i) (slice bs (512 * i) 512)"
  have "n \<le> 8 \<Longrightarrow> Read_Single_Block r (fold ?f [0..<n] c) (drop_bit 9 b + of_nat j) =
    (if a = b \<and> j < n then slice bs (512 * j) 512 else Read_Single_Block r c (drop_bit 9 b + of_nat j))" for n
  proof (induction n)
    case (Suc n)
    then have n: "n < 8" by simp
    have len: "length (slice bs (512 * n) 512) = 512" using assms(3) n by simp
    note lt = aligned_sectors(4) [OF assms(1) n] aligned_sectors(4) [OF assms(2,4)]
    show ?case
    proof (cases "drop_bit 9 a + of_nat n = drop_bit 9 b + of_nat j")
      case True
      then have "a = b" "n = j" using sector_eq [OF assms(1,2) n assms(4)] by auto
      then show ?thesis using sector_same [OF lt(1) len] by simp
    next
      case False
      then have "\<not> (a = b \<and> n = j)" by auto
      then show ?thesis using Suc sector_other [OF lt False len] by (auto simp: less_Suc_eq)
    qed
  qed simp
  moreover have "fst (sdwrite_loop r (c, ib) bs a 4096) = fold ?f [0..<8] c"
    using sdwrite_loop_sectors [OF aligned_sectors(1,2) [OF assms(1)], of bs r c ib] assms(3) by simp
  ultimately show ?thesis using assms(4) by simp
qed

lemma concat_upt_cong:
  "(\<And>j. j < n \<Longrightarrow> f j = g j) \<Longrightarrow> concat (map f [0..<n]) = concat (map g [0..<n])"
  by (intro arg_cong [where f = concat] map_cong) auto

lemma block_of_sectors:
  "length bs = BLOCK_SIZE \<Longrightarrow> concat (map (\<lambda>i. slice bs (512 * i) 512) [0..<8]) = bs"
proof -
  assume len: "length bs = BLOCK_SIZE"
  have "concat (map (\<lambda>i. slice bs (512 * i) 512) [0..<n]) = take (512 * n) bs" for n
  proof (induction n)
    case (Suc n)
    have "take (512 * n + 512) bs = take (512 * n) bs @ slice bs (512 * n) 512"
      by (simp add: take_add slice_def)
    with Suc show ?case by (simp add: add.commute)
  qed simp
  with len show ?thesis by simp
qed

lemma read_written_block:
  assumes "block_aligned a" and "block_aligned b" and "length bs = BLOCK_SIZE"
  shows "sdread_loop r (fst (sdwrite_loop r st bs a 4096)) b 4096 =
    (if a = b then bs else sdread_loop r (fst st) b 4096)"
proof -
  obtain c ib where st: "st = (c, ib)" by (cases st)
  have "sdread_loop r (fst (sdwrite_loop r st bs a 4096)) b 4096 =
    concat (map (\<lambda>j. if a = b then slice bs (512 * j) 512
       else Read_Single_Block r c (drop_bit 9 b + of_nat j)) [0..<8])"
    unfolding read_sectors [OF assms(2)] st
    by (rule concat_upt_cong) (rule read_written_sectors [OF assms])
  then show ?thesis using block_of_sectors [OF assms(3)] read_sectors [OF assms(2), of c] st
    by (cases "a = b") simp_all
qed

lemma libepmon_card: "sd_card (libepmon r)"
proof
  fix c :: "'c \<times> u8 list" and a b :: u32 and bs :: "u8 list"
  assume a: "block_aligned a"
  show "length (sdread_op (libepmon r) c a BLOCK_SIZE) = BLOCK_SIZE"
    using a by (simp add: libepmon_def sdread_def qemu_length read_sectors sector_length
        length_concat comp_def upt_rec)
  assume len: "length bs = BLOCK_SIZE"
  show "sdread_op (libepmon r) (sdwrite_op (libepmon r) c bs a) a BLOCK_SIZE = bs"
    using a len by (simp add: libepmon_def sdread_def sdwrite_def qemu_same read_written_block)
  assume b: "block_aligned b" and "a \<noteq> b"
  then show "sdread_op (libepmon r) (sdwrite_op (libepmon r) c bs a) b BLOCK_SIZE =
      sdread_op (libepmon r) c b BLOCK_SIZE"
    using a len by (simp add: libepmon_def sdread_def sdwrite_def qemu_other read_written_block)
qed

end

sublocale boot_rom \<subseteq> lib: sd_card "libepmon r"
  by (rule libepmon_card)

section \<open>A card in memory\<close>

text \<open>
  A ROM whose card is a memory of bytes. It keeps every promise of \<open>boot_rom\<close>, on the board
  (\<open>w \<noteq> 0x27bdffa8\<close>) and under QEMU, so the laws the development relies on can hold together.
\<close>

definition ram_rom :: "u32 \<Rightarrow> (u32 \<Rightarrow> u8) rom" where
  "ram_rom w = \<lparr> probe_word = w,
     new_sdcard_read = (\<lambda>c base n. map (\<lambda>i. c (base + of_nat i)) [0..<n]),
     new_sdcard_write = (\<lambda>c base bs a. if unat (a - base) < length bs then bs ! unat (a - base) else c a),
     Read_Single_Block = (\<lambda>c k. map (\<lambda>i. c (k * 512 + of_nat i)) [0..<512]),
     Write_Single_Block = (\<lambda>c k bs a. if a div 512 = k then bs ! unat (a mod 512) else c a) \<rparr>"

lemma sector_address:
  fixes k :: u32
  assumes "unat k < 2 ^ 23" and "i < 512"
  shows "(k * 512 + of_nat i) div 512 = k" and "unat ((k * 512 + of_nat i) mod 512) = i"
proof -
  have "k * 512 + of_nat i = of_nat (unat k * 512 + i)" by simp
  then have u: "unat (k * 512 + of_nat i) = unat k * 512 + i"
    using assms by (simp only: unat_of_nat) simp
  show "(k * 512 + of_nat i) div 512 = k" using assms u by (simp add: word_unat_eq_iff unat_div)
  show "unat ((k * 512 + of_nat i) mod 512) = i" using assms u by (simp add: unat_mod)
qed

lemma block_offset:
  fixes a b :: u32
  assumes "block_aligned a" and "block_aligned b" and "i < 4096"
  shows "unat (b + of_nat i - a) < 4096 \<longleftrightarrow> a = b"
proof
  have i: "unat (of_nat i :: u32) = i" using assms(3) by (simp only: unat_of_nat) simp
  have sub: "unat (b - a) mod 4096 = 0"
  proof -
    have "int (unat (b - a)) = (int (unat b) - int (unat a)) mod 2 ^ 32"
      by (simp add: uint_word_ariths flip: uint_nat)
    moreover have "(4096 :: int) dvd int (unat b) - int (unat a)"
      using assms(1,2) unfolding block_aligned_def mod_eq_0_iff_dvd
      by (metis dvd_diff of_nat_dvd_iff of_nat_numeral)
    ultimately have "(4096 :: int) dvd int (unat (b - a))"
      by (simp add: dvd_mod)
    then show ?thesis unfolding mod_eq_0_iff_dvd by (metis of_nat_dvd_iff of_nat_numeral)
  qed
  have d: "unat (b + of_nat i - a) = unat (b - a) + i"
  proof -
    obtain q where q: "unat (b - a) = 4096 * q" using sub by auto
    have "unat (b - a) < 2 ^ LENGTH(32)" by (rule unsigned_less)
    then have "4096 * q + i < 2 ^ 32" using q assms(3) by simp
    moreover have "b + of_nat i - a = (b - a) + of_nat i" by simp
    ultimately show ?thesis using q i by (simp only: unat_word_ariths) simp
  qed
  show "a = b" if "unat (b + of_nat i - a) < 4096"
  proof -
    have "unat (b - a) < 4096" using that d by simp
    then have "unat (b - a) = 0" using sub by simp
    then have "b - a = 0" by (simp add: word_unat_eq_iff)
    then show ?thesis by simp
  qed
  show "unat (b + of_nat i - a) < 4096" if "a = b" using that i assms(3) by simp
qed

interpretation ram: boot_rom "ram_rom w"
proof
  fix c :: "u32 \<Rightarrow> u8" and k l a b :: u32 and bs :: "u8 list" and n :: nat
  show "length (Read_Single_Block (ram_rom w) c k) = 512"
    "length (new_sdcard_read (ram_rom w) c a n) = n" by (simp_all add: ram_rom_def)
  {
    assume k: "unat k < 2 ^ 23" and len: "length bs = 512"
    show "Read_Single_Block (ram_rom w) (Write_Single_Block (ram_rom w) c k bs) k = bs"
      using len by (intro nth_equalityI) (simp_all add: ram_rom_def sector_address [OF k])
    assume l: "unat l < 2 ^ 23" and "k \<noteq> l"
    then show "Read_Single_Block (ram_rom w) (Write_Single_Block (ram_rom w) c k bs) l =
        Read_Single_Block (ram_rom w) c l"
      by (simp add: ram_rom_def sector_address [OF l])
  }
  assume len: "length bs = BLOCK_SIZE" and a: "block_aligned a"
  show "new_sdcard_read (ram_rom w) (new_sdcard_write (ram_rom w) c a bs) a BLOCK_SIZE = bs"
  proof (intro nth_equalityI)
    fix i assume "i < length (new_sdcard_read (ram_rom w) (new_sdcard_write (ram_rom w) c a bs) a BLOCK_SIZE)"
    then have i: "i < 4096" by (simp add: ram_rom_def)
    then have "unat (of_nat i :: u32) = i" by (simp only: unat_of_nat) simp
    then show "new_sdcard_read (ram_rom w) (new_sdcard_write (ram_rom w) c a bs) a BLOCK_SIZE ! i = bs ! i"
      using i len by (simp add: ram_rom_def)
  qed (simp add: ram_rom_def len)
  assume b: "block_aligned b" and "a \<noteq> b"
  then show "new_sdcard_read (ram_rom w) (new_sdcard_write (ram_rom w) c a bs) b BLOCK_SIZE =
      new_sdcard_read (ram_rom w) c b BLOCK_SIZE"
    using block_offset [OF a b] len by (simp add: ram_rom_def)
qed

section \<open>Properties\<close>



text \<open>
  \<^verbatim>\<open>memcopy\<close> moves: for a source and a destination inside memory, whether or not the two
  ranges overlap and in either order, the destination ends up with the bytes the source had, and
  every byte outside the destination is unchanged.
\<close>

theorem memcopy_moves:
  assumes "s1 + n \<le> length mem" and "s2 + n \<le> length mem"
  shows "\<exists>mem'. memcopy mem s1 s2 n = Some mem' \<and> length mem' = length mem \<and>
    slice mem' s1 n = slice mem s2 n \<and>
    (\<forall>i < length mem. i < s1 \<or> s1 + n \<le> i \<longrightarrow> mem' ! i = mem ! i)"
proof -
  have "memcopy mem s1 s2 n = Some (splice mem s1 (slice mem s2 n))"
    using assms by (simp add: memcopy_def memcopy_down_spec memcopy_up_spec)
  then show ?thesis using assms by (auto simp: nth_splice mem_simps)
qed

theorem memcopy_moves_witness:
  "\<exists>m. memcopy [1, 2, 3, 4, 5] 1 0 4 = Some m \<and> slice m 1 4 = [1, 2, 3, 4]"
  using memcopy_moves [of 1 4 "[1, 2, 3, 4, 5]" 0] by (auto simp: slice_def)

end
