(* ===== verification/Image.thy ===== *)
theory Image
  imports Libepmon
begin

text \<open>
  How the kernel gets onto the card and from there into memory: the host program
  \<^verbatim>\<open>tools/createimage.c\<close>, which lays the boot block and the kernel out in the file \<^verbatim>\<open>image\<close>, and the
  boot block \<^verbatim>\<open>arch/mips/boot/bootblock.S\<close>, which reads the kernel and jumps to it. A file is the
  list of its bytes. \<open>fread\<close> gives the bytes that are there when the file ends early, as the C
  library of the host does; the memory it does not fill keeps what \<^verbatim>\<open>calloc\<close> put there. Memory that
  was never written (a header of a file that is too short) and writes outside a buffer are \<open>None\<close>.
  The ROM routine that the boot block calls at \<^verbatim>\<open>0x8007b1cc\<close> is the field \<^verbatim>\<open>new_sdcard_read\<close> of \<open>rom\<close>.
\<close>

section \<open>createimage\<close>

text \<open>The fields of the two ELF headers that the program uses.\<close>

record Elf32_Ehdr =
  e_phoff :: u32
  e_phnum :: u16

record Elf32_Phdr =
  p_offset :: u32
  p_vaddr :: u32
  p_filesz :: u32
  p_memsz :: u32

definition fread_at :: "u8 list \<Rightarrow> nat \<Rightarrow> nat \<Rightarrow> u8 list" where
  "fread_at f pos n = slice f pos n"

text \<open>Writing behind the end of a file fills the hole with zeros.\<close>

definition fwrite_at :: "u8 list \<Rightarrow> nat \<Rightarrow> u8 list \<Rightarrow> u8 list" where
  "fwrite_at f pos bs = splice (f @ replicate (pos - length f) 0) pos bs"

definition read_exec_file :: "u8 list \<Rightarrow> (Elf32_Ehdr \<times> Elf32_Phdr) option" where
  "read_exec_file f = do {
     let h = fread_at f 0 52;
     guard (length h = 52);
     let ehdr = \<lparr>e_phoff = get32 h 28, e_phnum = of_le16 (slice h 44 2)\<rparr>;
     let p = fread_at f (unat (e_phoff ehdr)) 32;
     guard (length p = 32);
     Some (ehdr, \<lparr>p_offset = get32 p 4, p_vaddr = get32 p 8, p_filesz = get32 p 16, p_memsz = get32 p 20\<rparr>)
   }"

text \<open>Copying into an allocated buffer.\<close>

definition into :: "u8 list \<Rightarrow> nat \<Rightarrow> u8 list \<Rightarrow> u8 list option" where
  "into buffer off bs = (if off + length bs \<le> length buffer then Some (splice buffer off bs) else None)"

definition write_bootblock :: "u8 list \<Rightarrow> u8 list \<Rightarrow> Elf32_Phdr \<Rightarrow> u8 list option" where
  "write_bootblock image_file boot_file phdr = do {
     let buffer = replicate (512 * 4) 0;
     buffer \<leftarrow> into buffer 0 (fread_at boot_file (unat (p_offset phdr)) (unat (p_filesz phdr)));
     Some (fwrite_at image_file 0 (take 512 buffer))
   }"

definition write_kernel :: "u8 list \<Rightarrow> u8 list \<Rightarrow> Elf32_Phdr \<Rightarrow> u8 list option" where
  "write_kernel image_file kernel_file phdr = do {
     let buffer = replicate (unat (p_memsz phdr) * 4) 0;
     buffer \<leftarrow> into buffer 0 (fread_at kernel_file (unat (p_offset phdr)) (unat (p_memsz phdr)));
     buffer \<leftarrow> into buffer (unat (p_filesz phdr)) (replicate (unat (p_memsz phdr - p_filesz phdr)) 0);
     Some (fwrite_at image_file 512 (take (unat (p_memsz phdr)) buffer))
   }"

definition count_kernel_sectors :: "Elf32_Ehdr \<Rightarrow> Elf32_Phdr \<Rightarrow> u32" where
  "count_kernel_sectors ehdr phdr =
     (let i = ucast (e_phnum ehdr) * p_memsz phdr
      in if i mod 512 = 0 then signed_drop_bit 9 i else signed_drop_bit 9 i + 1)"

definition record_kernel_sectors :: "u8 list \<Rightarrow> u32 \<Rightarrow> u8 list" where
  "record_kernel_sectors image_file num_sec = fwrite_at image_file 0x1f0 (le32 num_sec)"

text \<open>The numbers that \<^verbatim>\<open>extended_opt\<close> prints, in their order.\<close>

definition extended_opt :: "Elf32_Phdr \<Rightarrow> Elf32_Phdr \<Rightarrow> u32 \<Rightarrow> u32 list" where
  "extended_opt bp kp num_sec =
     [1 + num_sec, p_offset bp, p_vaddr bp, p_filesz bp, p_memsz bp, p_filesz bp,
      num_sec, p_offset kp, p_vaddr kp, p_filesz kp, p_memsz kp, p_memsz kp]"

text \<open>
  The whole program, on the files of the host: its exit code, the file \<^verbatim>\<open>image\<close> if it has been
  opened, and what is printed of it. The test of the arguments compares the pointer \<^verbatim>\<open>argv[1]\<close> with
  a literal, which is never equal: with any other number of arguments the program returns 1.
\<close>

definition createimage :: "(string \<Rightarrow> u8 list option) \<Rightarrow> string list \<Rightarrow> (nat \<times> u8 list option \<times> u32 list) option" where
  "createimage files argv =
     (if length argv \<noteq> 4 then Some (1, None, [])
      else case files (argv ! 2) of None \<Rightarrow> Some (1, None, []) | Some boot_file \<Rightarrow> do {
        (boot_ehdr, boot_phdr) \<leftarrow> read_exec_file boot_file;
        case files (argv ! 3) of None \<Rightarrow> Some (1, None, []) | Some kernel_file \<Rightarrow> do {
          (kernel_ehdr, kernel_phdr) \<leftarrow> read_exec_file kernel_file;
          let num_sec = count_kernel_sectors kernel_ehdr kernel_phdr;
          image_file \<leftarrow> write_bootblock [] boot_file boot_phdr;
          image_file \<leftarrow> write_kernel image_file kernel_file kernel_phdr;
          let image_file = record_kernel_sectors image_file num_sec;
          Some (0, Some image_file, extended_opt boot_phdr kernel_phdr num_sec)
        }
      })"

section \<open>The boot block\<close>

datatype boot_call = Printstr u32 | Read_sd_card u32 u32 u32 | Jump u32

definition mem_word :: "(u32 \<Rightarrow> u8) \<Rightarrow> u32 \<Rightarrow> u32" where
  "mem_word m a = of_le32 (map (\<lambda>i. m (a + of_nat i)) [0..<4])"

definition mem_put :: "(u32 \<Rightarrow> u8) \<Rightarrow> u32 \<Rightarrow> u8 list \<Rightarrow> u32 \<Rightarrow> u8" where
  "mem_put m a bs x = (if unat (x - a) < length bs then bs ! unat (x - a) else m x)"

text \<open>
  \<open>msg\<close> is the address of the message in the data section, \<open>c\<close> the card. The result is the calls
  and the jump, in their order, with the memory at the jump.
\<close>

definition bootblock :: "'c rom \<Rightarrow> 'c \<Rightarrow> u32 \<Rightarrow> (u32 \<Rightarrow> u8) \<Rightarrow> boot_call list \<times> (u32 \<Rightarrow> u8)" where
  "bootblock r c msg m =
     (let a0 = 0xa0800200; a1 = 0x200; a2 = push_bit 9 (mem_word m 0xa08001f0);
          m = mem_put m a0 (new_sdcard_read r c a1 (unat a2))
      in ([Printstr msg, Read_sd_card a0 a1 a2, Jump 0xa0800200], m))"

section \<open>The layout of the image\<close>

definition boot_segment :: "u8 list \<Rightarrow> Elf32_Phdr \<Rightarrow> nat \<Rightarrow> u8" where
  "boot_segment f phdr i = (if i < unat (p_filesz phdr) then f ! (unat (p_offset phdr) + i) else 0)"

lemma fwrite_at_nil: "fwrite_at [] 0 bs = bs"
  by (simp add: fwrite_at_def splice_def)

lemma fwrite_at_end: "length f = pos \<Longrightarrow> fwrite_at f pos bs = f @ bs"
  by (simp add: fwrite_at_def splice_def)

lemma fwrite_at_in: "pos + length bs \<le> length f \<Longrightarrow> fwrite_at f pos bs = splice f pos bs"
  by (simp add: fwrite_at_def)

lemma into_in: "off + length bs \<le> length b \<Longrightarrow> into b off bs = Some (splice b off bs)"
  by (simp add: into_def)

text \<open>A segment that the file holds becomes the first sector, filled up with zeros.\<close>

lemma write_bootblock_sector:
  assumes "unat (p_offset p) + unat (p_filesz p) \<le> length f" "unat (p_filesz p) \<le> 512"
  shows "write_bootblock [] f p = Some (map (boot_segment f p) [0..<512])"
proof -
  let ?bs = "slice f (unat (p_offset p)) (unat (p_filesz p))"
  have l: "length ?bs = unat (p_filesz p)" using assms by simp
  have "into (replicate (512 * 4) 0) 0 ?bs = Some (splice (replicate (512 * 4) 0) 0 ?bs)"
    using assms(2) by (intro into_in) simp
  moreover have "take 512 (splice (replicate (512 * 4) 0) 0 ?bs) = map (boot_segment f p) [0..<512]"
    using assms l by (intro nth_equalityI) (auto simp: nth_splice nth_slice boot_segment_def)
  ultimately show ?thesis by (simp add: write_bootblock_def fread_at_def fwrite_at_nil)
qed

text \<open>The kernel follows with its whole size in memory: the bytes of the file, then zeros.\<close>

lemma write_kernel_segment:
  assumes "unat (p_offset p) + unat (p_filesz p) \<le> length f" "p_filesz p \<le> p_memsz p" "length b = 512"
  shows "write_kernel b f p = Some (b @ map (boot_segment f p) [0..<unat (p_memsz p)])"
proof -
  let ?n = "unat (p_memsz p)" and ?k = "unat (p_filesz p)"
  let ?bs = "slice f (unat (p_offset p)) ?n" and ?z = "replicate (?n * 4) 0 :: u8 list"
  have kn: "?k \<le> ?n" using assms(2) by (simp add: word_le_nat_alt)
  have d: "unat (p_memsz p - p_filesz p) = ?n - ?k" using assms(2) by (simp add: unat_sub)
  have 1: "into ?z 0 ?bs = Some (splice ?z 0 ?bs)" by (intro into_in) simp
  let ?y = "splice ?z 0 ?bs"
  have ly: "length ?y = ?n * 4" by simp
  have 2: "into ?y ?k (replicate (?n - ?k) 0) = Some (splice ?y ?k (replicate (?n - ?k) 0))"
    using kn ly by (intro into_in) simp
  have "take ?n (splice ?y ?k (replicate (?n - ?k) 0)) = map (boot_segment f p) [0..<?n]"
    using assms(1) kn ly by (intro nth_equalityI) (auto simp: nth_splice nth_slice boot_segment_def)
  then show ?thesis using 1 2 assms(3) by (simp add: write_kernel_def fread_at_def d fwrite_at_end)
qed

text \<open>The sectors that are counted hold the kernel, and are at most a sector more than \<^verbatim>\<open>e_phnum\<close> times it.\<close>

lemma signed_drop_bit_small:
  assumes "unat (w :: u32) < 2 ^ 31"
  shows "signed_drop_bit n w = drop_bit n w"
proof -
  have "\<not> bit w 31" using assms by (simp add: bit_iff_odd_drop_bit drop_bit_eq_div word_arith_nat_div flip: unat_of_nat)
  moreover have "\<not> bit w k" if "31 \<le> k" for k
    using that calculation bit_imp_le_length [of w k] by (cases "k = 31") auto
  ultimately show ?thesis by (intro bit_word_eqI) (auto simp: bit_signed_drop_bit_iff bit_drop_bit_eq)
qed

lemma count_kernel_sectors_bytes:
  assumes "e_phnum h \<noteq> 0" "unat (e_phnum h) * unat (p_memsz p) < 2 ^ 30"
  shows "unat (p_memsz p) \<le> unat (push_bit 9 (count_kernel_sectors h p))"
    "unat (push_bit 9 (count_kernel_sectors h p)) \<le> 2 ^ 30"
proof -
  define n where "n = unat (e_phnum h) * unat (p_memsz p)"
  have n30: "n < 1073741824" using assms(2) by (simp add: n_def)
  let ?i = "ucast (e_phnum h) * p_memsz p :: u32"
  have u: "unat (ucast (e_phnum h) :: u32) = unat (e_phnum h)"
    by (simp add: unsigned_ucast_eq take_bit_nat_eq_self_iff less_le_trans [OF unsigned_less])
  have i: "unat ?i = n" using n30 u by (simp add: unat_word_ariths n_def)
  have s: "unat (signed_drop_bit 9 ?i) = n div 512"
  proof -
    have "signed_drop_bit 9 ?i = drop_bit 9 ?i" using i n30 by (intro signed_drop_bit_small) simp
    then have "unat (signed_drop_bit 9 ?i) = drop_bit 9 n" by (simp only: unat_drop_bit_eq i)
    then show ?thesis by (simp add: drop_bit_eq_div)
  qed
  have m: "?i mod 512 = 0 \<longleftrightarrow> n mod 512 = 0" using i by (simp add: word_unat_eq_iff unat_mod)
  have up: "(n + 511) div 512 = (if n mod 512 = 0 then n div 512 else n div 512 + 1)"
  proof (cases "n mod 512 = 0")
    case False
    moreover have "n mod 512 < 512" by simp
    ultimately have "(n mod 512 + 511) div 512 = 1" by (intro div_nat_eqI) simp_all
    then show ?thesis using False by (simp add: div_add1_eq [of n 511])
  qed (simp add: div_add1_eq [of n 511])
  have k: "unat (count_kernel_sectors h p) = (n + 511) div 512"
  proof (cases "n mod 512 = 0")
    case True
    then show ?thesis using s m by (simp add: count_kernel_sectors_def Let_def up)
  next
    case False
    have "unat (signed_drop_bit 9 ?i + 1) = n div 512 + 1" using s n30 by (subst unat_add_lem [THEN iffD1]) simp_all
    then show ?thesis using False m by (simp only: count_kernel_sectors_def Let_def up if_False)
  qed
  have "unat (push_bit 9 (count_kernel_sectors h p)) = 512 * ((n + 511) div 512)"
    using k n30 by (simp add: push_bit_eq_mult unat_word_ariths)
  moreover have "unat (p_memsz p) \<le> n" using assms(1) by (cases "unat (e_phnum h)") (auto simp: unat_eq_0 n_def)
  ultimately show "unat (p_memsz p) \<le> unat (push_bit 9 (count_kernel_sectors h p))"
    "unat (push_bit 9 (count_kernel_sectors h p)) \<le> 2 ^ 30" using n30 by auto
qed

lemma mem_put_in: "i < length bs \<Longrightarrow> i < 2 ^ 32 \<Longrightarrow> mem_put m a bs (a + of_nat i) = bs ! i"
  by (simp add: mem_put_def unat_of_nat)

lemma mem_put_block: "length bs < 2 ^ 32 \<Longrightarrow> n = length bs \<Longrightarrow> map (\<lambda>i. mem_put m a bs (a + of_nat i)) [0..<n] = bs"
  by (intro nth_equalityI) (auto simp: mem_put_in)

text \<open>Below the block that was written the memory is kept, as long as the block does not wrap around.\<close>

lemma mem_put_below:
  assumes "i < d" "d + length bs < 2 ^ 32"
  shows "mem_put m (a + of_nat d) bs (a + of_nat i) = m (a + of_nat i)"
proof -
  obtain k where k: "d = i + k" "0 < k" using assms(1) by (auto dest: less_imp_add_positive)
  have "(of_nat (2 ^ 32 - k) :: u32) + of_nat k = of_nat (2 ^ 32 - k + k)" by (simp only: of_nat_add)
  moreover have "2 ^ 32 - k + k = 4294967296" using assms(2) k by simp
  moreover have "(of_nat 4294967296 :: u32) = 0" by simp
  ultimately have "(of_nat i - of_nat d :: u32) = of_nat (2 ^ 32 - k)" using k by (simp add: eq_neg_iff_add_eq_0)
  then have "unat (of_nat i - of_nat d :: u32) = 2 ^ 32 - k"
    using k assms(2) by (simp only: unat_of_nat) simp
  then have "\<not> unat (of_nat i - of_nat d :: u32) < length bs" using assms k by linarith
  then show ?thesis by (simp add: mem_put_def)
qed

section \<open>The kernel in memory\<close>

lemma createimage_layout:
  assumes "files bname = Some boot" "read_exec_file boot = Some (bh, bp)"
    and "files kname = Some kern" "read_exec_file kern = Some (kh, kp)"
    and "unat (p_offset bp) + unat (p_filesz bp) \<le> length boot" "unat (p_filesz bp) \<le> 512"
    and "unat (p_offset kp) + unat (p_filesz kp) \<le> length kern" "p_filesz kp \<le> p_memsz kp"
  defines "num_sec \<equiv> count_kernel_sectors kh kp"
  shows "createimage files [prog, opt, bname, kname] = Some (0,
     Some (splice (map (boot_segment boot bp) [0..<512]) 0x1f0 (le32 num_sec) @ map (boot_segment kern kp) [0..<unat (p_memsz kp)]),
     extended_opt bp kp num_sec)"
proof -
  let ?b = "map (boot_segment boot bp) [0..<512]" and ?k = "map (boot_segment kern kp) [0..<unat (p_memsz kp)]"
  have "record_kernel_sectors (?b @ ?k) num_sec = splice ?b 0x1f0 (le32 num_sec) @ ?k"
    by (simp add: record_kernel_sectors_def fwrite_at_in splice_def)
  then show ?thesis
    using write_bootblock_sector [OF assms(5,6)] write_kernel_segment [OF assms(7,8), of ?b] assms(1-4)
    by (simp add: createimage_def num_sec_def Let_def)
qed

lemma bootblock_loads:
  assumes "length b = 512" "get32 b 0x1f0 = n" "unat (push_bit 9 n) \<le> 2 ^ 30"
    and "length k \<le> unat (push_bit 9 n)"
    and rom: "\<And>w a n. new_sdcard_read r (to_card w) a n = map (\<lambda>i. w (a + of_nat i)) [0..<n]"
    and m'_def: "m' = snd (bootblock r (to_card (mem_put rest 0 (b @ k))) msg (mem_put m 0xa0800000 b))"
  shows "map (\<lambda>i. m' (0xa0800000 + of_nat i)) [0..<512] = b"
    and "map (\<lambda>i. m' (0xa0800200 + of_nat i)) [0..<length k] = k"
proof -
  let ?m = "mem_put m 0xa0800000 b" and ?c = "mem_put rest 0 (b @ k)" and ?n = "unat (push_bit 9 n)"
  have "mem_word ?m 0xa08001f0 = n" 
  proof -
    have "?m (0xa08001f0 + of_nat i) = b ! (0x1f0 + i)" if "i < 4" for i
      using mem_put_in [of "0x1f0 + i" b m "0xa0800000"] that assms(1) by (simp add: add.assoc [symmetric])
    then have "map (\<lambda>i. ?m (0xa08001f0 + of_nat i)) [0..<4] = slice b 0x1f0 4"
      using assms(1) by (intro nth_equalityI) (simp_all add: nth_slice)
    then show ?thesis using assms(2) by (simp add: mem_word_def get32_def)
  qed
  then have m': "m' = mem_put ?m 0xa0800200 (map (\<lambda>i. ?c (0x200 + of_nat i)) [0..<?n])"
    by (simp add: m'_def bootblock_def rom Let_def)
  have "m' (0xa0800000 + of_nat i) = b ! i" if "i < 512" for i
    using mem_put_below [of i 512 "map (\<lambda>i. ?c (0x200 + of_nat i)) [0..<?n]" ?m "0xa0800000"] mem_put_in [of i b m "0xa0800000"]
      that assms(1,3) m' by simp
  then show "map (\<lambda>i. m' (0xa0800000 + of_nat i)) [0..<512] = b" using assms(1) by (intro nth_equalityI) simp_all
  have "m' (0xa0800200 + of_nat i) = k ! i" if "i < length k" for i
  proof -
    have "i < ?n" "i < 2 ^ 30" using that assms(3,4) by simp_all
    then have "m' (0xa0800200 + of_nat i) = ?c (0x200 + of_nat i)" using m' by (simp add: mem_put_in)
    also have "\<dots> = (b @ k) ! (512 + i)"
      using mem_put_in [of "512 + i" "b @ k" rest 0] that \<open>i < 2 ^ 30\<close> assms(1) by simp
    also have "\<dots> = k ! i" using assms(1) by (simp add: nth_append)
    finally show ?thesis .
  qed
  then show "map (\<lambda>i. m' (0xa0800200 + of_nat i)) [0..<length k] = k" by (intro nth_equalityI) simp_all
qed

text \<open>
  Claim C11. For a boot block whose segment ends below \<^verbatim>\<open>0x1f0\<close> and a kernel of less than 1 GB,
  both with the segment in the file, \<open>createimage\<close> returns 0 with an image of 512 bytes and the
  kernel's size in memory. The image starts with the segment of the boot block. With this image at
  the start of the card, whatever follows on it, and its first sector at \<^verbatim>\<open>0xa0800000\<close>, the boot
  block prints its message, reads the kernel behind itself and jumps to it; at the jump the memory
  from \<^verbatim>\<open>0xa0800200\<close> on holds the segment of the kernel, its uninitialised part zero, and the boot
  block is intact. The ROM reads the bytes of the card that it is asked for.
\<close>

theorem image_boots:
  assumes "files bname = Some boot" "read_exec_file boot = Some (bh, bp)"
    and "files kname = Some kern" "read_exec_file kern = Some (kh, kp)"
    and "unat (p_offset bp) + unat (p_filesz bp) \<le> length boot" "unat (p_filesz bp) \<le> 0x1f0"
    and "unat (p_offset kp) + unat (p_filesz kp) \<le> length kern" "p_filesz kp \<le> p_memsz kp"
    and "e_phnum kh \<noteq> 0" "unat (e_phnum kh) * unat (p_memsz kp) < 2 ^ 30"
    and rom: "\<And>w a n. new_sdcard_read r (to_card w) a n = map (\<lambda>i. w (a + of_nat i)) [0..<n]"
  shows "\<exists>img nums size m'. createimage files [prog, opt, bname, kname] = Some (0, Some img, nums) \<and>
     length img = 512 + unat (p_memsz kp) \<and>
     take 0x1f0 img = slice boot (unat (p_offset bp)) (unat (p_filesz bp)) @ replicate (0x1f0 - unat (p_filesz bp)) 0 \<and>
     bootblock r (to_card (mem_put rest 0 img)) msg (mem_put m 0xa0800000 (take 512 img)) =
       ([Printstr msg, Read_sd_card 0xa0800200 0x200 size, Jump 0xa0800200], m') \<and>
     map (\<lambda>i. m' (0xa0800000 + of_nat i)) [0..<512] = take 512 img \<and>
     map (\<lambda>i. m' (0xa0800200 + of_nat i)) [0..<unat (p_memsz kp)] =
       slice kern (unat (p_offset kp)) (unat (p_filesz kp)) @ replicate (unat (p_memsz kp) - unat (p_filesz kp)) 0"
proof -
  let ?n = "count_kernel_sectors kh kp"
  let ?k = "map (boot_segment kern kp) [0..<unat (p_memsz kp)]"
  let ?b = "splice (map (boot_segment boot bp) [0..<512]) 0x1f0 (le32 ?n)"
  let ?r = "bootblock r (to_card (mem_put rest 0 (?b @ ?k))) msg (mem_put m 0xa0800000 ?b)"
  have b: "length ?b = 512" by simp
  have "get32 ?b 0x1f0 = ?n" by (simp add: get32_put32_same flip: put32_def)
  note ld = bootblock_loads [OF b this count_kernel_sectors_bytes(2) [OF assms(9,10)] _ rom, of ?k _ rest msg m, OF _ refl]
  have k: "length ?k \<le> unat (push_bit 9 ?n)" using count_kernel_sectors_bytes(1) [OF assms(9,10)] by simp
  have i: "createimage files [prog, opt, bname, kname] = Some (0, Some (?b @ ?k), extended_opt bp kp ?n)"
    using assms by (intro createimage_layout) simp_all
  have s: "?k = slice kern (unat (p_offset kp)) (unat (p_filesz kp)) @ replicate (unat (p_memsz kp) - unat (p_filesz kp)) 0"
    using assms(7,8) by (intro nth_equalityI) (auto simp: nth_append nth_slice boot_segment_def word_le_nat_alt)
  show ?thesis
  proof (intro exI conjI)
    show "createimage files [prog, opt, bname, kname] = Some (0, Some (?b @ ?k), extended_opt bp kp ?n)" by (rule i)
    show "length (?b @ ?k) = 512 + unat (p_memsz kp)" by simp
    show "take 0x1f0 (?b @ ?k) = slice boot (unat (p_offset bp)) (unat (p_filesz bp)) @ replicate (0x1f0 - unat (p_filesz bp)) 0"
      using assms(5,6) by (intro nth_equalityI) (auto simp: nth_append nth_splice nth_slice boot_segment_def)
    show "bootblock r (to_card (mem_put rest 0 (?b @ ?k))) msg (mem_put m 0xa0800000 (take 512 (?b @ ?k))) =
        ([Printstr msg, Read_sd_card 0xa0800200 0x200 (push_bit 9 (mem_word (mem_put m 0xa0800000 ?b) 0xa08001f0)), Jump 0xa0800200], snd ?r)"
      by (simp add: bootblock_def Let_def)
    show "map (\<lambda>i. snd ?r (0xa0800000 + of_nat i)) [0..<512] = take 512 (?b @ ?k)" using ld(1) [OF k] by simp
    show "map (\<lambda>i. snd ?r (0xa0800200 + of_nat i)) [0..<unat (p_memsz kp)] =
        slice kern (unat (p_offset kp)) (unat (p_filesz kp)) @ replicate (unat (p_memsz kp) - unat (p_filesz kp)) 0"
      using ld(2) [OF k] unfolding s [symmetric] by (simp only: length_map length_upt diff_zero)
  qed
qed

text \<open>A file with one segment, for the witness.\<close>

definition elf_file :: "u32 \<Rightarrow> u8 list \<Rightarrow> u8 list" where
  "elf_file memsz seg = replicate 28 0 @ le32 52 @ replicate 12 0 @ le16 1 @ replicate 6 0 @
     replicate 4 0 @ le32 84 @ le32 0xa0800000 @ replicate 4 0 @ le32 (of_nat (length seg)) @ le32 memsz @ replicate 8 0 @ seg"

lemma read_elf_file:
  "read_exec_file (elf_file memsz seg) =
     Some (\<lparr>e_phoff = 52, e_phnum = 1\<rparr>, \<lparr>p_offset = 84, p_vaddr = 0xa0800000, p_filesz = of_nat (length seg), p_memsz = memsz\<rparr>)"
  by (simp add: read_exec_file_def elf_file_def fread_at_def slice_def get32_def Let_def)

lemma elf_file_segment [simp]: "length (elf_file memsz seg) = 84 + length seg" "n = length seg \<Longrightarrow> slice (elf_file memsz seg) 84 n = seg"
  by (simp_all add: elf_file_def slice_def)

lemma new_read_ram: "new_sdcard_read (ram_rom w) c a n = map (\<lambda>i. c (a + of_nat i)) [0..<n]"
  by (simp add: ram_rom_def)

theorem image_boots_witness:
  "\<exists>img nums size m'. createimage [''boot'' \<mapsto> elf_file 4 [1, 2, 3, 4], ''main'' \<mapsto> elf_file 6 [7, 8, 9]] [''createimage'', ''--extended'', ''boot'', ''main''] =
       Some (0, Some img, nums) \<and> length img = 518 \<and> take 0x1f0 img = [1, 2, 3, 4] @ replicate 492 0 \<and>
     bootblock (ram_rom 0) (mem_put (\<lambda>_. 0xff) 0 img) 0xa0800040 (mem_put (\<lambda>_. 0x55) 0xa0800000 (take 512 img)) =
       ([Printstr 0xa0800040, Read_sd_card 0xa0800200 0x200 size, Jump 0xa0800200], m') \<and>
     map (\<lambda>i. m' (0xa0800000 + of_nat i)) [0..<512] = take 512 img \<and>
     map (\<lambda>i. m' (0xa0800200 + of_nat i)) [0..<6] = [7, 8, 9] @ replicate 3 0"
  using image_boots [where files = "[''boot'' \<mapsto> elf_file 4 [1, 2, 3, 4], ''main'' \<mapsto> elf_file 6 [7, 8, 9]]" and bname = "''boot''"
      and kname = "''main''" and prog = "''createimage''" and opt = "''--extended''" and r = "ram_rom 0" and to_card = "\<lambda>c. c"
      and rest = "\<lambda>_. 0xff" and msg = "0xa0800040" and m = "\<lambda>_. 0x55" and boot = "elf_file 4 [1, 2, 3, 4]" and kern = "elf_file 6 [7, 8, 9]",
      OF _ read_elf_file _ read_elf_file]
  by (simp add: new_read_ram)

end
