(* ===== verification/Fs_Alloc.thy ===== *)
theory Fs_Alloc
  imports Fs_Disk
begin

text \<open>
  Allocation of blocks and inodes in \<^verbatim>\<open>kernel/fs/fs.c\<close>: the accessors of the two bit maps,
  \<^verbatim>\<open>find_free_inode\<close> and \<^verbatim>\<open>find_free_block\<close>, and the sequence with which the file system takes a
  block or an inode (mark the bit, write the map, decrement the counter, write the super block).
  The inner loops of the two searches have no bound of their own; they are
  \<open>partial_function\<close>s, and the locale \<open>bit_search\<close> of the bit map theory gives their result.
\<close>

section \<open>The bit maps\<close>

definition set_block_bmp :: "u32 \<Rightarrow> 'c fs_state \<Rightarrow> 'c fs_state option" where
  "set_block_bmp block_index s = do {
     bm \<leftarrow> set_bitmap (blockbmp_buffer s) block_index;
     Some (s \<lparr> blockbmp_buffer := bm \<rparr>)
   }"

definition unset_block_bmp :: "u32 \<Rightarrow> 'c fs_state \<Rightarrow> 'c fs_state option" where
  "unset_block_bmp block_index s = do {
     bm \<leftarrow> unset_bitmap (blockbmp_buffer s) block_index;
     Some (s \<lparr> blockbmp_buffer := bm \<rparr>)
   }"

definition check_block_bmp :: "u32 \<Rightarrow> 'c fs_state \<Rightarrow> bool option" where
  "check_block_bmp block_index s = check_bitmap (blockbmp_buffer s) block_index"

definition set_inode_bmp :: "u32 \<Rightarrow> 'c fs_state \<Rightarrow> 'c fs_state option" where
  "set_inode_bmp inum s = do {
     bm \<leftarrow> set_bitmap (inodebmp_block_buffer s) inum;
     Some (s \<lparr> inodebmp_block_buffer := bm \<rparr>)
   }"

definition unset_inode_bmp :: "u32 \<Rightarrow> 'c fs_state \<Rightarrow> 'c fs_state option" where
  "unset_inode_bmp inum s = do {
     bm \<leftarrow> unset_bitmap (inodebmp_block_buffer s) inum;
     Some (s \<lparr> inodebmp_block_buffer := bm \<rparr>)
   }"

definition check_inode_bmp :: "u32 \<Rightarrow> 'c fs_state \<Rightarrow> bool option" where
  "check_inode_bmp inum s = check_bitmap (inodebmp_block_buffer s) inum"

section \<open>The searches\<close>

partial_function (option) next_free :: "u8 list \<Rightarrow> u32 \<Rightarrow> u32 option" where
  "next_free bm j = Option.bind (check_bitmap bm j) (\<lambda>b. if b then next_free bm (j + 1) else Some j)"

fun find_free :: "u8 list \<Rightarrow> u8 list \<Rightarrow> u32 \<Rightarrow> u32 option option" where
  "find_free bm [] j = Some None"
| "find_free bm (b # bs) j =
     (if b \<noteq> 0xff then map_option Some (next_free bm j) else find_free bm bs (j + 8))"

definition ERROR_NO_FREE_INODE :: u32 where "ERROR_NO_FREE_INODE = -2"
definition ERROR_NO_FREE_BLOCK :: u32 where "ERROR_NO_FREE_BLOCK = -3"

definition find_free_inode :: "'c fs_state \<Rightarrow> u32 option" where
  "find_free_inode s = do {
     r \<leftarrow> find_free (inodebmp_block_buffer s) (take INODE_BITMAP_SIZE (inodebmp_block_buffer s)) 0;
     case r of Some j \<Rightarrow> Some j | None \<Rightarrow> Some ERROR_NO_FREE_INODE
   }"

definition find_free_block :: "'c fs_state \<Rightarrow> u32 option" where
  "find_free_block s = do {
     r \<leftarrow> find_free (blockbmp_buffer s) (take BLOCK_BITMAP_SIZE (blockbmp_buffer s)) 0;
     case r of Some j \<Rightarrow> Some j | None \<Rightarrow> Some ERROR_NO_FREE_BLOCK
   }"

interpretation free_bit: bit_search check_bitmap set_bitmap unset_bitmap bits "\<lambda>bm. 8 * length bm" next_free
  by unfold_locales (rule next_free.simps)

text \<open>A byte other than \<open>0xff\<close> has a clear bit; the byte \<open>0xff\<close> has none.\<close>

lemma full_byte: "(b :: u8) = 0xff \<longleftrightarrow> (\<forall>k < 8. bit b k)"
proof
  assume all: "\<forall>k < 8. bit b k"
  have ff: "(0xff :: u8) = mask 8" by (simp add: mask_eq_exp_minus_1)
  show "b = 0xff" unfolding ff
    by (rule bit_word_eqI) (use all in \<open>auto simp: bit_mask_iff\<close>)
next
  assume b: "b = 0xff"
  have ff: "(0xff :: u8) = mask 8" by (simp add: mask_eq_exp_minus_1)
  show "\<forall>k < 8. bit b k" unfolding b ff by (auto simp: bit_mask_iff)
qed

lemma find_free_spec:
  assumes "length bm \<le> 2 ^ 29" and "bm = done @ todo @ rest"
    and "\<forall>i < 8 * length done. i \<in> bits bm"
  shows "find_free bm todo (of_nat (8 * length done)) =
    Some (if {..<8 * length (done @ todo)} \<subseteq> bits bm then None
          else Some (of_nat (LEAST i. i \<notin> bits bm)))"
  using assms(2,3)
proof (induction todo arbitrary: "done")
  case Nil
  then show ?case by auto
next
  case (Cons b todo)
  let ?d = "length done"
  have nth: "bm ! ?d = b" using Cons.prems(1) by simp
  have bit: "8 * ?d + k \<in> bits bm \<longleftrightarrow> bit b k" if "k < 8" for k
    using that nth Cons.prems(1) by (simp add: bits_def)
  show ?case
  proof (cases "b = 0xff")
    case True
    have "\<forall>i < 8 * length (done @ [b]). i \<in> bits bm"
    proof (intro allI impI)
      fix i assume i: "i < 8 * length (done @ [b])"
      show "i \<in> bits bm"
      proof (cases "i < 8 * ?d")
        case False
        then have "i = 8 * ?d + (i - 8 * ?d)" "i - 8 * ?d < 8" using i by auto
        then show ?thesis using bit [of "i - 8 * ?d"] True full_byte by metis
      qed (use Cons.prems(2) in blast)
    qed
    then show ?thesis using Cons.IH [of "done @ [b]"] Cons.prems(1) True by (simp add: algebra_simps)
  next
    case False
    then obtain k where k: "k < 8" "\<not> bit b k" using full_byte by blast
    let ?n = "LEAST i. i \<notin> bits bm"
    have free: "8 * ?d + k \<notin> bits bm" using bit k by simp
    have n: "?n \<notin> bits bm" "?n \<le> 8 * ?d + k" using free LeastI Least_le by metis+
    have lt: "?n < 8 * length bm" using n(2) k(1) Cons.prems(1) by simp
    have ge: "8 * ?d \<le> ?n" using n(1) Cons.prems(2) by (metis leI)
    have ud: "unat (of_nat (8 * ?d) :: u32) = 8 * ?d"
      using assms(1) Cons.prems(1) by (simp only: unat_of_nat) simp
    have "next_free bm (of_nat (8 * ?d)) = Some (of_nat ?n)"
    proof (rule free_bit.scan_least)
      show "unat (of_nat (8 * ?d) :: u32) \<le> ?n" using ge ud by simp
      show "?n < 8 * length bm" by (rule lt)
      show "8 * length bm \<le> 2 ^ 32" using assms(1) by simp
      show "\<forall>i. unat (of_nat (8 * ?d) :: u32) \<le> i \<and> i < ?n \<longrightarrow> i \<in> bits bm"
        using not_less_Least by blast
    qed (rule n(1))
    moreover have "\<not> {..<8 * length (done @ b # todo)} \<subseteq> bits bm"
      using free k(1) subsetD [of "{..<8 * length (done @ b # todo)}" "bits bm" "8 * ?d + k"] by auto
    ultimately show ?thesis using False by simp
  qed
qed

section \<open>Taking a block and taking an inode\<close>

definition alloc_block :: "'c sd_dev \<Rightarrow> 'c fs_state \<Rightarrow> (u32 \<times> 'c fs_state) option" where
  "alloc_block dev s = do {
     free_index \<leftarrow> find_free_block s;
     s \<leftarrow> set_block_bmp free_index s;
     let s = sync_to_disk_block_bmp dev s;
     let sb = superblock_buffer s;
     let s = s \<lparr> superblock_buffer := put32 sb s_free_blocks_cnt (get32 sb s_free_blocks_cnt - 1) \<rparr>;
     Some (free_index, sync_to_disk_superblock dev s)
   }"

definition alloc_inode :: "'c sd_dev \<Rightarrow> 'c fs_state \<Rightarrow> (u32 \<times> 'c fs_state) option" where
  "alloc_inode dev s = do {
     free_inum \<leftarrow> find_free_inode s;
     s \<leftarrow> set_inode_bmp free_inum s;
     let s = sync_to_disk_inode_bmp dev s;
     let sb = superblock_buffer s;
     let s = s \<lparr> superblock_buffer := put32 sb s_free_inode_cnt (get32 sb s_free_inode_cnt - 1) \<rparr>;
     Some (free_inum, sync_to_disk_superblock dev s)
   }"

section \<open>The invariant of the allocation state\<close>

definition free_blocks :: "'c fs_state \<Rightarrow> nat set" where
  "free_blocks s = {..<BLOCK_NUM} - bits (blockbmp_buffer s)"

definition free_inodes :: "'c fs_state \<Rightarrow> nat set" where
  "free_inodes s = {..<INODE_NUM} - bits (inodebmp_block_buffer s)"

definition sizes_ok :: "'c fs_state \<Rightarrow> bool" where
  "sizes_ok s \<longleftrightarrow> length (superblock_buffer s) = BLOCK_SIZE \<and>
     length (blockbmp_buffer s) = BLOCK_BITMAP_SIZE \<and>
     length (inodebmp_block_buffer s) = BLOCK_SIZE"

text \<open>
  The buffers in memory are the blocks of the card, the system area is never free, and the two
  counters of the super block count the clear bits.
\<close>

definition fs_ok :: "'c sd_dev \<Rightarrow> 'c fs_state \<Rightarrow> bool" where
  "fs_ok dev s \<longleftrightarrow> sizes_ok s \<and>
     read_block dev s SUPERBLOCK_BLOCK_INDEX = superblock_buffer s \<and>
     read_block dev s INODE_BMP_BLOCK_INDEX = inodebmp_block_buffer s \<and>
     disk_block_bmp dev s = blockbmp_buffer s \<and>
     {..<266} \<subseteq> bits (blockbmp_buffer s) \<and>
     get32 (superblock_buffer s) s_free_blocks_cnt = of_nat (card (free_blocks s)) \<and>
     get32 (superblock_buffer s) s_free_inode_cnt = of_nat (card (free_inodes s))"

lemma fs_okD:
  assumes "fs_ok dev s"
  shows "sizes_ok s" "length (superblock_buffer s) = BLOCK_SIZE"
    "length (blockbmp_buffer s) = BLOCK_BITMAP_SIZE" "length (inodebmp_block_buffer s) = BLOCK_SIZE"
    "read_block dev s 0 = superblock_buffer s" "read_block dev s 9 = inodebmp_block_buffer s"
    "disk_block_bmp dev s = blockbmp_buffer s" "{..<266} \<subseteq> bits (blockbmp_buffer s)"
    "get32 (superblock_buffer s) 24 = of_nat (card (free_blocks s))"
    "get32 (superblock_buffer s) 20 = of_nat (card (free_inodes s))"
  using assms by (auto simp: fs_ok_def sizes_ok_def)

lemma fs_okI:
  assumes "sizes_ok s" "read_block dev s 0 = superblock_buffer s"
    "read_block dev s 9 = inodebmp_block_buffer s"
    "disk_block_bmp dev s = blockbmp_buffer s" "{..<266} \<subseteq> bits (blockbmp_buffer s)"
    "get32 (superblock_buffer s) 24 = of_nat (card (free_blocks s))"
    "get32 (superblock_buffer s) 20 = of_nat (card (free_inodes s))"
  shows "fs_ok dev s"
  using assms by (simp add: fs_ok_def)

text \<open>What an operation on the disk keeps of the rest of the state.\<close>

definition same_env :: "'c fs_state \<Rightarrow> 'c fs_state \<Rightarrow> bool" where
  "same_env s t \<longleftrightarrow> file_descriptor_table t = file_descriptor_table s \<and>
     root_inode t = root_inode s \<and> current_dir t = current_dir s \<and>
     current_dir_link t = current_dir_link s \<and> fs_ticks t = fs_ticks s"

lemma same_env_trans: "same_env s t \<Longrightarrow> same_env t u \<Longrightarrow> same_env s u"
  by (simp add: same_env_def)

lemma same_env_refl [simp]: "same_env s s"
  by (simp add: same_env_def)

definition same_bmps :: "'c fs_state \<Rightarrow> 'c fs_state \<Rightarrow> bool" where
  "same_bmps s t \<longleftrightarrow> superblock_buffer t = superblock_buffer s \<and>
     blockbmp_buffer t = blockbmp_buffer s \<and> inodebmp_block_buffer t = inodebmp_block_buffer s"

lemma Least_below:
  fixes A :: "nat set"
  assumes "{..<n} - A \<noteq> {}"
  shows "(LEAST i. i \<notin> A) = (LEAST i. i \<in> {..<n} - A)"
proof (rule Least_equality)
  have L: "(LEAST i. i \<in> {..<n} - A) \<in> {..<n} - A"
    using assms by (intro LeastI_ex [of "\<lambda>i. i \<in> {..<n} - A"]) blast
  then show "(LEAST i. i \<in> {..<n} - A) \<notin> A" by simp
  fix y assume y: "y \<notin> A"
  show "(LEAST i. i \<in> {..<n} - A) \<le> y"
  proof (cases "y < n")
    case True
    then show ?thesis using y by (intro Least_le) simp
  qed (use L in simp)
qed

lemma find_free_block_spec:
  assumes "length (blockbmp_buffer s) = BLOCK_BITMAP_SIZE"
  shows "find_free_block s =
    Some (if free_blocks s = {} then ERROR_NO_FREE_BLOCK else of_nat (LEAST i. i \<in> free_blocks s))"
proof -
  let ?bm = "blockbmp_buffer s"
  have "find_free ?bm ?bm 0 = Some (if {..<BLOCK_NUM} \<subseteq> bits ?bm then None
      else Some (of_nat (LEAST i. i \<notin> bits ?bm)))"
    using find_free_spec [of ?bm "[]" ?bm "[]"] assms by simp
  then show ?thesis
    using assms Least_below [of BLOCK_NUM "bits ?bm"]
    by (auto simp: find_free_block_def free_blocks_def Diff_eq_empty_iff)
qed

lemma find_free_inode_spec:
  assumes "length (inodebmp_block_buffer s) = BLOCK_SIZE"
  shows "find_free_inode s =
    Some (if free_inodes s = {} then ERROR_NO_FREE_INODE else of_nat (LEAST i. i \<in> free_inodes s))"
proof -
  let ?bm = "inodebmp_block_buffer s"
  have "find_free ?bm (take 1024 ?bm) 0 = Some (if {..<INODE_NUM} \<subseteq> bits ?bm then None
      else Some (of_nat (LEAST i. i \<notin> bits ?bm)))"
    using find_free_spec [of ?bm "[]" "take 1024 ?bm" "drop 1024 ?bm"] assms by simp
  then show ?thesis
    using assms Least_below [of INODE_NUM "bits ?bm"]
    by (auto simp: find_free_inode_def free_inodes_def Diff_eq_empty_iff)
qed

lemma least_free_block:
  assumes "free_blocks s \<noteq> {}" and "k = of_nat (LEAST i. i \<in> free_blocks s)"
  shows "unat (k :: u32) = (LEAST i. i \<in> free_blocks s)" and "unat k \<in> free_blocks s"
    and "unat k < BLOCK_NUM"
proof -
  have m: "(LEAST i. i \<in> free_blocks s) \<in> free_blocks s" using assms(1) by (meson LeastI ex_in_conv)
  then have lt: "(LEAST i. i \<in> free_blocks s) < BLOCK_NUM" by (simp add: free_blocks_def)
  then show u: "unat k = (LEAST i. i \<in> free_blocks s)"
    unfolding assms(2) by (simp only: unat_of_nat) simp
  from m u show "unat k \<in> free_blocks s" by simp
  from lt u show "unat k < BLOCK_NUM" by simp
qed

lemma least_free_inode:
  assumes "free_inodes s \<noteq> {}" and "k = of_nat (LEAST i. i \<in> free_inodes s)"
  shows "unat (k :: u32) = (LEAST i. i \<in> free_inodes s)" and "unat k \<in> free_inodes s"
    and "unat k < INODE_NUM"
proof -
  have m: "(LEAST i. i \<in> free_inodes s) \<in> free_inodes s" using assms(1) by (meson LeastI ex_in_conv)
  then have lt: "(LEAST i. i \<in> free_inodes s) < INODE_NUM" by (simp add: free_inodes_def)
  then show u: "unat k = (LEAST i. i \<in> free_inodes s)"
    unfolding assms(2) by (simp only: unat_of_nat) simp
  from m u show "unat k \<in> free_inodes s" by simp
  from lt u show "unat k < INODE_NUM" by simp
qed

text \<open>
  What a caller sees of a successful allocation: the least free block is gone from the free
  blocks, nothing above the block bit map has changed on the card, and the rest of the state is
  as it was.
\<close>

definition block_taken :: "'c sd_dev \<Rightarrow> 'c fs_state \<Rightarrow> u32 \<Rightarrow> 'c fs_state \<Rightarrow> bool" where
  "block_taken dev s k t \<longleftrightarrow> fs_ok dev t \<and> unat k \<in> free_blocks s \<and>
     (\<forall>j \<in> free_blocks s. unat k \<le> j) \<and> free_blocks t = free_blocks s - {unat k} \<and>
     inodebmp_block_buffer t = inodebmp_block_buffer s \<and> same_env s t \<and>
     (\<forall>b. on_card b \<and> 9 \<le> unat b \<longrightarrow> read_block dev t b = read_block dev s b)"

definition inode_taken :: "'c sd_dev \<Rightarrow> 'c fs_state \<Rightarrow> u32 \<Rightarrow> 'c fs_state \<Rightarrow> bool" where
  "inode_taken dev s k t \<longleftrightarrow> fs_ok dev t \<and> unat k \<in> free_inodes s \<and>
     (\<forall>j \<in> free_inodes s. unat k \<le> j) \<and> free_inodes t = free_inodes s - {unat k} \<and>
     blockbmp_buffer t = blockbmp_buffer s \<and> same_env s t \<and>
     (\<forall>b. on_card b \<and> 10 \<le> unat b \<longrightarrow> read_block dev t b = read_block dev s b)"

lemma free_block_range:
  "fs_ok dev s \<Longrightarrow> i \<in> free_blocks s \<Longrightarrow> 266 \<le> i \<and> i < BLOCK_NUM"
  using fs_okD(8) [of dev s] unfolding free_blocks_def by (metis DiffE lessThan_iff not_le subsetD)

lemma disk_block_bmp_frame [simp]:
  "disk_block_bmp dev (s \<lparr> superblock_buffer := v \<rparr>) = disk_block_bmp dev s"
  "disk_block_bmp dev (s \<lparr> inodebmp_block_buffer := v \<rparr>) = disk_block_bmp dev s"
  "disk_block_bmp dev (s \<lparr> blockbmp_buffer := v \<rparr>) = disk_block_bmp dev s"
  "disk_block_bmp dev (s \<lparr> file_descriptor_table := w \<rparr>) = disk_block_bmp dev s"
  "disk_block_bmp dev (s \<lparr> root_inode := ino \<rparr>) = disk_block_bmp dev s"
  "disk_block_bmp dev (s \<lparr> current_dir := ino \<rparr>) = disk_block_bmp dev s"
  by (simp_all add: disk_block_bmp_def)

lemma count_down: "finite A \<Longrightarrow> k \<in> A \<Longrightarrow> (of_nat (card A) - 1 :: u32) = of_nat (card (A - {k}))"
  by (metis One_nat_def Suc_pred card_Diff_singleton card_gt_0_iff diff_Suc_1 empty_iff
      of_nat_Suc add_diff_cancel_left')

context sd_card
begin

lemma read_sync_superblock:
  "on_card b \<Longrightarrow> length (superblock_buffer s) = BLOCK_SIZE \<Longrightarrow>
   read_block dev (sync_to_disk_superblock dev s) b =
     (if b = 0 then superblock_buffer s else read_block dev s b)"
  by (simp add: sync_to_disk_superblock_def read_write_block)

lemma read_sync_inode_bmp:
  "on_card b \<Longrightarrow> length (inodebmp_block_buffer s) = BLOCK_SIZE \<Longrightarrow>
   read_block dev (sync_to_disk_inode_bmp dev s) b =
     (if b = 9 then inodebmp_block_buffer s else read_block dev s b)"
  by (simp add: sync_to_disk_inode_bmp_def read_write_block)

lemma disk_block_bmp_superblock [simp]:
  "length (superblock_buffer s) = BLOCK_SIZE \<Longrightarrow>
   disk_block_bmp dev (sync_to_disk_superblock dev s) = disk_block_bmp dev s"
  by (rule disk_block_bmp_cong)
    (simp add: read_sync_superblock word_unat_eq_iff unat_bmp_block)

lemma disk_block_bmp_inode_bmp [simp]:
  "length (inodebmp_block_buffer s) = BLOCK_SIZE \<Longrightarrow>
   disk_block_bmp dev (sync_to_disk_inode_bmp dev s) = disk_block_bmp dev s"
  by (rule disk_block_bmp_cong)
    (simp add: read_sync_inode_bmp word_unat_eq_iff unat_bmp_block)

lemma disk_block_bmp_high:
  assumes "on_card b" and "length buf = BLOCK_SIZE" and "9 \<le> unat b"
  shows "disk_block_bmp dev (write_block dev b buf s) = disk_block_bmp dev s"
proof (rule disk_block_bmp_cong)
  fix k :: nat assume k: "k < 8"
  then have "1 + of_nat k \<noteq> b" using assms(3) by (auto simp: word_unat_eq_iff unat_bmp_block)
  then show "read_block dev (write_block dev b buf s) (1 + of_nat k) = read_block dev s (1 + of_nat k)"
    using assms k by (simp add: read_write_block)
qed

text \<open>Writing a block outside the system area, and writing an inode, keep the invariant.\<close>

lemma fs_ok_write_block:
  assumes "fs_ok dev s" and "on_card b" and "length buf = BLOCK_SIZE" and "10 \<le> unat b"
  shows "fs_ok dev (write_block dev b buf s)"
proof -
  have "b \<noteq> 0" "b \<noteq> 9" using assms(4) by auto
  then show ?thesis
    using assms fs_okD [OF assms(1)] disk_block_bmp_high [of b buf s]
    by (intro fs_okI) (simp_all add: read_write_block sizes_ok_def free_blocks_def free_inodes_def)
qed

lemma fs_ok_sync_inode:
  assumes "fs_ok dev s" and "inode_ok ino" and "unat (i_num ino) < INODE_NUM"
  shows "fs_ok dev (sync_to_disk_inode dev ino s)"
  unfolding sync_to_disk_inode_eq
  using assms inode_block_facts [OF assms(3)] inode_slot [of "i_num ino"]
  by (intro fs_ok_write_block) (auto simp: table_block_def)

lemma alloc_block_ok:
  assumes ok: "fs_ok dev s" and free: "free_blocks s \<noteq> {}"
  shows "\<exists>k t. alloc_block dev s = Some (k, t) \<and> block_taken dev s k t"
proof -
  note D = fs_okD [OF ok]
  define k :: u32 where "k = of_nat (LEAST i. i \<in> free_blocks s)"
  note k = least_free_block [OF free k_def]
  have find: "find_free_block s = Some k" using find_free_block_spec [OF D(3)] free k_def by simp
  obtain bm where bm: "set_bitmap (blockbmp_buffer s) k = Some bm" "length bm = 32768"
    "bits bm = insert (unat k) (bits (blockbmp_buffer s))"
    using set_bitmap_spec [of k "blockbmp_buffer s"] k(3) D(3) by auto
  define u where "u = sync_to_disk_block_bmp dev (s \<lparr> blockbmp_buffer := bm \<rparr>)"
  define sb where "sb = put32 (superblock_buffer s) 24 (get32 (superblock_buffer s) 24 - 1)"
  define t where "t = sync_to_disk_superblock dev (u \<lparr> superblock_buffer := sb \<rparr>)"
  have alloc: "alloc_block dev s = Some (k, t)"
    by (simp add: alloc_block_def find set_block_bmp_def bm(1) u_def sb_def t_def Let_def)
  have sb: "length sb = 4096" "get32 sb 20 = get32 (superblock_buffer s) 20"
    "get32 sb 24 = get32 (superblock_buffer s) 24 - 1"
    using D(2) by (simp_all add: sb_def mem_simps)
  have read_u: "read_block dev u b = (if 1 \<le> unat b \<and> unat b \<le> 8
      then slice bm (4096 * (unat b - 1)) 4096 else read_block dev s b)" if "on_card b" for b
    using that bm(2) by (simp add: u_def read_sync_block_bmp)
  have read_t: "read_block dev t b = (if b = 0 then sb else read_block dev u b)" if "on_card b" for b
    using that sb(1) by (simp add: t_def read_sync_superblock)
  have free_t: "free_blocks t = free_blocks s - {unat k}"
    using bm(3) by (auto simp: t_def u_def free_blocks_def)
  have "disk_block_bmp dev t = bm"
    using sb(1) bm(2) disk_block_bmp_sync [of "s \<lparr> blockbmp_buffer := bm \<rparr>"]
    by (simp add: t_def u_def)
  moreover have "of_nat (card (free_blocks s)) - 1 = (of_nat (card (free_blocks t)) :: u32)"
    unfolding free_t by (rule count_down) (use k(2) in \<open>simp_all add: free_blocks_def\<close>)
  moreover have "read_block dev t 9 = inodebmp_block_buffer s"
    using D(6) by (simp add: read_t read_u)
  moreover have "read_block dev t 0 = sb" by (simp add: read_t)
  moreover have "free_inodes t = free_inodes s" by (simp add: t_def u_def free_inodes_def)
  ultimately have "fs_ok dev t"
    using D sb bm(2,3) by (intro fs_okI) (auto simp: t_def u_def sizes_ok_def)
  moreover have "\<forall>b. on_card b \<and> 9 \<le> unat b \<longrightarrow> read_block dev t b = read_block dev s b"
    by (auto simp: read_t read_u)
  ultimately have "block_taken dev s k t"
    using k free_t by (auto simp: block_taken_def same_env_def t_def u_def intro: Least_le)
  with alloc show ?thesis by blast
qed

lemma alloc_inode_ok:
  assumes ok: "fs_ok dev s" and free: "free_inodes s \<noteq> {}"
  shows "\<exists>k t. alloc_inode dev s = Some (k, t) \<and> inode_taken dev s k t"
proof -
  note D = fs_okD [OF ok]
  define k :: u32 where "k = of_nat (LEAST i. i \<in> free_inodes s)"
  note k = least_free_inode [OF free k_def]
  have find: "find_free_inode s = Some k" using find_free_inode_spec [OF D(4)] free k_def by simp
  obtain bm where bm: "set_bitmap (inodebmp_block_buffer s) k = Some bm" "length bm = 4096"
    "bits bm = insert (unat k) (bits (inodebmp_block_buffer s))"
    using set_bitmap_spec [of k "inodebmp_block_buffer s"] k(3) D(4) by auto
  define u where "u = sync_to_disk_inode_bmp dev (s \<lparr> inodebmp_block_buffer := bm \<rparr>)"
  define sb where "sb = put32 (superblock_buffer s) 20 (get32 (superblock_buffer s) 20 - 1)"
  define t where "t = sync_to_disk_superblock dev (u \<lparr> superblock_buffer := sb \<rparr>)"
  have alloc: "alloc_inode dev s = Some (k, t)"
    by (simp add: alloc_inode_def find set_inode_bmp_def bm(1) u_def sb_def t_def Let_def)
  have sb: "length sb = 4096" "get32 sb 24 = get32 (superblock_buffer s) 24"
    "get32 sb 20 = get32 (superblock_buffer s) 20 - 1"
    using D(2) by (simp_all add: sb_def mem_simps)
  have read_t: "read_block dev t b = (if b = 0 then sb else if b = 9 then bm else read_block dev s b)"
    if "on_card b" for b
    using that sb(1) bm(2) by (simp add: t_def u_def read_sync_superblock read_sync_inode_bmp)
  have free_t: "free_inodes t = free_inodes s - {unat k}"
    using bm(3) by (auto simp: t_def u_def free_inodes_def)
  have "disk_block_bmp dev t = blockbmp_buffer s"
    using sb(1) bm(2) D(7) by (simp add: t_def u_def)
  moreover have "of_nat (card (free_inodes s)) - 1 = (of_nat (card (free_inodes t)) :: u32)"
    unfolding free_t by (rule count_down) (use k(2) in \<open>simp_all add: free_inodes_def\<close>)
  moreover have "read_block dev t 9 = bm" "read_block dev t 0 = sb" by (simp_all add: read_t)
  moreover have "free_blocks t = free_blocks s" by (simp add: t_def u_def free_blocks_def)
  ultimately have "fs_ok dev t"
    using D sb bm(2) by (intro fs_okI) (auto simp: t_def u_def sizes_ok_def)
  moreover have "\<forall>b. on_card b \<and> 10 \<le> unat b \<longrightarrow> read_block dev t b = read_block dev s b"
    by (auto simp: read_t)
  ultimately have "inode_taken dev s k t"
    using k free_t by (auto simp: inode_taken_def same_env_def t_def u_def intro: Least_le)
  with alloc show ?thesis by blast
qed

text \<open>On a full card the search answers an error code, which the callers use as an index.\<close>

lemma alloc_block_full:
  "sizes_ok s \<Longrightarrow> free_blocks s = {} \<Longrightarrow> alloc_block dev s = None"
  by (simp add: alloc_block_def find_free_block_spec sizes_ok_def ERROR_NO_FREE_BLOCK_def
      set_block_bmp_def set_bitmap_def load_def)

lemma alloc_inode_full:
  "sizes_ok s \<Longrightarrow> free_inodes s = {} \<Longrightarrow> alloc_inode dev s = None"
  by (simp add: alloc_inode_def find_free_inode_spec sizes_ok_def ERROR_NO_FREE_INODE_def
      set_inode_bmp_def set_bitmap_def load_def)

end

end
