(* ===== verification/Fs_Inode.thy ===== *)
theory Fs_Inode
  imports Fs_Alloc
begin

text \<open>
  The blocks of a file in \<^verbatim>\<open>kernel/fs/fs.c\<close>: reading and writing the block pointer of an index
  (\<^verbatim>\<open>get_block_index_in_inode\<close>, \<^verbatim>\<open>write_block_index_in_inode\<close>) through the direct table and the
  three levels of pointer blocks, and \<^verbatim>\<open>release_inode_block\<close>, which returns the blocks of a file.
  An index without a branch makes the function return no value: \<open>None\<close>. A pointer block is an
  array of 1024 pointers; an index outside it is a memory error.
\<close>

section \<open>Pointer blocks\<close>

definition load_ptr :: "u8 list \<Rightarrow> u32 \<Rightarrow> u32 option" where
  "load_ptr buf i = (if unat i < POINTER_PER_BLOCK then Some (get32 buf (4 * unat i)) else None)"

definition store_ptr :: "u8 list \<Rightarrow> u32 \<Rightarrow> u32 \<Rightarrow> u8 list option" where
  "store_ptr buf i v = (if unat i < POINTER_PER_BLOCK then Some (put32 buf (4 * unat i) v) else None)"

definition get_block_index_in_inode ::
    "'c sd_dev \<Rightarrow> 'c fs_state \<Rightarrow> inode_t \<Rightarrow> u32 \<Rightarrow> u32 option" where
  "get_block_index_in_inode dev s ino idx =
     (if idx < of_nat FIRST_POINTER then load (i_direct_table ino) (unat idx)
      else if idx < of_nat SECOND_POINTER then
        (if i_indirect_block_1_ptr ino = 0 then Some (-1)
         else load_ptr (read_block dev s (i_indirect_block_1_ptr ino)) (idx - of_nat FIRST_POINTER))
      else if idx < of_nat THIRD_POINTER then
        (if i_indirect_block_1_ptr ino = 0 then Some (-1)
         else do {
           let buffer1 = read_block dev s (i_indirect_block_1_ptr ino);
           p \<leftarrow> load_ptr buffer1 ((idx - of_nat SECOND_POINTER) div of_nat POINTER_PER_BLOCK);
           if p = 0 then Some (-1)
           else load_ptr (read_block dev s p) ((idx - of_nat SECOND_POINTER) mod of_nat POINTER_PER_BLOCK)
         })
      else if idx < of_nat MAX_BLOCK_INDEX then
        (if i_indirect_block_1_ptr ino = 0 then Some (-1)
         else do {
           let buffer1 = read_block dev s (i_indirect_block_1_ptr ino);
           let off = idx - of_nat THIRD_POINTER;
           p \<leftarrow> load_ptr buffer1 (off div of_nat (POINTER_PER_BLOCK * POINTER_PER_BLOCK));
           if p = 0 then Some (-1)
           else do {
             let buffer2 = read_block dev s p;
             q \<leftarrow> load_ptr buffer2 (off mod of_nat (POINTER_PER_BLOCK * POINTER_PER_BLOCK)
                                    div of_nat POINTER_PER_BLOCK);
             if q = 0 then Some (-1)
             else load_ptr (read_block dev s q) (off mod of_nat POINTER_PER_BLOCK)
           }
         })
      else None)"

section \<open>Writing a pointer\<close>

definition alloc_pointer_block :: "'c sd_dev \<Rightarrow> 'c fs_state \<Rightarrow> (u32 \<times> 'c fs_state) option" where
  "alloc_pointer_block dev s = do {
     (free_index, s) \<leftarrow> alloc_block dev s;
     Some (free_index, clear_block_index dev free_index s)
   }"

definition grow :: "inode_t \<Rightarrow> inode_t" where
  "grow ino = ino \<lparr> i_fsize := i_fsize ino + of_nat BLOCK_SIZE \<rparr>"

definition write_level_1 ::
    "'c sd_dev \<Rightarrow> inode_t \<Rightarrow> u32 \<Rightarrow> u32 \<Rightarrow> 'c fs_state \<Rightarrow> (inode_t \<times> 'c fs_state) option" where
  "write_level_1 dev ino idx block_index s = do {
     (ino, s) \<leftarrow> (if i_indirect_block_1_ptr ino = 0 then do {
         (free_index_1, s) \<leftarrow> alloc_pointer_block dev s;
         let ino = grow (ino \<lparr> i_indirect_block_1_ptr := free_index_1 \<rparr>);
         Some (ino, sync_to_disk_inode dev ino s)
       } else Some (ino, s));
     let buffer1 = read_block dev s (i_indirect_block_1_ptr ino);
     buffer1 \<leftarrow> store_ptr buffer1 (idx - of_nat FIRST_POINTER) block_index;
     Some (ino, write_block dev (i_indirect_block_1_ptr ino) buffer1 s)
   }"

definition write_level_2 ::
    "'c sd_dev \<Rightarrow> inode_t \<Rightarrow> u32 \<Rightarrow> u32 \<Rightarrow> 'c fs_state \<Rightarrow> (inode_t \<times> 'c fs_state) option" where
  "write_level_2 dev ino idx block_index s = do {
     (ino, s) \<leftarrow> (if i_indirect_block_2_ptr ino = 0 then do {
         (free_index_1, s) \<leftarrow> alloc_pointer_block dev s;
         let ino = grow (ino \<lparr> i_indirect_block_2_ptr := free_index_1 \<rparr>);
         Some (ino, sync_to_disk_inode dev ino s)
       } else Some (ino, s));
     let off = idx - of_nat SECOND_POINTER;
     let buffer1 = read_block dev s (i_indirect_block_2_ptr ino);
     p \<leftarrow> load_ptr buffer1 (off div of_nat POINTER_PER_BLOCK);
     (ino, p, s) \<leftarrow> (if p = 0 then do {
         (free_index_2, s) \<leftarrow> alloc_pointer_block dev s;
         let ino = grow ino;
         let s = sync_to_disk_inode dev ino s;
         buffer1 \<leftarrow> store_ptr buffer1 (off div of_nat POINTER_PER_BLOCK) free_index_2;
         Some (ino, free_index_2, write_block dev (i_indirect_block_2_ptr ino) buffer1 s)
       } else Some (ino, p, s));
     let buffer2 = read_block dev s p;
     buffer2 \<leftarrow> store_ptr buffer2 (off mod of_nat POINTER_PER_BLOCK) block_index;
     Some (ino, write_block dev p buffer2 s)
   }"

definition write_level_3 ::
    "'c sd_dev \<Rightarrow> inode_t \<Rightarrow> u32 \<Rightarrow> u32 \<Rightarrow> 'c fs_state \<Rightarrow> (inode_t \<times> 'c fs_state) option" where
  "write_level_3 dev ino idx block_index s = do {
     (ino, s) \<leftarrow> (if i_indirect_block_3_ptr ino = 0 then do {
         (free_index_1, s) \<leftarrow> alloc_pointer_block dev s;
         let ino = grow (ino \<lparr> i_indirect_block_3_ptr := free_index_1 \<rparr>);
         Some (ino, sync_to_disk_inode dev ino s)
       } else Some (ino, s));
     let off = idx - of_nat THIRD_POINTER;
     let i1 = off div of_nat (POINTER_PER_BLOCK * POINTER_PER_BLOCK);
     let i2 = off mod of_nat (POINTER_PER_BLOCK * POINTER_PER_BLOCK) div of_nat POINTER_PER_BLOCK;
     let buffer1 = read_block dev s (i_indirect_block_3_ptr ino);
     p \<leftarrow> load_ptr buffer1 i1;
     (ino, p, s) \<leftarrow> (if p = 0 then do {
         (free_index_2, s) \<leftarrow> alloc_pointer_block dev s;
         let ino = grow ino;
         let s = sync_to_disk_inode dev ino s;
         buffer1 \<leftarrow> store_ptr buffer1 i1 free_index_2;
         Some (ino, free_index_2, write_block dev (i_indirect_block_2_ptr ino) buffer1 s)
       } else Some (ino, p, s));
     let buffer2 = read_block dev s p;
     q \<leftarrow> load_ptr buffer2 i2;
     (ino, q, s) \<leftarrow> (if q = 0 then do {
         (free_index_3, s) \<leftarrow> alloc_pointer_block dev s;
         let ino = grow ino;
         let s = sync_to_disk_inode dev ino s;
         buffer2 \<leftarrow> store_ptr buffer2 i2 free_index_3;
         Some (ino, free_index_3, write_block dev p buffer2 s)
       } else Some (ino, q, s));
     let buffer3 = read_block dev s q;
     buffer3 \<leftarrow> store_ptr buffer3 (off mod of_nat POINTER_PER_BLOCK) block_index;
     Some (ino, write_block dev q buffer3 s)
   }"

text \<open>The branch of the second level has no \<^verbatim>\<open>return\<close>: it continues with the third.\<close>

definition write_block_index_in_inode ::
    "'c sd_dev \<Rightarrow> inode_t \<Rightarrow> u32 \<Rightarrow> u32 \<Rightarrow> 'c fs_state \<Rightarrow> (inode_t \<times> 'c fs_state) option" where
  "write_block_index_in_inode dev ino idx block_index s =
     (if idx < of_nat FIRST_POINTER then do {
        table \<leftarrow> store (i_direct_table ino) (unat idx) block_index;
        let ino = ino \<lparr> i_direct_table := table \<rparr>;
        Some (ino, sync_to_disk_inode dev ino s)
      }
      else if idx < of_nat SECOND_POINTER then write_level_1 dev ino idx block_index s
      else do {
        (ino, s) \<leftarrow> (if idx < of_nat THIRD_POINTER then write_level_2 dev ino idx block_index s
                     else Some (ino, s));
        if idx < of_nat MAX_BLOCK_INDEX then write_level_3 dev ino idx block_index s
        else Some (ino, s)
      })"

section \<open>Releasing the blocks of a file\<close>

text \<open>
  Each loop stops at the first null pointer; the first component of its result tells whether it
  did. Either way the block that held the pointers is released afterwards.
\<close>

fun release_leaf :: "u32 list \<Rightarrow> 'c fs_state \<Rightarrow> (bool \<times> 'c fs_state) option" where
  "release_leaf [] s = Some (False, s)"
| "release_leaf (p # ps) s =
     (if p = 0 then Some (True, s) else do { s \<leftarrow> unset_block_bmp p s; release_leaf ps s })"

fun release_mid :: "'c sd_dev \<Rightarrow> u32 list \<Rightarrow> 'c fs_state \<Rightarrow> (bool \<times> 'c fs_state) option" where
  "release_mid dev [] s = Some (False, s)"
| "release_mid dev (p # ps) s =
     (if p = 0 then Some (True, s)
      else do {
        (stop, s) \<leftarrow> release_leaf (cells (read_block dev s p) 0 POINTER_PER_BLOCK) s;
        s \<leftarrow> unset_block_bmp p s;
        if stop then Some (True, s) else release_mid dev ps s
      })"

fun release_top :: "'c sd_dev \<Rightarrow> u32 list \<Rightarrow> 'c fs_state \<Rightarrow> (bool \<times> 'c fs_state) option" where
  "release_top dev [] s = Some (False, s)"
| "release_top dev (p # ps) s =
     (if p = 0 then Some (True, s)
      else do {
        (stop, s) \<leftarrow> release_mid dev (cells (read_block dev s p) 0 POINTER_PER_BLOCK) s;
        s \<leftarrow> unset_block_bmp p s;
        if stop then Some (True, s) else release_top dev ps s
      })"

definition release_inode_block :: "'c sd_dev \<Rightarrow> inode_t \<Rightarrow> 'c fs_state \<Rightarrow> 'c fs_state option" where
  "release_inode_block dev ino s = do {
     (stop, s) \<leftarrow> release_leaf (i_direct_table ino) s;
     if stop \<or> i_indirect_block_1_ptr ino = 0 then Some s
     else do {
       let buffer1 = read_block dev s (i_indirect_block_1_ptr ino);
       (stop, s) \<leftarrow> release_leaf (cells buffer1 0 POINTER_PER_BLOCK) s;
       s \<leftarrow> unset_block_bmp (i_indirect_block_1_ptr ino) s;
       if stop \<or> i_indirect_block_2_ptr ino = 0 then Some s
       else do {
         let buffer1 = read_block dev s (i_indirect_block_2_ptr ino);
         (stop, s) \<leftarrow> release_mid dev (cells buffer1 0 POINTER_PER_BLOCK) s;
         s \<leftarrow> unset_block_bmp (i_indirect_block_2_ptr ino) s;
         if stop \<or> i_indirect_block_3_ptr ino = 0 then Some s
         else do {
           let buffer1 = read_block dev s (i_indirect_block_3_ptr ino);
           (stop, s) \<leftarrow> release_top dev (cells buffer1 0 POINTER_PER_BLOCK) s;
           unset_block_bmp (i_indirect_block_3_ptr ino) s
         }
       }
     }
   }"

section \<open>Facts about pointers\<close>

lemma load_store_ptr:
  assumes "store_ptr buf i v = Some buf'" and "length buf = BLOCK_SIZE"
  shows "length buf' = BLOCK_SIZE" and "load_ptr buf' j = (if j = i then Some v else load_ptr buf j)"
proof -
  have i: "unat i < 1024" "buf' = put32 buf (4 * unat i) v"
    using assms(1) by (auto simp: store_ptr_def split: if_splits)
  then show "length buf' = BLOCK_SIZE" using assms(2) by simp
  show "load_ptr buf' j = (if j = i then Some v else load_ptr buf j)"
  proof (cases "j = i")
    case True
    then show ?thesis using i assms(2) by (simp add: load_ptr_def mem_simps)
  next
    case False
    then have "unat j \<noteq> unat i" by (simp add: word_unat_eq_iff)
    then have "unat j < unat i \<or> unat i < unat j" by linarith
    then show ?thesis
      using i assms(2) False by (auto simp: load_ptr_def intro!: get32_put32_other)
  qed
qed

lemma load_ptr_cleared: "unat i < POINTER_PER_BLOCK \<Longrightarrow> load_ptr (replicate 4096 0) i = Some 0"
  by (simp add: load_ptr_def)

lemma level_1_index:
  fixes j :: u32
  assumes "12 \<le> j" and "j < 1036"
  shows "unat (j - 12) = unat j - 12" and "unat (j - 12) < POINTER_PER_BLOCK"
  using assms by (simp_all add: unat_sub word_le_nat_alt word_less_nat_alt)

lemma get_direct:
  "j < 12 \<Longrightarrow> inode_ok ino \<Longrightarrow>
   get_block_index_in_inode dev s ino j = Some (i_direct_table ino ! unat j)"
  by (simp add: get_block_index_in_inode_def inode_ok_def word_less_nat_alt)

lemma get_level_1:
  "12 \<le> j \<Longrightarrow> j < 1036 \<Longrightarrow> get_block_index_in_inode dev s ino j =
     (if i_indirect_block_1_ptr ino = 0 then Some (-1)
      else load_ptr (read_block dev s (i_indirect_block_1_ptr ino)) (j - 12))"
  by (auto simp: get_block_index_in_inode_def not_less [symmetric])

text \<open>Every index below the bound has an answer.\<close>

lemma get_total:
  assumes "inode_ok ino" and "idx < of_nat MAX_BLOCK_INDEX"
  shows "\<exists>b. get_block_index_in_inode dev s ino idx = Some b"
proof -
  have 1: "\<exists>b. load_ptr buf i = Some b" if "unat i < 1024" for buf i using that by (simp add: load_ptr_def)
  consider "idx < 12" | "12 \<le> idx" "idx < 1036" | "1036 \<le> idx" "idx < 1049612" | "1049612 \<le> idx"
    by force
  then show ?thesis
  proof cases
    case 3
    have a: "unat ((idx - 1036) div 1024) < 1024" and b: "unat ((idx - 1036) mod 1024) < 1024"
      using 3 by (simp_all add: unat_div unat_mod unat_sub word_le_nat_alt word_less_nat_alt)
    moreover have "\<not> idx < 12" "\<not> idx < 1036"
      using 3 by (simp_all add: word_less_nat_alt word_le_nat_alt)
    ultimately show ?thesis using 3
      by (simp add: get_block_index_in_inode_def load_ptr_def Let_def)
  next
    case 4
    have u: "unat (idx - 1049612) < 1073741824"
      using 4 assms(2) by (simp add: unat_sub word_le_nat_alt word_less_nat_alt)
    have a: "unat ((idx - 1049612) div 1048576) < 1024"
      "unat ((idx - 1049612) mod 1048576 div 1024) < 1024" "unat ((idx - 1049612) mod 1024) < 1024"
      using u by (simp_all add: unat_div unat_mod)
    moreover have "\<not> idx < 12" "\<not> idx < 1036" "\<not> idx < 1049612"
      using 4 by (simp_all add: word_less_nat_alt word_le_nat_alt)
    ultimately show ?thesis using assms(2)
      by (simp add: get_block_index_in_inode_def load_ptr_def Let_def)
  qed (use assms level_1_index [of idx] 1 in \<open>auto simp: get_direct get_level_1\<close>)
qed

text \<open>The reading side never looks at the pointers the writing side uses for the levels 2 and 3.\<close>

lemma get_ignores_level_pointers:
  "get_block_index_in_inode dev s (ino \<lparr> i_indirect_block_2_ptr := p, i_indirect_block_3_ptr := q \<rparr>) idx =
   get_block_index_in_inode dev s ino idx"
  by (simp add: get_block_index_in_inode_def)

lemma write_level_3_wraps:
  assumes "1036 \<le> idx" and "idx < 1049612"
  shows "write_level_3 dev ino idx b s = None"
proof -
  have "unat (idx - 1049612) = unat idx + 2 ^ 32 - 1049612"
    using assms by (simp add: unat_sub_if_size word_size word_less_nat_alt word_le_nat_alt)
  then have "1024 \<le> unat (idx - 1049612) div 1048576"
    using assms by (simp add: word_le_nat_alt)
  then have "\<not> unat ((idx - 1049612) div 1048576) < 1024" by (simp add: unat_div)
  then have "load_ptr buf ((idx - 1049612) div 1048576) = None" for buf by (simp add: load_ptr_def)
  then show ?thesis by (cases "alloc_pointer_block dev s") (auto simp: write_level_3_def Let_def)
qed

section \<open>Writing then reading\<close>

lemma grow_simps [simp]:
  "i_num (grow ino) = i_num ino" "i_direct_table (grow ino) = i_direct_table ino"
  "i_indirect_block_1_ptr (grow ino) = i_indirect_block_1_ptr ino" "inode_ok (grow ino) = inode_ok ino"
  "i_fnum (grow ino) = i_fnum ino"
  by (simp_all add: grow_def)

definition data_block :: "u32 \<Rightarrow> bool" where
  "data_block b \<longleftrightarrow> 266 \<le> unat b \<and> unat b < BLOCK_NUM"

lemma data_blockD:
  assumes "data_block b"
  shows "on_card b" "\<not> table_block b" "10 \<le> unat b" "9 \<le> unat b" "b \<noteq> 0"
  using assms by (auto simp: data_block_def on_card_def table_block_def)

lemma block_taken_data:
  "fs_ok dev s \<Longrightarrow> block_taken dev s k t \<Longrightarrow> data_block k"
  using free_block_range by (auto simp: block_taken_def data_block_def)

context sd_card
begin

text \<open>A fresh pointer block: allocated, cleared on the card, everything else above as before.\<close>

lemma alloc_pointer_block_ok:
  assumes "fs_ok dev s" and "free_blocks s \<noteq> {}"
  shows "\<exists>k t. alloc_pointer_block dev s = Some (k, t) \<and> fs_ok dev t \<and> data_block k \<and>
    unat k \<in> free_blocks s \<and> free_blocks t = free_blocks s - {unat k} \<and>
    inodebmp_block_buffer t = inodebmp_block_buffer s \<and> same_env s t \<and>
    (\<forall>b. on_card b \<and> 9 \<le> unat b \<longrightarrow>
       read_block dev t b = (if b = k then replicate 4096 0 else read_block dev s b))"
proof -
  obtain k u where u: "alloc_block dev s = Some (k, u)" "block_taken dev s k u"
    using alloc_block_ok [OF assms] by blast
  note data = block_taken_data [OF assms(1) u(2)]
  let ?t = "clear_block_index dev k u"
  have "fs_ok dev ?t"
    unfolding clear_block_index_def
    by (rule fs_ok_write_block) (use u(2) data_blockD [OF data] in \<open>auto simp: block_taken_def\<close>)
  moreover have "\<forall>b. on_card b \<and> 9 \<le> unat b \<longrightarrow>
      read_block dev ?t b = (if b = k then replicate 4096 0 else read_block dev s b)"
    using u(2) data_blockD [OF data] by (auto simp: clear_block_index_def read_write_block block_taken_def)
  moreover have "free_blocks ?t = free_blocks u" by (simp add: free_blocks_def)
  ultimately show ?thesis using u data
    by (intro exI [of _ k] exI [of _ ?t]) (auto simp: alloc_pointer_block_def block_taken_def same_env_def)
qed

lemma write_direct:
  assumes "inode_ok ino" and "idx < 12"
  shows "\<exists>ino'. write_block_index_in_inode dev ino idx b s = Some (ino', sync_to_disk_inode dev ino' s) \<and>
    ino' = ino \<lparr> i_direct_table := (i_direct_table ino)[unat idx := b] \<rparr> \<and> inode_ok ino' \<and>
    (\<forall>t j. j < 12 \<longrightarrow> get_block_index_in_inode dev t ino' j =
       (if j = idx then Some b else get_block_index_in_inode dev t ino j))"
proof -
  let ?i = "ino \<lparr> i_direct_table := (i_direct_table ino)[unat idx := b] \<rparr>"
  have len: "length (i_direct_table ino) = 12" "unat idx < 12"
    using assms by (simp_all add: inode_ok_def word_less_nat_alt)
  have ok: "inode_ok ?i" using assms(1) by (simp add: inode_ok_def)
  have "get_block_index_in_inode dev t ?i j =
      (if j = idx then Some b else get_block_index_in_inode dev t ino j)" if "j < 12" for t j
    using that ok assms len by (auto simp: get_direct nth_list_update word_unat_eq_iff)
  then show ?thesis using assms len ok by (auto simp: write_block_index_in_inode_def Let_def)
qed

lemma write_level_1_ok:
  assumes ok: "fs_ok dev s" and ino: "inode_ok ino" "unat (i_num ino) < INODE_NUM"
    and idx: "12 \<le> idx" "idx < 1036"
    and ptr: "if i_indirect_block_1_ptr ino = 0 then free_blocks s \<noteq> {}
              else data_block (i_indirect_block_1_ptr ino)"
  shows "\<exists>ino' t. write_block_index_in_inode dev ino idx b s = Some (ino', t) \<and> fs_ok dev t \<and>
    inode_ok ino' \<and> i_num ino' = i_num ino \<and> i_direct_table ino' = i_direct_table ino \<and>
    data_block (i_indirect_block_1_ptr ino') \<and>
    (\<forall>j. 12 \<le> j \<and> j < 1036 \<longrightarrow> get_block_index_in_inode dev t ino' j =
       (if j = idx then Some b
        else if i_indirect_block_1_ptr ino = 0 then Some 0 else get_block_index_in_inode dev s ino j))"
proof -
  let ?old = "i_indirect_block_1_ptr ino"
  have "\<exists>ino' u. (if ?old = 0 then do {
         (free_index_1, s) \<leftarrow> alloc_pointer_block dev s;
         let ino = grow (ino \<lparr> i_indirect_block_1_ptr := free_index_1 \<rparr>);
         Some (ino, sync_to_disk_inode dev ino s)
       } else Some (ino, s)) = Some (ino', u) \<and> fs_ok dev u \<and> inode_ok ino' \<and>
       i_num ino' = i_num ino \<and> i_direct_table ino' = i_direct_table ino \<and>
       data_block (i_indirect_block_1_ptr ino') \<and>
       read_block dev u (i_indirect_block_1_ptr ino') =
         (if ?old = 0 then replicate 4096 0 else read_block dev s ?old)"
  proof (cases "?old = 0")
    case True
    then obtain k t where k: "alloc_pointer_block dev s = Some (k, t)" "fs_ok dev t" "data_block k"
      "read_block dev t k = replicate 4096 0"
      using alloc_pointer_block_ok [OF ok] ptr data_blockD by fastforce
    let ?i = "grow (ino \<lparr> i_indirect_block_1_ptr := k \<rparr>)"
    have i: "inode_ok ?i" "unat (i_num ?i) < INODE_NUM" using ino by simp_all
    show ?thesis using True k i fs_ok_sync_inode [OF k(2) i] read_sync_inode [OF i] data_blockD [OF k(3)]
      by (intro exI [of _ ?i] exI [of _ "sync_to_disk_inode dev ?i t"]) (simp add: Let_def)
  next
    case False
    then show ?thesis using ok ino ptr by auto
  qed
  then obtain ino' u where u: "(if ?old = 0 then do {
         (free_index_1, s) \<leftarrow> alloc_pointer_block dev s;
         let ino = grow (ino \<lparr> i_indirect_block_1_ptr := free_index_1 \<rparr>);
         Some (ino, sync_to_disk_inode dev ino s)
       } else Some (ino, s)) = Some (ino', u)" "fs_ok dev u" "inode_ok ino'"
       "i_num ino' = i_num ino" "i_direct_table ino' = i_direct_table ino"
       "data_block (i_indirect_block_1_ptr ino')"
       "read_block dev u (i_indirect_block_1_ptr ino') =
         (if ?old = 0 then replicate 4096 0 else read_block dev s ?old)"
    by blast
  let ?p = "i_indirect_block_1_ptr ino'"
  note pd = data_blockD [OF u(6)]
  have "unat (idx - 12) < 1024" using level_1_index [OF idx] by simp
  then obtain buf where buf: "store_ptr (read_block dev u ?p) (idx - 12) b = Some buf"
    by (auto simp: store_ptr_def)
  note st = load_store_ptr [OF buf]
  let ?t = "write_block dev ?p buf u"
  have not: "\<not> idx < 12" using idx(1) by auto
  have "write_block_index_in_inode dev ino idx b s = write_level_1 dev ino idx b s"
    using idx not by (simp add: write_block_index_in_inode_def)
  also have "\<dots> = Some (ino', ?t)"
    unfolding write_level_1_def u(1) using buf by simp
  finally have w: "write_block_index_in_inode dev ino idx b s = Some (ino', ?t)" .
  have "fs_ok dev ?t" using u(2) pd st(1) by (intro fs_ok_write_block) simp_all
  moreover have "get_block_index_in_inode dev ?t ino' j = (if j = idx then Some b
      else if ?old = 0 then Some 0 else get_block_index_in_inode dev s ino j)"
    if j: "12 \<le> j" "j < 1036" for j
  proof -
    have "get_block_index_in_inode dev ?t ino' j = load_ptr buf (j - 12)"
      using j pd st(1) by (simp add: get_level_1 read_write_block)
    also have "\<dots> = (if j = idx then Some b else load_ptr (read_block dev u ?p) (j - 12))"
      using st(2) by simp
    finally show ?thesis
      using u(7) level_1_index [OF j] by (simp add: load_ptr_cleared get_level_1 [OF j])
  qed
  ultimately show ?thesis using w u by blast
qed

end

section \<open>What a release frees\<close>

lemma release_leaf_spec:
  assumes "length (blockbmp_buffer s) = BLOCK_BITMAP_SIZE"
    and "\<forall>p \<in> set (takeWhile (\<lambda>p. p \<noteq> 0) ps). unat p < BLOCK_NUM"
  shows "\<exists>bm. release_leaf ps s = Some (0 \<in> set ps, s \<lparr> blockbmp_buffer := bm \<rparr>) \<and>
    length bm = BLOCK_BITMAP_SIZE \<and>
    bits bm = bits (blockbmp_buffer s) - unat ` set (takeWhile (\<lambda>p. p \<noteq> 0) ps)"
  using assms
proof (induction ps arbitrary: s)
  case Nil
  then show ?case by (intro exI [of _ "blockbmp_buffer s"]) simp
next
  case (Cons p ps)
  show ?case
  proof (cases "p = 0")
    case True
    then show ?thesis using Cons.prems by (intro exI [of _ "blockbmp_buffer s"]) simp
  next
    case False
    then have "unat p < 8 * length (blockbmp_buffer s)" using Cons.prems by simp
    then obtain b where b: "unset_bitmap (blockbmp_buffer s) p = Some b"
      "length b = length (blockbmp_buffer s)" "bits b = bits (blockbmp_buffer s) - {unat p}"
      using unset_bitmap_spec by blast
    obtain bm where "release_leaf ps (s \<lparr> blockbmp_buffer := b \<rparr>) =
        Some (0 \<in> set ps, s \<lparr> blockbmp_buffer := bm \<rparr>)" "length bm = BLOCK_BITMAP_SIZE"
      "bits bm = bits b - unat ` set (takeWhile (\<lambda>p. p \<noteq> 0) ps)"
      using Cons.IH [of "s \<lparr> blockbmp_buffer := b \<rparr>"] Cons.prems False b by auto
    then show ?thesis using False b by (auto simp: unset_block_bmp_def)
  qed
qed

lemma release_direct:
  assumes "length (blockbmp_buffer s) = BLOCK_BITMAP_SIZE"
    and "\<forall>p \<in> set (takeWhile (\<lambda>p. p \<noteq> 0) (i_direct_table ino)). unat p < BLOCK_NUM"
    and "0 \<in> set (i_direct_table ino) \<or> i_indirect_block_1_ptr ino = 0"
  shows "\<exists>bm. release_inode_block dev ino s = Some (s \<lparr> blockbmp_buffer := bm \<rparr>) \<and>
    length bm = BLOCK_BITMAP_SIZE \<and> bits bm =
      bits (blockbmp_buffer s) - unat ` set (takeWhile (\<lambda>p. p \<noteq> 0) (i_direct_table ino))"
  using release_leaf_spec [OF assms(1,2)] assms(3) by (auto simp: release_inode_block_def)

end
