(* ===== verification/Fs_Dir.thy ===== *)
theory Fs_Dir
  imports Fs_Inode
begin

text \<open>
  Directories and paths in \<^verbatim>\<open>kernel/fs/fs.c\<close>: splitting a path (\<^verbatim>\<open>separate_path\<close>), searching a
  directory (\<^verbatim>\<open>find_file\<close>, \<^verbatim>\<open>_find_file\<close>, \<^verbatim>\<open>find_dentry\<close>), following a path (\<^verbatim>\<open>parse_path\<close>), and
  writing, removing and reading an entry. Names are byte strings in buffers as in the string
  library; the entries of a directory block are read in place, so a comparison that runs past the
  block is a failure.
\<close>

section \<open>Paths\<close>

abbreviation (input) slash :: u8 where "slash \<equiv> 47"
abbreviation (input) dot :: u8 where "dot \<equiv> 46"

fun count_char_in_string :: "u8 \<Rightarrow> u8 list \<Rightarrow> nat option" where
  "count_char_in_string c [] = None"
| "count_char_in_string c (b # str) =
     (if b = 0 then Some 0
      else map_option (\<lambda>cnt. if b = c then Suc cnt else cnt) (count_char_in_string c str))"

definition separate_path ::
    "u8 list \<Rightarrow> u8 list \<Rightarrow> u8 list \<Rightarrow> (u8 list \<times> u8 list) option" where
  "separate_path path parent name = do {
     parent \<leftarrow> strcpy parent path;
     r \<leftarrow> strrchr (Some parent) slash;
     loc \<leftarrow> r;
     name \<leftarrow> strcpy name (drop (loc + 1) parent);
     n \<leftarrow> strlen (drop (loc + 1) parent);
     name \<leftarrow> store name n 0;
     let loc = (if loc = 0 then loc + 1 else loc);
     parent \<leftarrow> store parent loc 0;
     Some (parent, name)
   }"

section \<open>Searching a directory\<close>

text \<open>
  The three searches are the same double loop with another bound and another answer. The inner
  index is not reset between blocks: after the first block it stays at its bound.
\<close>

function search_block :: "u8 list \<Rightarrow> u8 list \<Rightarrow> nat \<Rightarrow> nat option option" where
  "search_block name p j =
     (if j < DENTRY_NUM_PER_BLOCK then do {
        c \<leftarrow> strcmp name (drop (DENTRY_SIZE * j + 4) p);
        if c = 0 then Some (Some j) else search_block name p (j + 1)
      } else Some None)"
  by pat_completeness auto
termination by (relation "measure (\<lambda>(name, p, j). 32 - j)") auto

function search_dir ::
    "'c sd_dev \<Rightarrow> 'c fs_state \<Rightarrow> inode_t \<Rightarrow> u8 list \<Rightarrow> nat \<Rightarrow> nat \<Rightarrow> nat \<Rightarrow> (nat \<times> nat \<times> u8 list) option option"
  where
  "search_dir dev s ino name bound i j =
     (if i < bound then do {
        block_index \<leftarrow> get_block_index_in_inode dev s ino (of_nat i);
        let p = read_block dev s block_index;
        r \<leftarrow> search_block name p j;
        case r of Some j \<Rightarrow> Some (Some (i, j, p))
        | None \<Rightarrow> search_dir dev s ino name bound (i + 1) (max j DENTRY_NUM_PER_BLOCK)
      } else Some None)"
  by pat_completeness auto
termination by (relation "measure (\<lambda>(dev, s, ino, name, bound, i, j). bound - i)") auto

declare search_block.simps [simp del] search_dir.simps [simp del]

definition find_file :: "'c sd_dev \<Rightarrow> 'c fs_state \<Rightarrow> inode_t \<Rightarrow> u8 list \<Rightarrow> u32 option" where
  "find_file dev s ino name = do {
     r \<leftarrow> search_dir dev s ino name MAX_BLOCK_INDEX 0 0;
     Some (case r of Some (i, j, p) \<Rightarrow> get32 p (DENTRY_SIZE * j) | None \<Rightarrow> -1)
   }"

definition u_find_file :: "'c sd_dev \<Rightarrow> 'c fs_state \<Rightarrow> inode_t \<Rightarrow> u8 list \<Rightarrow> u32 option" where
  "u_find_file dev s ino name = do {
     r \<leftarrow> search_dir dev s ino name 2 0 0;
     Some (case r of Some (i, j, p) \<Rightarrow> get32 p (DENTRY_SIZE * j) | None \<Rightarrow> -1)
   }"

definition find_dentry :: "'c sd_dev \<Rightarrow> 'c fs_state \<Rightarrow> inode_t \<Rightarrow> u8 list \<Rightarrow> u32 option" where
  "find_dentry dev s ino name = do {
     r \<leftarrow> search_dir dev s ino name MAX_DENTRY_BLOCK_NUM 0 0;
     Some (case r of Some (i, j, p) \<Rightarrow> of_nat (i * DENTRY_NUM_PER_BLOCK + j) | None \<Rightarrow> -1)
   }"

section \<open>Following a path\<close>

fun parse_loop ::
    "'c sd_dev \<Rightarrow> 'c fs_state \<Rightarrow> nat \<Rightarrow> nat \<Rightarrow> u8 list \<Rightarrow> nat \<Rightarrow> inode_t \<Rightarrow> u32 option \<Rightarrow> u32 option" where
  "parse_loop dev s 0 i buf p ino inum = inum"
| "parse_loop dev s (Suc left) i buf p ino inum = do {
     c \<leftarrow> load buf i;
     if c = slash then do {
       buf \<leftarrow> store buf i 0;
       inum \<leftarrow> find_file dev s ino (drop p buf);
       parse_loop dev s left (i + 1) buf (i + 1) (sync_from_disk_inode dev s inum) (Some inum)
     }
     else parse_loop dev s left (i + 1) buf p ino inum
   }"

definition parse_path :: "'c sd_dev \<Rightarrow> 'c fs_state \<Rightarrow> u8 list \<Rightarrow> inode_t \<Rightarrow> u32 option" where
  "parse_path dev s path ino = do {
     buf \<leftarrow> strcpy (replicate MAX_PATH_LENGTH 0) path;
     n \<leftarrow> strlen buf;
     rest \<leftarrow> strcpy (drop n buf) [slash, 0];
     let buf = take n buf @ rest;
     l \<leftarrow> strlen buf;
     parse_loop dev s l 0 buf 0 ino None
   }"

section \<open>Entries of a directory\<close>

definition ERROR_DIR_NUM_INCORRECT :: u32 where "ERROR_DIR_NUM_INCORRECT = -4"
definition ERROR_DENTRY_SETTING_INCORRECT :: u32 where "ERROR_DENTRY_SETTING_INCORRECT = -5"

text \<open>
  The successful end of \<^verbatim>\<open>write_dentry\<close> returns no value; the first component is the error code
  when there is one.
\<close>

definition write_dentry ::
    "'c sd_dev \<Rightarrow> inode_t \<Rightarrow> u32 \<Rightarrow> dentry_t \<Rightarrow> 'c fs_state \<Rightarrow> (u32 option \<times> inode_t \<times> 'c fs_state) option"
  where
  "write_dentry dev ino dnum den s =
     (if dnum < 2 then Some (Some ERROR_DIR_NUM_INCORRECT, ino, s)
      else if i_fnum ino + 2 < dnum then Some (Some ERROR_DENTRY_SETTING_INCORRECT, ino, s)
      else do {
        let major_index = dnum div of_nat DENTRY_NUM_PER_BLOCK;
        let minor_index = dnum mod of_nat DENTRY_NUM_PER_BLOCK;
        block \<leftarrow> get_block_index_in_inode dev s ino major_index;
        (ino, buf, s) \<leftarrow> (if block = 0 then do {
            (free_block_index, s) \<leftarrow> alloc_block dev s;
            (ino, s) \<leftarrow> write_block_index_in_inode dev ino major_index free_block_index s;
            let ino = grow ino;
            let ino = ino \<lparr> i_fnum := i_fnum ino + 1 \<rparr>;
            Some (ino, replicate BLOCK_SIZE 0, sync_to_disk_inode dev ino s)
          }
          else do {
            let ino = ino \<lparr> i_fnum := i_fnum ino + 1 \<rparr>;
            let s = sync_to_disk_inode dev ino s;
            block \<leftarrow> get_block_index_in_inode dev s ino major_index;
            Some (ino, read_block dev s block, s)
          });
        let buf = splice buf (unat minor_index * DENTRY_SIZE) (dentry_bytes den);
        block \<leftarrow> get_block_index_in_inode dev s ino major_index;
        Some (None, ino, write_block dev block buf s)
      })"

definition remove_dentry ::
    "'c sd_dev \<Rightarrow> inode_t \<Rightarrow> u32 \<Rightarrow> 'c fs_state \<Rightarrow> (inode_t \<times> 'c fs_state) option" where
  "remove_dentry dev ino dnum s = do {
     (_, ino, s) \<leftarrow> write_dentry dev ino dnum zero_dentry s;
     let ino = ino \<lparr> i_fnum := i_fnum ino - 1 \<rparr>;
     Some (ino, sync_to_disk_inode dev ino s)
   }"

definition read_dentry :: "'c sd_dev \<Rightarrow> 'c fs_state \<Rightarrow> inode_t \<Rightarrow> u32 \<Rightarrow> dentry_t option" where
  "read_dentry dev s ino dnum = do {
     let major_loc = dnum div of_nat DENTRY_NUM_PER_BLOCK;
     let minor_loc = dnum mod of_nat DENTRY_NUM_PER_BLOCK;
     block \<leftarrow> get_block_index_in_inode dev s ino major_loc;
     let buf = read_block dev s block;
     Some (bytes_dentry (slice buf (unat minor_loc * DENTRY_SIZE) DENTRY_SIZE))
   }"

section \<open>The text of paths\<close>

lemma count_char_spec:
  "no_nul cs \<Longrightarrow> count_char_in_string c (cs @ 0 # r) = Some (length (filter ((=) c) cs))"
  by (induction cs) auto

lemma separate_path_spec:
  assumes cs: "no_nul (dir @ base)" and base: "slash \<notin> set base" and dir: "dir \<noteq> []"
    and len: "length dir + length base + 1 < length parent" "length base < length name"
  shows "separate_path (dir @ slash # base @ 0 # r) parent name =
    Some (dir @ 0 # base @ 0 # drop (length dir + length base + 2) parent,
          base @ 0 # drop (length base + 1) name)"
proof -
  define q where "q = drop (length dir + length base + 2) parent"
  let ?p = "dir @ slash # base @ 0 # q"
  have cp: "strcpy parent (dir @ slash # base @ 0 # r) = Some ?p"
    using strcpy_cstr [of "dir @ slash # base" parent r] cs len(1) by (simp add: q_def)
  have rc: "strrchr (Some ?p) slash = Some (Some (length dir))"
    using strrchr_loop_last [of dir base slash q 0 0] cs base by (simp add: strrchr_def)
  have nm: "strcpy name (base @ 0 # q) = Some (base @ 0 # drop (length base + 1) name)"
    using strcpy_cstr [of base name q] cs len(2) by simp
  have sl: "strlen (base @ 0 # q) = Some (length base)" using cs by simp
  have st: "store (base @ 0 # drop (length base + 1) name) (length base) 0 =
      Some (base @ 0 # drop (length base + 1) name)" by (simp add: list_update_append)
  have sp: "store ?p (length dir) 0 = Some (dir @ 0 # base @ 0 # q)"
    by (simp add: list_update_append)
  show ?thesis
    unfolding q_def [symmetric] separate_path_def cp using dir rc nm sl st sp by (simp add: Let_def)
qed

text \<open>
  A path without a separator: \<^verbatim>\<open>strrchr\<close> answers its start, so the first character becomes the
  parent and the rest the name.
\<close>

lemma separate_path_no_slash:
  assumes cs: "no_nul (c # cs)" and "slash \<notin> set (c # cs)"
    and len: "length cs + 1 < length parent" "length cs < length name"
  shows "\<exists>junk. separate_path (c # cs @ 0 # r) parent name =
    Some (c # 0 # junk, cs @ 0 # drop (length cs + 1) name)"
proof -
  define q where "q = drop (length cs + 2) parent"
  have cp: "strcpy parent (c # cs @ 0 # r) = Some (c # cs @ 0 # q)"
    using strcpy_cstr [of "c # cs" parent r] cs len(1) by (simp add: q_def)
  have rc: "strrchr (Some (c # cs @ 0 # q)) slash = Some (Some 0)"
    using strrchr_loop_notin [of "c # cs" slash q 0 0] assms by (simp add: strrchr_def)
  have nm: "strcpy name (cs @ 0 # q) = Some (cs @ 0 # drop (length cs + 1) name)"
    using strcpy_cstr [of cs name q] cs len(2) by simp
  have st: "store (cs @ 0 # drop (length cs + 1) name) (length cs) 0 =
      Some (cs @ 0 # drop (length cs + 1) name)" by (simp add: list_update_append)
  have "\<exists>junk. store (c # cs @ 0 # q) 1 0 = Some (c # 0 # junk)" by (cases cs) simp_all
  then show ?thesis
    unfolding separate_path_def cp using cs rc nm st by (auto simp: Let_def)
qed

section \<open>A directory block as a table of names\<close>

definition entry_name :: "u8 list \<Rightarrow> nat \<Rightarrow> u8 list" where
  "entry_name buf j = takeWhile (\<lambda>c. c \<noteq> 0) (slice buf (DENTRY_SIZE * j + 4) MAX_NAME_LENGTH)"

definition entry_inum :: "u8 list \<Rightarrow> nat \<Rightarrow> u32" where
  "entry_inum buf j = get32 buf (DENTRY_SIZE * j)"

definition dir_block_ok :: "u8 list \<Rightarrow> bool" where
  "dir_block_ok buf \<longleftrightarrow> length buf = BLOCK_SIZE \<and>
     (\<forall>j < DENTRY_NUM_PER_BLOCK. 0 \<in> set (slice buf (DENTRY_SIZE * j + 4) MAX_NAME_LENGTH))"

definition dir_lookup :: "u8 list \<Rightarrow> u8 list \<Rightarrow> nat option" where
  "dir_lookup buf cs = scan_up (\<lambda>j. entry_name buf j = cs) DENTRY_NUM_PER_BLOCK 0"

lemma takeWhile_nul: "0 \<in> set xs \<Longrightarrow> \<exists>r. xs = takeWhile (\<lambda>c. c \<noteq> (0 :: u8)) xs @ 0 # r"
proof (induction xs)
  case (Cons x xs)
  then show ?case by (cases "x = 0") auto
qed simp

lemma entry_name_cstr:
  assumes "dir_block_ok buf" and "j < DENTRY_NUM_PER_BLOCK"
  obtains r where "drop (DENTRY_SIZE * j + 4) buf = entry_name buf j @ 0 # r" and "no_nul (entry_name buf j)"
proof -
  let ?w = "slice buf (128 * j + 4) 64"
  have "0 \<in> set ?w" using assms by (simp add: dir_block_ok_def)
  then obtain r where r: "?w = entry_name buf j @ 0 # r"
    using takeWhile_nul [of ?w] by (auto simp: entry_name_def)
  define D where "D = drop (128 * j + 4) buf"
  have "D = take 64 D @ drop 64 D" by (rule append_take_drop_id [symmetric])
  moreover have "take 64 D = entry_name buf j @ 0 # r" using r by (simp add: slice_def D_def)
  ultimately have "drop (128 * j + 4) buf = entry_name buf j @ 0 # (r @ drop 64 D)"
    unfolding D_def [symmetric] by (metis append.assoc append_Cons)
  moreover have "no_nul (entry_name buf j)"
    by (auto simp: no_nul_def entry_name_def dest: set_takeWhileD)
  ultimately show ?thesis using that by blast
qed

lemma search_block_spec:
  assumes "dir_block_ok buf" and "no_nul cs"
  shows "search_block (cs @ 0 # r) buf j = Some (scan_up (\<lambda>j. entry_name buf j = cs) DENTRY_NUM_PER_BLOCK j)"
proof (induction "32 - j" arbitrary: j)
  case 0
  then show ?case by (subst search_block.simps, subst scan_up.simps) simp
next
  case (Suc n)
  then have j: "j < 32" by simp
  have IH: "search_block (cs @ 0 # r) buf (j + 1) = Some (scan_up (\<lambda>j. entry_name buf j = cs) 32 (j + 1))"
    using Suc by simp
  obtain q where q: "drop (128 * j + 4) buf = entry_name buf j @ 0 # q" "no_nul (entry_name buf j)"
    using entry_name_cstr [OF assms(1) j] by blast
  obtain c where c: "strcmp (cs @ 0 # r) (drop (128 * j + 4) buf) = Some c"
    "c = 0 \<longleftrightarrow> cs = entry_name buf j"
    unfolding q(1) using strcmp_cstr [OF assms(2) q(2), of r q] strcmp_eq_0 [OF assms(2) q(2), of r q]
    by auto
  show ?case using j c IH
    by (subst search_block.simps, subst scan_up.simps) auto
qed

lemma search_block_past: "32 \<le> j \<Longrightarrow> search_block name p j = Some None"
  by (subst search_block.simps) simp

lemma search_dir_past:
  assumes "inode_ok ino" and "32 \<le> j" and "bound \<le> MAX_BLOCK_INDEX"
  shows "search_dir dev s ino name bound i j = Some None"
proof (induction "bound - i" arbitrary: i)
  case 0
  then show ?case by (subst search_dir.simps) simp
next
  case (Suc n)
  then have i: "i < bound" by simp
  have "(of_nat i :: u32) < of_nat MAX_BLOCK_INDEX"
    using i assms(3) by (simp add: word_less_nat_alt unat_of_nat)
  then obtain b where b: "get_block_index_in_inode dev s ino (of_nat i) = Some b"
    using get_total [OF assms(1)] by blast
  have "search_dir dev s ino name bound (i + 1) j = Some None" using Suc by simp
  then show ?case using i b assms(2) search_block_past [OF assms(2)]
    by (subst search_dir.simps) (simp add: Let_def max_def)
qed

text \<open>Whatever its bound, a search looks at the entries of the first block and at no others.\<close>

lemma search_dir_spec:
  assumes "inode_ok ino" and "0 < bound" and "bound \<le> MAX_BLOCK_INDEX"
    and "p = read_block dev s (i_direct_table ino ! 0)" and "dir_block_ok p" and "no_nul cs"
  shows "search_dir dev s ino (cs @ 0 # r) bound 0 0 =
    Some (map_option (\<lambda>j. (0, j, p)) (dir_lookup p cs))"
proof -
  have b: "get_block_index_in_inode dev s ino 0 = Some (i_direct_table ino ! 0)"
    using assms(1) by (simp add: get_direct)
  show ?thesis
  proof (cases "dir_lookup p cs")
    case None
    then have "search_block (cs @ 0 # r) p 0 = Some None"
      using search_block_spec [OF assms(5,6)] by (simp add: dir_lookup_def)
    then show ?thesis
      using None assms(2,4) b search_dir_past [OF assms(1) _ assms(3), of 32]
      by (subst search_dir.simps) (simp add: Let_def)
  next
    case (Some j)
    then have "search_block (cs @ 0 # r) p 0 = Some (Some j)"
      using search_block_spec [OF assms(5,6)] by (simp add: dir_lookup_def)
    then show ?thesis
      using Some assms(2,4) b by (subst search_dir.simps) (simp add: Let_def)
  qed
qed

definition dir_block :: "'c sd_dev \<Rightarrow> 'c fs_state \<Rightarrow> inode_t \<Rightarrow> u8 list" where
  "dir_block dev s ino = read_block dev s (i_direct_table ino ! 0)"

lemma find_spec:
  assumes "inode_ok ino" and "dir_block_ok (dir_block dev s ino)" and "no_nul cs"
  shows "find_file dev s ino (cs @ 0 # r) =
      Some (case dir_lookup (dir_block dev s ino) cs of Some j \<Rightarrow> entry_inum (dir_block dev s ino) j | None \<Rightarrow> -1)"
    and "u_find_file dev s ino (cs @ 0 # r) =
      Some (case dir_lookup (dir_block dev s ino) cs of Some j \<Rightarrow> entry_inum (dir_block dev s ino) j | None \<Rightarrow> -1)"
    and "find_dentry dev s ino (cs @ 0 # r) =
      Some (case dir_lookup (dir_block dev s ino) cs of Some j \<Rightarrow> of_nat j | None \<Rightarrow> -1)"
  using search_dir_spec [OF assms(1) _ _ dir_block_def assms(2,3), of _ r]
  by (simp_all add: find_file_def u_find_file_def find_dentry_def entry_inum_def split: option.splits)

lemma dir_lookup_SomeD:
  "dir_lookup buf cs = Some j \<Longrightarrow>
   j < DENTRY_NUM_PER_BLOCK \<and> entry_name buf j = cs \<and> (\<forall>k < j. entry_name buf k \<noteq> cs)"
  unfolding dir_lookup_def by (drule scan_up_Some) simp

lemma dir_lookup_NoneD: "dir_lookup buf cs = None \<Longrightarrow> j < DENTRY_NUM_PER_BLOCK \<Longrightarrow> entry_name buf j \<noteq> cs"
  unfolding dir_lookup_def by (drule scan_up_None [where k = j]) simp_all

lemma dir_lookup_eqI:
  "j < DENTRY_NUM_PER_BLOCK \<Longrightarrow> entry_name buf j = cs \<Longrightarrow> (\<And>k. k < j \<Longrightarrow> entry_name buf k \<noteq> cs) \<Longrightarrow>
   dir_lookup buf cs = Some j"
  using dir_lookup_SomeD [of buf cs] dir_lookup_NoneD [of buf cs j]
  by (cases "dir_lookup buf cs") (auto, metis linorder_neqE_nat)

lemma dir_lookup_cong:
  "(\<And>j. j < DENTRY_NUM_PER_BLOCK \<Longrightarrow> entry_name buf j = cs \<longleftrightarrow> entry_name buf' j = cs) \<Longrightarrow>
   dir_lookup buf cs = dir_lookup buf' cs"
proof (cases "dir_lookup buf' cs")
  case None
  assume "\<And>j. j < DENTRY_NUM_PER_BLOCK \<Longrightarrow> entry_name buf j = cs \<longleftrightarrow> entry_name buf' j = cs"
  then show ?thesis using None dir_lookup_NoneD dir_lookup_SomeD by (metis not_Some_eq)
next
  case (Some j)
  assume "\<And>j. j < DENTRY_NUM_PER_BLOCK \<Longrightarrow> entry_name buf j = cs \<longleftrightarrow> entry_name buf' j = cs"
  then show ?thesis
    using dir_lookup_SomeD [OF Some] Some dir_lookup_eqI [of j buf cs] by (metis less_trans)
qed

text \<open>Writing one entry of a block.\<close>

definition put_entry :: "u8 list \<Rightarrow> nat \<Rightarrow> dentry_t \<Rightarrow> u8 list" where
  "put_entry buf d den = splice buf (d * DENTRY_SIZE) (dentry_bytes den)"

definition den_name :: "dentry_t \<Rightarrow> u8 list" where
  "den_name den = takeWhile (\<lambda>c. c \<noteq> 0) (d_name den)"

definition den_ok :: "dentry_t \<Rightarrow> bool" where
  "den_ok den \<longleftrightarrow> dentry_ok den \<and> 0 \<in> set (d_name den)"

lemma entry_bounds: "j < 32 \<Longrightarrow> 128 * j + 128 \<le> (4096 :: nat)"
  by simp

lemma put_entry_slices:
  assumes "length buf = BLOCK_SIZE" and "d < DENTRY_NUM_PER_BLOCK" and "j < DENTRY_NUM_PER_BLOCK"
    and "dentry_ok den"
  shows "length (put_entry buf d den) = BLOCK_SIZE"
    and "slice (put_entry buf d den) (DENTRY_SIZE * j + 4) 64 =
      (if j = d then d_name den else slice buf (DENTRY_SIZE * j + 4) 64)"
    and "entry_inum (put_entry buf d den) j = (if j = d then d_inum den else entry_inum buf j)"
proof -
  have len: "length (dentry_bytes den) = 128" using assms(4) by simp
  have lens: "length (d_name den) = 64" "length (d_padding den) = 60"
    using assms(4) by (simp_all add: dentry_ok_def)
  have fit: "d * 128 + 128 \<le> 4096" using assms(2) by simp
  show "length (put_entry buf d den) = BLOCK_SIZE"
    using assms(1) fit len by (simp add: put_entry_def)
  have sub: "slice (put_entry buf d den) (128 * d + o') n = slice (dentry_bytes den) o' n"
    if "o' + n \<le> 128" for o' n
    using assms(1) fit len that
    by (intro nth_equalityI) (auto simp: put_entry_def nth_slice nth_splice)
  have other: "slice (put_entry buf d den) (128 * j + o') n = slice buf (128 * j + o') n"
    if "j \<noteq> d" "o' + n \<le> 128" for o' n
  proof -
    have "128 * j + o' + n \<le> d * 128 \<or> d * 128 + 128 \<le> 128 * j + o'" using that by linarith
    then show ?thesis unfolding put_entry_def using assms fit len that
      by (intro slice_splice_other) simp_all
  qed
  have nm: "slice (dentry_bytes den) 4 64 = d_name den"
    using lens by (simp add: dentry_bytes_def slice_def)
  show "slice (put_entry buf d den) (128 * j + 4) 64 =
      (if j = d then d_name den else slice buf (128 * j + 4) 64)"
    using sub [of 4 64] other [of 4 64] nm by simp
  have "slice (dentry_bytes den) 0 4 = le32 (d_inum den)" by (simp add: dentry_bytes_def slice_def)
  then show "entry_inum (put_entry buf d den) j = (if j = d then d_inum den else entry_inum buf j)"
    using sub [of 0 4] other [of 0 4] by (simp add: entry_inum_def get32_def)
qed

lemma put_entry_facts:
  assumes "dir_block_ok buf" and "d < DENTRY_NUM_PER_BLOCK" and "den_ok den"
  shows "dir_block_ok (put_entry buf d den)"
    and "j < DENTRY_NUM_PER_BLOCK \<Longrightarrow>
      entry_name (put_entry buf d den) j = (if j = d then den_name den else entry_name buf j)"
    and "j < DENTRY_NUM_PER_BLOCK \<Longrightarrow>
      entry_inum (put_entry buf d den) j = (if j = d then d_inum den else entry_inum buf j)"
proof -
  have "length buf = 4096" "dentry_ok den" using assms by (simp_all add: dir_block_ok_def den_ok_def)
  note put = put_entry_slices [OF this(1) assms(2) _ this(2)]
  show "dir_block_ok (put_entry buf d den)"
    using assms put by (auto simp: dir_block_ok_def den_ok_def)
  show "j < 32 \<Longrightarrow> entry_name (put_entry buf d den) j = (if j = d then den_name den else entry_name buf j)"
    using put by (simp add: entry_name_def den_name_def)
  show "j < 32 \<Longrightarrow> entry_inum (put_entry buf d den) j = (if j = d then d_inum den else entry_inum buf j)"
    using put by simp
qed

lemma dir_lookup_put:
  assumes "dir_block_ok buf" and "d < DENTRY_NUM_PER_BLOCK" and "den_ok den"
  shows "dir_lookup buf (den_name den) = None \<Longrightarrow>
      dir_lookup (put_entry buf d den) (den_name den) = Some d"
    and "cs \<noteq> den_name den \<Longrightarrow> cs \<noteq> entry_name buf d \<Longrightarrow>
      dir_lookup (put_entry buf d den) cs = dir_lookup buf cs"
proof -
  note put = put_entry_facts [OF assms]
  show "dir_lookup (put_entry buf d den) (den_name den) = Some d"
    if "dir_lookup buf (den_name den) = None"
    using that dir_lookup_NoneD [OF that] put assms(2) by (intro dir_lookup_eqI) auto
  show "dir_lookup (put_entry buf d den) cs = dir_lookup buf cs"
    if "cs \<noteq> den_name den" "cs \<noteq> entry_name buf d"
    using that put by (intro dir_lookup_cong) auto
qed

section \<open>Writing an entry of the first block\<close>

lemma same_write [simp]:
  "same_env s (write_block dev b buf t) = same_env s t" "same_bmps s (write_block dev b buf t) = same_bmps s t"
  "same_env s (sync_to_disk_inode dev ino t) = same_env s t"
  "same_bmps s (sync_to_disk_inode dev ino t) = same_bmps s t" "same_bmps s s"
  by (simp_all add: same_env_def same_bmps_def)

lemma first_block_index:
  fixes dnum :: u32
  assumes "dnum < 32"
  shows "dnum div 32 = 0" and "unat (dnum mod 32) = unat dnum"
proof -
  have "unat dnum < 32" using assms by (simp add: word_less_nat_alt)
  then show "dnum div 32 = 0" "unat (dnum mod 32) = unat dnum"
    by (simp_all add: word_unat_eq_iff unat_div unat_mod)
qed

text \<open>What the disk is after an entry of the first block has been written.\<close>

definition entry_written ::
    "'c sd_dev \<Rightarrow> 'c fs_state \<Rightarrow> inode_t \<Rightarrow> nat \<Rightarrow> dentry_t \<Rightarrow> inode_t \<Rightarrow> 'c fs_state \<Rightarrow> bool" where
  "entry_written dev s ino d den ino' t \<longleftrightarrow> fs_ok dev t \<and> same_env s t \<and> same_bmps s t \<and>
     (\<forall>b. on_card b \<and> \<not> table_block b \<longrightarrow> read_block dev t b =
        (if b = i_direct_table ino ! 0 then put_entry (read_block dev s b) d den else read_block dev s b)) \<and>
     (\<forall>k. unat k < INODE_NUM \<longrightarrow> sync_from_disk_inode dev t k =
        (if k = i_num ino then ino' else sync_from_disk_inode dev s k))"

context sd_card
begin

lemma write_dentry_ok:
  assumes ok: "fs_ok dev s" and ino: "inode_ok ino" "unat (i_num ino) < INODE_NUM"
    and dnum: "2 \<le> dnum" "dnum \<le> i_fnum ino + 2" "dnum < 32"
    and blk: "data_block (i_direct_table ino ! 0)" and den: "dentry_ok den"
  shows "\<exists>t. write_dentry dev ino dnum den s =
      Some (None, ino \<lparr> i_fnum := i_fnum ino + 1 \<rparr>, t) \<and>
    entry_written dev s ino (unat dnum) den (ino \<lparr> i_fnum := i_fnum ino + 1 \<rparr>) t"
proof -
  let ?i = "ino \<lparr> i_fnum := i_fnum ino + 1 \<rparr>" and ?b = "i_direct_table ino ! 0"
  let ?u = "sync_to_disk_inode dev ?i s"
  let ?buf = "put_entry (read_block dev s ?b) (unat dnum) den"
  let ?t = "write_block dev ?b ?buf ?u"
  note idx = first_block_index [OF dnum(3)]
  note bd = data_blockD [OF blk]
  have i: "inode_ok ?i" "unat (i_num ?i) < INODE_NUM" using ino by simp_all
  have g: "get_block_index_in_inode dev v ino 0 = Some ?b" "get_block_index_in_inode dev v ?i 0 = Some ?b" for v
    using ino i by (simp_all add: get_direct)
  have ru: "read_block dev ?u b = read_block dev s b" if "on_card b" "\<not> table_block b" for b
    using read_sync_inode [OF i that] by simp
  have d: "unat dnum < 32" using dnum(3) by (simp add: word_less_nat_alt)
  have len: "length ?buf = 4096" using put_entry_slices(1) [OF _ d d den] by simp
  have "write_dentry dev ino dnum den s = Some (None, ?i, ?t)"
    using dnum idx g bd ru [OF bd(1,2)] by (simp add: write_dentry_def Let_def not_less put_entry_def)
  moreover have "fs_ok dev ?t"
    using fs_ok_sync_inode [OF ok i] bd len by (intro fs_ok_write_block) simp_all
  moreover have "read_block dev ?t b = (if b = ?b then put_entry (read_block dev s b) (unat dnum) den
      else read_block dev s b)" if "on_card b" "\<not> table_block b" for b
    using that bd len ru by (simp add: read_write_block)
  moreover have "sync_from_disk_inode dev ?t k = (if k = i_num ino then ?i else sync_from_disk_inode dev s k)"
    if k: "unat k < INODE_NUM" for k
  proof -
    have "sync_from_disk_inode dev ?t k = sync_from_disk_inode dev ?u k"
      using k bd len by (intro sync_from_disk_inode_cong) (auto simp: read_write_block)
    then show ?thesis using sync_inode [OF i k] by simp
  qed
  ultimately show ?thesis by (auto simp: entry_written_def)
qed

lemma remove_dentry_ok:
  assumes ok: "fs_ok dev s" and ino: "inode_ok ino" "unat (i_num ino) < INODE_NUM"
    and dnum: "2 \<le> dnum" "dnum \<le> i_fnum ino + 2" "dnum < 32"
    and blk: "data_block (i_direct_table ino ! 0)"
  shows "\<exists>t. remove_dentry dev ino dnum s = Some (ino, t) \<and>
    entry_written dev s ino (unat dnum) zero_dentry ino t"
proof -
  let ?i = "ino \<lparr> i_fnum := i_fnum ino + 1 \<rparr>"
  have "dentry_ok zero_dentry" by (simp add: zero_dentry_def dentry_ok_def)
  then obtain u where u: "write_dentry dev ino dnum zero_dentry s = Some (None, ?i, u)"
    "entry_written dev s ino (unat dnum) zero_dentry ?i u"
    using write_dentry_ok [OF ok ino dnum blk] by blast
  let ?t = "sync_to_disk_inode dev ino u"
  have "remove_dentry dev ino dnum s = Some (ino, ?t)" by (simp add: remove_dentry_def u(1) Let_def)
  moreover have "entry_written dev s ino (unat dnum) zero_dentry ino ?t"
    using u(2) ino fs_ok_sync_inode [OF _ ino, of u] read_sync_inode [OF ino, of _ u]
      sync_inode [OF ino, of _ u]
    by (auto simp: entry_written_def)
  ultimately show ?thesis by blast
qed

lemma read_entry_written:
  assumes "entry_written dev s ino (unat dnum) den ino' t" and "inode_ok ino'" and "dnum < 32"
    and "i_direct_table ino' = i_direct_table ino" and "data_block (i_direct_table ino ! 0)"
    and "dentry_ok den"
  shows "read_dentry dev t ino' dnum = Some den"
proof -
  note idx = first_block_index [OF assms(3)]
  note bd = data_blockD [OF assms(5)]
  have d: "unat dnum * 128 + 128 \<le> 4096" using assms(3) by (simp add: word_less_nat_alt)
  have "slice (put_entry buf (unat dnum) den) (unat dnum * 128) 128 = dentry_bytes den"
    if "length buf = 4096" for buf
    using that assms(6) d unfolding put_entry_def by (intro slice_splice_same) simp_all
  then show ?thesis
    using assms(1,2,4,6) bd idx
    by (simp add: read_dentry_def Let_def get_direct entry_written_def bytes_dentry_dentry_bytes)
qed

end

end
