(* ===== verification/Fs_Ops.thy ===== *)
theory Fs_Ops
  imports Fs_Dir
begin

text \<open>
  The operations of the file system behind the system calls, \<^verbatim>\<open>kernel/fs/fs.c\<close> from \<^verbatim>\<open>init_fs\<close>
  on: making and mounting a file system, directories, files, and the links, each translated whole.
  What the functions print is left out. \<^verbatim>\<open>get_ticks()\<close> is the field \<open>fs_ticks\<close>: no timer interrupt
  is taken inside a system call. A structure on the stack that a function fills only partly has
  indeterminate bytes; they are the argument \<open>junk\<close>.
\<close>

section \<open>Making and mounting a file system\<close>

definition fresh_inode :: "u16 \<Rightarrow> u32 \<Rightarrow> u32 \<Rightarrow> u32 list \<Rightarrow> u32 \<Rightarrow> inode_t" where
  "fresh_inode fmode fsize ticks table inum =
     \<lparr> i_fmode = fmode, i_links_cnt = 1, i_fsize = fsize, i_fnum = 0,
       i_atime = ticks, i_ctime = ticks, i_mtime = ticks, i_direct_table = table,
       i_indirect_block_1_ptr = 0, i_indirect_block_2_ptr = 0, i_indirect_block_3_ptr = 0,
       i_num = inum, i_padding = replicate 10 0 \<rparr>"

text \<open>The first two entries of a directory block, written into a cleared buffer.\<close>

definition dot_block :: "u32 \<Rightarrow> u32 \<Rightarrow> u8 list option" where
  "dot_block self parent = do {
     let buf = put32 (replicate BLOCK_SIZE 0) 0 self;
     rest \<leftarrow> strcpy (drop 4 buf) [dot, 0];
     let buf = put32 (take 4 buf @ rest) DENTRY_SIZE parent;
     rest \<leftarrow> strcpy (drop (DENTRY_SIZE + 4) buf) [dot, dot, 0];
     Some (take (DENTRY_SIZE + 4) buf @ rest)
   }"

fun set_all :: "nat list \<Rightarrow> 'c fs_state \<Rightarrow> 'c fs_state option" where
  "set_all [] s = Some s"
| "set_all (i # is) s = do { s \<leftarrow> set_block_bmp (of_nat i) s; set_all is s }"

definition new_superblock :: "u8 list" where
  "new_superblock =
     (let sb = replicate BLOCK_SIZE 0;
          sb = put32 sb s_magic FS_MAGIC_NUMBER;
          sb = put32 sb s_disk_size (of_nat FS_SIZE);
          sb = put32 sb s_block_size (of_nat BLOCK_SIZE);
          sb = put32 sb s_total_blocks_cnt (of_nat BLOCK_NUM);
          sb = put32 sb s_total_inodes_cnt (of_nat INODE_NUM);
          sb = put32 sb s_blockbmp_block_index BLOCK_BMP_BLOCK_INDEX;
          sb = put32 sb s_inodebmp_block_index INODE_BMP_BLOCK_INDEX;
          sb = put32 sb s_inodetable_block_index INODE_TABLE_BLOCK_INDEX;
          sb = put32 sb s_data_block_index DATA_BLOCK_INDEX;
          sb = put32 sb s_free_blocks_cnt (of_nat BLOCK_NUM - DATA_BLOCK_INDEX);
          sb = put32 sb s_free_inode_cnt (of_nat INODE_NUM);
          sb = put32 sb s_inode_size (of_nat INODE_SIZE);
          sb = put32 sb s_dentry_size (of_nat DENTRY_SIZE)
      in sb)"

definition count_field_down :: "nat \<Rightarrow> 'c fs_state \<Rightarrow> 'c fs_state" where
  "count_field_down f s =
     s \<lparr> superblock_buffer := put32 (superblock_buffer s) f (get32 (superblock_buffer s) f - 1) \<rparr>"

definition do_mkfs :: "'c sd_dev \<Rightarrow> 'c fs_state \<Rightarrow> 'c fs_state option" where
  "do_mkfs dev s = do {
     let s = s \<lparr> superblock_buffer := replicate BLOCK_SIZE 0,
                 blockbmp_buffer := replicate BLOCK_BITMAP_SIZE 0,
                 inodebmp_block_buffer := replicate BLOCK_SIZE 0,
                 file_descriptor_table := replicate MAX_FILE_DESCRIPTOR_NUM zero_fd \<rparr>;
     let s = sync_to_disk_block_bmp dev s;
     let s = sync_to_disk_inode_bmp dev s;
     let s = s \<lparr> superblock_buffer := new_superblock \<rparr>;
     let s = sync_to_disk_superblock dev s;
     s \<leftarrow> set_all [0..<unat DATA_BLOCK_INDEX] s;
     let s = sync_to_disk_block_bmp dev s;
     s \<leftarrow> set_inode_bmp 0 s;
     let s = sync_to_disk_inode_bmp dev s;
     let s = count_field_down s_free_inode_cnt s;
     let s = sync_to_disk_superblock dev s;
     s \<leftarrow> set_block_bmp DATA_BLOCK_INDEX s;
     let s = sync_to_disk_block_bmp dev s;
     let s = count_field_down s_free_blocks_cnt s;
     let s = sync_to_disk_superblock dev s;
     let root = fresh_inode (S_IFDIR OR 0x1ed) (of_nat BLOCK_SIZE) (fs_ticks s)
       ((replicate MAX_DIRECT_NUM 0)[0 := DATA_BLOCK_INDEX]) 0;
     let s = s \<lparr> root_inode := root \<rparr>;
     let s = sync_to_disk_inode dev root s;
     buf \<leftarrow> dot_block 0 0;
     let s = sync_to_disk_dentry dev DATA_BLOCK_INDEX buf s;
     Some (s \<lparr> current_dir := root_inode s \<rparr>)
   }"

definition init_fs :: "'c sd_dev \<Rightarrow> 'c fs_state \<Rightarrow> 'c fs_state option" where
  "init_fs dev s =
     (let s = sync_from_disk_superblock dev s
      in if get32 (superblock_buffer s) s_magic = FS_MAGIC_NUMBER then
           let s = sync_from_disk_block_bmp dev s;
               s = sync_from_disk_inode_bmp dev s;
               s = s \<lparr> root_inode := sync_from_disk_inode dev s 0 \<rparr>
           in Some (s \<lparr> current_dir := root_inode s \<rparr>)
         else do_mkfs dev s)"

definition do_statfs :: "'c sd_dev \<Rightarrow> 'c fs_state \<Rightarrow> 'c fs_state" where
  "do_statfs dev s = sync_from_disk_superblock dev s"

section \<open>Directories\<close>

definition ERROR_DUP_DIR_NAME :: u32 where "ERROR_DUP_DIR_NAME = -1"

definition path_copy :: "u8 list \<Rightarrow> u8 list option" where
  "path_copy path = do {
     n \<leftarrow> strlen path;
     path_buffer \<leftarrow> memcpy (replicate MAX_PATH_LENGTH 0) path n;
     store path_buffer n 0
   }"

definition split_path :: "u8 list \<Rightarrow> (u8 list \<times> u8 list) option" where
  "split_path path_buffer =
     separate_path path_buffer (replicate MAX_PATH_LENGTH 0) (replicate MAX_NAME_LENGTH 0)"

definition named_dentry :: "dentry_t \<Rightarrow> u32 \<Rightarrow> u8 list \<Rightarrow> dentry_t option" where
  "named_dentry junk inum name = do {
     nm \<leftarrow> strcpy (d_name junk) name;
     Some (junk \<lparr> d_inum := inum, d_name := nm \<rparr>)
   }"

definition do_mkdir ::
    "'c sd_dev \<Rightarrow> dentry_t \<Rightarrow> u8 list \<Rightarrow> u16 \<Rightarrow> 'c fs_state \<Rightarrow> (u32 \<times> 'c fs_state) option" where
  "do_mkdir dev junk path mode s = do {
     path_buffer \<leftarrow> path_copy path;
     (parent_buffer, name_buffer) \<leftarrow> split_path path_buffer;
     parent_inum \<leftarrow> find_file dev s (current_dir s) parent_buffer;
     let s = sync_from_disk_block_bmp dev s;
     let s = sync_from_disk_inode_bmp dev s;
     let parent_inode = sync_from_disk_inode dev s parent_inum;
     d \<leftarrow> find_dentry dev s parent_inode name_buffer;
     if d \<noteq> -1 then Some (ERROR_DUP_DIR_NAME, s)
     else do {
       (free_inum, s) \<leftarrow> alloc_inode dev s;
       (free_block_index, s) \<leftarrow> alloc_block dev s;
       let new_inode = fresh_inode (S_IFDIR OR mode) (of_nat BLOCK_SIZE) (fs_ticks s)
         ((replicate MAX_DIRECT_NUM 0)[0 := free_block_index]) free_inum;
       let s = sync_to_disk_inode dev new_inode s;
       buf \<leftarrow> dot_block free_inum parent_inum;
       let s = sync_to_disk_dentry dev free_block_index buf s;
       den \<leftarrow> named_dentry junk free_inum name_buffer;
       (_, _, s) \<leftarrow> write_dentry dev parent_inode (i_fnum parent_inode + 2) den s;
       Some (0, s)
     }
   }"

definition do_rmdir :: "'c sd_dev \<Rightarrow> u8 list \<Rightarrow> 'c fs_state \<Rightarrow> 'c fs_state option" where
  "do_rmdir dev path s = do {
     let s = sync_from_disk_block_bmp dev s;
     let s = sync_from_disk_inode_bmp dev s;
     path_buffer \<leftarrow> path_copy path;
     (parent_buffer, name_buffer) \<leftarrow> split_path path_buffer;
     parent_inum \<leftarrow> find_file dev s (current_dir s) parent_buffer;
     let parent_inode = sync_from_disk_inode dev s parent_inum;
     child_inum \<leftarrow> find_file dev s parent_inode name_buffer;
     let child_inode = sync_from_disk_inode dev s child_inum;
     s \<leftarrow> unset_inode_bmp child_inum s;
     let s = sync_to_disk_inode_bmp dev s;
     s \<leftarrow> release_inode_block dev child_inode s;
     let s = sync_to_disk_block_bmp dev s;
     dnum \<leftarrow> find_dentry dev s parent_inode name_buffer;
     (parent_inode, s) \<leftarrow> remove_dentry dev parent_inode dnum s;
     Some (sync_to_disk_inode dev parent_inode s)
   }"

text \<open>
  Listing copies the entries of the directory to \<^verbatim>\<open>ls_buffer\<close>, ten cells long, and stops at three
  empty entries in a row. Looking at the entries after the last of a block reads past the buffer.
\<close>

definition entry_at :: "u8 list \<Rightarrow> nat \<Rightarrow> dentry_t option" where
  "entry_at p j = (if j < DENTRY_NUM_PER_BLOCK
     then Some (bytes_dentry (slice p (DENTRY_SIZE * j) DENTRY_SIZE)) else None)"

definition three_empty :: "u8 list \<Rightarrow> nat \<Rightarrow> bool option" where
  "three_empty p j = do {
     d \<leftarrow> entry_at p (j + 1);
     if is_empty_dnetry d then do { e \<leftarrow> entry_at p (j + 2); Some (is_empty_dnetry e) }
     else Some False
   }"

function ls_block :: "u8 list \<Rightarrow> nat \<Rightarrow> nat \<Rightarrow> dentry_t list \<Rightarrow> (bool \<times> nat \<times> dentry_t list) option" where
  "ls_block p j k ls =
     (if j < DENTRY_NUM_PER_BLOCK then do {
        d \<leftarrow> entry_at p j;
        if \<not> is_empty_dnetry d then do { ls \<leftarrow> store ls k d; ls_block p (j + 1) (k + 1) ls }
        else do {
          stop \<leftarrow> three_empty p j;
          if stop then Some (True, k, ls) else ls_block p (j + 1) k ls
        }
      } else Some (False, k, ls))"
  by pat_completeness auto
termination by (relation "measure (\<lambda>(p, j, k, ls). 32 - j)") auto

function ls_dir ::
    "'c sd_dev \<Rightarrow> 'c fs_state \<Rightarrow> inode_t \<Rightarrow> nat \<Rightarrow> nat \<Rightarrow> dentry_t list \<Rightarrow> dentry_t list option" where
  "ls_dir dev s ino i k ls =
     (if i < MAX_BLOCK_INDEX then do {
        block_index \<leftarrow> get_block_index_in_inode dev s ino (of_nat i);
        (stop, k, ls) \<leftarrow> ls_block (read_block dev s block_index) 0 k ls;
        if stop then Some ls else ls_dir dev s ino (i + 1) k ls
      } else Some ls)"
  by pat_completeness auto
termination by (relation "measure (\<lambda>(dev, s, ino, i, k, ls). MAX_BLOCK_INDEX - i)") auto

declare ls_block.simps [simp del] ls_dir.simps [simp del]

definition do_ls :: "'c sd_dev \<Rightarrow> 'c fs_state \<Rightarrow> 'c fs_state option" where
  "do_ls dev s = do {
     let ls = replicate MAX_LS_NUM zero_dentry;
     s \<leftarrow> (if S_ISLNK (i_fmode (current_dir s)) then do {
         block_index \<leftarrow> load (i_direct_table (current_dir s)) 0;
         let data_block_buffer = sync_from_disk_file_data dev s block_index;
         rest \<leftarrow> strcpy (replicate (MAX_PATH_LENGTH - 1) 0) (drop (DENTRY_SIZE * 2) data_block_buffer);
         inum \<leftarrow> parse_path dev s (dot # rest) (root_inode s);
         Some (s \<lparr> current_dir_link := sync_from_disk_inode dev s inum \<rparr>)
       } else Some s);
     ls \<leftarrow> ls_dir dev s
       (if S_ISLNK (i_fmode (current_dir s)) then current_dir_link s else current_dir s) 0 0 ls;
     Some (s \<lparr> ls_buffer := ls \<rparr>)
   }"

definition cd_step :: "'c sd_dev \<Rightarrow> u8 list \<Rightarrow> 'c fs_state \<Rightarrow> (bool \<times> 'c fs_state) option" where
  "cd_step dev name s = do {
     inum \<leftarrow> find_file dev s (current_dir s) name;
     if inum \<noteq> -1 then Some (True, s \<lparr> current_dir := sync_from_disk_inode dev s inum \<rparr>)
     else Some (False, s)
   }"

definition do_cd :: "'c sd_dev \<Rightarrow> u8 list \<Rightarrow> 'c fs_state \<Rightarrow> 'c fs_state option" where
  "do_cd dev name s = do {
     n \<leftarrow> strlen name;
     path_buffer \<leftarrow> memcpy (replicate MAX_PATH_LENGTH 0) name n;
     _ \<leftarrow> store (replicate MAX_PATH_LENGTH (0 :: u8)) n 0;
     cnt \<leftarrow> count_char_in_string slash path_buffer;
     if cnt = 0 then map_option snd (cd_step dev name s)
     else if cnt = 1 then do {
       (parent_buffer, name_buffer) \<leftarrow> split_path path_buffer;
       (found, s) \<leftarrow> cd_step dev parent_buffer s;
       if found then map_option snd (cd_step dev name_buffer s) else Some s
     }
     else if cnt = 2 then do {
       (parent_buffer, name_buffer) \<leftarrow> split_path path_buffer;
       (parent_buffer_1, parent_buffer_2) \<leftarrow>
         separate_path parent_buffer (replicate MAX_PATH_LENGTH 0) (replicate MAX_PATH_LENGTH 0);
       (found, s) \<leftarrow> cd_step dev parent_buffer_1 s;
       if found then do {
         (found, s) \<leftarrow> cd_step dev parent_buffer_2 s;
         if found then map_option snd (cd_step dev name_buffer s) else Some s
       }
       else Some s
     }
     else Some s
   }"

section \<open>Files\<close>

definition dotted_path :: "u8 list \<Rightarrow> u8 list option" where
  "dotted_path name = do {
     path_buffer \<leftarrow> strcpy (replicate MAX_PATH_LENGTH 0) [dot, slash, 0];
     rest \<leftarrow> strcpy (drop 2 path_buffer) name;
     Some (take 2 path_buffer @ rest)
   }"

fun find_fd :: "u32 \<Rightarrow> nat \<Rightarrow> file_descriptor_t list \<Rightarrow> nat option" where
  "find_fd inum i [] = None"
| "find_fd inum i (fd # fds) = (if fd_inum fd = inum then Some i else find_fd inum (Suc i) fds)"

fun first_empty_fd :: "nat \<Rightarrow> file_descriptor_t list \<Rightarrow> nat option" where
  "first_empty_fd j [] = None"
| "first_empty_fd j (fd # fds) = (if is_empty_fd fd then Some j else first_empty_fd (Suc j) fds)"

definition do_fopen ::
    "'c sd_dev \<Rightarrow> u8 list \<Rightarrow> u32 \<Rightarrow> 'c fs_state \<Rightarrow> (nat \<times> 'c fs_state) option" where
  "do_fopen dev name mode s = do {
     path_buffer \<leftarrow> dotted_path name;
     (parent_buffer, name_buffer) \<leftarrow> split_path path_buffer;
     parent_inum \<leftarrow> find_file dev s (current_dir s) parent_buffer;
     let parent_inode = sync_from_disk_inode dev s parent_inum;
     child_inum \<leftarrow> find_file dev s parent_inode name_buffer;
     case find_fd child_inum 0 (file_descriptor_table s) of
       Some i \<Rightarrow> Some (i, s)
     | None \<Rightarrow> do {
         j \<leftarrow> first_empty_fd 0 (file_descriptor_table s);
         let fd = \<lparr> fd_inum = child_inum, fd_mode = mode, fd_r_offset = 0, fd_w_offset = 0 \<rparr>;
         Some (j, s \<lparr> file_descriptor_table := (file_descriptor_table s)[j := fd] \<rparr>)
       }
   }"

text \<open>The allocation loop of \<^verbatim>\<open>do_fwrite\<close>: \<open>n\<close> blocks for the table cells from \<open>begin_block + i\<close> on.\<close>

fun fwrite_alloc ::
    "'c sd_dev \<Rightarrow> nat \<Rightarrow> u32 \<Rightarrow> nat \<Rightarrow> inode_t \<Rightarrow> 'c fs_state \<Rightarrow> (inode_t \<times> 'c fs_state) option" where
  "fwrite_alloc dev 0 begin_block i ino s = Some (ino, s)"
| "fwrite_alloc dev (Suc n) begin_block i ino s = do {
     (free_index, s) \<leftarrow> alloc_pointer_block dev s;
     let ino = grow (ino \<lparr> i_indirect_block_1_ptr := free_index \<rparr>);
     table \<leftarrow> store (i_direct_table ino) (unat (begin_block + of_nat i)) free_index;
     let ino = ino \<lparr> i_direct_table := table \<rparr>;
     fwrite_alloc dev n begin_block (Suc i) ino (sync_to_disk_inode dev ino s)
   }"

function read_range ::
    "'c sd_dev \<Rightarrow> 'c fs_state \<Rightarrow> u32 \<Rightarrow> u32 \<Rightarrow> nat \<Rightarrow> u8 list \<Rightarrow> u8 list option" where
  "read_range dev s begin_index end_index k buf =
     (if begin_index + of_nat k \<le> end_index then
        (if BLOCK_SIZE * k + BLOCK_SIZE \<le> FILE_READ_MAX_LENGTH
         then read_range dev s begin_index end_index (Suc k)
                (splice buf (BLOCK_SIZE * k) (read_block dev s (begin_index + of_nat k)))
         else None)
      else Some buf)"
  by pat_completeness auto
termination by (relation "measure (\<lambda>(dev, s, f, l, k, buf). 5 - k)") auto

function write_range ::
    "'c sd_dev \<Rightarrow> u32 \<Rightarrow> u32 \<Rightarrow> nat \<Rightarrow> u8 list \<Rightarrow> 'c fs_state \<Rightarrow> 'c fs_state option" where
  "write_range dev begin_index end_index k buf s =
     (if begin_index + of_nat k \<le> end_index then
        (if BLOCK_SIZE * k + BLOCK_SIZE \<le> FILE_WRITE_MAX_LENGTH
         then write_range dev begin_index end_index (Suc k) buf
                (write_block dev (begin_index + of_nat k) (slice buf (BLOCK_SIZE * k) BLOCK_SIZE) s)
         else None)
      else Some s)"
  by pat_completeness auto
termination by (relation "measure (\<lambda>(dev, f, l, k, buf, s). 5 - k)") auto

declare read_range.simps [simp del] write_range.simps [simp del]

definition do_fwrite ::
    "'c sd_dev \<Rightarrow> nat \<Rightarrow> u8 list \<Rightarrow> u32 \<Rightarrow> 'c fs_state \<Rightarrow> (u32 \<times> 'c fs_state) option" where
  "do_fwrite dev fd buffer len s = do {
     f \<leftarrow> load (file_descriptor_table s) fd;
     let begin_block = fd_w_offset f div of_nat BLOCK_SIZE;
     let end_block = (fd_w_offset f + len) div of_nat BLOCK_SIZE;
     let block_need = end_block - begin_block;
     let ino = sync_from_disk_inode dev s (fd_inum f);
     (ino, s) \<leftarrow> (if fd_w_offset f = 0 then fwrite_alloc dev (unat block_need + 1) begin_block 0 ino s
                  else if block_need \<noteq> 0 then fwrite_alloc dev (unat block_need) begin_block 1 ino s
                  else Some (ino, s));
     begin_index \<leftarrow> get_block_index_in_inode dev s ino begin_block;
     end_index \<leftarrow> get_block_index_in_inode dev s ino end_block;
     buf \<leftarrow> read_range dev s begin_index end_index 0 (replicate FILE_WRITE_MAX_LENGTH 0);
     let off = unat (fd_w_offset f mod of_nat BLOCK_SIZE);
     rest \<leftarrow> memcpy (drop off buf) buffer (unat len);
     let buf = take off buf @ rest;
     let f = f \<lparr> fd_w_offset := fd_w_offset f + len \<rparr>;
     let s = s \<lparr> file_descriptor_table := (file_descriptor_table s)[fd := f] \<rparr>;
     s \<leftarrow> write_range dev begin_index end_index 0 buf s;
     Some (len, s)
   }"

definition do_fread ::
    "'c sd_dev \<Rightarrow> nat \<Rightarrow> u8 list \<Rightarrow> u32 \<Rightarrow> 'c fs_state \<Rightarrow> (u32 \<times> u8 list \<times> 'c fs_state) option" where
  "do_fread dev fd buffer len s = do {
     f \<leftarrow> load (file_descriptor_table s) fd;
     let begin_block = fd_r_offset f div of_nat BLOCK_SIZE;
     let end_block = (fd_r_offset f + len) div of_nat BLOCK_SIZE;
     let ino = sync_from_disk_inode dev s (fd_inum f);
     begin_index \<leftarrow> get_block_index_in_inode dev s ino begin_block;
     end_index \<leftarrow> get_block_index_in_inode dev s ino end_block;
     buf \<leftarrow> read_range dev s begin_index end_index 0 (replicate FILE_READ_MAX_LENGTH 0);
     buffer \<leftarrow> memcpy buffer (drop (unat (fd_r_offset f mod of_nat BLOCK_SIZE)) buf) (unat len);
     let f = f \<lparr> fd_r_offset := fd_r_offset f + len \<rparr>;
     Some (len, buffer, s \<lparr> file_descriptor_table := (file_descriptor_table s)[fd := f] \<rparr>)
   }"

definition do_fclose :: "nat \<Rightarrow> 'c fs_state \<Rightarrow> 'c fs_state option" where
  "do_fclose fd s = do {
     table \<leftarrow> store (file_descriptor_table s) fd zero_fd;
     Some (s \<lparr> file_descriptor_table := table \<rparr>)
   }"

definition do_touch ::
    "'c sd_dev \<Rightarrow> dentry_t \<Rightarrow> u8 list \<Rightarrow> u16 \<Rightarrow> 'c fs_state \<Rightarrow> (u32 \<times> 'c fs_state) option" where
  "do_touch dev junk name mode s = do {
     path_buffer \<leftarrow> dotted_path name;
     (parent_buffer, name_buffer) \<leftarrow> split_path path_buffer;
     parent_inum \<leftarrow> find_file dev s (current_dir s) parent_buffer;
     let s = sync_from_disk_block_bmp dev s;
     let s = sync_from_disk_inode_bmp dev s;
     let parent_inode = sync_from_disk_inode dev s parent_inum;
     d \<leftarrow> find_dentry dev s parent_inode name_buffer;
     if d \<noteq> -1 then Some (ERROR_DUP_DIR_NAME, s)
     else do {
       (free_inum, s) \<leftarrow> alloc_inode dev s;
       let new_inode = fresh_inode (S_IFREG OR mode) 0 (fs_ticks s) (replicate MAX_DIRECT_NUM 0) free_inum;
       let s = sync_to_disk_inode dev new_inode s;
       den \<leftarrow> named_dentry junk free_inum name_buffer;
       (_, _, s) \<leftarrow> write_dentry dev parent_inode (i_fnum parent_inode + 2) den s;
       Some (0, s)
     }
   }"

abbreviation (input) O_RDWR :: u32 where "O_RDWR \<equiv> 2"

definition do_cat :: "'c sd_dev \<Rightarrow> u8 list \<Rightarrow> 'c fs_state \<Rightarrow> 'c fs_state option" where
  "do_cat dev name s = do {
     let s = s \<lparr> cat_buffer := replicate CAT_MAX_LENGTH 0 \<rparr>;
     (fd, s) \<leftarrow> do_fopen dev name O_RDWR s;
     f \<leftarrow> load (file_descriptor_table s) fd;
     let s = s \<lparr> file_descriptor_table := (file_descriptor_table s)[fd := f \<lparr> fd_r_offset := 0 \<rparr>] \<rparr>;
     (_, buf, s) \<leftarrow> do_fread dev fd (cat_buffer s) CAT_LENGTH s;
     buf \<leftarrow> store buf (unat CAT_LENGTH) 0;
     Some (s \<lparr> cat_buffer := buf \<rparr>)
   }"

section \<open>Searching, renaming and linking\<close>

definition find_step :: "'c sd_dev \<Rightarrow> 'c fs_state \<Rightarrow> u8 list \<Rightarrow> inode_t \<Rightarrow> inode_t option option" where
  "find_step dev s name dir = do {
     inum \<leftarrow> u_find_file dev s dir name;
     Some (if inum \<noteq> -1 then Some (sync_from_disk_inode dev s inum) else None)
   }"

fun find_steps :: "'c sd_dev \<Rightarrow> 'c fs_state \<Rightarrow> u8 list list \<Rightarrow> inode_t \<Rightarrow> u32 option" where
  "find_steps dev s [] dir = Some 1"
| "find_steps dev s (name # names) dir = do {
     r \<leftarrow> find_step dev s name dir;
     case r of Some dir \<Rightarrow> find_steps dev s names dir | None \<Rightarrow> Some 0
   }"

definition do_find :: "'c sd_dev \<Rightarrow> 'c fs_state \<Rightarrow> u8 list \<Rightarrow> u8 list \<Rightarrow> u32 option" where
  "do_find dev s path name = do {
     n \<leftarrow> strlen path;
     path_buffer \<leftarrow> memcpy (replicate MAX_PATH_LENGTH 0) path n;
     _ \<leftarrow> store (replicate MAX_PATH_LENGTH (0 :: u8)) n 0;
     cnt \<leftarrow> count_char_in_string slash path_buffer;
     if cnt = 0 then find_steps dev s [name] (current_dir s)
     else if cnt = 1 then do {
       (parent_buffer, name_buffer) \<leftarrow> split_path path_buffer;
       find_steps dev s [parent_buffer, name_buffer] (current_dir s)
     }
     else if cnt = 2 then do {
       (parent_buffer, name_buffer) \<leftarrow> split_path path_buffer;
       (parent_buffer_1, parent_buffer_2) \<leftarrow>
         separate_path parent_buffer (replicate MAX_PATH_LENGTH 0) (replicate MAX_PATH_LENGTH 0);
       find_steps dev s [parent_buffer_1, parent_buffer_2, name_buffer] (current_dir s)
     }
     else None
   }"

definition do_rename :: "'c sd_dev \<Rightarrow> u8 list \<Rightarrow> u8 list \<Rightarrow> 'c fs_state \<Rightarrow> 'c fs_state option" where
  "do_rename dev old_name new_name s = do {
     path_buffer \<leftarrow> dotted_path old_name;
     (parent_buffer, name_buffer) \<leftarrow> split_path path_buffer;
     parent_inum \<leftarrow> find_file dev s (current_dir s) parent_buffer;
     let parent_inode = sync_from_disk_inode dev s parent_inum;
     child_inum \<leftarrow> find_file dev s parent_inode name_buffer;
     dnum \<leftarrow> find_dentry dev s parent_inode old_name;
     n \<leftarrow> strlen new_name;
     nm \<leftarrow> memcpy (d_name zero_dentry) new_name n;
     let den = zero_dentry \<lparr> d_inum := child_inum, d_name := nm \<rparr>;
     (_, _, s) \<leftarrow> write_dentry dev parent_inode dnum den s;
     Some s
   }"

definition do_link :: "'c sd_dev \<Rightarrow> dentry_t \<Rightarrow> u8 list \<Rightarrow> u8 list \<Rightarrow> 'c fs_state \<Rightarrow> 'c fs_state option" where
  "do_link dev junk src_path new_path s = do {
     src_inum \<leftarrow> parse_path dev s src_path (current_dir s);
     let src_inode = sync_from_disk_inode dev s src_inum;
     if S_ISDIR (i_fmode src_inode) then Some s
     else do {
       path_buffer \<leftarrow> strcpy (replicate MAX_PATH_LENGTH 0) new_path;
       (parent_buffer, name_buffer) \<leftarrow> split_path path_buffer;
       parent_inum \<leftarrow> parse_path dev s parent_buffer (current_dir s);
       let parent_inode = sync_from_disk_inode dev s parent_inum;
       let src_inode = src_inode \<lparr> i_links_cnt := i_links_cnt src_inode + 1 \<rparr>;
       let s = sync_to_disk_inode dev src_inode s;
       den \<leftarrow> named_dentry junk src_inum name_buffer;
       (_, _, s) \<leftarrow> write_dentry dev parent_inode (i_fnum parent_inode + 2) den s;
       Some s
     }
   }"

definition do_symlink :: "'c sd_dev \<Rightarrow> dentry_t \<Rightarrow> u8 list \<Rightarrow> u8 list \<Rightarrow> 'c fs_state \<Rightarrow> 'c fs_state option" where
  "do_symlink dev junk src_path new_path s = do {
     rest \<leftarrow> strcpy (replicate (MAX_PATH_LENGTH - 1) 0) src_path;
     (parent_buffer, name_buffer) \<leftarrow> split_path (dot # rest);
     parent_inum \<leftarrow> parse_path dev s new_path (current_dir s);
     let s = sync_from_disk_block_bmp dev s;
     let s = sync_from_disk_inode_bmp dev s;
     let parent_inode = sync_from_disk_inode dev s parent_inum;
     (free_inum, s) \<leftarrow> alloc_inode dev s;
     (free_block_index, s) \<leftarrow> alloc_block dev s;
     let new_inode = fresh_inode S_IFLNK (of_nat BLOCK_SIZE) (fs_ticks s)
       ((replicate MAX_DIRECT_NUM 0)[0 := free_block_index]) free_inum;
     let s = sync_to_disk_inode dev new_inode s;
     buf \<leftarrow> dot_block free_inum parent_inum;
     let s = sync_to_disk_dentry dev free_block_index buf s;
     let data = sync_from_disk_file_data dev s free_block_index;
     n \<leftarrow> strlen src_path;
     rest \<leftarrow> memcpy (drop (DENTRY_SIZE * 2) data) src_path n;
     data \<leftarrow> store (take (DENTRY_SIZE * 2) data @ rest) (DENTRY_SIZE * 2 + n) 0;
     let s = sync_to_disk_file_data dev free_block_index data s;
     den \<leftarrow> named_dentry junk free_inum name_buffer;
     (_, _, s) \<leftarrow> write_dentry dev parent_inode (i_fnum parent_inode + 2) den s;
     Some s
   }"

end
