(* ===== verification/Fs_Mkfs.thy ===== *)
theory Fs_Mkfs
  imports Fs_Ops
begin

text \<open>
  Making a file system and mounting it: \<^verbatim>\<open>do_mkfs\<close> establishes the invariant \<open>fs_ok\<close> with exactly
  the system area, the root directory and the root inode in use, and \<^verbatim>\<open>init_fs\<close> brings a file
  system on the card back into memory.
\<close>

section \<open>Parts of mkfs\<close>

lemma bits_replicate [simp]: "bits (replicate n 0) = {}"
proof -
  have "i \<notin> bits (replicate n 0)" for i
    by (cases "i < 8 * n") (auto simp: bits_def byte_in)
  then show ?thesis by blast
qed

lemma set_all_spec:
  "(\<And>i. i \<in> set is \<Longrightarrow> i < BLOCK_NUM) \<Longrightarrow> length (blockbmp_buffer s) = BLOCK_BITMAP_SIZE \<Longrightarrow>
   \<exists>bm. set_all is s = Some (s \<lparr> blockbmp_buffer := bm \<rparr>) \<and> length bm = BLOCK_BITMAP_SIZE \<and>
     bits bm = bits (blockbmp_buffer s) \<union> set is"
proof (induction "is" arbitrary: s)
  case Nil
  then show ?case by (intro exI [of _ "blockbmp_buffer s"]) simp
next
  case (Cons i "is")
  have u: "unat (of_nat i :: u32) = i" using Cons.prems(1) [of i] by (simp add: unat_of_nat)
  obtain b where b: "set_bitmap (blockbmp_buffer s) (of_nat i) = Some b" "length b = 32768"
    "bits b = insert i (bits (blockbmp_buffer s))"
    using set_bitmap_spec [of "of_nat i" "blockbmp_buffer s"] Cons.prems u by auto
  show ?case
    using Cons.IH [of "s \<lparr> blockbmp_buffer := b \<rparr>"] Cons.prems b by (auto simp: set_block_bmp_def)
qed

lemma put32_block:
  assumes "length buf = 4096"
  shows "off \<le> 4092 \<Longrightarrow> length (put32 buf off w) = 4096"
    and "off \<le> 4092 \<Longrightarrow> get32 (put32 buf off w) off = w"
    and "off \<le> 4092 \<Longrightarrow> off' \<le> 4092 \<Longrightarrow> off' + 4 \<le> off \<or> off + 4 \<le> off' \<Longrightarrow>
      get32 (put32 buf off w) off' = get32 buf off'"
  using assms by (simp_all add: mem_simps)

lemma new_superblock_fields:
  "length new_superblock = BLOCK_SIZE"
  "get32 new_superblock s_magic = FS_MAGIC_NUMBER"
  "get32 new_superblock s_free_inode_cnt = 8192"
  "get32 new_superblock s_free_blocks_cnt = 261878"
  "get32 new_superblock s_total_blocks_cnt = 262144"
  "get32 new_superblock s_total_inodes_cnt = 8192"
  by (simp_all add: new_superblock_def Let_def put32_block del: length_put32)

text \<open>The first block of a new directory.\<close>

lemma dot_block_bytes:
  "dot_block self parent = Some (le32 self @ [dot] @ replicate 123 0 @
     le32 parent @ [dot, dot] @ replicate 3962 0)"
proof -
  have a: "put32 (replicate 4096 0) 0 self = le32 self @ replicate 4092 0"
    by (simp add: put32_def splice_def)
  have b: "strcpy (replicate 4092 0) [dot, 0] = Some (dot # replicate 4091 0)"
    using strcpy_cstr [of "[dot]" "replicate 4092 0" "[]"] replicate_Suc [of 4090 "0 :: u8"]
    by simp
  have c: "put32 (le32 self @ dot # replicate 4091 0) 128 parent =
      le32 self @ [dot] @ replicate 123 0 @ le32 parent @ replicate 3964 0"
  proof -
    have "le32 self @ dot # replicate 4091 0 =
        (le32 self @ [dot] @ replicate 123 0) @ replicate 4 0 @ replicate 3964 0"
      by (simp flip: replicate_add)
    then show ?thesis by (simp add: put32_def splice_def)
  qed
  have d: "strcpy (replicate 3964 0) [dot, dot, 0] = Some (dot # dot # replicate 3962 0)"
    using strcpy_cstr [of "[dot, dot]" "replicate 3964 0" "[]"] replicate_Suc [of 3961 "0 :: u8"]
    by simp
  show ?thesis
    by (simp add: dot_block_def a b c d Let_def)
qed

lemma dot_block_facts:
  assumes "dot_block self parent = Some buf"
  shows "length buf = BLOCK_SIZE" and "dir_block_ok buf"
    and "entry_name buf 0 = [dot]" and "entry_inum buf 0 = self"
    and "entry_name buf 1 = [dot, dot]" and "entry_inum buf 1 = parent"
    and "2 \<le> j \<Longrightarrow> j < DENTRY_NUM_PER_BLOCK \<Longrightarrow> entry_name buf j = []"
proof -
  have buf: "buf = le32 self @ [dot] @ replicate 123 0 @ le32 parent @ [dot, dot] @ replicate 3962 0"
    using assms by (simp add: dot_block_bytes)
  show len: "length buf = BLOCK_SIZE" by (simp add: buf)
  have s0: "slice buf 4 64 = dot # replicate 63 0" by (simp add: buf slice_def)
  have s1: "slice buf 132 64 = dot # dot # replicate 62 0" by (simp add: buf slice_def)
  have s2: "slice buf (128 * j + 4) 64 = replicate 64 0" if "2 \<le> j" "j < 32" for j
    using that by (intro nth_equalityI) (auto simp: len nth_slice buf nth_append)
  have s: "slice buf (128 * j + 4) 64 = (if j = 0 then dot # replicate 63 0
      else if j = 1 then dot # dot # replicate 62 0 else replicate 64 0)" if "j < 32" for j
    using s0 s1 s2 that by (cases "j = 0"; cases "j = 1") auto
  show "dir_block_ok buf" using len s by (auto simp: dir_block_ok_def)
  show "entry_name buf 0 = [dot]" "entry_name buf 1 = [dot, dot]"
    using s [of 0] s [of 1] by (simp_all add: entry_name_def takeWhile_replicate)
  show "entry_name buf j = []" if "2 \<le> j" "j < DENTRY_NUM_PER_BLOCK"
    using s [of j] that by (simp add: entry_name_def takeWhile_replicate)
  show "entry_inum buf 0 = self" by (simp add: entry_inum_def buf get32_def slice_def)
  show "entry_inum buf 1 = parent" by (simp add: entry_inum_def buf get32_def slice_def)
qed

lemma dot_block_lookup:
  assumes "dot_block self parent = Some buf"
  shows "dir_lookup buf [dot] = Some 0" and "dir_lookup buf [dot, dot] = Some 1"
    and "cs \<noteq> [dot] \<Longrightarrow> cs \<noteq> [dot, dot] \<Longrightarrow> cs \<noteq> [] \<Longrightarrow> dir_lookup buf cs = None"
proof -
  note D = dot_block_facts [OF assms]
  show "dir_lookup buf [dot] = Some 0" using D by (intro dir_lookup_eqI) auto
  show "dir_lookup buf [dot, dot] = Some 1" using D by (intro dir_lookup_eqI) auto
  show "dir_lookup buf cs = None" if "cs \<noteq> [dot]" "cs \<noteq> [dot, dot]" "cs \<noteq> []"
  proof (cases "dir_lookup buf cs")
    case (Some j)
    then have "j < 32" "entry_name buf j = cs" using dir_lookup_SomeD by blast+
    then show ?thesis using D that by (cases "j = 0"; cases "j = 1") auto
  qed simp
qed

section \<open>mkfs\<close>

lemma fs_ok_frame [simp]:
  "fs_ok dev (s \<lparr> root_inode := ino \<rparr>) = fs_ok dev s"
  "fs_ok dev (s \<lparr> current_dir := ino \<rparr>) = fs_ok dev s"
  "fs_ok dev (s \<lparr> file_descriptor_table := v \<rparr>) = fs_ok dev s"
  by (simp_all add: fs_ok_def sizes_ok_def free_blocks_def free_inodes_def)

lemma count_field_down_frame [simp]:
  "blockbmp_buffer (count_field_down f s) = blockbmp_buffer s"
  "inodebmp_block_buffer (count_field_down f s) = inodebmp_block_buffer s"
  "file_descriptor_table (count_field_down f s) = file_descriptor_table s"
  "superblock_buffer (count_field_down f s) =
     put32 (superblock_buffer s) f (get32 (superblock_buffer s) f - 1)"
  "read_block dev (count_field_down f s) b = read_block dev s b"
  "disk_block_bmp dev (count_field_down f s) = disk_block_bmp dev s"
  "fs_ticks (count_field_down f s) = fs_ticks s"
  by (simp_all add: count_field_down_def)

definition root_of :: "u32 \<Rightarrow> inode_t" where
  "root_of ticks = fresh_inode (S_IFDIR OR 0x1ed) 4096 ticks ((replicate 12 0)[0 := 266]) 0"

lemma root_of_facts [simp]:
  "inode_ok (root_of n)" "i_num (root_of n) = 0" "i_direct_table (root_of n) ! 0 = 266"
  "i_fnum (root_of n) = 0"
  by (simp_all add: root_of_def fresh_inode_def inode_ok_def)

lemma system_area: "i \<in> set [0..<266] \<Longrightarrow> i < BLOCK_NUM"
  by (simp del: upt_rec_numeral)

text \<open>What \<^verbatim>\<open>do_mkfs\<close> leaves behind, in memory and on the card.\<close>

definition fresh_fs :: "'c sd_dev \<Rightarrow> 'c fs_state \<Rightarrow> 'c fs_state \<Rightarrow> bool" where
  "fresh_fs dev s t \<longleftrightarrow> fs_ok dev t \<and> free_blocks t = {267..<BLOCK_NUM} \<and> free_inodes t = {1..<INODE_NUM} \<and>
     get32 (superblock_buffer t) s_magic = FS_MAGIC_NUMBER \<and>
     root_inode t = root_of (fs_ticks s) \<and> current_dir t = root_inode t \<and>
     sync_from_disk_inode dev t 0 = root_inode t \<and>
     dot_block 0 0 = Some (read_block dev t 266) \<and>
     file_descriptor_table t = replicate MAX_FILE_DESCRIPTOR_NUM zero_fd"

context sd_card
begin

lemma do_mkfs_ok: "\<exists>t. do_mkfs dev s = Some t \<and> fresh_fs dev s t"
proof -
  define s0 where "s0 = s \<lparr> superblock_buffer := replicate BLOCK_SIZE 0,
    blockbmp_buffer := replicate BLOCK_BITMAP_SIZE 0, inodebmp_block_buffer := replicate BLOCK_SIZE 0,
    file_descriptor_table := replicate MAX_FILE_DESCRIPTOR_NUM zero_fd \<rparr>"
  define s4 where "s4 = sync_to_disk_superblock dev ((sync_to_disk_inode_bmp dev
    (sync_to_disk_block_bmp dev s0)) \<lparr> superblock_buffer := new_superblock \<rparr>)"
  have s4: "superblock_buffer s4 = new_superblock" "blockbmp_buffer s4 = replicate 32768 0"
    "inodebmp_block_buffer s4 = replicate 4096 0" "fs_ticks s4 = fs_ticks s"
    "file_descriptor_table s4 = replicate 32 zero_fd"
    by (simp_all add: s4_def s0_def)
  obtain bm1 where bm1: "set_all [0..<266] s4 = Some (s4 \<lparr> blockbmp_buffer := bm1 \<rparr>)"
    "length bm1 = 32768" "bits bm1 = {..<266}"
    using set_all_spec [of "[0..<266]" s4, OF system_area] by (auto simp: s4 atLeast0LessThan simp del: upt_rec_numeral)
  define s6 where "s6 = sync_to_disk_block_bmp dev (s4 \<lparr> blockbmp_buffer := bm1 \<rparr>)"
  obtain im where im: "set_bitmap (replicate 4096 0) 0 = Some im" "length im = 4096" "bits im = {0}"
    using set_bitmap_spec [of 0 "replicate 4096 0"] by auto
  define s8 where "s8 = sync_to_disk_inode_bmp dev (s6 \<lparr> inodebmp_block_buffer := im \<rparr>)"
  define s10 where "s10 = sync_to_disk_superblock dev (count_field_down s_free_inode_cnt s8)"
  obtain bm2 where bm2: "set_bitmap bm1 266 = Some bm2" "length bm2 = 32768"
    "bits bm2 = insert 266 {..<266}"
    using set_bitmap_spec [of 266 bm1] bm1 by auto
  define s12 where "s12 = sync_to_disk_block_bmp dev (s10 \<lparr> blockbmp_buffer := bm2 \<rparr>)"
  define s14 where "s14 = sync_to_disk_superblock dev (count_field_down s_free_blocks_cnt s12)"
  define sb where "sb = put32 (put32 new_superblock 20 8191) 24 261877"
  have sb: "length sb = 4096" "get32 sb 8 = FS_MAGIC_NUMBER" "get32 sb 20 = 8191" "get32 sb 24 = 261877"
    by (simp_all add: sb_def put32_block new_superblock_fields del: length_put32)
  have mem: "superblock_buffer s14 = sb" "blockbmp_buffer s14 = bm2" "inodebmp_block_buffer s14 = im"
    "fs_ticks s14 = fs_ticks s" "file_descriptor_table s14 = replicate 32 zero_fd"
    by (simp_all add: s14_def s12_def s10_def s8_def s6_def s4 sb_def new_superblock_fields
        put32_block del: length_put32)
  have len: "length (superblock_buffer (count_field_down s_free_blocks_cnt s12)) = 4096"
    "length (superblock_buffer (count_field_down s_free_inode_cnt s8)) = 4096"
    by (simp_all add: s12_def s10_def s8_def s6_def s4 new_superblock_fields put32_block del: length_put32)
  have disk: "read_block dev s14 0 = sb" "read_block dev s14 9 = im" "disk_block_bmp dev s14 = bm2"
  proof -
    show "read_block dev s14 0 = sb"
      using mem(1) len by (simp add: s14_def read_sync_superblock)
    have "read_block dev s8 9 = im" using im by (simp add: s8_def read_sync_inode_bmp)
    then show "read_block dev s14 9 = im"
      using len bm2(2) by (simp add: s14_def s12_def s10_def read_sync_superblock read_sync_block_bmp)
    show "disk_block_bmp dev s14 = bm2"
      using len bm2(2) by (simp add: s14_def s12_def disk_block_bmp_sync)
  qed
  have sets: "free_blocks s14 = {267..<BLOCK_NUM}" "free_inodes s14 = {1..<INODE_NUM}"
    unfolding free_blocks_def free_inodes_def mem bm2(3) im(3)
    by (intro set_eqI; simp; linarith)+
  have ok14: "fs_ok dev s14"
    using sets sb bm2 im disk by (intro fs_okI) (auto simp: mem sizes_ok_def)
  let ?root = "root_of (fs_ticks s)"
  define s16 where "s16 = sync_to_disk_inode dev ?root (s14 \<lparr> root_inode := ?root \<rparr>)"
  have ok16: "fs_ok dev s16" unfolding s16_def by (rule fs_ok_sync_inode) (simp_all add: ok14)
  obtain buf where buf: "dot_block 0 0 = Some buf" by (simp add: dot_block_bytes)
  note dot = dot_block_facts [OF buf]
  define t where "t = (write_block dev 266 buf s16) \<lparr> current_dir := ?root \<rparr>"
  have root: "root_inode (write_block dev 266 buf s16) = ?root" by (simp add: s16_def)
  have "do_mkfs dev s = Some t"
    using bm1(1) im(1) bm2(1)
    by (simp add: do_mkfs_def Let_def set_inode_bmp_def set_block_bmp_def sync_to_disk_dentry_def
        s0_def [symmetric] s4_def [symmetric] s4 s6_def [symmetric] s8_def [symmetric]
        buf t_def s16_def s14_def s12_def s10_def root_of_def del: upt_rec_numeral)
  moreover have "fresh_fs dev s t"
  proof -
    have "fs_ok dev t" unfolding t_def fs_ok_frame
      by (rule fs_ok_write_block [OF ok16]) (simp_all add: dot)
    moreover have "free_blocks t = free_blocks s14" "free_inodes t = free_inodes s14"
      by (simp_all add: t_def s16_def free_blocks_def free_inodes_def)
    moreover have "sync_from_disk_inode dev t 0 = ?root"
    proof -
      have "sync_from_disk_inode dev t 0 = sync_from_disk_inode dev s16 0"
        using dot by (intro sync_from_disk_inode_cong) (auto simp: t_def read_write_block table_block_def)
      then show ?thesis by (simp add: s16_def sync_inode)
    qed
    moreover have "read_block dev t 266 = buf" using dot by (simp add: t_def read_write_block)
    ultimately show ?thesis
      using sets sb buf by (simp add: fresh_fs_def t_def s16_def mem)
  qed
  ultimately show ?thesis by blast
qed

end

end
