(* ===== verification/Fs_Props.thy ===== *)
theory Fs_Props
  imports Fs_Mkfs Libepmon
begin

text \<open>
  What the operations of the file system do, end to end: creating a file or a directory and then
  finding it, writing a file and reading it back, opening and closing, mounting, and the limits
  the code has. The lemmas are proved in the locale \<open>sd_card\<close>; the properties state them with the
  hypothesis that the device is such a card, and their witnesses use the card in memory behind
  \<^verbatim>\<open>libepmon\<close>.
\<close>

section \<open>Names and paths of the operations\<close>

lemma dotted_path_spec:
  assumes "no_nul cs" and "length cs < 510"
  shows "dotted_path (cs @ 0 # r) = Some (dot # slash # cs @ 0 # replicate (509 - length cs) 0)"
proof -
  have a: "strcpy (replicate 512 0) [dot, slash, 0] = Some (dot # slash # replicate 510 0)"
    using strcpy_cstr [of "[dot, slash]" "replicate 512 0" "[]"] replicate_Suc [of 509 "0 :: u8"] by simp
  have b: "strcpy (replicate 510 0) (cs @ 0 # r) = Some (cs @ 0 # replicate (509 - length cs) 0)"
    using strcpy_cstr [of cs "replicate 510 0" r] assms by simp
  show ?thesis by (simp add: dotted_path_def a b)
qed

lemma split_dotted:
  assumes "no_nul cs" and "slash \<notin> set cs" and "length cs < 64"
  shows "\<exists>q. split_path (dot # slash # cs @ 0 # r) =
    Some (dot # 0 # q, cs @ 0 # replicate (63 - length cs) 0)"
  using separate_path_spec [of "[dot]" cs "replicate 512 0" "replicate 64 0" r] assms
  by (simp add: split_path_def)

lemma path_copy_spec:
  assumes "no_nul cs" and "length cs < 512"
  shows "path_copy (cs @ 0 # r) = Some (cs @ 0 # replicate (511 - length cs) 0)"
proof -
  have "memcpy (replicate 512 0) (cs @ 0 # r) (length cs) = Some (cs @ replicate (512 - length cs) 0)"
    using assms by (simp add: memcpy_eq)
  moreover have "512 - length cs = Suc (511 - length cs)" using assms(2) by linarith
  ultimately show ?thesis using assms by (simp add: path_copy_def list_update_append)
qed

lemma takeWhile_cstr: "no_nul cs \<Longrightarrow> takeWhile (\<lambda>c. c \<noteq> 0) (cs @ 0 # r) = cs"
  by (induction cs) auto

lemma named_dentry_spec:
  assumes "no_nul cs" and "length cs < 64" and "dentry_ok junk"
  shows "\<exists>den. named_dentry junk k (cs @ 0 # r) = Some den \<and> den_ok den \<and> den_name den = cs \<and> d_inum den = k"
proof -
  have len: "length (d_name junk) = 64" using assms(3) by (simp add: dentry_ok_def)
  let ?nm = "cs @ 0 # drop (Suc (length cs)) (d_name junk)"
  let ?den = "junk \<lparr> d_inum := k, d_name := ?nm \<rparr>"
  have "named_dentry junk k (cs @ 0 # r) = Some ?den"
    using strcpy_cstr [of cs "d_name junk" r] assms len by (simp add: named_dentry_def)
  moreover have "takeWhile (\<lambda>c. c \<noteq> 0) ?nm = cs" by (rule takeWhile_cstr [OF assms(1)])
  ultimately show ?thesis
    using assms len by (auto simp: den_ok_def dentry_ok_def den_name_def)
qed

section \<open>Directories in order\<close>

text \<open>
  A directory that is in order: its inode in memory may be older than the one on the card, but
  they have the same number and first block; the block is a table of terminated names with the
  entry \<^verbatim>\<open>.\<close> pointing back, and the slots after the counted entries are empty.
\<close>

definition dir_ok :: "'c sd_dev \<Rightarrow> 'c fs_state \<Rightarrow> inode_t \<Rightarrow> bool" where
  "dir_ok dev s D \<longleftrightarrow> inode_ok D \<and> unat (i_num D) < INODE_NUM \<and> unat (i_num D) \<notin> free_inodes s \<and>
     data_block (i_direct_table D ! 0) \<and> unat (i_direct_table D ! 0) \<notin> free_blocks s \<and>
     i_num (sync_from_disk_inode dev s (i_num D)) = i_num D \<and>
     i_direct_table (sync_from_disk_inode dev s (i_num D)) ! 0 = i_direct_table D ! 0 \<and>
     dir_block_ok (dir_block dev s D) \<and>
     (\<exists>j. dir_lookup (dir_block dev s D) [dot] = Some j \<and> entry_inum (dir_block dev s D) j = i_num D) \<and>
     (\<forall>j < DENTRY_NUM_PER_BLOCK. unat (i_fnum (sync_from_disk_inode dev s (i_num D))) + 2 \<le> j \<longrightarrow>
        entry_name (dir_block dev s D) j = [])"

lemma dir_okD:
  assumes "dir_ok dev s D"
  shows "inode_ok D" "unat (i_num D) < INODE_NUM" "unat (i_num D) \<notin> free_inodes s"
    "data_block (i_direct_table D ! 0)" "unat (i_direct_table D ! 0) \<notin> free_blocks s"
    "i_num (sync_from_disk_inode dev s (i_num D)) = i_num D"
    "i_direct_table (sync_from_disk_inode dev s (i_num D)) ! 0 = i_direct_table D ! 0"
    "dir_block_ok (dir_block dev s D)"
    "\<exists>j. dir_lookup (dir_block dev s D) [dot] = Some j \<and> entry_inum (dir_block dev s D) j = i_num D"
    "j < DENTRY_NUM_PER_BLOCK \<Longrightarrow> unat (i_fnum (sync_from_disk_inode dev s (i_num D))) + 2 \<le> j \<Longrightarrow>
       entry_name (dir_block dev s D) j = []"
  using assms by (auto simp: dir_ok_def)

lemma find_self:
  assumes "dir_ok dev s D"
  shows "find_file dev s D (dot # 0 # q) = Some (i_num D)"
  using find_spec(1) [OF dir_okD(1,8) [OF assms], of "[dot]" q] dir_okD(9) [OF assms] by auto

lemma dir_block_parent:
  "dir_ok dev s D \<Longrightarrow> dir_block dev s (sync_from_disk_inode dev s (i_num D)) = dir_block dev s D"
  by (simp add: dir_block_def dir_okD(7))

text \<open>What a new entry does to a directory that is in order.\<close>

definition entry_added :: "'c sd_dev \<Rightarrow> 'c fs_state \<Rightarrow> inode_t \<Rightarrow> u8 list \<Rightarrow> u32 \<Rightarrow> 'c fs_state \<Rightarrow> bool" where
  "entry_added dev s D cs k t \<longleftrightarrow> dir_ok dev t D \<and> find_file dev t D (cs @ [0]) = Some k \<and>
     (\<forall>cs'. no_nul cs' \<and> cs' \<noteq> cs \<and> cs' \<noteq> [] \<longrightarrow>
        find_file dev t D (cs' @ [0]) = find_file dev s D (cs' @ [0]))"

lemma dir_ok_cong:
  assumes "dir_ok dev s D" and "free_inodes t \<subseteq> free_inodes s" and "free_blocks t \<subseteq> free_blocks s"
    and "dir_block dev t D = dir_block dev s D"
    and "sync_from_disk_inode dev t (i_num D) = sync_from_disk_inode dev s (i_num D)"
  shows "dir_ok dev t D"
  using assms by (auto simp: dir_ok_def)

lemma find_file_cong:
  assumes "inode_ok D" and "dir_block_ok (dir_block dev s D)" and "dir_block dev t D = dir_block dev s D"
    and "no_nul cs"
  shows "find_file dev t D (cs @ 0 # r) = find_file dev s D (cs @ 0 # r)"
  using find_spec(1) [OF assms(1,2,4), of r] find_spec(1) [of D dev t cs r] assms
  by (simp cong: option.case_cong)

lemma small_fnum:
  fixes n :: u32
  assumes "unat n < 30"
  shows "unat (n + 2) = unat n + 2" "2 \<le> n + 2" "n + 2 < 32" "unat (n + 1) = unat n + 1"
proof -
  show a: "unat (n + 2) = unat n + 2" using assms by (simp add: unat_word_ariths)
  show "unat (n + 1) = unat n + 1" using assms by (simp add: unat_word_ariths)
  show "2 \<le> n + 2" "n + 2 < 32" using a assms by (simp_all add: word_le_nat_alt word_less_nat_alt)
qed

text \<open>The block of a fresh directory is in order.\<close>

lemma fresh_dir_ok:
  assumes "dot_block k p = Some buf" and "N = fresh_inode m z n ((replicate 12 0)[0 := b]) k"
    and "sync_from_disk_inode dev t k = N" and "read_block dev t b = buf" and "data_block b"
    and "unat k < INODE_NUM" "unat k \<notin> free_inodes t" "unat b \<notin> free_blocks t"
  shows "dir_ok dev t N" and "find_file dev t N [dot, dot, 0] = Some p"
proof -
  note dot = dot_block_facts [OF assms(1)] and look = dot_block_lookup [OF assms(1)]
  have N: "i_num N = k" "i_direct_table N ! 0 = b" "inode_ok N" "i_fnum N = 0"
    by (simp_all add: assms(2) fresh_inode_def inode_ok_def)
  have blk: "dir_block dev t N = buf" by (simp add: dir_block_def N assms(4))
  show "dir_ok dev t N"
    unfolding dir_ok_def N blk assms(3) using assms dot look N by auto
  show "find_file dev t N [dot, dot, 0] = Some p"
    using find_spec(1) [of N dev t "[dot, dot]" "[]"] N dot look by (simp add: blk)
qed

context sd_card
begin

lemma reload_bmps:
  assumes "fs_ok dev s"
  shows "sync_from_disk_inode_bmp dev (sync_from_disk_block_bmp dev s) = s"
  using sync_from_disk_block_bmp_eq [of s] fs_okD [OF assms] by (simp add: sync_from_disk_inode_bmp_def)

lemma add_entry:
  assumes ok: "fs_ok dev v" and D: "dir_ok dev v D" and P: "P = sync_from_disk_inode dev v (i_num D)"
    and room: "unat (i_fnum P) < 30" and den: "den_ok den" "den_name den \<noteq> []" "no_nul (den_name den)"
    and new: "dir_lookup (dir_block dev v D) (den_name den) = None"
  shows "\<exists>t. write_dentry dev P (i_fnum P + 2) den v = Some (None, P \<lparr> i_fnum := i_fnum P + 1 \<rparr>, t) \<and>
    fs_ok dev t \<and> entry_added dev v D (den_name den) (d_inum den) t \<and> same_env v t \<and> same_bmps v t \<and>
    (\<forall>k. unat k < INODE_NUM \<and> k \<noteq> i_num D \<longrightarrow> sync_from_disk_inode dev t k = sync_from_disk_inode dev v k) \<and>
    (\<forall>b. data_block b \<and> b \<noteq> i_direct_table D ! 0 \<longrightarrow> read_block dev t b = read_block dev v b)"
proof -
  note DD = dir_okD [OF D]
  let ?d = "unat (i_fnum P + 2)" and ?P = "P \<lparr> i_fnum := i_fnum P + 1 \<rparr>"
  let ?B = "dir_block dev v D"
  note f = small_fnum [OF room]
  have num: "i_num P = i_num D" and tab: "i_direct_table P ! 0 = i_direct_table D ! 0"
    using DD(6,7) P by simp_all
  have "dentry_ok den" using den(1) by (simp add: den_ok_def)
  then obtain t where t: "write_dentry dev P (i_fnum P + 2) den v = Some (None, ?P, t)"
    "entry_written dev v P ?d den ?P t"
    using write_dentry_ok [OF ok, of P "i_fnum P + 2" den] DD(2,4) f P num tab by auto
  have d: "?d < 32" using f by (simp add: word_less_nat_alt)
  have blk: "dir_block dev t D = put_entry ?B ?d den"
    using t(2) data_blockD [OF DD(4)] by (simp add: dir_block_def entry_written_def tab)
  note put = put_entry_facts [OF DD(8) d den(1)] and look = dir_lookup_put [OF DD(8) d den(1)]
  have slot: "entry_name ?B ?d = []" using DD(10) [OF d] f(1) P by simp
  have Pt: "sync_from_disk_inode dev t (i_num D) = ?P"
    using t(2) DD(2) num by (simp add: entry_written_def)
  have same: "same_env v t" "same_bmps v t" using t(2) by (simp_all add: entry_written_def)
  have free: "free_inodes t = free_inodes v" "free_blocks t = free_blocks v"
    using same(2) by (simp_all add: same_bmps_def free_inodes_def free_blocks_def)
  obtain j where j: "dir_lookup ?B [dot] = Some j" "entry_inum ?B j = i_num D" using DD(9) by blast
  have jd: "j \<noteq> ?d" "j < 32" using dir_lookup_SomeD [OF j(1)] slot by auto
  have ne: "[dot] \<noteq> den_name den" using j(1) new by auto
  have "dir_ok dev t D"
    unfolding dir_ok_def Pt blk free
  proof (intro conjI allI impI)
    show "\<exists>j. dir_lookup (put_entry ?B ?d den) [dot] = Some j \<and>
        entry_inum (put_entry ?B ?d den) j = i_num D"
      using look(2) [OF ne] slot j jd put(3) by auto
    fix i assume "i < 32" "unat (i_fnum ?P) + 2 \<le> i"
    then show "entry_name (put_entry ?B ?d den) i = []"
      using put(2) [of i] DD(10) [of i] f P by auto
  qed (use DD num tab put(1) in simp_all)
  moreover have fs: "find_file dev t D (cs @ [0]) =
      Some (case dir_lookup (put_entry ?B ?d den) cs of Some j \<Rightarrow> entry_inum (put_entry ?B ?d den) j | None \<Rightarrow> -1)"
    if "no_nul cs" for cs
    using find_spec(1) [of D dev t cs "[]"] blk put(1) DD(1) that
    by (simp cong: option.case_cong)
  moreover have "find_file dev t D (den_name den @ [0]) = Some (d_inum den)"
    using fs [OF den(3)] look(1) [OF new] put(3) [OF d] by simp
  moreover have "find_file dev t D (cs @ [0]) = find_file dev v D (cs @ [0])"
    if "no_nul cs" "cs \<noteq> den_name den" "cs \<noteq> []" for cs
  proof -
    have "dir_lookup (put_entry ?B ?d den) cs = dir_lookup ?B cs" using look(2) that slot by simp
    moreover have "entry_inum (put_entry ?B ?d den) i = entry_inum ?B i" if i: "dir_lookup ?B cs = Some i" for i
    proof -
      have "i < 32" "i \<noteq> ?d" using dir_lookup_SomeD [OF i] slot \<open>cs \<noteq> []\<close> by auto
      then show ?thesis using put(3) by simp
    qed
    ultimately show ?thesis
      using fs [OF that(1)] find_spec(1) [OF DD(1,8) that(1), of "[]"] by (auto split: option.splits)
  qed
  ultimately have "entry_added dev v D (den_name den) (d_inum den) t" by (simp add: entry_added_def)
  moreover have "\<forall>b. data_block b \<and> b \<noteq> i_direct_table D ! 0 \<longrightarrow> read_block dev t b = read_block dev v b"
    using t(2) data_blockD by (auto simp: entry_written_def tab)
  ultimately show ?thesis using t num same by (auto simp: entry_written_def)
qed

text \<open>The inode part of creating a file or a directory: a fresh inode on the card.\<close>

lemma new_inode_ok:
  assumes ok: "fs_ok dev s" and D: "dir_ok dev s D" and N: "inode_ok N" "unat (i_num N) \<in> free_inodes s"
    and u: "fs_ok dev u" "free_inodes u \<subseteq> free_inodes s" "free_blocks u \<subseteq> free_blocks s"
      "\<forall>b. on_card b \<and> 10 \<le> unat b \<longrightarrow> read_block dev u b = read_block dev s b"
    and v: "v = sync_to_disk_inode dev N u"
  shows "fs_ok dev v" and "dir_ok dev v D" and "dir_block dev v D = dir_block dev s D"
    and "sync_from_disk_inode dev v (i_num N) = N"
    and "\<And>k. unat k < INODE_NUM \<Longrightarrow> k \<noteq> i_num N \<Longrightarrow>
      sync_from_disk_inode dev v k = sync_from_disk_inode dev s k"
    and "\<And>b. data_block b \<Longrightarrow> read_block dev v b = read_block dev s b"
proof -
  have k: "unat (i_num N) < INODE_NUM" using N(2) by (simp add: free_inodes_def)
  show "fs_ok dev v" unfolding v by (rule fs_ok_sync_inode [OF u(1) N(1) k])
  have rd: "read_block dev v b = read_block dev s b" if "data_block b" for b
    using read_sync_inode [OF N(1) k] u(4) data_blockD [OF that] by (simp add: v)
  then show "\<And>b. data_block b \<Longrightarrow> read_block dev v b = read_block dev s b" .
  show "sync_from_disk_inode dev v (i_num N) = N" using sync_inode [OF N(1) k k] by (simp add: v)
  show other: "sync_from_disk_inode dev v j = sync_from_disk_inode dev s j"
    if "unat j < INODE_NUM" "j \<noteq> i_num N" for j
  proof -
    have "sync_from_disk_inode dev u j = sync_from_disk_inode dev s j"
      using that(1) u(4) by (intro sync_from_disk_inode_cong) (auto simp: table_block_def)
    then show ?thesis using sync_inode [OF N(1) k that(1)] that(2) by (simp add: v)
  qed
  show blk: "dir_block dev v D = dir_block dev s D" using rd dir_okD(4) [OF D] by (simp add: dir_block_def)
  have "i_num D \<noteq> i_num N" using dir_okD(3) [OF D] N(2) by auto
  then show "dir_ok dev v D"
    using u(2,3) blk other [of "i_num D"] dir_okD(2) [OF D]
    by (intro dir_ok_cong [OF D]) (simp_all add: v free_inodes_def free_blocks_def)
qed

lemma do_touch_ok:
  assumes ok: "fs_ok dev s" and D: "dir_ok dev s (current_dir s)"
    and room: "unat (i_fnum (sync_from_disk_inode dev s (i_num (current_dir s)))) < 30"
    and free: "free_inodes s \<noteq> {}" and junk: "dentry_ok junk"
    and cs: "no_nul cs" "slash \<notin> set cs" "length cs < 64" "cs \<noteq> []"
    and new: "dir_lookup (dir_block dev s (current_dir s)) cs = None"
  shows "\<exists>k t. do_touch dev junk (cs @ 0 # r) mode s = Some (0, t) \<and> fs_ok dev t \<and>
    current_dir t = current_dir s \<and> unat k \<in> free_inodes s \<and>
    free_inodes t = free_inodes s - {unat k} \<and> free_blocks t = free_blocks s \<and>
    entry_added dev s (current_dir s) cs k t \<and>
    file_descriptor_table t = file_descriptor_table s \<and>
    sync_from_disk_inode dev t k = fresh_inode (S_IFREG OR mode) 0 (fs_ticks s) (replicate 12 0) k"
proof -
  let ?D = "current_dir s"
  note DD = dir_okD [OF D]
  define P where "P = sync_from_disk_inode dev s (i_num ?D)"
  obtain q where q: "split_path (dot # slash # cs @ 0 # replicate (509 - length cs) 0) =
      Some (dot # 0 # q, cs @ 0 # replicate (63 - length cs) 0)"
    using split_dotted [OF cs(1,2,3)] by blast
  have path: "dotted_path (cs @ 0 # r) = Some (dot # slash # cs @ 0 # replicate (509 - length cs) 0)"
    using dotted_path_spec [OF cs(1)] cs(3) by simp
  have fd: "find_dentry dev s P (cs @ 0 # q') = Some (-1)" for q'
    using find_spec(3) [of P dev s cs q'] DD(8) cs(1) new dir_block_parent [OF D] by (simp add: P_def)
  obtain k u where u: "alloc_inode dev s = Some (k, u)" "inode_taken dev s k u"
    using alloc_inode_ok [OF ok free] by blast
  define N where "N = fresh_inode (S_IFREG OR mode) 0 (fs_ticks s) (replicate 12 0) k"
  define v where "v = sync_to_disk_inode dev N u"
  have N: "inode_ok N" "i_num N = k" by (simp_all add: N_def fresh_inode_def inode_ok_def)
  have taken: "fs_ok dev u" "unat k \<in> free_inodes s" "free_inodes u = free_inodes s - {unat k}"
    "blockbmp_buffer u = blockbmp_buffer s" "same_env s u"
    "\<forall>b. on_card b \<and> 10 \<le> unat b \<longrightarrow> read_block dev u b = read_block dev s b"
    using u(2) by (simp_all add: inode_taken_def)
  have V: "fs_ok dev v" "dir_ok dev v ?D" "dir_block dev v ?D = dir_block dev s ?D"
    "sync_from_disk_inode dev v k = N"
    "\<And>j. unat j < INODE_NUM \<Longrightarrow> j \<noteq> k \<Longrightarrow> sync_from_disk_inode dev v j = sync_from_disk_inode dev s j"
  proof -
    have sub: "unat (i_num N) \<in> free_inodes s" "free_inodes u \<subseteq> free_inodes s" "free_blocks u \<subseteq> free_blocks s"
      using taken(2,3,4) N(2) by (auto simp: free_blocks_def)
    note NI = new_inode_ok [OF ok D N(1) sub(1) taken(1) sub(2,3) taken(6) v_def]
    show "fs_ok dev v" by (fact NI(1))
    show "dir_ok dev v ?D" by (fact NI(2))
    show "dir_block dev v ?D = dir_block dev s ?D" by (fact NI(3))
    show "sync_from_disk_inode dev v k = N" using NI(4) N(2) by simp
    show "\<And>j. unat j < INODE_NUM \<Longrightarrow> j \<noteq> k \<Longrightarrow> sync_from_disk_inode dev v j = sync_from_disk_inode dev s j"
      using NI(5) unfolding N(2) .
  qed
  have kD: "k \<noteq> i_num ?D" using DD(3) taken(2) by auto
  have Pv: "P = sync_from_disk_inode dev v (i_num ?D)" using V(5) [OF DD(2)] kD by (simp add: P_def)
  obtain den where den: "named_dentry junk k (cs @ 0 # replicate (63 - length cs) 0) = Some den"
    "den_ok den" "den_name den = cs" "d_inum den = k"
    using named_dentry_spec [OF cs(1,3) junk] by blast
  obtain t where t: "write_dentry dev P (i_fnum P + 2) den v = Some (None, P \<lparr> i_fnum := i_fnum P + 1 \<rparr>, t)"
    "fs_ok dev t" "entry_added dev v ?D cs k t" "same_env v t" "same_bmps v t"
    "\<And>j. unat j < INODE_NUM \<Longrightarrow> j \<noteq> i_num ?D \<Longrightarrow> sync_from_disk_inode dev t j = sync_from_disk_inode dev v j"
  proof -
    have pre: "unat (i_fnum P) < 30" "den_name den \<noteq> []" "no_nul (den_name den)"
      "dir_lookup (dir_block dev v ?D) (den_name den) = None"
      using room new cs den(3) V(3) by (simp_all add: P_def)
    show ?thesis
      using add_entry [OF V(1,2) Pv pre(1) den(2) pre(2,3,4)] that unfolding den(3,4) by blast
  qed
  have tick: "fs_ticks u = fs_ticks s" using taken(5) by (simp add: same_env_def)
  have "do_touch dev junk (cs @ 0 # r) mode s = Some (0, t)"
    using path q find_self [OF D, of q] reload_bmps [OF ok] fd u(1) den(1) t(1) tick
    by (simp add: do_touch_def Let_def P_def [symmetric] N_def [symmetric] v_def [symmetric])
  moreover have "same_env s t" using taken(5) t(4) by (simp add: v_def same_env_def)
  moreover have "free_inodes t = free_inodes s - {unat k}" "free_blocks t = free_blocks s"
    using t(5) taken(3,4) by (simp_all add: same_bmps_def free_inodes_def free_blocks_def v_def)
  moreover have "entry_added dev s ?D cs k t"
    using t(3) find_file_cong [OF DD(1,8) V(3)] by (auto simp: entry_added_def)
  moreover have "sync_from_disk_inode dev t k = N"
    using t(6) [of k] kD V(4) taken(2) by (simp add: free_inodes_def)
  ultimately show ?thesis
    using t(2) taken(2) by (intro exI [of _ k] exI [of _ t]) (simp add: N_def same_env_def)
qed

text \<open>Taking an inode and then a block, as \<^verbatim>\<open>do_mkdir\<close> and \<^verbatim>\<open>do_symlink\<close> do.\<close>

lemma alloc_both_ok:
  assumes ok: "fs_ok dev s" and free: "free_inodes s \<noteq> {}" "free_blocks s \<noteq> {}"
  shows "\<exists>k u b w. alloc_inode dev s = Some (k, u) \<and> alloc_block dev u = Some (b, w) \<and> fs_ok dev w \<and>
    unat k \<in> free_inodes s \<and> unat b \<in> free_blocks s \<and> data_block b \<and>
    free_inodes w = free_inodes s - {unat k} \<and> free_blocks w = free_blocks s - {unat b} \<and> same_env s w \<and>
    (\<forall>c. on_card c \<and> 10 \<le> unat c \<longrightarrow> read_block dev w c = read_block dev s c)"
proof -
  obtain k u where u: "alloc_inode dev s = Some (k, u)" "inode_taken dev s k u"
    using alloc_inode_ok [OF ok free(1)] by blast
  have fb: "free_blocks u = free_blocks s" using u(2) by (simp add: inode_taken_def free_blocks_def)
  have oku: "fs_ok dev u" using u(2) by (simp add: inode_taken_def)
  have nb: "free_blocks u \<noteq> {}" using fb free(2) by simp
  obtain b w where w: "alloc_block dev u = Some (b, w)" "block_taken dev u b w"
    using alloc_block_ok [OF oku nb] by blast
  have "data_block b" by (rule block_taken_data [OF oku w(2)])
  moreover have "free_inodes w = free_inodes u" using w(2) by (simp add: block_taken_def free_inodes_def)
  moreover have "\<forall>c. on_card c \<and> 10 \<le> unat c \<longrightarrow> read_block dev w c = read_block dev s c"
    using u(2) w(2) by (simp add: inode_taken_def block_taken_def)
  ultimately show ?thesis
    using u w fb by (auto simp: inode_taken_def block_taken_def intro: same_env_trans)
qed

lemma do_mkdir_ok:
  assumes ok: "fs_ok dev s" and D: "dir_ok dev s (current_dir s)"
    and room: "unat (i_fnum (sync_from_disk_inode dev s (i_num (current_dir s)))) < 30"
    and free: "free_inodes s \<noteq> {}" "free_blocks s \<noteq> {}" and junk: "dentry_ok junk"
    and cs: "no_nul cs" "slash \<notin> set cs" "length cs < 64" "cs \<noteq> []"
    and new: "dir_lookup (dir_block dev s (current_dir s)) cs = None"
  shows "\<exists>k t. do_mkdir dev junk (dot # slash # cs @ 0 # r) mode s = Some (0, t) \<and> fs_ok dev t \<and>
    current_dir t = current_dir s \<and> unat k \<in> free_inodes s \<and>
    free_inodes t = free_inodes s - {unat k} \<and> card (free_blocks t) + 1 = card (free_blocks s) \<and>
    entry_added dev s (current_dir s) cs k t \<and> dir_ok dev t (sync_from_disk_inode dev t k) \<and>
    i_num (sync_from_disk_inode dev t k) = k \<and> i_fmode (sync_from_disk_inode dev t k) = S_IFDIR OR mode \<and>
    find_file dev t (sync_from_disk_inode dev t k) [dot, dot, 0] = Some (i_num (current_dir s))"
proof -
  let ?D = "current_dir s"
  note DD = dir_okD [OF D]
  define P where "P = sync_from_disk_inode dev s (i_num ?D)"
  obtain q where q: "split_path (dot # slash # cs @ 0 # replicate (509 - length cs) 0) =
      Some (dot # 0 # q, cs @ 0 # replicate (63 - length cs) 0)"
    using split_dotted [OF cs(1,2,3)] by blast
  have path: "path_copy (dot # slash # cs @ 0 # r) = Some (dot # slash # cs @ 0 # replicate (509 - length cs) 0)"
    using path_copy_spec [of "dot # slash # cs" r] cs(1,3) by simp
  have fd: "find_dentry dev s P (cs @ 0 # q') = Some (-1)" for q'
    using find_spec(3) [of P dev s cs q'] DD(8) cs(1) new dir_block_parent [OF D] by (simp add: P_def)
  obtain k u b w where al: "alloc_inode dev s = Some (k, u)" "alloc_block dev u = Some (b, w)" "fs_ok dev w"
    "unat k \<in> free_inodes s" "unat b \<in> free_blocks s" "data_block b"
    "free_inodes w = free_inodes s - {unat k}" "free_blocks w = free_blocks s - {unat b}" "same_env s w"
    "\<forall>c. on_card c \<and> 10 \<le> unat c \<longrightarrow> read_block dev w c = read_block dev s c"
    using alloc_both_ok [OF ok free] by blast
  define N where "N = fresh_inode (S_IFDIR OR mode) 4096 (fs_ticks s) ((replicate 12 0)[0 := b]) k"
  define v where "v = sync_to_disk_inode dev N w"
  have N: "inode_ok N" "i_num N = k" by (simp_all add: N_def fresh_inode_def inode_ok_def)
  have sub: "unat (i_num N) \<in> free_inodes s" "free_inodes w \<subseteq> free_inodes s" "free_blocks w \<subseteq> free_blocks s"
    using al(4,7,8) N(2) by auto
  note V = new_inode_ok [OF ok D N(1) sub(1) al(3) sub(2,3) al(10) v_def, unfolded N(2)]
  have kD: "k \<noteq> i_num ?D" and bD: "b \<noteq> i_direct_table ?D ! 0" using DD(3,5) al(4,5) by auto
  obtain buf where buf: "dot_block k (i_num ?D) = Some buf" by (simp add: dot_block_bytes)
  note dot = dot_block_facts [OF buf] and bd = data_blockD [OF al(6)]
  define x where "x = write_block dev b buf v"
  have rx: "read_block dev x c = (if c = b then buf else read_block dev v c)" if "on_card c" for c
    using that bd dot(1) by (simp add: x_def read_write_block)
  have ix: "sync_from_disk_inode dev x j = sync_from_disk_inode dev v j" if "unat j < INODE_NUM" for j
    using that rx bd by (intro sync_from_disk_inode_cong) auto
  have okx: "fs_ok dev x" unfolding x_def using V(1) bd dot(1) by (intro fs_ok_write_block) auto
  have blkx: "dir_block dev x ?D = dir_block dev s ?D"
    using V(3) rx bD data_blockD [OF DD(4)] by (simp add: dir_block_def)
  have fx: "free_inodes x = free_inodes w" "free_blocks x = free_blocks w"
    by (simp_all add: x_def v_def free_inodes_def free_blocks_def)
  have Dx: "dir_ok dev x ?D"
    using sub fx blkx ix [OF DD(2)] V(5) [OF DD(2)] kD by (intro dir_ok_cong [OF D]) auto
  have Px: "P = sync_from_disk_inode dev x (i_num ?D)"
    using ix [OF DD(2)] V(5) [OF DD(2)] kD by (simp add: P_def)
  obtain den where den: "named_dentry junk k (cs @ 0 # replicate (63 - length cs) 0) = Some den"
    "den_ok den" "den_name den = cs" "d_inum den = k"
    using named_dentry_spec [OF cs(1,3) junk] by blast
  obtain t where t: "write_dentry dev P (i_fnum P + 2) den x = Some (None, P \<lparr> i_fnum := i_fnum P + 1 \<rparr>, t)"
    "fs_ok dev t" "entry_added dev x ?D cs k t" "same_env x t" "same_bmps x t"
    "\<forall>j. unat j < INODE_NUM \<and> j \<noteq> i_num ?D \<longrightarrow> sync_from_disk_inode dev t j = sync_from_disk_inode dev x j"
    "\<forall>c. data_block c \<and> c \<noteq> i_direct_table ?D ! 0 \<longrightarrow> read_block dev t c = read_block dev x c"
  proof -
    have pre: "unat (i_fnum P) < 30" "den_name den \<noteq> []" "no_nul (den_name den)"
      "dir_lookup (dir_block dev x ?D) (den_name den) = None"
      using room new cs den(3) blkx by (simp_all add: P_def)
    show ?thesis
      using add_entry [OF okx Dx Px pre(1) den(2) pre(2,3,4)] that unfolding den(3,4) by blast
  qed
  have tick: "fs_ticks w = fs_ticks s" using al(9) by (simp add: same_env_def)
  have run: "do_mkdir dev junk (dot # slash # cs @ 0 # r) mode s = Some (0, t)"
    using path q find_self [OF D, of q] reload_bmps [OF ok] fd al(1,2) buf den(1) t(1) tick
    by (simp add: do_mkdir_def Let_def sync_to_disk_dentry_def P_def [symmetric] N_def [symmetric]
        v_def [symmetric] x_def [symmetric])
  have ft: "free_inodes t = free_inodes s - {unat k}" "free_blocks t = free_blocks s - {unat b}"
    using t(5) fx al(7,8) by (simp_all add: same_bmps_def free_inodes_def free_blocks_def)
  have klt: "unat k < INODE_NUM" using al(4) by (simp add: free_inodes_def)
  have Nt: "sync_from_disk_inode dev t k = N" using t(6) klt kD ix V(4) by simp
  have bt: "read_block dev t b = buf" using t(7) al(6) bD rx bd(1) by simp
  have new_dir: "dir_ok dev t N" "find_file dev t N [dot, dot, 0] = Some (i_num ?D)"
    using fresh_dir_ok [OF buf N_def Nt bt al(6) klt] ft by auto
  have "entry_added dev s ?D cs k t"
    using t(3) find_file_cong [OF DD(1,8) blkx] by (auto simp: entry_added_def)
  moreover have "card (free_blocks t) + 1 = card (free_blocks s)"
  proof -
    have "finite (free_blocks s)" by (simp add: free_blocks_def)
    then show ?thesis using al(5) card_Suc_Diff1 [of "free_blocks s" "unat b"] by (simp add: ft(2))
  qed
  moreover have "current_dir t = ?D" using t(4) al(9) by (simp add: x_def v_def same_env_def)
  ultimately show ?thesis
    using run t(2) al(4) ft(1) Nt new_dir N(2)
    by (intro exI [of _ k] exI [of _ t]) (simp add: N_def fresh_inode_def)
qed

text \<open>Creating a name that exists changes nothing and answers the error code.\<close>

lemma create_dup:
  assumes ok: "fs_ok dev s" and D: "dir_ok dev s (current_dir s)"
    and cs: "no_nul cs" "slash \<notin> set cs" "length cs < 64"
    and old: "dir_lookup (dir_block dev s (current_dir s)) cs \<noteq> None"
  shows "do_touch dev junk (cs @ 0 # r) mode s = Some (ERROR_DUP_DIR_NAME, s)"
    and "do_mkdir dev junk (dot # slash # cs @ 0 # r) mode s = Some (ERROR_DUP_DIR_NAME, s)"
proof -
  let ?D = "current_dir s" and ?P = "sync_from_disk_inode dev s (i_num (current_dir s))"
  note DD = dir_okD [OF D]
  obtain j where j: "dir_lookup (dir_block dev s ?D) cs = Some j" using old by auto
  have "j < 32" using dir_lookup_SomeD [OF j] by simp
  then have ne: "(of_nat j :: u32) \<noteq> -1"
    using unat_of_nat [of j, where 'a = 32] by (auto simp: word_unat_eq_iff unsigned_minus_1_eq_mask mask_eq_exp_minus_1)
  have fd: "find_dentry dev s ?P (cs @ 0 # q') = Some (of_nat j)" for q'
    using find_spec(3) [of ?P dev s cs q'] DD(8) cs(1) j dir_block_parent [OF D] by simp
  obtain q where q: "split_path (dot # slash # cs @ 0 # replicate (509 - length cs) 0) =
      Some (dot # 0 # q, cs @ 0 # replicate (63 - length cs) 0)"
    using split_dotted [OF cs] by blast
  have path: "dotted_path (cs @ 0 # r) = Some (dot # slash # cs @ 0 # replicate (509 - length cs) 0)"
    "path_copy (dot # slash # cs @ 0 # r) = Some (dot # slash # cs @ 0 # replicate (509 - length cs) 0)"
    using dotted_path_spec [OF cs(1)] path_copy_spec [of "dot # slash # cs" r] cs by simp_all
  show "do_touch dev junk (cs @ 0 # r) mode s = Some (ERROR_DUP_DIR_NAME, s)"
    using path q find_self [OF D, of q] reload_bmps [OF ok] fd ne by (simp add: do_touch_def Let_def)
  show "do_mkdir dev junk (dot # slash # cs @ 0 # r) mode s = Some (ERROR_DUP_DIR_NAME, s)"
    using path q find_self [OF D, of q] reload_bmps [OF ok] fd ne by (simp add: do_mkdir_def Let_def)
qed

end

section \<open>Opening and closing\<close>

lemma find_fd_None: "find_fd inum i fds = None \<longleftrightarrow> (\<forall>f \<in> set fds. fd_inum f \<noteq> inum)"
  by (induction fds arbitrary: i) auto

lemma first_empty_fd_Some:
  "first_empty_fd i fds = Some j \<Longrightarrow> i \<le> j \<and> j < i + length fds \<and> fds ! (j - i) = zero_fd"
proof (induction fds arbitrary: i)
  case (Cons f fds)
  show ?case
  proof (cases "is_empty_fd f")
    case False
    then have "Suc i \<le> j \<and> j < Suc i + length fds \<and> fds ! (j - Suc i) = zero_fd"
      using Cons.IH [of "Suc i"] Cons.prems by simp
    then show ?thesis by (auto simp: nth_Cons')
  qed (use Cons.prems in \<open>auto simp: is_empty_fd_zero\<close>)
qed simp

lemma first_empty_fd_ex: "zero_fd \<in> set fds \<Longrightarrow> \<exists>j. first_empty_fd i fds = Some j"
  by (induction fds arbitrary: i) (auto simp: is_empty_fd_zero)

definition lookup_name :: "'c sd_dev \<Rightarrow> 'c fs_state \<Rightarrow> inode_t \<Rightarrow> u8 list \<Rightarrow> u32" where
  "lookup_name dev s D cs = (case dir_lookup (dir_block dev s D) cs of
     Some j \<Rightarrow> entry_inum (dir_block dev s D) j | None \<Rightarrow> -1)"

lemma find_file_lookup:
  "dir_ok dev s D \<Longrightarrow> no_nul cs \<Longrightarrow> find_file dev s D (cs @ 0 # r) = Some (lookup_name dev s D cs)"
  by (simp add: lookup_name_def find_spec(1) dir_okD)

lemma do_fopen_spec:
  assumes D: "dir_ok dev s (current_dir s)"
    and cs: "no_nul cs" "slash \<notin> set cs" "length cs < 64"
    and k: "k = lookup_name dev s (current_dir s) cs"
  shows "do_fopen dev (cs @ 0 # r) mode s =
    (case find_fd k 0 (file_descriptor_table s) of Some i \<Rightarrow> Some (i, s)
     | None \<Rightarrow> map_option (\<lambda>j. (j, s \<lparr> file_descriptor_table := (file_descriptor_table s)
         [j := \<lparr> fd_inum = k, fd_mode = mode, fd_r_offset = 0, fd_w_offset = 0 \<rparr>] \<rparr>))
         (first_empty_fd 0 (file_descriptor_table s)))"
proof -
  let ?D = "current_dir s"
  obtain q where q: "split_path (dot # slash # cs @ 0 # replicate (509 - length cs) 0) =
      Some (dot # 0 # q, cs @ 0 # replicate (63 - length cs) 0)"
    using split_dotted [OF cs] by blast
  have path: "dotted_path (cs @ 0 # r) = Some (dot # slash # cs @ 0 # replicate (509 - length cs) 0)"
    using dotted_path_spec [OF cs(1)] cs(3) by simp
  have "find_file dev s (sync_from_disk_inode dev s (i_num ?D)) (cs @ 0 # q') = Some k" for q'
    using find_spec(1) [of "sync_from_disk_inode dev s (i_num ?D)" dev s cs q'] dir_okD [OF D] cs(1)
      dir_block_parent [OF D] by (simp add: k lookup_name_def cong: option.case_cong)
  then show ?thesis
    using path q find_self [OF D, of q]
    by (simp add: do_fopen_def Let_def map_option_eq_bind split: option.split)
qed

section \<open>Reading and writing the first block of a file\<close>

lemma range_one:
  fixes b :: u32
  assumes "data_block b"
  shows "b + of_nat (Suc 0) \<le> b \<longleftrightarrow> False"
proof -
  have "unat (b + 1) = unat b + 1" using assms by (simp add: data_block_def unat_word_ariths)
  then show ?thesis by (simp add: word_le_nat_alt)
qed

lemma read_range_one:
  assumes "data_block b"
  shows "read_range dev s b b 0 buf = Some (splice buf 0 (read_block dev s b))"
proof -
  have "read_range dev s b b 0 buf = read_range dev s b b (Suc 0) (splice buf 0 (read_block dev s b))"
    by (subst read_range.simps) simp
  also have "\<dots> = Some (splice buf 0 (read_block dev s b))"
    by (subst read_range.simps) (simp only: range_one [OF assms] if_False)
  finally show ?thesis .
qed

lemma write_range_one:
  assumes "data_block b"
  shows "write_range dev b b 0 buf s = Some (write_block dev b (slice buf 0 4096) s)"
proof -
  have "write_range dev b b 0 buf s = write_range dev b b (Suc 0) buf (write_block dev b (slice buf 0 4096) s)"
    by (subst write_range.simps) simp
  also have "\<dots> = Some (write_block dev b (slice buf 0 4096) s)"
    by (subst write_range.simps) (simp only: range_one [OF assms] if_False)
  finally show ?thesis .
qed

lemma first_block_off:
  fixes off len :: u32
  assumes "unat off + unat len < 4096"
  shows "off div 4096 = 0" "(off + len) div 4096 = 0" "unat (off mod 4096) = unat off"
    "unat (off + len) = unat off + unat len"
proof -
  show s: "unat (off + len) = unat off + unat len" using assms by (simp add: unat_word_ariths)
  show "off div 4096 = 0" "(off + len) div 4096 = 0" "unat (off mod 4096) = unat off"
    using assms s by (simp_all add: word_unat_eq_iff unat_div unat_mod)
qed

text \<open>The contents of the first block of the file behind a descriptor.\<close>

definition file_block :: "'c sd_dev \<Rightarrow> 'c fs_state \<Rightarrow> u32 \<Rightarrow> u8 list" where
  "file_block dev s k = read_block dev s (i_direct_table (sync_from_disk_inode dev s k) ! 0)"

definition has_block :: "'c sd_dev \<Rightarrow> 'c fs_state \<Rightarrow> u32 \<Rightarrow> bool" where
  "has_block dev s k \<longleftrightarrow> data_block (i_direct_table (sync_from_disk_inode dev s k) ! 0)"

context sd_card
begin

lemma do_fread_ok:
  assumes fd: "fd < length (file_descriptor_table s)" "f = file_descriptor_table s ! fd"
    and len: "unat (fd_r_offset f) + unat len < 4096" "unat len \<le> length ubuf"
    and blk: "has_block dev s (fd_inum f)"
  shows "do_fread dev fd ubuf len s =
    Some (len, slice (file_block dev s (fd_inum f)) (unat (fd_r_offset f)) (unat len) @ drop (unat len) ubuf,
      s \<lparr> file_descriptor_table := (file_descriptor_table s)
            [fd := f \<lparr> fd_r_offset := fd_r_offset f + len \<rparr>] \<rparr>)"
proof -
  let ?ino = "sync_from_disk_inode dev s (fd_inum f)"
  let ?b = "i_direct_table ?ino ! 0"
  note off = first_block_off [OF len(1)]
  have g: "get_block_index_in_inode dev s ?ino 0 = Some ?b" by (simp add: get_direct)
  have b: "data_block ?b" using blk by (simp add: has_block_def)
  let ?B = "file_block dev s (fd_inum f)"
  have buf: "read_range dev s ?b ?b 0 (replicate 20480 0) = Some (?B @ replicate 16384 0)"
    using read_range_one [OF b, of dev s "replicate 20480 0"] by (simp add: splice_def file_block_def)
  have lenB: "length ?B = 4096" by (simp add: file_block_def)
  have "memcpy ubuf (drop (unat (fd_r_offset f)) (?B @ replicate 16384 0)) (unat len) =
      Some (slice ?B (unat (fd_r_offset f)) (unat len) @ drop (unat len) ubuf)"
    using len lenB by (simp add: memcpy_eq slice_def)
  then show ?thesis
    using fd g buf off by (simp add: do_fread_def Let_def)
qed

lemma do_fwrite_more_ok:
  assumes ok: "fs_ok dev s" and fd: "fd < length (file_descriptor_table s)" "f = file_descriptor_table s ! fd"
    and k: "unat (fd_inum f) < INODE_NUM"
    and len: "unat (fd_w_offset f) + unat len < 4096" "unat len \<le> length buffer" "fd_w_offset f \<noteq> 0"
    and blk: "has_block dev s (fd_inum f)"
  shows "\<exists>t. do_fwrite dev fd buffer len s = Some (len, t) \<and> fs_ok dev t \<and> has_block dev t (fd_inum f) \<and>
    file_block dev t (fd_inum f) =
      splice (file_block dev s (fd_inum f)) (unat (fd_w_offset f)) (take (unat len) buffer) \<and>
    file_descriptor_table t =
      (file_descriptor_table s)[fd := f \<lparr> fd_w_offset := fd_w_offset f + len \<rparr>]"
proof -
  let ?ino = "sync_from_disk_inode dev s (fd_inum f)" and ?o = "unat (fd_w_offset f)"
  let ?b = "i_direct_table ?ino ! 0" and ?B = "file_block dev s (fd_inum f)"
  note off = first_block_off [OF len(1)]
  have g: "get_block_index_in_inode dev s ?ino 0 = Some ?b" by (simp add: get_direct)
  have b: "data_block ?b" using blk by (simp add: has_block_def)
  note bd = data_blockD [OF b]
  have lenB: "length ?B = 4096" by (simp add: file_block_def)
  define R where "R = ?B @ replicate 16384 0"
  have buf: "read_range dev s ?b ?b 0 (replicate 20480 0) = Some R"
    using read_range_one [OF b, of dev s "replicate 20480 0"] by (simp add: splice_def file_block_def R_def)
  define T where "T = take (unat len) buffer @ drop (?o + unat len) R"
  have cp: "memcpy (drop ?o R) buffer (unat len) = Some T"
    using len lenB by (simp add: memcpy_eq add.commute R_def T_def)
  define S where "S = splice ?B ?o (take (unat len) buffer)"
  have sl: "slice (take ?o R @ T) 0 4096 = S"
    using len lenB by (simp add: S_def slice_def splice_def R_def T_def)
  have lenS: "length S = 4096" using len lenB by (simp add: S_def)
  define s1 where "s1 = s \<lparr> file_descriptor_table := (file_descriptor_table s)
    [fd := f \<lparr> fd_w_offset := fd_w_offset f + len \<rparr>] \<rparr>"
  define t where "t = write_block dev ?b S s1"
  have "do_fwrite dev fd buffer len s = Some (len, t)"
    using fd g buf off cp len(3) sl write_range_one [OF b, of dev "take ?o R @ T" s1]
    by (simp add: do_fwrite_def Let_def t_def s1_def)
  moreover have "fs_ok dev t"
    unfolding t_def using ok bd lenS by (intro fs_ok_write_block) (simp_all add: s1_def)
  moreover have it: "sync_from_disk_inode dev t (fd_inum f) = ?ino"
  proof -
    have "sync_from_disk_inode dev t (fd_inum f) = sync_from_disk_inode dev s1 (fd_inum f)"
      using k bd lenS by (intro sync_from_disk_inode_cong) (auto simp: t_def read_write_block)
    then show ?thesis by (simp add: s1_def)
  qed
  moreover have "read_block dev t ?b = S" using bd lenS by (simp add: t_def read_write_block)
  ultimately show ?thesis
    using b by (intro exI [of _ t])
      (simp add: has_block_def file_block_def S_def t_def s1_def)
qed

lemma do_fwrite_first_ok:
  assumes ok: "fs_ok dev s" and fd: "fd < length (file_descriptor_table s)" "f = file_descriptor_table s ! fd"
    and k: "unat (fd_inum f) < INODE_NUM" "i_num (sync_from_disk_inode dev s (fd_inum f)) = fd_inum f"
    and len: "unat len < 4096" "unat len \<le> length buffer" and zero: "fd_w_offset f = 0"
    and free: "free_blocks s \<noteq> {}"
  shows "\<exists>t. do_fwrite dev fd buffer len s = Some (len, t) \<and> fs_ok dev t \<and> has_block dev t (fd_inum f) \<and>
    file_block dev t (fd_inum f) = take (unat len) buffer @ replicate (4096 - unat len) 0 \<and>
    card (free_blocks t) + 1 = card (free_blocks s) \<and>
    file_descriptor_table t = (file_descriptor_table s)[fd := f \<lparr> fd_w_offset := len \<rparr>]"
proof -
  let ?ino = "sync_from_disk_inode dev s (fd_inum f)"
  have off: "len div 4096 = 0" using len(1) by (simp add: word_unat_eq_iff unat_div)
  obtain b u where u: "alloc_pointer_block dev s = Some (b, u)" "fs_ok dev u" "data_block b"
    "unat b \<in> free_blocks s" "free_blocks u = free_blocks s - {unat b}" "same_env s u"
    "\<forall>c. on_card c \<and> 9 \<le> unat c \<longrightarrow>
       read_block dev u c = (if c = b then replicate 4096 0 else read_block dev s c)"
    using alloc_pointer_block_ok [OF ok free] by blast
  note bd = data_blockD [OF u(3)]
  define I where "I = (grow (?ino \<lparr> i_indirect_block_1_ptr := b \<rparr>))
    \<lparr> i_direct_table := (i_direct_table ?ino)[0 := b] \<rparr>"
  define v where "v = sync_to_disk_inode dev I u"
  have I: "inode_ok I" "unat (i_num I) < INODE_NUM" "i_num I = fd_inum f" "i_direct_table I ! 0 = b"
    using k inode_ok_sync [of dev s "fd_inum f"] by (simp_all add: I_def inode_ok_def grow_def)
  have tl: "length (i_direct_table ?ino) = 12" using inode_ok_sync [of dev s "fd_inum f"] by (simp add: inode_ok_def)
  have al: "fwrite_alloc dev (Suc 0) 0 0 ?ino s = Some (I, v)"
    using u(1) tl by (simp add: Let_def I_def v_def)
  have okv: "fs_ok dev v" unfolding v_def by (rule fs_ok_sync_inode [OF u(2) I(1,2)])
  have rb: "read_block dev v b = replicate 4096 0"
    using read_sync_inode [OF I(1,2) bd(1,2)] u(7) bd by (simp add: v_def)
  have g: "get_block_index_in_inode dev v I 0 = Some b" using get_direct [of 0 I dev v] I by simp
  define R :: "u8 list" where "R = replicate 20480 0"
  have buf: "read_range dev v b b 0 R = Some R"
    using read_range_one [OF u(3), of dev v R] rb by (simp add: splice_def R_def flip: replicate_add)
  define T where "T = take (unat len) buffer @ replicate (20480 - unat len) 0"
  have cp: "memcpy R buffer (unat len) = Some T"
    using len by (simp add: memcpy_eq R_def T_def)
  define S where "S = take (unat len) buffer @ replicate (4096 - unat len) 0"
  have sl: "slice T 0 4096 = S" using len by (simp add: slice_def T_def S_def)
  have lenS: "length S = 4096" using len by (simp add: S_def)
  have fv: "file_descriptor_table v = file_descriptor_table s" using u(6) by (simp add: v_def same_env_def)
  define s1 where "s1 = v \<lparr> file_descriptor_table := (file_descriptor_table s)[fd := f \<lparr> fd_w_offset := len \<rparr>] \<rparr>"
  define t where "t = write_block dev b S s1"
  have "do_fwrite dev fd buffer len s = Some (len, t)"
    using fd zero g buf off cp sl al fv write_range_one [OF u(3), of dev T s1]
    by (simp add: do_fwrite_def Let_def R_def [symmetric] t_def s1_def del: fwrite_alloc.simps)
  moreover have "fs_ok dev t"
    unfolding t_def using okv bd lenS by (intro fs_ok_write_block) (simp_all add: s1_def)
  moreover have it: "sync_from_disk_inode dev t (fd_inum f) = I"
  proof -
    have "sync_from_disk_inode dev t (fd_inum f) = sync_from_disk_inode dev s1 (fd_inum f)"
      using k bd lenS by (intro sync_from_disk_inode_cong) (auto simp: t_def read_write_block)
    then show ?thesis using sync_inode [OF I(1,2,2), of u] I(3) by (simp add: s1_def v_def)
  qed
  moreover have "read_block dev t b = S" using bd lenS by (simp add: t_def read_write_block)
  moreover have "card (free_blocks t) + 1 = card (free_blocks s)"
  proof -
    have "free_blocks t = free_blocks s - {unat b}" using u(5) by (simp add: t_def s1_def v_def free_blocks_def)
    moreover have "finite (free_blocks s)" by (simp add: free_blocks_def)
    ultimately show ?thesis using u(4) card_Suc_Diff1 [of "free_blocks s" "unat b"] by simp
  qed
  ultimately show ?thesis
    using u(3) I(4) by (intro exI [of _ t]) (simp add: has_block_def file_block_def S_def t_def s1_def)
qed

end

end
