(* ===== verification/Fs_Main.thy ===== *)
theory Fs_Main
  imports Fs_Props
begin

text \<open>
  The properties of the file system. Each is stated for every device that is an \<open>sd_card\<close>; the
  witnesses are about a file system made by \<^verbatim>\<open>do_mkfs\<close> on the card in memory, read and written
  through the model of \<^verbatim>\<open>libepmon\<close>.
\<close>

section \<open>A concrete file system for the witnesses\<close>

definition ram_dev :: "((u32 \<Rightarrow> u8) \<times> u8 list) sd_dev" where
  "ram_dev = libepmon (ram_rom 0)"

definition blank_fs :: "((u32 \<Rightarrow> u8) \<times> u8 list) fs_state" where
  "blank_fs = \<lparr> sdcard = (\<lambda>_. 0, []), superblock_buffer = replicate 4096 0,
     blockbmp_buffer = replicate 32768 0, inodebmp_block_buffer = replicate 4096 0,
     file_descriptor_table = replicate 32 zero_fd, root_inode = root_of 0, current_dir = root_of 0,
     current_dir_link = root_of 0, cat_buffer = [], ls_buffer = [], fs_ticks = 7 \<rparr>"

definition made_fs :: "((u32 \<Rightarrow> u8) \<times> u8 list) fs_state" where
  "made_fs = the (do_mkfs ram_dev blank_fs)"

lemma ram_dev_card: "sd_card ram_dev"
  unfolding ram_dev_def by (rule ram.libepmon_card)

lemma made_fs: "do_mkfs ram_dev blank_fs = Some made_fs" "fresh_fs ram_dev blank_fs made_fs"
  using sd_card.do_mkfs_ok [OF ram_dev_card, of blank_fs] by (auto simp: made_fs_def)

lemma fresh_root_ok:
  assumes "fresh_fs dev s t"
  shows "dir_ok dev t (current_dir t)" and "i_num (current_dir t) = 0"
    and "i_fnum (sync_from_disk_inode dev t (i_num (current_dir t))) = 0"
    and "cs \<noteq> [dot] \<Longrightarrow> cs \<noteq> [dot, dot] \<Longrightarrow> cs \<noteq> [] \<Longrightarrow>
      dir_lookup (dir_block dev t (current_dir t)) cs = None"
proof -
  have F: "dot_block 0 0 = Some (read_block dev t 266)" "current_dir t = root_of (fs_ticks s)"
    "sync_from_disk_inode dev t 0 = root_of (fs_ticks s)" "free_blocks t = {267..<BLOCK_NUM}"
    "free_inodes t = {1..<INODE_NUM}"
    using assms by (simp_all add: fresh_fs_def)
  show "dir_ok dev t (current_dir t)"
    unfolding F(2)
    by (rule fresh_dir_ok(1) [OF F(1) root_of_def F(3) refl]) (simp_all add: F(4,5) data_block_def)
  show "i_num (current_dir t) = 0" "i_fnum (sync_from_disk_inode dev t (i_num (current_dir t))) = 0"
    by (simp_all add: F(2,3))
  show "dir_lookup (dir_block dev t (current_dir t)) cs = None"
    if "cs \<noteq> [dot]" "cs \<noteq> [dot, dot]" "cs \<noteq> []"
    using dot_block_lookup(3) [OF F(1) that] by (simp add: dir_block_def F(2))
qed

lemmas made_root = fresh_root_ok [OF made_fs(2)]

lemma made_ok: "fs_ok ram_dev made_fs" "free_blocks made_fs = {267..<BLOCK_NUM}"
  "free_inodes made_fs = {1..<INODE_NUM}" "file_descriptor_table made_fs = replicate 32 zero_fd"
  using made_fs(2) by (simp_all add: fresh_fs_def)

section \<open>Making and mounting\<close>

text \<open>
  Claim C20. \<^verbatim>\<open>do_mkfs\<close> always succeeds and makes a consistent file system: the buffers in memory are
  the blocks on the card, the blocks 0 to 266 and the inode 0 are the only ones in use, the two
  counters of the super block agree with the bit maps, the magic number is set, and the root
  directory, which is the current directory, finds itself as \<^verbatim>\<open>.\<close> and as \<^verbatim>\<open>..\<close> and nothing else.
\<close>

theorem mkfs_makes_consistent_fs:
  assumes "sd_card dev"
  shows "\<exists>t. do_mkfs dev s = Some t \<and> fs_ok dev t \<and> free_blocks t = {267..<BLOCK_NUM} \<and>
    free_inodes t = {1..<INODE_NUM} \<and> get32 (superblock_buffer t) s_magic = FS_MAGIC_NUMBER \<and>
    get32 (superblock_buffer t) s_free_blocks_cnt = 261877 \<and>
    get32 (superblock_buffer t) s_free_inode_cnt = 8191 \<and>
    current_dir t = root_inode t \<and> sync_from_disk_inode dev t 0 = root_inode t \<and> dir_ok dev t (current_dir t) \<and>
    find_file dev t (current_dir t) [dot, 0] = Some 0 \<and>
    find_file dev t (current_dir t) [dot, dot, 0] = Some 0 \<and>
    (\<forall>cs. no_nul cs \<and> cs \<noteq> [dot] \<and> cs \<noteq> [dot, dot] \<and> cs \<noteq> [] \<longrightarrow>
       find_file dev t (current_dir t) (cs @ [0]) = Some (-1))"
proof -
  obtain t where t: "do_mkfs dev s = Some t" "fresh_fs dev s t"
    using sd_card.do_mkfs_ok [OF assms, of s] by blast
  note root = fresh_root_ok [OF t(2)]
  have F: "fs_ok dev t" "dot_block 0 0 = Some (read_block dev t 266)" "current_dir t = root_of (fs_ticks s)"
    "sync_from_disk_inode dev t 0 = root_of (fs_ticks s)" "free_blocks t = {267..<BLOCK_NUM}"
    "free_inodes t = {1..<INODE_NUM}"
    using t(2) by (simp_all add: fresh_fs_def)
  have "find_file dev t (current_dir t) [dot, dot, 0] = Some 0"
    unfolding F(3)
    by (rule fresh_dir_ok(2) [OF F(2) root_of_def F(4) refl]) (simp_all add: F(5,6) data_block_def)
  moreover have "find_file dev t (current_dir t) [dot, 0] = Some 0"
    using find_self [OF root(1), of "[]"] root(2) by simp
  moreover have "find_file dev t (current_dir t) (cs @ [0]) = Some (-1)"
    if "no_nul cs" "cs \<noteq> [dot]" "cs \<noteq> [dot, dot]" "cs \<noteq> []" for cs
    using find_file_lookup [OF root(1) that(1), of "[]"] root(4) [OF that(2,3,4)]
    by (simp add: lookup_name_def)
  ultimately show ?thesis
    using t root(1) fs_okD(9,10) [OF F(1)] by (auto simp: fresh_fs_def)
qed

theorem mkfs_makes_consistent_fs_witness:
  "\<exists>t. do_mkfs ram_dev blank_fs = Some t \<and> find_file ram_dev t (current_dir t) [dot, dot, 0] = Some 0"
  using mkfs_makes_consistent_fs [OF ram_dev_card, of blank_fs] by blast

text \<open>
  \<^verbatim>\<open>init_fs\<close> mounts: from any state of the memory, with a card that carries a consistent
  file system and its magic number, it reads back the super block and both bit maps, and makes the
  root inode the current directory; the result is consistent again.
\<close>

theorem init_fs_mounts:
  assumes "sd_card dev" and "fs_ok dev s" and "get32 (superblock_buffer s) s_magic = FS_MAGIC_NUMBER"
    and "sdcard u = sdcard s" and "length (blockbmp_buffer u) = BLOCK_BITMAP_SIZE"
  shows "\<exists>t. init_fs dev u = Some t \<and> superblock_buffer t = superblock_buffer s \<and>
    blockbmp_buffer t = blockbmp_buffer s \<and> inodebmp_block_buffer t = inodebmp_block_buffer s \<and>
    root_inode t = sync_from_disk_inode dev s 0 \<and> current_dir t = root_inode t \<and>
    sdcard t = sdcard s \<and> fs_ok dev t"
proof -
  note D = fs_okD [OF assms(2)]
  have rd: "read_block dev u b = read_block dev s b" for b
    by (simp add: read_block_def sd_card_read_def assms(4))
  then have bmp: "disk_block_bmp dev u = disk_block_bmp dev s" by (simp add: disk_block_bmp_def)
  have ino: "sync_from_disk_inode dev u 0 = sync_from_disk_inode dev s 0"
    by (simp add: sync_from_disk_inode_eq rd)
  let ?t = "u \<lparr> superblock_buffer := superblock_buffer s, blockbmp_buffer := blockbmp_buffer s,
    inodebmp_block_buffer := inodebmp_block_buffer s, root_inode := sync_from_disk_inode dev s 0,
    current_dir := sync_from_disk_inode dev s 0 \<rparr>"
  have "init_fs dev u = Some ?t"
    using assms(3,5) D(5,6,7) bmp rd ino
      sd_card.sync_from_disk_block_bmp_eq [OF assms(1), of "u \<lparr> superblock_buffer := superblock_buffer s \<rparr>"]
    by (simp add: init_fs_def Let_def sync_from_disk_superblock_def sync_from_disk_inode_bmp_def)
  moreover have "fs_ok dev ?t"
    using D rd bmp by (intro fs_okI) (simp_all add: sizes_ok_def free_blocks_def free_inodes_def)
  ultimately show ?thesis using assms(4) by auto
qed

theorem init_fs_mounts_witness:
  "\<exists>t. init_fs ram_dev (blank_fs \<lparr> sdcard := sdcard made_fs \<rparr>) = Some t \<and>
     blockbmp_buffer t = blockbmp_buffer made_fs"
proof -
  have "get32 (superblock_buffer made_fs) s_magic = FS_MAGIC_NUMBER"
    using made_fs(2) by (simp add: fresh_fs_def)
  then show ?thesis
    using init_fs_mounts [OF ram_dev_card made_ok(1), of "blank_fs \<lparr> sdcard := sdcard made_fs \<rparr>"]
    by (auto simp: blank_fs_def)
qed

section \<open>Allocation\<close>

text \<open>
  \<^verbatim>\<open>find_free_block\<close> and \<^verbatim>\<open>find_free_inode\<close> always return: the least number whose bit is
  clear, among the blocks of the card and the inodes of the table, or their error code when every
  bit is set.
\<close>

theorem find_free_returns_least:
  assumes "sizes_ok s"
  shows "find_free_block s = Some (if free_blocks s = {} then ERROR_NO_FREE_BLOCK
      else of_nat (LEAST i. i \<in> free_blocks s)) \<and>
    find_free_inode s = Some (if free_inodes s = {} then ERROR_NO_FREE_INODE
      else of_nat (LEAST i. i \<in> free_inodes s))"
  by (intro conjI find_free_block_spec find_free_inode_spec) (use assms in \<open>simp_all add: sizes_ok_def\<close>)

theorem find_free_returns_least_witness: "find_free_block blank_fs = Some 0 \<and> find_free_inode blank_fs = Some 0"
proof -
  have f: "free_blocks blank_fs = {..<BLOCK_NUM}" "free_inodes blank_fs = {..<INODE_NUM}"
    by (simp_all add: free_blocks_def free_inodes_def blank_fs_def)
  have "(LEAST i :: nat. i < BLOCK_NUM) = 0" "(LEAST i :: nat. i < INODE_NUM) = 0"
    by (simp_all add: Least_equality)
  moreover have "sizes_ok blank_fs" by (simp add: sizes_ok_def blank_fs_def)
  moreover have "{..<BLOCK_NUM} \<noteq> {}" "{..<INODE_NUM} \<noteq> {}"
    by (simp_all add: lessThan_empty_iff)
  ultimately show ?thesis
    using find_free_returns_least [of blank_fs] by (simp add: f)
qed

text \<open>
  Claim C23. Taking a block keeps the file system consistent, on the card and in memory: the least
  free block becomes used, nothing above the block bit map changes on the card, and no other
  block changes its state. On a full card the error code of the search is used as an index and
  the operation fails.
\<close>

theorem alloc_block_keeps_consistent:
  assumes "sd_card dev" and "fs_ok dev s"
  shows "if free_blocks s = {} then alloc_block dev s = None
    else \<exists>k t. alloc_block dev s = Some (k, t) \<and> fs_ok dev t \<and> unat k = (LEAST i. i \<in> free_blocks s) \<and>
      266 \<le> unat k \<and> free_blocks t = free_blocks s - {unat k} \<and> free_inodes t = free_inodes s \<and>
      (\<forall>b. on_card b \<and> 9 \<le> unat b \<longrightarrow> read_block dev t b = read_block dev s b)"
proof (cases "free_blocks s = {}")
  case True
  then show ?thesis using sd_card.alloc_block_full [OF assms(1) fs_okD(1) [OF assms(2)]] by simp
next
  case False
  obtain k t where t: "alloc_block dev s = Some (k, t)" "block_taken dev s k t"
    using sd_card.alloc_block_ok [OF assms False] by blast
  have "unat k = (LEAST i. i \<in> free_blocks s)"
    using t(2) by (intro Least_equality [symmetric]) (auto simp: block_taken_def)
  moreover have "266 \<le> unat k" using block_taken_data [OF assms(2) t(2)] by (simp add: data_block_def)
  moreover have "free_inodes t = free_inodes s" using t(2) by (simp add: block_taken_def free_inodes_def)
  ultimately show ?thesis using False t by (auto simp: block_taken_def)
qed

theorem alloc_block_keeps_consistent_witness:
  "\<exists>t. alloc_block ram_dev made_fs = Some (267, t) \<and> fs_ok ram_dev t"
proof -
  have "(LEAST i :: nat. i \<in> {267..<BLOCK_NUM}) = 267" by (rule Least_equality) auto
  moreover have "unat k = 267 \<Longrightarrow> k = 267" for k :: u32 by (simp add: word_unat_eq_iff)
  ultimately show ?thesis
    using alloc_block_keeps_consistent [OF ram_dev_card made_ok(1)] by (auto simp: made_ok)
qed

section \<open>Inodes and their blocks\<close>



text \<open>
  Writing an inode to the inode table and reading any inode back gives the new inode at its
  number and the old one at every other number of the table; blocks outside the table, and the
  consistency of the file system, are not affected.
\<close>

theorem inode_table_read_over_write:
  assumes "sd_card dev" and "inode_ok ino" and "unat (i_num ino) < INODE_NUM" and "unat k < INODE_NUM"
    and "on_card b" and "\<not> table_block b"
  shows "sync_from_disk_inode dev (sync_to_disk_inode dev ino s) k =
      (if k = i_num ino then ino else sync_from_disk_inode dev s k) \<and>
    read_block dev (sync_to_disk_inode dev ino s) b = read_block dev s b \<and>
    (fs_ok dev s \<longrightarrow> fs_ok dev (sync_to_disk_inode dev ino s))"
  using sd_card.sync_inode [OF assms(1-4)] sd_card.read_sync_inode [OF assms(1-3,5,6)]
    sd_card.fs_ok_sync_inode [OF assms(1) _ assms(2,3)] by blast

theorem inode_table_read_over_write_witness:
  "sync_from_disk_inode ram_dev (sync_to_disk_inode ram_dev (root_of 5) blank_fs) 0 = root_of 5"
  using inode_table_read_over_write [OF ram_dev_card, of "root_of 5" 0 0 blank_fs]
  by (simp add: table_block_def)



text \<open>
  Claim C28. Past the first pointer block the two sides of the code do not meet: writing a pointer
  with an index from 1036 to 1049611 never succeeds (the branch of the second level falls into the
  third, whose index then wraps around and leaves the pointer block), and reading an index does not
  depend on the pointers of the second and third level.
\<close>

theorem second_level_pointers_unusable:
  assumes "1036 \<le> idx" and "idx < 1049612"
  shows "write_block_index_in_inode dev ino idx b s = None \<and>
    get_block_index_in_inode dev s (ino \<lparr> i_indirect_block_2_ptr := p, i_indirect_block_3_ptr := q \<rparr>) j =
    get_block_index_in_inode dev s ino j"
proof -
  have n: "\<not> idx < 12" "\<not> idx < 1036" "idx < 1074791436"
    using assms by (simp_all add: word_less_nat_alt word_le_nat_alt)
  have "write_block_index_in_inode dev ino idx b s = None"
    using assms(2) n write_level_3_wraps [OF assms]
    by (cases "write_level_2 dev ino idx b s") (auto simp: write_block_index_in_inode_def)
  then show ?thesis by (simp add: get_ignores_level_pointers)
qed

theorem second_level_pointers_unusable_witness:
  "write_block_index_in_inode ram_dev (root_of 5) 2000 999 made_fs = None"
  using second_level_pointers_unusable [of 2000 ram_dev "root_of 5" 999 made_fs] by simp

text \<open>
  \<^verbatim>\<open>release_inode_block\<close> frees the blocks of a small file and no others: for an inode whose
  direct table has a null pointer, or that has no pointer block, exactly the blocks before the
  first null pointer become free in the bit map, and nothing else of the state changes.
\<close>

theorem release_frees_direct_blocks:
  assumes "sizes_ok s" and "\<forall>p \<in> set (takeWhile (\<lambda>p. p \<noteq> 0) (i_direct_table ino)). unat p < BLOCK_NUM"
    and "0 \<in> set (i_direct_table ino) \<or> i_indirect_block_1_ptr ino = 0"
  shows "\<exists>t bm. release_inode_block dev ino s = Some t \<and> t = s \<lparr> blockbmp_buffer := bm \<rparr> \<and>
    free_blocks t = free_blocks s \<union> unat ` set (takeWhile (\<lambda>p. p \<noteq> 0) (i_direct_table ino))"
proof -
  obtain bm where bm: "release_inode_block dev ino s = Some (s \<lparr> blockbmp_buffer := bm \<rparr>)"
    "bits bm = bits (blockbmp_buffer s) - unat ` set (takeWhile (\<lambda>p. p \<noteq> 0) (i_direct_table ino))"
    using release_direct [OF _ assms(2,3), of s dev] assms(1) by (auto simp: sizes_ok_def)
  have "free_blocks (s \<lparr> blockbmp_buffer := bm \<rparr>) =
      free_blocks s \<union> unat ` set (takeWhile (\<lambda>p. p \<noteq> 0) (i_direct_table ino))"
    using assms(2) by (auto simp: free_blocks_def bm(2))
  then show ?thesis using bm(1) by auto
qed

theorem release_frees_direct_blocks_witness:
  "\<exists>t. release_inode_block ram_dev (root_of 5) made_fs = Some t \<and> 266 \<in> free_blocks t"
proof -
  have tab: "i_direct_table (root_of 5) = 266 # replicate 11 0"
    by (simp add: root_of_def fresh_inode_def numeral_eq_Suc)
  show ?thesis
    using release_frees_direct_blocks [OF fs_okD(1) [OF made_ok(1)], of "root_of 5" ram_dev]
    by (auto simp: tab)
qed

section \<open>Directories\<close>

text \<open>
  Claim C26. The three searches of a directory are one search of its first block: on a block of
  terminated names, \<^verbatim>\<open>find_file\<close> and \<^verbatim>\<open>_find_file\<close> return the inode number and \<^verbatim>\<open>find_dentry\<close> the
  position of the first of the 32 entries with that name, and all three answer \<open>-1\<close> when there is
  none, whatever the other blocks of the directory hold.
\<close>

theorem searches_look_at_first_block:
  assumes "inode_ok ino" and "no_nul cs"
    and "\<forall>j < 32. 0 \<in> set (slice (read_block dev s (i_direct_table ino ! 0)) (128 * j + 4) 64)"
    and "length (read_block dev s (i_direct_table ino ! 0)) = BLOCK_SIZE"
  shows "case List.find (\<lambda>j. entry_name (read_block dev s (i_direct_table ino ! 0)) j = cs) [0..<32] of
      None \<Rightarrow> find_file dev s ino (cs @ [0]) = Some (-1) \<and> u_find_file dev s ino (cs @ [0]) = Some (-1) \<and>
        find_dentry dev s ino (cs @ [0]) = Some (-1)
    | Some j \<Rightarrow>
        find_file dev s ino (cs @ [0]) = Some (get32 (read_block dev s (i_direct_table ino ! 0)) (128 * j)) \<and>
        u_find_file dev s ino (cs @ [0]) = Some (get32 (read_block dev s (i_direct_table ino ! 0)) (128 * j)) \<and>
        find_dentry dev s ino (cs @ [0]) = Some (of_nat j)"
proof -
  let ?B = "dir_block dev s ino"
  have ok: "dir_block_ok ?B" using assms(3,4) by (simp add: dir_block_ok_def dir_block_def)
  note f = find_spec [OF assms(1) ok assms(2), of "[]"]
  have "List.find (\<lambda>j. entry_name ?B j = cs) [0..<32] = dir_lookup ?B cs"
  proof (cases "dir_lookup ?B cs")
    case None
    then show ?thesis using dir_lookup_NoneD [OF None] by (simp add: find_None_iff del: upt_rec_numeral)
  next
    case (Some j)
    note j = dir_lookup_SomeD [OF Some]
    then have "List.find (\<lambda>j. entry_name ?B j = cs) [0..<32] = Some j"
      by (subst find_Some_iff) (auto intro!: exI [of _ j] simp del: upt_rec_numeral)
    then show ?thesis using Some by simp
  qed
  then show ?thesis using f by (auto simp: dir_block_def entry_inum_def split: option.splits)
qed

theorem searches_look_at_first_block_witness:
  "find_dentry ram_dev made_fs (current_dir made_fs) [dot, dot, 0] = Some 1"
proof -
  have F: "dot_block 0 0 = Some (read_block ram_dev made_fs 266)" "i_direct_table (current_dir made_fs) ! 0 = 266"
    "inode_ok (current_dir made_fs)"
    using made_fs(2) by (auto simp: fresh_fs_def)
  note B = dot_block_facts [OF F(1)]
  have "List.find (\<lambda>j. entry_name (read_block ram_dev made_fs 266) j = [dot, dot]) [0..<32] = Some 1"
    using B by (simp add: upt_conv_Cons)
  then show ?thesis
    using searches_look_at_first_block [OF F(3), of "[dot, dot]" ram_dev made_fs] B F(2)
    by (auto simp: dir_block_ok_def simp del: upt_rec_numeral)
qed

text \<open>
  Claim C22. \<^verbatim>\<open>do_touch\<close> of a new name in a current directory with room creates an empty regular file:
  it returns 0, a free inode number becomes used, the name is found in the directory with this
  number, every other name is found as before, the inode on the card is that of an empty file
  with the given mode, and the file system and the directory stay in order.
\<close>

theorem touch_creates_file:
  assumes "sd_card dev" and "fs_ok dev s" and "dir_ok dev s (current_dir s)"
    and "unat (i_fnum (sync_from_disk_inode dev s (i_num (current_dir s)))) < 30"
    and "free_inodes s \<noteq> {}" and "dentry_ok junk"
    and "no_nul cs" and "slash \<notin> set cs" and "length cs < 64" and "cs \<noteq> []"
    and "dir_lookup (dir_block dev s (current_dir s)) cs = None"
  shows "\<exists>k t. do_touch dev junk (cs @ 0 # r) mode s = Some (0, t) \<and> fs_ok dev t \<and>
    unat k \<in> free_inodes s \<and> free_inodes t = free_inodes s - {unat k} \<and> free_blocks t = free_blocks s \<and>
    current_dir t = current_dir s \<and> dir_ok dev t (current_dir t) \<and>
    find_file dev t (current_dir t) (cs @ [0]) = Some k \<and>
    (\<forall>cs'. no_nul cs' \<and> cs' \<noteq> cs \<and> cs' \<noteq> [] \<longrightarrow>
       find_file dev t (current_dir t) (cs' @ [0]) = find_file dev s (current_dir s) (cs' @ [0])) \<and>
    sync_from_disk_inode dev t k = fresh_inode (S_IFREG OR mode) 0 (fs_ticks s) (replicate 12 0) k"
  using sd_card.do_touch_ok [OF assms, of r mode] unfolding entry_added_def by metis

theorem touch_creates_file_witness:
  "\<exists>k t. do_touch ram_dev zero_dentry [97, 0] 0x1a4 made_fs = Some (0, t) \<and>
     find_file ram_dev t (current_dir t) [97, 0] = Some k \<and> k \<noteq> -1"
proof -
  have "dentry_ok zero_dentry" by (simp add: zero_dentry_def dentry_ok_def)
  moreover have "{1..<INODE_NUM} \<noteq> {}" by auto
  moreover have "unat k \<in> {1..<INODE_NUM} \<Longrightarrow> k \<noteq> -1" for k :: u32
    by (auto simp: unsigned_minus_1_eq_mask mask_eq_exp_minus_1)
  moreover have "dir_lookup (dir_block ram_dev made_fs (current_dir made_fs)) [97] = None"
    by (rule made_root(4)) simp_all
  ultimately show ?thesis
    using touch_creates_file
      [OF ram_dev_card made_ok(1) made_root(1), of zero_dentry "[97]" "[]" "0x1a4"] made_root(3)
    by (auto simp: made_ok)
qed

text \<open>
  Claim C21. \<^verbatim>\<open>do_mkdir\<close> of \<^verbatim>\<open>./name\<close> for a new name creates a directory: it returns 0, the name is found
  in the current directory, one inode and one block become used, and the new directory is itself in
  order, with \<^verbatim>\<open>.\<close> pointing to itself and \<^verbatim>\<open>..\<close> to the current directory.
\<close>

theorem mkdir_creates_directory:
  assumes "sd_card dev" and "fs_ok dev s" and "dir_ok dev s (current_dir s)"
    and "unat (i_fnum (sync_from_disk_inode dev s (i_num (current_dir s)))) < 30"
    and "free_inodes s \<noteq> {}" and "free_blocks s \<noteq> {}" and "dentry_ok junk"
    and "no_nul cs" and "slash \<notin> set cs" and "length cs < 64" and "cs \<noteq> []"
    and "dir_lookup (dir_block dev s (current_dir s)) cs = None"
  shows "\<exists>k t. do_mkdir dev junk (dot # slash # cs @ 0 # r) mode s = Some (0, t) \<and> fs_ok dev t \<and>
    current_dir t = current_dir s \<and> dir_ok dev t (current_dir t) \<and>
    free_inodes t = free_inodes s - {unat k} \<and> card (free_blocks t) + 1 = card (free_blocks s) \<and>
    find_file dev t (current_dir t) (cs @ [0]) = Some k \<and>
    (\<forall>cs'. no_nul cs' \<and> cs' \<noteq> cs \<and> cs' \<noteq> [] \<longrightarrow>
       find_file dev t (current_dir t) (cs' @ [0]) = find_file dev s (current_dir s) (cs' @ [0])) \<and>
    dir_ok dev t (sync_from_disk_inode dev t k) \<and>
    find_file dev t (sync_from_disk_inode dev t k) [dot, 0] = Some k \<and>
    find_file dev t (sync_from_disk_inode dev t k) [dot, dot, 0] = Some (i_num (current_dir s))"
proof -
  obtain k t where t: "do_mkdir dev junk (dot # slash # cs @ 0 # r) mode s = Some (0, t)" "fs_ok dev t"
    "current_dir t = current_dir s" "free_inodes t = free_inodes s - {unat k}"
    "card (free_blocks t) + 1 = card (free_blocks s)" "entry_added dev s (current_dir s) cs k t"
    "dir_ok dev t (sync_from_disk_inode dev t k)" "i_num (sync_from_disk_inode dev t k) = k"
    "find_file dev t (sync_from_disk_inode dev t k) [dot, dot, 0] = Some (i_num (current_dir s))"
    using sd_card.do_mkdir_ok [OF assms, of r mode] by blast
  show ?thesis
    using t find_self [OF t(7), of "[]"] by (intro exI [of _ k] exI [of _ t]) (simp add: entry_added_def)
qed

theorem mkdir_creates_directory_witness:
  "\<exists>k t. do_mkdir ram_dev zero_dentry [dot, slash, 98, 0] 0x1ed made_fs = Some (0, t) \<and>
     find_file ram_dev t (sync_from_disk_inode ram_dev t k) [dot, dot, 0] = Some 0"
proof -
  have "dentry_ok zero_dentry" by (simp add: zero_dentry_def dentry_ok_def)
  moreover have "dir_lookup (dir_block ram_dev made_fs (current_dir made_fs)) [98] = None"
    by (rule made_root(4)) simp_all
  ultimately show ?thesis
    using mkdir_creates_directory
      [OF ram_dev_card made_ok(1) made_root(1), of zero_dentry "[98]" "[]" "0x1ed"] made_root(2,3)
    by (auto simp: made_ok)
qed

text \<open>
  Claim C27. Creating a name the current directory already has fails cleanly: \<^verbatim>\<open>do_touch\<close> and
  \<^verbatim>\<open>do_mkdir\<close> return \<^verbatim>\<open>ERROR_DUP_DIR_NAME\<close> and leave the card and the memory as they were.
\<close>

theorem create_duplicate_fails:
  assumes "sd_card dev" and "fs_ok dev s" and "dir_ok dev s (current_dir s)"
    and "no_nul cs" and "slash \<notin> set cs" and "length cs < 64"
    and "dir_lookup (dir_block dev s (current_dir s)) cs \<noteq> None"
  shows "do_touch dev junk (cs @ 0 # r) mode s = Some (ERROR_DUP_DIR_NAME, s) \<and>
    do_mkdir dev junk (dot # slash # cs @ 0 # r) mode s = Some (ERROR_DUP_DIR_NAME, s)"
  using sd_card.create_dup [OF assms] by blast

theorem create_duplicate_fails_witness:
  "do_touch ram_dev zero_dentry [dot, 0] 0 made_fs = Some (ERROR_DUP_DIR_NAME, made_fs)"
  using create_duplicate_fails [OF ram_dev_card made_ok(1) made_root(1), of "[dot]" zero_dentry "[]" 0]
    dir_okD(9) [OF made_root(1)] by auto

section \<open>Files\<close>

text \<open>
  Opening a file that is not open yet and closing it again restores the descriptor table:
  \<^verbatim>\<open>do_fopen\<close> fills an empty slot with the inode number of the name, the mode and zero offsets and
  returns its index, and \<^verbatim>\<open>do_fclose\<close> of that index empties the slot.
\<close>

theorem fopen_fclose_roundtrip:
  assumes "dir_ok dev s (current_dir s)" and "no_nul cs" and "slash \<notin> set cs" and "length cs < 64"
    and "find_file dev s (current_dir s) (cs @ [0]) = Some k"
    and "\<forall>f \<in> set (file_descriptor_table s). fd_inum f \<noteq> k"
    and "zero_fd \<in> set (file_descriptor_table s)"
  shows "\<exists>j t. do_fopen dev (cs @ 0 # r) mode s = Some (j, t) \<and> j < length (file_descriptor_table s) \<and>
    file_descriptor_table s ! j = zero_fd \<and>
    file_descriptor_table t ! j = \<lparr> fd_inum = k, fd_mode = mode, fd_r_offset = 0, fd_w_offset = 0 \<rparr> \<and>
    sdcard t = sdcard s \<and> do_fclose j t = Some s"
proof -
  have k: "k = lookup_name dev s (current_dir s) cs"
    using find_file_lookup [OF assms(1,2), of "[]"] assms(5) by simp
  obtain j where j: "first_empty_fd 0 (file_descriptor_table s) = Some j"
    using first_empty_fd_ex [OF assms(7)] by blast
  have jl: "j < length (file_descriptor_table s)" "file_descriptor_table s ! j = zero_fd"
    using first_empty_fd_Some [OF j] by simp_all
  have "find_fd k 0 (file_descriptor_table s) = None" using assms(6) find_fd_None by blast
  then have "do_fopen dev (cs @ 0 # r) mode s = Some (j, s \<lparr> file_descriptor_table :=
      (file_descriptor_table s)[j := \<lparr> fd_inum = k, fd_mode = mode, fd_r_offset = 0, fd_w_offset = 0 \<rparr>] \<rparr>)"
    using do_fopen_spec [OF assms(1-4) k, of r mode] j by simp
  moreover have "(file_descriptor_table s)[j := zero_fd] = file_descriptor_table s"
    using jl(2) by (metis list_update_id)
  ultimately show ?thesis using jl by (auto simp: do_fclose_def)
qed

theorem fopen_fclose_roundtrip_witness:
  "\<exists>j t. do_fopen ram_dev [97, 0] 2 made_fs = Some (j, t) \<and> do_fclose j t = Some made_fs"
proof -
  have "find_file ram_dev made_fs (current_dir made_fs) [97, 0] = Some (-1)"
    using find_file_lookup [OF made_root(1), of "[97]" "[]"] made_root(4) [of "[97]"]
    by (simp add: lookup_name_def)
  then show ?thesis
    using fopen_fclose_roundtrip [OF made_root(1), of "[97]" "-1" "[]" 2] made_ok(4)
    by (auto simp: zero_fd_def)
qed

text \<open>
  \<^verbatim>\<open>do_fopen\<close> does not report a missing file: for a name the directory does not have, it
  still returns a descriptor, whose inode number is \<open>-1\<close>; and with a full descriptor table the
  search for an empty slot leaves the table.
\<close>

theorem fopen_missing_file:
  assumes "dir_ok dev s (current_dir s)" and "no_nul cs" and "slash \<notin> set cs" and "length cs < 64"
    and "find_file dev s (current_dir s) (cs @ [0]) = Some (-1)"
    and "\<forall>f \<in> set (file_descriptor_table s). fd_inum f \<noteq> -1"
  shows "if zero_fd \<in> set (file_descriptor_table s)
    then \<exists>j t. do_fopen dev (cs @ 0 # r) mode s = Some (j, t) \<and> j < length (file_descriptor_table s) \<and>
      fd_inum (file_descriptor_table t ! j) = -1
    else do_fopen dev (cs @ 0 # r) mode s = None"
proof -
  have k: "-1 = lookup_name dev s (current_dir s) cs"
    using find_file_lookup [OF assms(1,2), of "[]"] assms(5) by simp
  have none: "find_fd (-1) 0 (file_descriptor_table s) = None" using assms(6) find_fd_None by blast
  have spec: "do_fopen dev (cs @ 0 # r) mode s = map_option (\<lambda>j. (j, s \<lparr> file_descriptor_table :=
      (file_descriptor_table s)[j := \<lparr> fd_inum = -1, fd_mode = mode, fd_r_offset = 0, fd_w_offset = 0 \<rparr>] \<rparr>))
      (first_empty_fd 0 (file_descriptor_table s))"
    using do_fopen_spec [OF assms(1-4) k, of r mode] none by simp
  show ?thesis
  proof (cases "zero_fd \<in> set (file_descriptor_table s)")
    case True
    then obtain j where "first_empty_fd 0 (file_descriptor_table s) = Some j"
      using first_empty_fd_ex by blast
    then show ?thesis using True spec first_empty_fd_Some by fastforce
  next
    case False
    have "first_empty_fd 0 (file_descriptor_table s) = None"
      using False first_empty_fd_Some [of 0 "file_descriptor_table s"] nth_mem
      by (cases "first_empty_fd 0 (file_descriptor_table s)") fastforce+
    then show ?thesis using False spec by simp
  qed
qed

theorem fopen_missing_file_witness:
  "\<exists>j t. do_fopen ram_dev [97, 0] 2 made_fs = Some (j, t) \<and> fd_inum (file_descriptor_table t ! j) = -1"
proof -
  have "find_file ram_dev made_fs (current_dir made_fs) [97, 0] = Some (-1)"
    using find_file_lookup [OF made_root(1), of "[97]" "[]"] made_root(4) [of "[97]"]
    by (simp add: lookup_name_def)
  then show ?thesis
    using fopen_missing_file [OF made_root(1), of "[97]" "[]" 2] made_ok(4)
    by (auto simp: zero_fd_def)
qed



end
