(* ===== verification/Screen.thy ===== *)
theory Screen
  imports Printk
begin

text \<open>
  The screen driver, \<^verbatim>\<open>drivers/screen.c\<close> (the part compiled under \<^verbatim>\<open>_PROJECT_3_\<close>): a buffer of 60
  lines of 80 characters, a cursor, and the differential refresh that sends the changed cells
  to a VT100 terminal on the serial line.

  The cursor coordinates are the \<^verbatim>\<open>int\<close> variables of the driver as 32-bit words; a cell outside the
  buffers is a failure. The terminal is not part of the sources: the locale
  \<open>vt100_terminal\<close> states the behaviour of the escape sequences the driver relies on.
\<close>

section \<open>State\<close>

abbreviation (input) "SCREEN_WIDTH \<equiv> 80 :: nat"
abbreviation (input) "SCREEN_HEIGHT \<equiv> 60 :: nat"

record screen =
  screen_cursor_x :: u32
  screen_cursor_y :: u32
  new_screen :: "u8 list"
  old_screen :: "u8 list"
  port :: "port_event list"

definition set_new :: "nat \<Rightarrow> u8 \<Rightarrow> screen \<Rightarrow> screen option" where
  "set_new k c s = do { b \<leftarrow> store (new_screen s) k c; Some (s\<lparr>new_screen := b\<rparr>) }"

definition set_old :: "nat \<Rightarrow> u8 \<Rightarrow> screen \<Rightarrow> screen option" where
  "set_old k c s = do { b \<leftarrow> store (old_screen s) k c; Some (s\<lparr>old_screen := b\<rparr>) }"

section \<open>Escape sequences\<close>

definition screen_printk :: "u8 list \<Rightarrow> va_item list \<Rightarrow> screen \<Rightarrow> screen option" where
  "screen_printk fmt va s = do { (_, out) \<leftarrow> printk fmt va (port s); Some (s\<lparr>port := out\<rparr>) }"

text \<open>The formats are \<^verbatim>\<open>%c[%d;%dH\<close>, \<^verbatim>\<open>%c[2J\<close> and \<^verbatim>\<open>%c[?25l\<close>.\<close>

definition vt100_move_cursor :: "u32 \<Rightarrow> u32 \<Rightarrow> screen \<Rightarrow> screen option" where
  "vt100_move_cursor x y = screen_printk [37, 99, 91, 37, 100, 59, 37, 100, 72, 0] [VInt 27, VInt y, VInt x]"

definition vt100_clear :: "screen \<Rightarrow> screen option" where
  "vt100_clear = screen_printk [37, 99, 91, 50, 74, 0] [VInt 27]"

definition vt100_hidden_cursor :: "screen \<Rightarrow> screen option" where
  "vt100_hidden_cursor = screen_printk [37, 99, 91, 63, 50, 53, 108, 0] [VInt 27]"

section \<open>Writing into the buffer\<close>

definition screen_scroll :: "nat \<Rightarrow> nat \<Rightarrow> screen \<Rightarrow> screen option" where
  "screen_scroll line1 line2 s = do {
     s \<leftarrow> for_range line1 (line2 + 1) (\<lambda>i. for_range 0 SCREEN_WIDTH (\<lambda>j. set_old (i * SCREEN_WIDTH + j) 0)) s;
     for_range line1 (line2 + 1) (\<lambda>i. for_range 0 SCREEN_WIDTH (\<lambda>j s.
       if i = line2 then set_new (i * SCREEN_WIDTH + j) 32 s
       else do {
         c \<leftarrow> load (new_screen s) ((i + 1) * SCREEN_WIDTH + j);
         set_new (i * SCREEN_WIDTH + j) c s
       })) s
   }"

definition cursor_cell :: "screen \<Rightarrow> nat" where
  "cursor_cell s = unat (screen_cursor_y s * 80 + screen_cursor_x s)"

text \<open>The end of \<^verbatim>\<open>screen_write_ch\<close>: the cursor is brought back into the screen.\<close>

definition screen_settle :: "screen \<Rightarrow> screen option" where
  "screen_settle s = do {
     let s = (if screen_cursor_x s <s 0 then s\<lparr>screen_cursor_x := 0\<rparr> else s);
     let s = (if 80 \<le>s screen_cursor_x s
       then s\<lparr>screen_cursor_y := screen_cursor_y s + 1, screen_cursor_x := 0\<rparr> else s);
     let s = (if screen_cursor_y s <s 0 then s\<lparr>screen_cursor_y := 0\<rparr> else s);
     if 60 \<le>s screen_cursor_y s then do {
       s \<leftarrow> screen_scroll (SCREEN_HEIGHT div 2 + 1) (SCREEN_HEIGHT - 1) s;
       Some (s\<lparr>screen_cursor_x := 0, screen_cursor_y := 59\<rparr>)
     } else Some s
   }"

definition screen_write_ch :: "u8 \<Rightarrow> screen \<Rightarrow> screen option" where
  "screen_write_ch ch s = do {
     s \<leftarrow> if ch = 10 then Some (s\<lparr>screen_cursor_x := 0, screen_cursor_y := screen_cursor_y s + 1\<rparr>)
         else if ch = 8 then
           if 0 <s screen_cursor_x s then do {
             let s = s\<lparr>screen_cursor_x := screen_cursor_x s - 1\<rparr>;
             set_new (cursor_cell s) 32 s
           } else Some s
         else if ch = 13 then Some (s\<lparr>screen_cursor_x := 0, screen_cursor_y := screen_cursor_y s + 1\<rparr>)
         else do {
           s \<leftarrow> set_new (cursor_cell s) ch s;
           Some (s\<lparr>screen_cursor_x := screen_cursor_x s + 1\<rparr>)
         };
     screen_settle s
   }"

definition screen_move_cursor :: "u32 \<Rightarrow> u32 \<Rightarrow> screen \<Rightarrow> screen" where
  "screen_move_cursor x y s = s\<lparr>screen_cursor_x := x, screen_cursor_y := y\<rparr>"

definition screen_cursor_add :: "u32 \<Rightarrow> u32 \<Rightarrow> screen \<Rightarrow> screen" where
  "screen_cursor_add x y s =
     s\<lparr>screen_cursor_x := screen_cursor_x s + x, screen_cursor_y := screen_cursor_y s + y\<rparr>"

definition screen_write :: "u8 list \<Rightarrow> screen \<Rightarrow> screen option" where
  "screen_write buff s = do {
     l \<leftarrow> strlen buff;
     for_range 0 l (\<lambda>i s. do { c \<leftarrow> load buff i; screen_write_ch c s }) s
   }"

section \<open>Refreshing the terminal\<close>

definition reflush_cell :: "nat \<Rightarrow> nat \<Rightarrow> screen \<Rightarrow> screen option" where
  "reflush_cell i j s = do {
     new \<leftarrow> load (new_screen s) (i * SCREEN_WIDTH + j);
     old \<leftarrow> load (old_screen s) (i * SCREEN_WIDTH + j);
     if new \<noteq> old then do {
       s \<leftarrow> vt100_move_cursor (of_nat j + 1) (of_nat i + 1) s;
       let s = s\<lparr>port := port_write_ch new (port s)\<rparr>;
       set_old (i * SCREEN_WIDTH + j) new s
     } else Some s
   }"

definition screen_reflush :: "screen \<Rightarrow> screen option" where
  "screen_reflush s = do {
     s \<leftarrow> for_range 0 SCREEN_HEIGHT (\<lambda>i. for_range 0 SCREEN_WIDTH (\<lambda>j. reflush_cell i j)) s;
     vt100_move_cursor (screen_cursor_x s) (screen_cursor_y s) s
   }"

definition screen_clear :: "u32 \<Rightarrow> u32 \<Rightarrow> screen \<Rightarrow> screen option" where
  "screen_clear line1 line2 s = do {
     s \<leftarrow> for_range 0 SCREEN_HEIGHT (\<lambda>i. for_range 0 SCREEN_WIDTH (\<lambda>j s. do {
       s \<leftarrow> set_new (i * SCREEN_WIDTH + j) 32 s;
       set_old (i * SCREEN_WIDTH + j) 0 s
     })) s;
     let s = s\<lparr>screen_cursor_x := 0, screen_cursor_y := 0\<rparr>;
     screen_reflush s
   }"

definition init_screen :: "screen \<Rightarrow> screen option" where
  "init_screen s = do {
     s \<leftarrow> vt100_hidden_cursor s;
     s \<leftarrow> vt100_clear s;
     screen_clear 0 59 s
   }"

definition do_write :: "u8 list \<Rightarrow> screen \<Rightarrow> screen option" where
  "do_write buff s = do {
     s \<leftarrow> screen_write buff s;
     screen_reflush s
   }"

section \<open>Loops over the screen\<close>

text \<open>A double loop over lines and columns visits the cells in the order of the buffer.\<close>

lemma for_cells_inv:
  assumes "P (lo * 80) s" "lo \<le> n"
    and "\<And>i j s. lo \<le> i \<Longrightarrow> i < n \<Longrightarrow> j < 80 \<Longrightarrow> P (i * 80 + j) s \<Longrightarrow> \<exists>s'. f i j s = Some s' \<and> P (Suc (i * 80 + j)) s'"
  shows "\<exists>s'. for_range lo n (\<lambda>i. for_range 0 80 (f i)) s = Some s' \<and> P (n * 80) s'"
proof (rule for_range_inv [where P = "\<lambda>i. P (i * 80)"])
  fix i s
  assume i: "lo \<le> i" "i < n" "P (i * 80) s"
  have "\<exists>s'. for_range 0 80 (f i) s = Some s' \<and> P (i * 80 + 80) s'"
    by (rule for_range_inv [where P = "\<lambda>j. P (i * 80 + j)"]) (use i assms(3) in auto)
  then show "\<exists>s'. for_range 0 80 (f i) s = Some s' \<and> P (Suc i * 80) s'" by (simp add: add.commute)
qed (use assms in auto)


section \<open>The cursor stays on the screen\<close>

definition screen_ok :: "screen \<Rightarrow> bool" where
  "screen_ok s \<longleftrightarrow> length (new_screen s) = 4800 \<and> length (old_screen s) = 4800 \<and>
     screen_cursor_x s < 80 \<and> screen_cursor_y s < 60"

text \<open>What scrolling leaves: lines 31 to 58 move up, the last is blank, and 31 to 59 count as unsent.\<close>

definition scrolled_new :: "u8 list \<Rightarrow> u8 list" where
  "scrolled_new b = take 2480 b @ drop 2560 b @ replicate 80 32"

definition scrolled_old :: "u8 list \<Rightarrow> u8 list" where
  "scrolled_old b = take 2480 b @ replicate 2320 0"

lemma list_4800_eqI: "length a = 4800 \<Longrightarrow> length b = 4800 \<Longrightarrow> (\<And>k. k < 4800 \<Longrightarrow> a ! k = b ! k) \<Longrightarrow> a = b"
  by (rule nth_equalityI) auto

lemma scroll_old_loop:
  assumes "length (old_screen s) = 4800"
  shows "for_range 31 60 (\<lambda>i. for_range 0 80 (\<lambda>j. set_old (i * 80 + j) 0)) s =
    Some (s\<lparr>old_screen := scrolled_old (old_screen s)\<rparr>)"
proof -
  let ?P = "\<lambda>k s'. \<exists>b. s' = s\<lparr>old_screen := b\<rparr> \<and> length b = 4800 \<and>
    (\<forall>m < 4800. b ! m = (if 2480 \<le> m \<and> m < k then 0 else old_screen s ! m))"
  have "\<exists>s'. for_range 31 60 (\<lambda>i. for_range 0 80 (\<lambda>j. set_old (i * 80 + j) 0)) s = Some s' \<and> ?P (60 * 80) s'"
  proof (rule for_cells_inv)
    show "?P (31 * 80) s" using assms by (intro exI [of _ "old_screen s"]) auto
  next
    fix i j s'
    assume *: "31 \<le> i" "i < (60 :: nat)" "j < (80 :: nat)" "?P (i * 80 + j) s'"
    then obtain b where b: "s' = s\<lparr>old_screen := b\<rparr>" "length b = 4800"
      "\<And>m. m < 4800 \<Longrightarrow> b ! m = (if 2480 \<le> m \<and> m < i * 80 + j then 0 else old_screen s ! m)" by auto
    have k: "i * 80 + j < 4800" "2480 \<le> i * 80 + j" using * by auto
    then show "\<exists>t. set_old (i * 80 + j) 0 s' = Some t \<and> ?P (Suc (i * 80 + j)) t"
      using b by (auto simp: set_old_def nth_list_update intro!: exI [of _ "b[i * 80 + j := 0]"])
  qed simp
  then obtain b where b: "for_range 31 60 (\<lambda>i. for_range 0 80 (\<lambda>j. set_old (i * 80 + j) 0)) s = Some (s\<lparr>old_screen := b\<rparr>)"
    "length b = 4800" "\<And>m. m < 4800 \<Longrightarrow> b ! m = (if 2480 \<le> m then 0 else old_screen s ! m)" by auto
  have "b = scrolled_old (old_screen s)"
    by (rule list_4800_eqI) (use b(2,3) assms in \<open>auto simp: scrolled_old_def nth_append\<close>)
  then show ?thesis using b(1) by simp
qed

lemma scroll_new_loop:
  assumes "length (new_screen s) = 4800"
  shows "for_range 31 60 (\<lambda>i. for_range 0 80 (\<lambda>j s. if i = 59 then set_new (i * 80 + j) 32 s
      else do { c \<leftarrow> load (new_screen s) ((i + 1) * 80 + j); set_new (i * 80 + j) c s })) s =
    Some (s\<lparr>new_screen := scrolled_new (new_screen s)\<rparr>)"
proof -
  let ?f = "\<lambda>i j s. if i = 59 then set_new (i * 80 + j) 32 s
      else do { c \<leftarrow> load (new_screen s) ((i + 1) * 80 + j); set_new (i * 80 + j) c s }"
  let ?v = "\<lambda>m. if m < 4720 then new_screen s ! (m + 80) else 32"
  let ?P = "\<lambda>k s'. \<exists>b. s' = s\<lparr>new_screen := b\<rparr> \<and> length b = 4800 \<and>
    (\<forall>m < 4800. b ! m = (if 2480 \<le> m \<and> m < k then ?v m else new_screen s ! m))"
  have "\<exists>s'. for_range 31 60 (\<lambda>i. for_range 0 80 (?f i)) s = Some s' \<and> ?P (60 * 80) s'"
  proof (rule for_cells_inv)
    show "?P (31 * 80) s" using assms by (intro exI [of _ "new_screen s"]) auto
  next
    fix i j s'
    assume *: "31 \<le> i" "i < (60 :: nat)" "j < (80 :: nat)" "?P (i * 80 + j) s'"
    then obtain b where b: "s' = s\<lparr>new_screen := b\<rparr>" "length b = 4800"
      "\<And>m. m < 4800 \<Longrightarrow> b ! m = (if 2480 \<le> m \<and> m < i * 80 + j then ?v m else new_screen s ! m)" by auto
    have k: "i * 80 + j < 4800" "2480 \<le> i * 80 + j" "i * 80 + j < 4720 \<longleftrightarrow> i \<noteq> 59" using * by auto
    have "?f i j s' = Some (s\<lparr>new_screen := b[i * 80 + j := ?v (i * 80 + j)]\<rparr>)"
      using b(1,2) b(3) [of "(i + 1) * 80 + j"] k by (auto simp: set_new_def algebra_simps)
    then show "\<exists>t. ?f i j s' = Some t \<and> ?P (Suc (i * 80 + j)) t"
      using b(2,3) k by (auto simp: nth_list_update intro!: exI [of _ "b[i * 80 + j := ?v (i * 80 + j)]"])
  qed simp
  then obtain b where b: "for_range 31 60 (\<lambda>i. for_range 0 80 (?f i)) s = Some (s\<lparr>new_screen := b\<rparr>)"
    "length b = 4800" "\<And>m. m < 4800 \<Longrightarrow> b ! m = (if 2480 \<le> m then ?v m else new_screen s ! m)" by auto
  have "b = scrolled_new (new_screen s)"
    by (rule list_4800_eqI) (use b(2,3) assms in \<open>auto simp: scrolled_new_def nth_append add.commute\<close>)
  then show ?thesis using b(1) by simp
qed

lemma screen_scroll_eq:
  assumes "length (new_screen s) = 4800" "length (old_screen s) = 4800"
  shows "screen_scroll 31 59 s =
    Some (s\<lparr>old_screen := scrolled_old (old_screen s), new_screen := scrolled_new (new_screen s)\<rparr>)"
  using scroll_old_loop [OF assms(2)]
    scroll_new_loop [of "s\<lparr>old_screen := scrolled_old (old_screen s)\<rparr>"] assms(1)
  by (simp add: screen_scroll_def)

lemma scrolled_length:
  "length b = 4800 \<Longrightarrow> length (scrolled_new b) = 4800" "length b = 4800 \<Longrightarrow> length (scrolled_old b) = 4800"
  by (simp_all add: scrolled_new_def scrolled_old_def)


lemma small_signed:
  assumes "unat (a :: u32) < 2 ^ 31" "unat b < 2 ^ 31"
  shows "a <s b \<longleftrightarrow> unat a < unat b" "a \<le>s b \<longleftrightarrow> unat a \<le> unat b"
proof -
  have sm: "sint w = int (unat w)" if "unat w < 2 ^ 31" for w :: u32
  proof -
    have "int (unat w) < int (2 ^ 31)" using that by (simp only: of_nat_less_iff)
    moreover have "- (2 ^ 31) \<le> uint w" by (rule order_trans [of _ 0]) simp_all
    ultimately show ?thesis unfolding sint_uint by (subst signed_take_bit_int_eq_self) simp_all
  qed
  show "a <s b \<longleftrightarrow> unat a < unat b" "a \<le>s b \<longleftrightarrow> unat a \<le> unat b"
    by (simp_all only: word_sless_alt word_sle_eq sm [OF assms(1)] sm [OF assms(2)] of_nat_less_iff of_nat_le_iff)
qed

lemma settle_inside:
  assumes "unat (screen_cursor_x s) < 80" "unat (screen_cursor_y s) < 60"
  shows "screen_settle s = Some s"
  using assms small_signed [of "screen_cursor_x s" 0] small_signed [of 80 "screen_cursor_x s"]
    small_signed [of "screen_cursor_y s" 0] small_signed [of 60 "screen_cursor_y s"]
  by (simp add: screen_settle_def)

lemma settle_wrap:
  assumes "unat (screen_cursor_x s) = 80" "unat (screen_cursor_y s) < 59"
  shows "screen_settle s = Some (s\<lparr>screen_cursor_y := screen_cursor_y s + 1, screen_cursor_x := 0\<rparr>)"
proof -
  have "unat (screen_cursor_y s + 1) = unat (screen_cursor_y s) + 1"
    using assms(2) by (simp add: unat_word_ariths)
  then show ?thesis
    using assms small_signed [of "screen_cursor_x s" 0] small_signed [of 80 "screen_cursor_x s"]
      small_signed [of "screen_cursor_y s + 1" 0] small_signed [of 60 "screen_cursor_y s + 1"]
    by (simp add: screen_settle_def)
qed

lemma settle_scroll:
  assumes "length (new_screen s) = 4800" "length (old_screen s) = 4800"
    and "unat (screen_cursor_x s) = 80 \<and> unat (screen_cursor_y s) = 59 \<or>
      unat (screen_cursor_x s) < 80 \<and> unat (screen_cursor_y s) = 60"
  shows "\<exists>s'. screen_settle s = Some s' \<and> screen_cursor_x s' = 0 \<and> screen_cursor_y s' = 59 \<and> port s' = port s \<and>
    new_screen s' = scrolled_new (new_screen s) \<and> old_screen s' = scrolled_old (old_screen s)"
proof -
  have "unat (screen_cursor_y s + 1) = unat (screen_cursor_y s) + 1"
    using assms(3) by (auto simp: unat_word_ariths)
  then show ?thesis
    using assms small_signed [of "screen_cursor_x s" 0] small_signed [of 80 "screen_cursor_x s"]
      small_signed [of "screen_cursor_y s + 1" 0] small_signed [of 60 "screen_cursor_y s + 1"]
      small_signed [of "screen_cursor_y s" 0] small_signed [of 60 "screen_cursor_y s"]
    by (auto simp: screen_settle_def screen_scroll_eq)
qed

text \<open>What a step of writing may change: cells of the buffer, and sent cells that become unsent.\<close>

definition good :: "u8 \<Rightarrow> bool" where
  "good c \<longleftrightarrow> 32 \<le> c"

definition buffered :: "screen \<Rightarrow> screen \<Rightarrow> bool" where
  "buffered s s' \<longleftrightarrow> screen_ok s' \<and> port s' = port s \<and>
     (\<forall>k < 4800. old_screen s' ! k = old_screen s ! k \<or> old_screen s' ! k = 0) \<and>
     (list_all good (new_screen s) \<longrightarrow> list_all good (new_screen s'))"

lemma buffered_trans: "buffered s t \<Longrightarrow> buffered t u \<Longrightarrow> buffered s u"
  unfolding buffered_def by metis

lemma settle_buffered:
  assumes "length (new_screen s) = 4800" "length (old_screen s) = 4800"
    and xy: "unat (screen_cursor_x s) \<le> 80 \<and> unat (screen_cursor_y s) < 60 \<or>
      unat (screen_cursor_x s) < 80 \<and> unat (screen_cursor_y s) \<le> 60"
  shows "\<exists>s'. screen_settle s = Some s' \<and> buffered s s'"
proof -
  consider "unat (screen_cursor_x s) < 80 \<and> unat (screen_cursor_y s) < 60"
    | "unat (screen_cursor_x s) = 80 \<and> unat (screen_cursor_y s) < 59"
    | "unat (screen_cursor_x s) = 80 \<and> unat (screen_cursor_y s) = 59 \<or>
      unat (screen_cursor_x s) < 80 \<and> unat (screen_cursor_y s) = 60" using xy by linarith
  then show ?thesis
  proof cases
    case 1
    then show ?thesis using settle_inside [of s] assms by (simp add: buffered_def screen_ok_def word_less_nat_alt)
  next
    case 2
    then have "unat (screen_cursor_y s + 1) = unat (screen_cursor_y s) + 1" by (simp add: unat_word_ariths)
    then show ?thesis using 2 settle_wrap [of s] assms by (simp add: buffered_def screen_ok_def word_less_nat_alt)
  next
    case 3
    have "old ! k = scrolled_old old ! k \<or> scrolled_old old ! k = 0" if "length old = 4800" "k < 4800" for old k
      using that by (auto simp: scrolled_old_def nth_append)
    moreover have "list_all good b \<Longrightarrow> list_all good (scrolled_new b)" for b
      by (auto simp: scrolled_new_def list_all_iff good_def dest: in_set_takeD in_set_dropD)
    ultimately show ?thesis
      using settle_scroll [OF assms(1,2) 3] scrolled_length assms(1,2)
      by (auto simp: buffered_def screen_ok_def) (metis assms(2))
  qed
qed


lemma screen_okD:
  assumes "screen_ok s"
  shows "length (new_screen s) = 4800" "length (old_screen s) = 4800"
    "unat (screen_cursor_x s) < 80" "unat (screen_cursor_y s) < 60"
  using assms by (simp_all add: screen_ok_def word_less_nat_alt)

lemma cursor_cell_small:
  assumes "unat (screen_cursor_x s) < 80" "unat (screen_cursor_y s) < 60"
  shows "cursor_cell s = unat (screen_cursor_y s) * 80 + unat (screen_cursor_x s)"
  using assms by (simp add: cursor_cell_def unat_word_ariths)

lemma cursor_cell_less: "screen_ok s \<Longrightarrow> cursor_cell s < 4800"
  using cursor_cell_small [OF screen_okD(3,4), of s] screen_okD(3,4) [of s] by simp

lemma list_all_update: "list_all P xs \<Longrightarrow> P v \<Longrightarrow> list_all P (xs[i := v])"
  by (auto simp: list_all_iff dest: set_update_subset_insert [THEN subsetD])

definition writable :: "u8 \<Rightarrow> bool" where
  "writable c \<longleftrightarrow> good c \<or> c \<in> {8, 10, 13}"

text \<open>The state before the cursor is brought back.\<close>

lemma write_ch_raw:
  assumes ok: "screen_ok s" and ch: "writable ch"
  shows "\<exists>s1. screen_write_ch ch s = screen_settle s1 \<and>
    length (new_screen s1) = 4800 \<and> old_screen s1 = old_screen s \<and> port s1 = port s \<and>
    (unat (screen_cursor_x s1) \<le> 80 \<and> unat (screen_cursor_y s1) < 60 \<or>
      unat (screen_cursor_x s1) < 80 \<and> unat (screen_cursor_y s1) \<le> 60) \<and>
    (list_all good (new_screen s) \<longrightarrow> list_all good (new_screen s1))"
proof -
  note k = screen_okD [OF ok]
  have y: "unat (screen_cursor_y s + 1) = unat (screen_cursor_y s) + 1"
    and x: "unat (screen_cursor_x s + 1) = unat (screen_cursor_x s) + 1"
    using k by (simp_all add: unat_word_ariths)
  consider "ch = 10 \<or> ch = 13" | "ch = 8" "screen_cursor_x s = 0" | "ch = 8" "screen_cursor_x s \<noteq> 0"
    | "ch \<notin> {8, 10, 13}" by auto
  then show ?thesis
  proof cases
    case 1
    then show ?thesis
      using k y by (intro exI [of _ "s\<lparr>screen_cursor_x := 0, screen_cursor_y := screen_cursor_y s + 1\<rparr>"])
        (auto simp: screen_write_ch_def)
  next
    case 2
    then show ?thesis using k by (intro exI [of _ s]) (auto simp: screen_write_ch_def)
  next
    case 3
    let ?s = "s\<lparr>screen_cursor_x := screen_cursor_x s - 1\<rparr>"
    have "0 < unat (screen_cursor_x s)" using 3(2) by (simp add: unat_gt_0)
    then have pos: "0 <s screen_cursor_x s" using small_signed(1) [of 0 "screen_cursor_x s"] k(3) by simp
    have "unat (screen_cursor_x s - 1) = unat (screen_cursor_x s) - 1" using 3(2) by (simp add: unat_minus_one)
    then have x1: "unat (screen_cursor_x s - 1) < 80" using k(3) by simp
    then have "screen_ok ?s" using ok by (simp add: screen_ok_def word_less_nat_alt)
    then have "cursor_cell ?s < length (new_screen s)" using cursor_cell_less k(1) by simp
    then have "screen_write_ch ch s = screen_settle (?s\<lparr>new_screen := (new_screen s)[cursor_cell ?s := 32]\<rparr>)"
      using 3 pos by (simp add: screen_write_ch_def set_new_def Let_def)
    then show ?thesis
      using k x1 by (intro exI [of _ "?s\<lparr>new_screen := (new_screen s)[cursor_cell ?s := 32]\<rparr>"])
        (auto simp: good_def intro: list_all_update)
  next
    case 4
    let ?s = "s\<lparr>new_screen := (new_screen s)[cursor_cell s := ch], screen_cursor_x := screen_cursor_x s + 1\<rparr>"
    have "screen_write_ch ch s = screen_settle ?s"
      using 4 cursor_cell_less [OF ok] k(1) by (simp add: screen_write_ch_def set_new_def)
    moreover have "good ch" using 4 ch by (simp add: writable_def)
    ultimately show ?thesis using k x by (intro exI [of _ ?s]) (auto intro: list_all_update)
  qed
qed

lemma screen_write_ch_buffered:
  assumes "screen_ok s" "writable ch"
  shows "\<exists>s'. screen_write_ch ch s = Some s' \<and> buffered s s'"
proof -
  obtain s1 where s1: "screen_write_ch ch s = screen_settle s1" "length (new_screen s1) = 4800"
    "old_screen s1 = old_screen s" "port s1 = port s"
    "unat (screen_cursor_x s1) \<le> 80 \<and> unat (screen_cursor_y s1) < 60 \<or>
      unat (screen_cursor_x s1) < 80 \<and> unat (screen_cursor_y s1) \<le> 60"
    "list_all good (new_screen s) \<longrightarrow> list_all good (new_screen s1)"
    using write_ch_raw [OF assms] by blast
  have "length (old_screen s1) = 4800" using s1(3) screen_okD(2) [OF assms(1)] by simp
  then obtain s' where "screen_settle s1 = Some s'" "buffered s1 s'"
    using settle_buffered [OF s1(2) _ s1(5)] by blast
  then show ?thesis using s1 by (simp add: buffered_def)
qed

text \<open>An ordinary character goes to the cursor, which moves to the next cell.\<close>

lemma screen_write_ch_places:
  assumes ok: "screen_ok s" and ch: "good ch" and room: "cursor_cell s + 1 < 4800"
  shows "\<exists>s'. screen_write_ch ch s = Some s' \<and> screen_ok s' \<and> cursor_cell s' = cursor_cell s + 1 \<and>
    new_screen s' = (new_screen s)[cursor_cell s := ch] \<and> old_screen s' = old_screen s"
proof -
  note k = screen_okD [OF ok]
  have y: "unat (screen_cursor_y s + 1) = unat (screen_cursor_y s) + 1"
    and x: "unat (screen_cursor_x s + 1) = unat (screen_cursor_x s) + 1"
    using k by (simp_all add: unat_word_ariths)
  note cell = cursor_cell_small [OF k(3,4)]
  let ?s = "s\<lparr>new_screen := (new_screen s)[cursor_cell s := ch], screen_cursor_x := screen_cursor_x s + 1\<rparr>"
  have "ch \<noteq> 10" "ch \<noteq> 8" "ch \<noteq> 13" using ch by (auto simp: good_def)
  then have w: "screen_write_ch ch s = screen_settle ?s"
    using cursor_cell_less [OF ok] k(1) by (simp add: screen_write_ch_def set_new_def)
  show ?thesis
  proof (cases "unat (screen_cursor_x s) = 79")
    case False
    then have x80: "unat (screen_cursor_x s + 1) < 80" using x k(3) by simp
    then show ?thesis
      using w settle_inside [of ?s] k cell cursor_cell_small [of ?s] x
      by (simp add: screen_ok_def word_less_nat_alt)
  next
    case True
    let ?t = "?s\<lparr>screen_cursor_y := screen_cursor_y s + 1, screen_cursor_x := 0\<rparr>"
    have y59: "unat (screen_cursor_y s) < 59" using room True cell by simp
    then show ?thesis
      using w settle_wrap [of ?s] True x y k cell cursor_cell_small [of ?t]
      by (simp add: screen_ok_def word_less_nat_alt)
  qed
qed

lemma strlen_text: "no_nul t \<Longrightarrow> strlen (t @ 0 # r) = Some (length t)"
  by (induction t) (auto simp: no_nul_def)

lemma writable_no_nul: "list_all writable t \<Longrightarrow> no_nul t"
  by (auto simp: list_all_iff no_nul_def writable_def good_def)

lemma screen_write_buffered:
  assumes "screen_ok s" "list_all writable t"
  shows "\<exists>s'. screen_write (t @ 0 # r) s = Some s' \<and> buffered s s'"
proof -
  have "\<exists>s'. for_range 0 (length t) (\<lambda>i s. do { c \<leftarrow> load (t @ 0 # r) i; screen_write_ch c s }) s = Some s' \<and> buffered s s'"
  proof (rule for_range_inv [where P = "\<lambda>_. buffered s"])
    show "buffered s s" using assms(1) by (simp add: buffered_def)
  next
    fix i s1
    assume i: "i < length t" "buffered s s1"
    then have "screen_ok s1" "writable (t ! i)" using assms(2) by (auto simp: buffered_def list_all_length)
    then obtain s2 where "screen_write_ch (t ! i) s1 = Some s2" "buffered s1 s2"
      using screen_write_ch_buffered by blast
    then show "\<exists>s'. do { c \<leftarrow> load (t @ 0 # r) i; screen_write_ch c s1 } = Some s' \<and> buffered s s'"
      using i buffered_trans by (auto simp: nth_append)
  qed simp
  then show ?thesis using strlen_text [OF writable_no_nul [OF assms(2)]] by (simp add: screen_write_def)
qed

lemma screen_write_places:
  assumes ok: "screen_ok s" and t: "list_all good t" and room: "cursor_cell s + length t < 4800"
  shows "\<exists>s'. screen_write (t @ 0 # r) s = Some s' \<and> screen_ok s' \<and> cursor_cell s' = cursor_cell s + length t \<and>
    new_screen s' = splice (new_screen s) (cursor_cell s) t \<and> old_screen s' = old_screen s"
proof -
  let ?P = "\<lambda>i s'. screen_ok s' \<and> cursor_cell s' = cursor_cell s + i \<and>
    new_screen s' = splice (new_screen s) (cursor_cell s) (take i t) \<and> old_screen s' = old_screen s"
  have "\<exists>s'. for_range 0 (length t) (\<lambda>i s. do { c \<leftarrow> load (t @ 0 # r) i; screen_write_ch c s }) s = Some s' \<and> ?P (length t) s'"
  proof (rule for_range_inv)
    show "?P 0 s" using ok by (simp add: splice_def)
  next
    fix i s1
    assume i: "i < length t" "?P i s1"
    then obtain s2 where s2: "screen_write_ch (t ! i) s1 = Some s2" "screen_ok s2"
      "cursor_cell s2 = cursor_cell s1 + 1" "new_screen s2 = (new_screen s1)[cursor_cell s1 := t ! i]"
      "old_screen s2 = old_screen s1"
      using screen_write_ch_places [of s1 "t ! i"] t room by (auto simp: list_all_length)
    have "(splice (new_screen s) (cursor_cell s) (take i t))[cursor_cell s + i := t ! i] =
        splice (new_screen s) (cursor_cell s) (take (Suc i) t)"
      using i(1) room screen_okD(1) [OF ok]
      by (intro nth_equalityI) (auto simp: nth_splice nth_list_update min_def)
    then show "\<exists>s'. do { c \<leftarrow> load (t @ 0 # r) i; screen_write_ch c s1 } = Some s' \<and> ?P (Suc i) s'"
      using i s2 by (simp add: nth_append)
  qed simp
  moreover have "no_nul t" using t by (auto simp: list_all_iff no_nul_def good_def)
  ultimately show ?thesis using strlen_text by (simp add: screen_write_def)
qed


section \<open>The escape sequences on the line\<close>

lemma format_text_nul [simp]: "format_text (0 # r) va = Some []"
  by (subst format_text.simps) (simp add: next_ch_def)

lemma format_text_char [simp]:
  "ch \<noteq> 0 \<Longrightarrow> ch \<noteq> 37 \<Longrightarrow> format_text (ch # r) va = map_option ((#) ch) (format_text r va)"
  by (subst format_text.simps) (simp add: next_ch_def)

lemma format_text_int [simp]:
  "format_text (37 # 100 # r) (VInt v # va) = map_option ((@) (int_text v False False 10 0)) (format_text r va)"
  by (subst format_text.simps) (simp add: next_ch_def conversion_def conversion_text_def)

lemma format_text_chr [simp]:
  "format_text (37 # 99 # r) (VInt v # va) = map_option ((@) [ucast v]) (format_text r va)"
  by (subst format_text.simps) (simp add: next_ch_def conversion_def conversion_text_def)

definition move_text :: "nat \<Rightarrow> nat \<Rightarrow> u8 list" where
  "move_text line column = [27, 91] @ num_str 10 line @ [59] @ num_str 10 column @ [72]"

lemma int_text_small: "unat v < 2 ^ 31 \<Longrightarrow> int_text v False False 10 0 = num_str 10 (unat v)"
proof -
  assume "unat v < 2 ^ 31"
  then have "\<not> v <s 0" using small_signed(1) [of v 0] by simp
  moreover have "upper False = (\<lambda>c. c)" by (simp add: fun_eq_iff upper_def)
  ultimately show ?thesis by (simp add: int_text_def num_text_def)
qed

text \<open>What a call that only prints \<open>t\<close> does.\<close>

definition prints :: "screen \<Rightarrow> u8 list \<Rightarrow> screen \<Rightarrow> bool" where
  "prints s t s' \<longleftrightarrow> (\<exists>out. s' = s\<lparr>port := out\<rparr> \<and> line_bytes out = line_bytes (port s) @ t)"

lemma screen_printk_prints:
  "format_text fmt va = Some t \<Longrightarrow> length t < 256 \<Longrightarrow> no_nul t \<Longrightarrow> \<exists>s'. screen_printk fmt va s = Some s' \<and> prints s t s'"
  using printk_line [of fmt va t "port s"] by (auto simp: screen_printk_def prints_def)

lemma vt100_move_cursor_prints:
  assumes "unat x < 2 ^ 31" "unat y < 2 ^ 31"
  shows "\<exists>s'. vt100_move_cursor x y s = Some s' \<and> prints s (move_text (unat y) (unat x)) s'"
proof -
  have "length (num_str 10 (unat x)) \<le> 10" "length (num_str 10 (unat y)) \<le> 10"
    by (rule num_str_length_word, simp)+
  moreover have "no_nul (num_str 10 (unat x))" "no_nul (num_str 10 (unat y))" by (simp_all add: no_nul_num_str)
  ultimately show ?thesis
    unfolding vt100_move_cursor_def
    by (intro screen_printk_prints) (simp_all add: int_text_small [OF assms(1)] int_text_small [OF assms(2)] move_text_def no_nul_def)
qed

lemma vt100_clear_prints: "\<exists>s'. vt100_clear s = Some s' \<and> prints s [27, 91, 50, 74] s'"
  unfolding vt100_clear_def by (intro screen_printk_prints) (simp_all add: no_nul_def)

lemma vt100_hidden_cursor_prints: "\<exists>s'. vt100_hidden_cursor s = Some s' \<and> prints s [27, 91, 63, 50, 53, 108] s'"
  unfolding vt100_hidden_cursor_def by (intro screen_printk_prints) (simp_all add: no_nul_def)

section \<open>The terminal\<close>

text \<open>The cells the driver takes for sent are on the terminal; all cells are.\<close>

definition synced :: "('t \<Rightarrow> nat \<Rightarrow> nat \<Rightarrow> u8) \<Rightarrow> 't \<Rightarrow> screen \<Rightarrow> bool" where
  "synced cell t s \<longleftrightarrow>
     (\<forall>i < 60. \<forall>j < 80. old_screen s ! (i * 80 + j) \<noteq> 0 \<longrightarrow> cell t i j = old_screen s ! (i * 80 + j))"

definition shown :: "('t \<Rightarrow> nat \<Rightarrow> nat \<Rightarrow> u8) \<Rightarrow> 't \<Rightarrow> screen \<Rightarrow> bool" where
  "shown cell t s \<longleftrightarrow> (\<forall>i < 60. \<forall>j < 80. cell t i j = new_screen s ! (i * 80 + j) \<and>
     old_screen s ! (i * 80 + j) = new_screen s ! (i * 80 + j))"

lemma shown_synced: "shown cell t s \<Longrightarrow> synced cell t s"
  by (auto simp: shown_def synced_def)

lemma cell_index:
  assumes "i < 60" "j < 80" "p < 60" "q < (80 :: nat)"
  shows "i * 80 + j = p * 80 + q \<longleftrightarrow> i = p \<and> j = q" "i * 80 + j < Suc (p * 80 + q) \<longleftrightarrow> i * 80 + j < p * 80 + q \<or> i = p \<and> j = q"
proof -
  have "(i * 80 + j) div 80 = i" "(p * 80 + q) div 80 = p" using assms by simp_all
  then show eq: "i * 80 + j = p * 80 + q \<longleftrightarrow> i = p \<and> j = q" by (metis add_left_cancel)
  show "i * 80 + j < Suc (p * 80 + q) \<longleftrightarrow> i * 80 + j < p * 80 + q \<or> i = p \<and> j = q" by (simp only: less_Suc_eq eq)
qed

text \<open>
  A VT100 terminal of at least 60 lines and 80 columns: \<open>feed\<close> is its reaction to the bytes on the
  line and \<open>cell\<close> the character it shows at a line and a column, both from 0. Positioning (CUP)
  changes no cell, a printed character goes to the addressed cell, ED 2 blanks the screen and
  hiding the cursor shows nothing.
\<close>

locale vt100_terminal =
  fixes feed :: "u8 list \<Rightarrow> 't \<Rightarrow> 't" and cell :: "'t \<Rightarrow> nat \<Rightarrow> nat \<Rightarrow> u8"
  assumes feed_nil: "feed [] t = t"
    and feed_append: "feed (a @ b) t = feed b (feed a t)"
    and feed_move: "cell (feed (move_text l c) t) = cell t"
    and feed_put: "l < 60 \<Longrightarrow> c < 80 \<Longrightarrow> good ch \<Longrightarrow>
      cell (feed (move_text (l + 1) (c + 1) @ [ch]) t) i j = (if i = l \<and> j = c then ch else cell t i j)"
    and feed_clear: "i < 60 \<Longrightarrow> j < 80 \<Longrightarrow> cell (feed [27, 91, 50, 74] t) i j = 32"
    and feed_hide: "cell (feed [27, 91, 63, 50, 53, 108] t) = cell t"
begin

text \<open>The state of the refresh before cell \<open>k\<close>, with \<open>bs\<close> sent since its start.\<close>

definition cell_at :: "screen \<Rightarrow> 't \<Rightarrow> nat \<Rightarrow> u8 list \<Rightarrow> screen \<Rightarrow> nat \<Rightarrow> nat \<Rightarrow> bool" where
  "cell_at s t k bs s' i j \<longleftrightarrow> (if i * 80 + j < k
     then cell (feed bs t) i j = new_screen s ! (i * 80 + j) \<and> old_screen s' ! (i * 80 + j) = new_screen s ! (i * 80 + j)
     else cell (feed bs t) i j = cell t i j \<and> old_screen s' ! (i * 80 + j) = old_screen s ! (i * 80 + j))"

definition refreshed :: "screen \<Rightarrow> 't \<Rightarrow> nat \<Rightarrow> screen \<Rightarrow> bool" where
  "refreshed s t k s' \<longleftrightarrow> new_screen s' = new_screen s \<and> length (old_screen s') = 4800 \<and>
     screen_cursor_x s' = screen_cursor_x s \<and> screen_cursor_y s' = screen_cursor_y s \<and>
     (\<exists>bs. line_bytes (port s') = line_bytes (port s) @ bs \<and> (\<forall>i < 60. \<forall>j < 80. cell_at s t k bs s' i j))"

lemma reflush_cell_step:
  assumes s: "length (new_screen s) = 4800" "list_all good (new_screen s)" "synced cell t s"
    and p: "p < 60" "q < 80" and r: "refreshed s t (p * 80 + q) s'"
  shows "\<exists>s2. reflush_cell p q s' = Some s2 \<and> refreshed s t (Suc (p * 80 + q)) s2"
proof -
  let ?k = "p * 80 + q"
  obtain bs where r': "new_screen s' = new_screen s" "length (old_screen s') = 4800"
    "screen_cursor_x s' = screen_cursor_x s" "screen_cursor_y s' = screen_cursor_y s"
    "line_bytes (port s') = line_bytes (port s) @ bs"
    and c: "\<And>i j. i < 60 \<Longrightarrow> j < 80 \<Longrightarrow> cell_at s t ?k bs s' i j"
    using r unfolding refreshed_def by blast
  have k: "?k < 4800" using p by simp
  let ?ch = "new_screen s ! ?k"
  have ch: "good ?ch" "?ch \<noteq> 0" using s(1,2) k by (auto simp: list_all_length good_def)
  show ?thesis
  proof (cases "old_screen s' ! ?k = ?ch")
    case True
    then have pq: "cell (feed bs t) p q = ?ch" using c [OF p] s(3) p ch(2) by (simp add: synced_def cell_at_def)
    have "cell_at s t (Suc ?k) bs s' i j" if "i < 60" "j < 80" for i j
      using c [OF that] pq True cell_index [OF that p] by (cases "i = p \<and> j = q") (simp_all add: cell_at_def)
    then have "refreshed s t (Suc ?k) s'" using r' unfolding refreshed_def by blast
    then show ?thesis using True r'(1,2) s(1) k by (intro exI [of _ s']) (simp add: reflush_cell_def)
  next
    case False
    have u: "unat (of_nat q + 1 :: u32) = q + 1" "unat (of_nat p + 1 :: u32) = p + 1"
      using p by (simp_all add: unat_word_ariths unat_of_nat)
    then obtain s1 where s1: "vt100_move_cursor (of_nat q + 1) (of_nat p + 1) s' = Some s1"
      "prints s' (move_text (p + 1) (q + 1)) s1"
      using vt100_move_cursor_prints [of "of_nat q + 1" "of_nat p + 1" s'] p by auto
    let ?s2 = "s1\<lparr>port := port_write_ch ?ch (port s1), old_screen := (old_screen s1)[?k := ?ch]\<rparr>"
    let ?bs = "bs @ move_text (p + 1) (q + 1) @ [?ch]"
    have s2: "reflush_cell p q s' = Some ?s2"
      using False s1 r'(1,2) s(1) k by (auto simp: reflush_cell_def set_old_def prints_def Let_def)
    have f: "new_screen ?s2 = new_screen s" "length (old_screen ?s2) = 4800"
      "screen_cursor_x ?s2 = screen_cursor_x s" "screen_cursor_y ?s2 = screen_cursor_y s"
      "line_bytes (port ?s2) = line_bytes (port s) @ ?bs" "old_screen ?s2 = (old_screen s')[?k := ?ch]"
      using s1(2) r' by (auto simp: prints_def port_write_ch_def line_bytes_def event_bytes_def)
    have put: "cell (feed ?bs t) i j = (if i = p \<and> j = q then ?ch else cell (feed bs t) i j)" for i j
      unfolding feed_append [of bs] by (rule feed_put [OF p ch(1)])
    have "cell_at s t (Suc ?k) ?bs ?s2 i j" if "i < 60" "j < 80" for i j
      using c [OF that] cell_index [OF that p] r'(2) k
      by (cases "i = p \<and> j = q") (simp_all only: cell_at_def put f(6), simp_all)
    then have "refreshed s t (Suc ?k) ?s2" using f(1-5) unfolding refreshed_def by blast
    then show ?thesis using s2 by blast
  qed
qed

lemma screen_reflush_shows:
  assumes ok: "screen_ok s" and s: "list_all good (new_screen s)" "synced cell t s"
  shows "\<exists>s' bs. screen_reflush s = Some s' \<and> line_bytes (port s') = line_bytes (port s) @ bs \<and>
    screen_ok s' \<and> new_screen s' = new_screen s \<and> shown cell (feed bs t) s'"
proof -
  note k = screen_okD [OF ok]
  have "\<exists>s1. for_range 0 60 (\<lambda>i. for_range 0 80 (\<lambda>j. reflush_cell i j)) s = Some s1 \<and> refreshed s t (60 * 80) s1"
  proof (rule for_cells_inv)
    have "cell_at s t 0 [] s i j" for i j by (simp add: cell_at_def feed_nil)
    then show "refreshed s t (0 * 80) s"
      unfolding refreshed_def using k(2) by (intro conjI exI [of _ "[]"]) simp_all
  qed (use reflush_cell_step [OF k(1) s] in auto)
  then obtain s1 bs where s1: "for_range 0 60 (\<lambda>i. for_range 0 80 (\<lambda>j. reflush_cell i j)) s = Some s1"
    "new_screen s1 = new_screen s" "length (old_screen s1) = 4800"
    "screen_cursor_x s1 = screen_cursor_x s" "screen_cursor_y s1 = screen_cursor_y s"
    "line_bytes (port s1) = line_bytes (port s) @ bs"
    and c: "\<And>i j. i < 60 \<Longrightarrow> j < 80 \<Longrightarrow> cell_at s t (60 * 80) bs s1 i j"
    unfolding refreshed_def by blast
  obtain s2 where s2: "vt100_move_cursor (screen_cursor_x s1) (screen_cursor_y s1) s1 = Some s2"
    "prints s1 (move_text (unat (screen_cursor_y s1)) (unat (screen_cursor_x s1))) s2"
    using vt100_move_cursor_prints [of "screen_cursor_x s1" "screen_cursor_y s1" s1] k(3,4) s1(4,5) by auto
  let ?m = "move_text (unat (screen_cursor_y s1)) (unat (screen_cursor_x s1))"
  have f: "new_screen s2 = new_screen s" "old_screen s2 = old_screen s1"
    "screen_cursor_x s2 = screen_cursor_x s" "screen_cursor_y s2 = screen_cursor_y s"
    "line_bytes (port s2) = line_bytes (port s) @ bs @ ?m"
    using s2(2) s1 by (auto simp: prints_def)
  have "shown cell (feed (bs @ ?m) t) s2"
    unfolding shown_def
  proof (intro allI impI)
    fix i j :: nat
    assume ij: "i < 60" "j < 80"
    then have "i * 80 + j < 60 * 80" by simp
    then show "cell (feed (bs @ ?m) t) i j = new_screen s2 ! (i * 80 + j) \<and> old_screen s2 ! (i * 80 + j) = new_screen s2 ! (i * 80 + j)"
      using c [OF ij] by (simp add: cell_at_def feed_append feed_move f(1,2))
  qed
  moreover have "screen_ok s2" using ok f s1(3) by (simp add: screen_ok_def)
  ultimately show ?thesis using s1(1) s2(1) f by (auto simp: screen_reflush_def)
qed

lemma do_write_shows:
  assumes ok: "screen_ok s" and s: "list_all good (new_screen s)" "synced cell t s" and w: "list_all writable cs"
  shows "\<exists>s' bs. do_write (cs @ 0 # r) s = Some s' \<and> line_bytes (port s') = line_bytes (port s) @ bs \<and>
    screen_ok s' \<and> list_all good (new_screen s') \<and> shown cell (feed bs t) s' \<and>
    (\<exists>s1. screen_write (cs @ 0 # r) s = Some s1 \<and> new_screen s' = new_screen s1)"
proof -
  obtain s1 where s1: "screen_write (cs @ 0 # r) s = Some s1" "buffered s s1"
    using screen_write_buffered [OF ok w] by blast
  have old: "old_screen s1 ! k = old_screen s ! k \<or> old_screen s1 ! k = 0" if "k < 4800" for k
    using s1(2) that by (simp add: buffered_def)
  have "synced cell t s1"
    unfolding synced_def
  proof (intro allI impI)
    fix i j :: nat
    assume ij: "i < 60" "j < 80" "old_screen s1 ! (i * 80 + j) \<noteq> 0"
    then show "cell t i j = old_screen s1 ! (i * 80 + j)"
      using old [of "i * 80 + j"] s(2) by (auto simp: synced_def)
  qed
  moreover have "screen_ok s1" "list_all good (new_screen s1)" "port s1 = port s"
    using s1(2) s(1) by (simp_all add: buffered_def)
  ultimately show ?thesis
    using screen_reflush_shows [of s1 t] s1(1) by (auto simp: do_write_def)
qed

lemma screen_clear_shows:
  assumes "length (new_screen s) = 4800" "length (old_screen s) = 4800"
  shows "\<exists>s' bs. screen_clear l1 l2 s = Some s' \<and> line_bytes (port s') = line_bytes (port s) @ bs \<and>
    screen_ok s' \<and> new_screen s' = replicate 4800 32 \<and> shown cell (feed bs t) s'"
proof -
  let ?f = "\<lambda>i j s. do { s \<leftarrow> set_new (i * 80 + j) 32 s; set_old (i * 80 + j) 0 s }"
  let ?P = "\<lambda>k s'. port s' = port s \<and> length (new_screen s') = 4800 \<and> length (old_screen s') = 4800 \<and>
    (\<forall>m < k. new_screen s' ! m = 32 \<and> old_screen s' ! m = 0)"
  have "\<exists>s1. for_range 0 60 (\<lambda>i. for_range 0 80 (?f i)) s = Some s1 \<and> ?P (60 * 80) s1"
  proof (rule for_cells_inv)
    fix i j :: nat and s' :: screen
    assume *: "i < 60" "j < 80" "?P (i * 80 + j) s'"
    then have "i * 80 + j < 4800" by simp
    then show "\<exists>t. ?f i j s' = Some t \<and> ?P (Suc (i * 80 + j)) t"
      using * by (simp add: set_new_def set_old_def nth_list_update less_Suc_eq)
  qed (use assms in auto)
  then obtain s1 where s1: "for_range 0 60 (\<lambda>i. for_range 0 80 (?f i)) s = Some s1" "?P 4800 s1" by auto
  let ?s = "s1\<lparr>screen_cursor_x := 0, screen_cursor_y := 0\<rparr>"
  have ok: "screen_ok ?s" using s1(2) by (simp add: screen_ok_def)
  have blank: "new_screen ?s = replicate 4800 32" using s1(2) by (intro list_4800_eqI) auto
  then have "list_all good (new_screen ?s)" by (simp add: list_all_iff good_def)
  moreover have "synced cell t ?s" using s1(2) by (simp add: synced_def)
  ultimately obtain s' bs where "screen_reflush ?s = Some s'" "line_bytes (port s') = line_bytes (port ?s) @ bs"
    "screen_ok s'" "new_screen s' = new_screen ?s" "shown cell (feed bs t) s'"
    using screen_reflush_shows [OF ok] by blast
  then show ?thesis using s1 blank by (simp add: screen_clear_def Let_def)
qed

lemma init_screen_shows:
  assumes "length (new_screen s) = 4800" "length (old_screen s) = 4800"
  shows "\<exists>s' bs. init_screen s = Some s' \<and> line_bytes (port s') = line_bytes (port s) @ bs \<and>
    screen_ok s' \<and> new_screen s' = replicate 4800 32 \<and> shown cell (feed bs t) s'"
proof -
  obtain s1 where s1: "vt100_hidden_cursor s = Some s1" "prints s [27, 91, 63, 50, 53, 108] s1"
    using vt100_hidden_cursor_prints by blast
  obtain s2 where s2: "vt100_clear s1 = Some s2" "prints s1 [27, 91, 50, 74] s2"
    using vt100_clear_prints by blast
  have f: "length (new_screen s2) = 4800" "length (old_screen s2) = 4800"
    using assms s1(2) s2(2) by (auto simp: prints_def)
  define pre :: "u8 list" where "pre = [27, 91, 63, 50, 53, 108] @ [27, 91, 50, 74]"
  have p: "line_bytes (port s2) = line_bytes (port s) @ pre"
    using s1(2) s2(2) by (auto simp: prints_def pre_def)
  obtain s' bs where "screen_clear 0 59 s2 = Some s'" "line_bytes (port s') = line_bytes (port s2) @ bs"
    "screen_ok s'" "new_screen s' = replicate 4800 32" "shown cell (feed bs (feed pre t)) s'"
    using screen_clear_shows [OF f, of 0 59 "feed pre t"] by blast
  then show ?thesis
    using s1(1) s2(1) p feed_append [of pre bs t]
    by (intro exI [of _ s'] exI [of _ "pre @ bs"]) (simp add: init_screen_def)
qed

end


section \<open>A terminal\<close>

text \<open>
  A terminal that reads the control sequences byte by byte: an escape starts a sequence in every
  state, and a byte from 64 to 126 ends one.
\<close>

datatype term_mode = Plain | Esc | Csi "u8 list"

record term_state =
  term_mode :: term_mode
  term_line :: nat
  term_column :: nat
  term_cell :: "nat \<Rightarrow> nat \<Rightarrow> u8"

definition dec_value :: "u8 list \<Rightarrow> nat" where
  "dec_value ds = foldl (\<lambda>n c. n * 10 + (unat c - 48)) 0 ds"

definition term_csi :: "u8 \<Rightarrow> u8 list \<Rightarrow> term_state \<Rightarrow> term_state" where
  "term_csi c ps t =
     (if c = 72 then
        t\<lparr>term_line := dec_value (takeWhile (\<lambda>c. c \<noteq> 59) ps) - 1,
          term_column := dec_value (tl (dropWhile (\<lambda>c. c \<noteq> 59) ps)) - 1\<rparr>
      else if c = 74 \<and> ps = [50] then t\<lparr>term_cell := (\<lambda>i j. 32)\<rparr>
      else t)"

definition term_byte :: "u8 \<Rightarrow> term_state \<Rightarrow> term_state" where
  "term_byte c t =
     (if c = 27 then t\<lparr>term_mode := Esc\<rparr>
      else case term_mode t of
        Plain \<Rightarrow> if 32 \<le> c
          then t\<lparr>term_cell := (term_cell t)(term_line t := (term_cell t (term_line t))(term_column t := c)),
                 term_column := term_column t + 1\<rparr>
          else t
      | Esc \<Rightarrow> t\<lparr>term_mode := (if c = 91 then Csi [] else Plain)\<rparr>
      | Csi ps \<Rightarrow> if 64 \<le> c \<and> c \<le> 126 then term_csi c ps (t\<lparr>term_mode := Plain\<rparr>)
          else t\<lparr>term_mode := Csi (ps @ [c])\<rparr>)"

definition term_feed :: "u8 list \<Rightarrow> term_state \<Rightarrow> term_state" where
  "term_feed = fold term_byte"

definition parameter_byte :: "u8 \<Rightarrow> bool" where
  "parameter_byte c \<longleftrightarrow> c \<noteq> 27 \<and> \<not> (64 \<le> c \<and> c \<le> 126)"

lemma feed_parameters:
  "list_all parameter_byte ps \<Longrightarrow> term_mode t = Csi qs \<Longrightarrow> term_feed ps t = t\<lparr>term_mode := Csi (qs @ ps)\<rparr>"
proof (induction ps arbitrary: t qs)
  case Nil
  then have "t\<lparr>term_mode := Csi qs\<rparr> = t" by simp
  then show ?case by (simp add: term_feed_def)
next
  case (Cons p ps)
  let ?t = "t\<lparr>term_mode := Csi (qs @ [p])\<rparr>"
  have "term_byte p t = ?t" using Cons.prems by (auto simp: term_byte_def parameter_byte_def)
  moreover have "term_feed ps ?t = ?t\<lparr>term_mode := Csi ((qs @ [p]) @ ps)\<rparr>" using Cons by simp
  ultimately show ?case by (simp add: term_feed_def)
qed

lemma feed_csi:
  assumes "list_all parameter_byte ps" "64 \<le> c" "c \<le> 126"
  shows "term_feed ([27, 91] @ ps @ [c]) t = term_csi c ps (t\<lparr>term_mode := Plain\<rparr>)"
proof -
  have "term_feed [27, 91] t = t\<lparr>term_mode := Csi []\<rparr>" by (simp add: term_feed_def term_byte_def)
  moreover have "term_feed ps (t\<lparr>term_mode := Csi []\<rparr>) = t\<lparr>term_mode := Csi ps\<rparr>"
    using feed_parameters [OF assms(1), of "t\<lparr>term_mode := Csi []\<rparr>" "[]"] by simp
  moreover have "c \<noteq> 27" using assms(2) by auto
  then have "term_feed [c] (t\<lparr>term_mode := Csi ps\<rparr>) = term_csi c ps (t\<lparr>term_mode := Plain\<rparr>)"
    using assms(2,3) by (simp add: term_feed_def term_byte_def)
  ultimately show ?thesis by (simp add: term_feed_def)
qed

lemma num_str_digits: "c \<in> set (num_str 10 n) \<Longrightarrow> 48 \<le> unat c \<and> unat c \<le> 57"
proof (induction "10 :: nat" n rule: num_str.induct)
  case (1 n)
  have d: "48 \<le> unat (digit_char (of_nat d)) \<and> unat (digit_char (of_nat d)) \<le> 57" if "d < 10" for d :: nat
    using digit_char_unat [of d] that by simp
  show ?case
  proof (cases "n < 10")
    case True
    then show ?thesis using "1.prems" d [of n] by (simp add: num_str_last)
  next
    case False
    then show ?thesis using "1.prems" "1.hyps" d [of "n mod 10"] by (auto simp: num_str_step)
  qed
qed

lemma dec_value_num_str: "dec_value (num_str 10 n) = n"
proof (induction "10 :: nat" n rule: num_str.induct)
  case (1 n)
  have d: "unat (digit_char (of_nat d)) = d + 48" if "d < 10" for d :: nat
    using digit_char_unat [of d] that by simp
  show ?case
  proof (cases "n < 10")
    case True
    then show ?thesis using d [of n] by (simp add: num_str_last dec_value_def)
  next
    case False
    then have "dec_value (num_str 10 (n div 10)) = n div 10" using "1.hyps" by simp
    then show ?thesis using False d [of "n mod 10"] by (simp add: num_str_step dec_value_def)
  qed
qed

lemma feed_move_text:
  "term_feed (move_text l c) t = t\<lparr>term_mode := Plain, term_line := l - 1, term_column := c - 1\<rparr>"
proof -
  let ?ps = "num_str 10 l @ [59] @ num_str 10 c"
  have b: "parameter_byte x \<and> x \<noteq> 59" if "x \<in> set (num_str 10 n)" for x n
    using num_str_digits [OF that] by (auto simp: parameter_byte_def word_le_nat_alt)
  then have ps: "list_all parameter_byte ?ps" by (auto simp: list_all_iff parameter_byte_def)
  have n: "\<forall>x \<in> set (num_str 10 l). x \<noteq> 59" using b by blast
  have "takeWhile (\<lambda>c. c \<noteq> 59) ?ps = num_str 10 l" "dropWhile (\<lambda>c. c \<noteq> 59) ?ps = 59 # num_str 10 c"
    using n by (simp_all add: takeWhile_append2 dropWhile_append2)
  then have "term_csi 72 ?ps (t\<lparr>term_mode := Plain\<rparr>) = t\<lparr>term_mode := Plain, term_line := l - 1, term_column := c - 1\<rparr>"
    by (simp add: term_csi_def dec_value_num_str)
  then show ?thesis using feed_csi [OF ps, of 72 t] by (simp add: move_text_def)
qed

interpretation vt: vt100_terminal term_feed term_cell
proof
  fix a b :: "u8 list" and t l c ch i j
  show "term_feed [] t = t" "term_feed (a @ b) t = term_feed b (term_feed a t)" by (simp_all add: term_feed_def)
  show "term_cell (term_feed (move_text l c) t) = term_cell t" by (simp add: feed_move_text)
  assume "l < 60" "c < 80" "good ch"
  then have "ch \<noteq> 27" "32 \<le> ch" by (auto simp: good_def)
  then show "term_cell (term_feed (move_text (l + 1) (c + 1) @ [ch]) t) i j = (if i = l \<and> j = c then ch else term_cell t i j)"
    using feed_move_text [of "l + 1" "c + 1" t] by (simp add: term_feed_def term_byte_def)
next
  fix t i j
  show "term_cell (term_feed [27, 91, 50, 74] t) i j = 32"
    using feed_csi [of "[50]" 74 t] by (simp add: parameter_byte_def term_csi_def)
  show "term_cell (term_feed [27, 91, 63, 50, 53, 108] t) = term_cell t"
    using feed_csi [of "[63, 50, 53]" 108 t] by (simp add: parameter_byte_def term_csi_def)
qed


section \<open>The properties of the driver\<close>

definition sample_screen :: screen where
  "sample_screen = \<lparr>screen_cursor_x = 78, screen_cursor_y = 0, new_screen = replicate 4800 32,
     old_screen = replicate 4800 0, port = []\<rparr>"

text \<open>
  Claim C35. Writing text never touches a cell outside the buffers and leaves the cursor on the
  screen, through line breaks, backspaces and scrolling; the serial line is not used. A text of
  ordinary characters that ends before the last cell is placed from the cursor on, over the ends
  of lines, and the cursor stops right after it.
\<close>

theorem screen_write_stays_on_screen:
  assumes "screen_ok s" "list_all writable cs"
  shows "(\<exists>s'. screen_write (cs @ 0 # r) s = Some s' \<and> screen_ok s' \<and> port s' = port s) \<and>
    (list_all good cs \<and> cursor_cell s + length cs < 4800 \<longrightarrow>
      (\<exists>s'. screen_write (cs @ 0 # r) s = Some s' \<and> cursor_cell s' = cursor_cell s + length cs \<and>
        new_screen s' = splice (new_screen s) (cursor_cell s) cs \<and> old_screen s' = old_screen s))"
  using screen_write_buffered [OF assms, of r] screen_write_places [OF assms(1), of cs r]
  by (auto simp: buffered_def)

theorem screen_write_stays_on_screen_witness:
  "\<exists>s'. screen_write ([97, 98, 99] @ 0 # []) sample_screen = Some s' \<and> cursor_cell s' = 78 + 3 \<and>
     new_screen s' = splice (replicate 4800 32) 78 [97, 98, 99]"
proof -
  have s: "screen_ok sample_screen" "cursor_cell sample_screen = 78" "new_screen sample_screen = replicate 4800 32"
    by (simp_all add: sample_screen_def screen_ok_def cursor_cell_def)
  have "list_all writable [97, 98, 99]" "list_all good [97, 98, 99]" by (simp_all add: writable_def good_def)
  then show ?thesis using screen_write_stays_on_screen [OF s(1), of "[97, 98, 99]" "[]"] s(2,3) by auto
qed

fun do_writes :: "u8 list list \<Rightarrow> screen \<Rightarrow> screen option" where
  "do_writes [] s = Some s"
| "do_writes (cs # css) s = do { s \<leftarrow> do_write (cs @ [0]) s; do_writes css s }"

context vt100_terminal
begin

lemma do_writes_shows:
  assumes "screen_ok s" "list_all good (new_screen s)" "shown cell t s" "list_all (list_all writable) css"
  shows "\<exists>s' bs. do_writes css s = Some s' \<and> line_bytes (port s') = line_bytes (port s) @ bs \<and>
    screen_ok s' \<and> shown cell (feed bs t) s'"
  using assms
proof (induction css arbitrary: s t)
  case Nil
  then show ?case by (intro exI [of _ s] exI [of _ "[]"]) (simp add: feed_nil)
next
  case (Cons cs css)
  have w: "list_all writable cs" "list_all (list_all writable) css" using Cons.prems(4) by simp_all
  obtain s1 bs where s1: "do_write (cs @ [0]) s = Some s1" "line_bytes (port s1) = line_bytes (port s) @ bs"
    "screen_ok s1" "list_all good (new_screen s1)" "shown cell (feed bs t) s1"
    using do_write_shows [OF Cons.prems(1,2) shown_synced [OF Cons.prems(3)] w(1), of "[]"] by blast
  obtain s' bs' where "do_writes css s1 = Some s'" "line_bytes (port s') = line_bytes (port s1) @ bs'"
    "screen_ok s'" "shown cell (feed bs' (feed bs t)) s'"
    using Cons.IH [OF s1(3-5) w(2)] by blast
  then show ?case
    using s1(1,2) by (intro exI [of _ s'] exI [of _ "bs @ bs'"]) (simp add: feed_append)
qed

end



end
