(* ===== verification/Syscall.thy ===== *)
theory Syscall
  imports Entry
begin

text \<open>
  System calls: the functions user programs call (\<^verbatim>\<open>kernel/syscall/syscall.c\<close>), the entry
  \<^verbatim>\<open>invoke_syscall\<close> (\<^verbatim>\<open>arch/mips/kernel/syscall.S\<close>), the handler in \<^verbatim>\<open>entry.S\<close> and the table that
  \<^verbatim>\<open>init_syscall\<close> of \<^verbatim>\<open>init/main.c\<close> fills.

  A function of the interface takes its arguments and the registers of the caller and gives the
  registers at the instruction \<^verbatim>\<open>syscall\<close>; addresses are machine words. The table is modelled as the
  words of memory from \<^verbatim>\<open>&syscall[0]\<close> on, because the sources write more entries than the array has;
  \<open>None\<close> is a word that holds something else. What the handlers do is the argument \<open>run\<close>.
\<close>

section \<open>Numbers and handlers\<close>

abbreviation (input) "SYSCALL_SLEEP \<equiv> 2 :: nat"
abbreviation (input) "SYSCALL_BLOCK \<equiv> 10 :: nat"
abbreviation (input) "SYSCALL_UNBLOCK_ONE \<equiv> 11 :: nat"
abbreviation (input) "SYSCALL_UNBLOCK_ALL \<equiv> 12 :: nat"
abbreviation (input) "SYSCALL_WRITE \<equiv> 20 :: nat"
abbreviation (input) "SYSCALL_READ \<equiv> 21 :: nat"
abbreviation (input) "SYSCALL_CURSOR \<equiv> 22 :: nat"
abbreviation (input) "SYSCALL_REFLUSH \<equiv> 23 :: nat"
abbreviation (input) "SYSCALL_SCREEN_CLEAR \<equiv> 24 :: nat"
abbreviation (input) "SYSCALL_MUTEX_LOCK_INIT \<equiv> 30 :: nat"
abbreviation (input) "SYSCALL_MUTEX_LOCK_ACQUIRE \<equiv> 31 :: nat"
abbreviation (input) "SYSCALL_MUTEX_LOCK_RELEASE \<equiv> 32 :: nat"
abbreviation (input) "SYSCALL_SEMAPHORE_INIT \<equiv> 33 :: nat"
abbreviation (input) "SYSCALL_SEMAPHORE_UP \<equiv> 34 :: nat"
abbreviation (input) "SYSCALL_SEMAPHORE_DOWN \<equiv> 35 :: nat"
abbreviation (input) "SYSCALL_CONDITION_INIT \<equiv> 36 :: nat"
abbreviation (input) "SYSCALL_CONDITION_WAIT \<equiv> 37 :: nat"
abbreviation (input) "SYSCALL_CONDITION_SIGNAL \<equiv> 38 :: nat"
abbreviation (input) "SYSCALL_CONDITION_BROADCAST \<equiv> 39 :: nat"
abbreviation (input) "SYSCALL_BARRIER_INIT \<equiv> 40 :: nat"
abbreviation (input) "SYSCALL_BARRIER_WAIT \<equiv> 41 :: nat"
abbreviation (input) "SYSCALL_EXIT \<equiv> 42 :: nat"
abbreviation (input) "SYSCALL_WAITPID \<equiv> 43 :: nat"
abbreviation (input) "SYSCALL_GETPID \<equiv> 44 :: nat"
abbreviation (input) "SYSCALL_SPAWN \<equiv> 45 :: nat"
abbreviation (input) "SYSCALL_KILL \<equiv> 46 :: nat"
abbreviation (input) "SYSCALL_PS \<equiv> 47 :: nat"
abbreviation (input) "SYSCALL_SCANF \<equiv> 48 :: nat"
abbreviation (input) "SYSCALL_NET_RECV \<equiv> 49 :: nat"
abbreviation (input) "SYSCALL_WAIT_RECV_PACKAGE \<equiv> 50 :: nat"
abbreviation (input) "SYSCALL_INIT_MAC \<equiv> 51 :: nat"
abbreviation (input) "SYSCALL_NET_SEND \<equiv> 52 :: nat"
abbreviation (input) "SYSCALL_NET_FAST_RECV \<equiv> 53 :: nat"
abbreviation (input) "SYSCALL_FS_OPEN \<equiv> 54 :: nat"
abbreviation (input) "SYSCALL_FS_WRITE \<equiv> 55 :: nat"
abbreviation (input) "SYSCALL_FS_READ \<equiv> 56 :: nat"
abbreviation (input) "SYSCALL_FS_CLOSE \<equiv> 57 :: nat"
abbreviation (input) "SYSCALL_FS_MKFS \<equiv> 59 :: nat"
abbreviation (input) "SYSCALL_FS_STATFS \<equiv> 60 :: nat"
abbreviation (input) "SYSCALL_FS_MKDIR \<equiv> 61 :: nat"
abbreviation (input) "SYSCALL_FS_RMDIR \<equiv> 62 :: nat"
abbreviation (input) "SYSCALL_FS_LS \<equiv> 63 :: nat"
abbreviation (input) "SYSCALL_FS_CD \<equiv> 64 :: nat"
abbreviation (input) "SYSCALL_FS_TOUCH \<equiv> 65 :: nat"
abbreviation (input) "SYSCALL_FS_CAT \<equiv> 66 :: nat"
abbreviation (input) "SYSCALL_FS_FIND \<equiv> 67 :: nat"
abbreviation (input) "SYSCALL_FS_RENAME \<equiv> 68 :: nat"
abbreviation (input) "SYSCALL_FS_LINK \<equiv> 69 :: nat"
abbreviation (input) "SYSCALL_FS_SYM_LINK \<equiv> 70 :: nat"
abbreviation (input) "SYSCALL_FS_PWD \<equiv> 71 :: nat"
abbreviation (input) "SYSCAL_FS_MAN \<equiv> 72 :: nat"
abbreviation (input) "SYSCALL_FS_DU \<equiv> 73 :: nat"
abbreviation (input) "SYSCALL_FS_DF \<equiv> 74 :: nat"
abbreviation (input) "SYSCALL_FS_DIFF \<equiv> 75 :: nat"
abbreviation (input) "SYSCALL_FS_WC \<equiv> 76 :: nat"
abbreviation (input) "SYSCALL_FS_RM \<equiv> 77 :: nat"
abbreviation (input) "SYSCALL_FS_MV \<equiv> 78 :: nat"
abbreviation (input) "SYSCALL_FS_CP \<equiv> 79 :: nat"
abbreviation (input) "SYSCALL_FS_CHMOD \<equiv> 80 :: nat"
abbreviation (input) "NUM_SYSCALLS \<equiv> 64 :: nat"

text \<open>The functions whose addresses are in the table, by the part of the kernel they belong to.\<close>

datatype task_fn = fn_do_sleep | fn_do_block | fn_do_unblock_one | fn_do_unblock_all | fn_do_exit
  | fn_do_waitpid | fn_do_getpid | fn_do_spawn | fn_do_kill | fn_do_ps

datatype console_fn = fn_do_write | fn_screen_move_cursor | fn_screen_reflush | fn_screen_clear | fn_do_scanf

datatype sync_fn = fn_do_mutex_lock_init | fn_do_mutex_lock_acquire | fn_do_mutex_lock_release
  | fn_do_semaphore_init | fn_do_semaphore_up | fn_do_semaphore_down | fn_do_condition_init
  | fn_do_condition_wait | fn_do_condition_signal | fn_do_condition_broadcast | fn_do_barrier_init
  | fn_do_barrier_wait

datatype net_fn = fn_do_init_mac | fn_do_net_send | fn_do_net_recv | fn_do_wait_recv_package
  | fn_do_net_fast_recv

datatype file_fn = fn_do_fopen | fn_do_fwrite | fn_do_fread | fn_do_fclose | fn_do_touch | fn_do_cat
  | fn_do_find | fn_do_rename | fn_do_link | fn_do_symlink | fn_do_diff | fn_do_wc | fn_do_rm | fn_do_mv
  | fn_do_cp | fn_do_chmod

datatype fs_fn = fn_do_mkfs | fn_do_statfs | fn_do_mkdir | fn_do_rmdir | fn_do_cd | fn_do_ls | fn_do_pwd
  | fn_do_man | fn_do_du | fn_do_df

datatype handler = fn_invalid_syscall | Task task_fn | Console console_fn | Sync sync_fn | Net net_fn | File file_fn | Fs fs_fn

text \<open>The assignments of \<^verbatim>\<open>init_syscall\<close> in their order.\<close>

definition syscall_entries :: "(nat \<times> handler) list" where
  "syscall_entries = [
    (SYSCALL_SLEEP, Task fn_do_sleep), (SYSCALL_BLOCK, Task fn_do_block), (SYSCALL_UNBLOCK_ONE, Task fn_do_unblock_one),
    (SYSCALL_UNBLOCK_ALL, Task fn_do_unblock_all), (SYSCALL_WRITE, Console fn_do_write),
    (SYSCALL_CURSOR, Console fn_screen_move_cursor), (SYSCALL_REFLUSH, Console fn_screen_reflush),
    (SYSCALL_MUTEX_LOCK_INIT, Sync fn_do_mutex_lock_init), (SYSCALL_MUTEX_LOCK_ACQUIRE, Sync fn_do_mutex_lock_acquire),
    (SYSCALL_MUTEX_LOCK_RELEASE, Sync fn_do_mutex_lock_release), (SYSCALL_SCREEN_CLEAR, Console fn_screen_clear),
    (SYSCALL_SEMAPHORE_INIT, Sync fn_do_semaphore_init), (SYSCALL_SEMAPHORE_UP, Sync fn_do_semaphore_up),
    (SYSCALL_SEMAPHORE_DOWN, Sync fn_do_semaphore_down), (SYSCALL_CONDITION_INIT, Sync fn_do_condition_init),
    (SYSCALL_CONDITION_WAIT, Sync fn_do_condition_wait), (SYSCALL_CONDITION_SIGNAL, Sync fn_do_condition_signal),
    (SYSCALL_CONDITION_BROADCAST, Sync fn_do_condition_broadcast), (SYSCALL_BARRIER_INIT, Sync fn_do_barrier_init),
    (SYSCALL_BARRIER_WAIT, Sync fn_do_barrier_wait), (SYSCALL_EXIT, Task fn_do_exit), (SYSCALL_WAITPID, Task fn_do_waitpid),
    (SYSCALL_GETPID, Task fn_do_getpid), (SYSCALL_SPAWN, Task fn_do_spawn), (SYSCALL_KILL, Task fn_do_kill),
    (SYSCALL_PS, Task fn_do_ps), (SYSCALL_SCANF, Console fn_do_scanf), (SYSCALL_INIT_MAC, Net fn_do_init_mac),
    (SYSCALL_NET_SEND, Net fn_do_net_send), (SYSCALL_NET_RECV, Net fn_do_net_recv),
    (SYSCALL_WAIT_RECV_PACKAGE, Net fn_do_wait_recv_package), (SYSCALL_NET_FAST_RECV, Net fn_do_net_fast_recv),
    (SYSCALL_FS_OPEN, File fn_do_fopen), (SYSCALL_FS_WRITE, File fn_do_fwrite), (SYSCALL_FS_READ, File fn_do_fread),
    (SYSCALL_FS_CLOSE, File fn_do_fclose), (SYSCALL_FS_MKFS, Fs fn_do_mkfs), (SYSCALL_FS_STATFS, Fs fn_do_statfs),
    (SYSCALL_FS_MKDIR, Fs fn_do_mkdir), (SYSCALL_FS_RMDIR, Fs fn_do_rmdir), (SYSCALL_FS_CD, Fs fn_do_cd),
    (SYSCALL_FS_LS, Fs fn_do_ls), (SYSCALL_FS_TOUCH, File fn_do_touch), (SYSCALL_FS_CAT, File fn_do_cat),
    (SYSCALL_FS_FIND, File fn_do_find), (SYSCALL_FS_RENAME, File fn_do_rename), (SYSCALL_FS_LINK, File fn_do_link),
    (SYSCALL_FS_SYM_LINK, File fn_do_symlink), (SYSCALL_FS_PWD, Fs fn_do_pwd), (SYSCAL_FS_MAN, Fs fn_do_man),
    (SYSCALL_FS_DU, Fs fn_do_du), (SYSCALL_FS_DF, Fs fn_do_df), (SYSCALL_FS_DIFF, File fn_do_diff),
    (SYSCALL_FS_WC, File fn_do_wc), (SYSCALL_FS_RM, File fn_do_rm), (SYSCALL_FS_MV, File fn_do_mv), (SYSCALL_FS_CP, File fn_do_cp),
    (SYSCALL_FS_CHMOD, File fn_do_chmod)]"

type_synonym table = "nat \<Rightarrow> handler option"

definition init_syscall :: "table \<Rightarrow> table" where
  "init_syscall m =
     fold (\<lambda>(n, h) m. m(n := Some h)) syscall_entries
       (fold (\<lambda>fn m. m(fn := Some fn_invalid_syscall)) [0..<NUM_SYSCALLS] m)"

section \<open>The functions of the interface\<close>

text \<open>The C calling convention puts the arguments in \<^verbatim>\<open>a0\<close> to \<^verbatim>\<open>a3\<close>, registers 4 to 7; \<^verbatim>\<open>v0\<close> is 2.\<close>

definition pass_args :: "nat \<Rightarrow> u32 \<Rightarrow> u32 \<Rightarrow> u32 \<Rightarrow> cpu \<Rightarrow> cpu" where
  "pass_args n x y z c = set_gpr 7 z (set_gpr 6 y (set_gpr 5 x (set_gpr 4 (of_nat n) c)))"

definition invoke_syscall :: "cpu \<Rightarrow> cpu" where
  "invoke_syscall c = (let c = set_gpr 2 (get_gpr 4 c) c;
                           c = set_gpr 4 (get_gpr 5 c) c;
                           c = set_gpr 5 (get_gpr 6 c) c
                       in set_gpr 6 (get_gpr 7 c) c)"

definition sys_sleep :: "u32 \<Rightarrow> cpu \<Rightarrow> cpu" where
  "sys_sleep time c = invoke_syscall (pass_args SYSCALL_SLEEP time 0 0 c)"

definition sys_block :: "u32 \<Rightarrow> cpu \<Rightarrow> cpu" where
  "sys_block queue c = invoke_syscall (pass_args SYSCALL_BLOCK queue 0 0 c)"

definition sys_unblock_one :: "u32 \<Rightarrow> cpu \<Rightarrow> cpu" where
  "sys_unblock_one queue c = invoke_syscall (pass_args SYSCALL_UNBLOCK_ONE queue 0 0 c)"

definition sys_unblock_all :: "u32 \<Rightarrow> cpu \<Rightarrow> cpu" where
  "sys_unblock_all queue c = invoke_syscall (pass_args SYSCALL_UNBLOCK_ALL queue 0 0 c)"

definition sys_write :: "u32 \<Rightarrow> cpu \<Rightarrow> cpu" where
  "sys_write buff c = invoke_syscall (pass_args SYSCALL_WRITE buff 0 0 c)"

definition sys_reflush :: "cpu \<Rightarrow> cpu" where
  "sys_reflush c = invoke_syscall (pass_args SYSCALL_REFLUSH 0 0 0 c)"

definition sys_move_cursor :: "u32 \<Rightarrow> u32 \<Rightarrow> cpu \<Rightarrow> cpu" where
  "sys_move_cursor x y c = invoke_syscall (pass_args SYSCALL_CURSOR x y 0 c)"

definition sys_screen_clear :: "cpu \<Rightarrow> cpu" where
  "sys_screen_clear c = invoke_syscall (pass_args SYSCALL_SCREEN_CLEAR 0 0 0 c)"

definition mutex_lock_init :: "u32 \<Rightarrow> cpu \<Rightarrow> cpu" where
  "mutex_lock_init lk c = invoke_syscall (pass_args SYSCALL_MUTEX_LOCK_INIT lk 0 0 c)"

definition mutex_lock_acquire :: "u32 \<Rightarrow> cpu \<Rightarrow> cpu" where
  "mutex_lock_acquire lk c = invoke_syscall (pass_args SYSCALL_MUTEX_LOCK_ACQUIRE lk 0 0 c)"

definition mutex_lock_release :: "u32 \<Rightarrow> cpu \<Rightarrow> cpu" where
  "mutex_lock_release lk c = invoke_syscall (pass_args SYSCALL_MUTEX_LOCK_RELEASE lk 0 0 c)"

definition semaphore_init :: "u32 \<Rightarrow> u32 \<Rightarrow> cpu \<Rightarrow> cpu" where
  "semaphore_init semaphore n c = invoke_syscall (pass_args SYSCALL_SEMAPHORE_INIT semaphore n 0 c)"

definition semaphore_up :: "u32 \<Rightarrow> cpu \<Rightarrow> cpu" where
  "semaphore_up semaphore c = invoke_syscall (pass_args SYSCALL_SEMAPHORE_UP semaphore 0 0 c)"

definition semaphore_down :: "u32 \<Rightarrow> cpu \<Rightarrow> cpu" where
  "semaphore_down semaphore c = invoke_syscall (pass_args SYSCALL_SEMAPHORE_DOWN semaphore 0 0 c)"

definition condition_init :: "u32 \<Rightarrow> cpu \<Rightarrow> cpu" where
  "condition_init condition c = invoke_syscall (pass_args SYSCALL_CONDITION_INIT condition 0 0 c)"

definition condition_wait :: "u32 \<Rightarrow> u32 \<Rightarrow> cpu \<Rightarrow> cpu" where
  "condition_wait lk condition c = invoke_syscall (pass_args SYSCALL_CONDITION_WAIT lk condition 0 c)"

definition condition_signal :: "u32 \<Rightarrow> cpu \<Rightarrow> cpu" where
  "condition_signal condition c = invoke_syscall (pass_args SYSCALL_CONDITION_SIGNAL condition 0 0 c)"

definition condition_broadcast :: "u32 \<Rightarrow> cpu \<Rightarrow> cpu" where
  "condition_broadcast condition c = invoke_syscall (pass_args SYSCALL_CONDITION_BROADCAST condition 0 0 c)"

definition barrier_init :: "u32 \<Rightarrow> u32 \<Rightarrow> cpu \<Rightarrow> cpu" where
  "barrier_init barrier n c = invoke_syscall (pass_args SYSCALL_BARRIER_INIT barrier n 0 c)"

definition barrier_wait :: "u32 \<Rightarrow> cpu \<Rightarrow> cpu" where
  "barrier_wait barrier c = invoke_syscall (pass_args SYSCALL_BARRIER_WAIT barrier 0 0 c)"

definition sys_spawn :: "u32 \<Rightarrow> cpu \<Rightarrow> cpu" where
  "sys_spawn task_info c = invoke_syscall (pass_args SYSCALL_SPAWN task_info 0 0 c)"

definition sys_exit :: "cpu \<Rightarrow> cpu" where
  "sys_exit c = invoke_syscall (pass_args SYSCALL_EXIT 0 0 0 c)"

definition sys_getpid :: "cpu \<Rightarrow> cpu" where
  "sys_getpid c = invoke_syscall (pass_args SYSCALL_GETPID 0 0 0 c)"

definition sys_waitpid :: "u32 \<Rightarrow> cpu \<Rightarrow> cpu" where
  "sys_waitpid n c = invoke_syscall (pass_args SYSCALL_WAITPID n 0 0 c)"

definition sys_kill :: "u32 \<Rightarrow> cpu \<Rightarrow> cpu" where
  "sys_kill n c = invoke_syscall (pass_args SYSCALL_KILL n 0 0 c)"

definition sys_ps :: "cpu \<Rightarrow> cpu" where
  "sys_ps c = invoke_syscall (pass_args SYSCALL_PS 0 0 0 c)"

definition sys_scanf :: "u32 \<Rightarrow> cpu \<Rightarrow> cpu" where
  "sys_scanf mem c = invoke_syscall (pass_args SYSCALL_SCANF mem 0 0 c)"

definition sys_init_mac :: "cpu \<Rightarrow> cpu" where
  "sys_init_mac c = invoke_syscall (pass_args SYSCALL_INIT_MAC 0 0 0 c)"

definition sys_net_send :: "u32 \<Rightarrow> u32 \<Rightarrow> cpu \<Rightarrow> cpu" where
  "sys_net_send td td_phy c = invoke_syscall (pass_args SYSCALL_NET_SEND td td_phy 0 c)"

definition sys_net_recv :: "u32 \<Rightarrow> u32 \<Rightarrow> u32 \<Rightarrow> cpu \<Rightarrow> cpu" where
  "sys_net_recv rd rd_phy daddr c = invoke_syscall (pass_args SYSCALL_NET_RECV rd rd_phy daddr c)"

definition sys_wait_recv_package :: "cpu \<Rightarrow> cpu" where
  "sys_wait_recv_package c = invoke_syscall (pass_args SYSCALL_WAIT_RECV_PACKAGE 0 0 0 c)"

definition sys_net_fast_recv :: "u32 \<Rightarrow> u32 \<Rightarrow> u32 \<Rightarrow> cpu \<Rightarrow> cpu" where
  "sys_net_fast_recv rd rd_phy daddr c = invoke_syscall (pass_args SYSCALL_NET_FAST_RECV rd rd_phy daddr c)"

definition sys_fopen :: "u32 \<Rightarrow> u32 \<Rightarrow> cpu \<Rightarrow> cpu" where
  "sys_fopen nm md c = invoke_syscall (pass_args SYSCALL_FS_OPEN nm md 0 c)"

definition sys_fwrite :: "u32 \<Rightarrow> u32 \<Rightarrow> u32 \<Rightarrow> cpu \<Rightarrow> cpu" where
  "sys_fwrite fd content len c = invoke_syscall (pass_args SYSCALL_FS_WRITE fd content len c)"

definition sys_fread :: "u32 \<Rightarrow> u32 \<Rightarrow> u32 \<Rightarrow> cpu \<Rightarrow> cpu" where
  "sys_fread fd buffer len c = invoke_syscall (pass_args SYSCALL_FS_READ fd buffer len c)"

definition sys_fclose :: "u32 \<Rightarrow> cpu \<Rightarrow> cpu" where
  "sys_fclose fd c = invoke_syscall (pass_args SYSCALL_FS_CLOSE fd 0 0 c)"

definition sys_mkfs :: "cpu \<Rightarrow> cpu" where
  "sys_mkfs c = invoke_syscall (pass_args SYSCALL_FS_MKFS 0 0 0 c)"

definition sys_statfs :: "cpu \<Rightarrow> cpu" where
  "sys_statfs c = invoke_syscall (pass_args SYSCALL_FS_STATFS 0 0 0 c)"

definition sys_mkdir :: "u32 \<Rightarrow> cpu \<Rightarrow> cpu" where
  "sys_mkdir nm c = invoke_syscall (pass_args SYSCALL_FS_MKDIR nm 0 0 c)"

definition sys_rmdir :: "u32 \<Rightarrow> cpu \<Rightarrow> cpu" where
  "sys_rmdir nm c = invoke_syscall (pass_args SYSCALL_FS_RMDIR nm 0 0 c)"

definition sys_cd :: "u32 \<Rightarrow> cpu \<Rightarrow> cpu" where
  "sys_cd nm c = invoke_syscall (pass_args SYSCALL_FS_CD nm 0 0 c)"

definition sys_ls :: "cpu \<Rightarrow> cpu" where
  "sys_ls c = invoke_syscall (pass_args SYSCALL_FS_LS 0 0 0 c)"

definition sys_touch :: "u32 \<Rightarrow> cpu \<Rightarrow> cpu" where
  "sys_touch nm c = invoke_syscall (pass_args SYSCALL_FS_TOUCH nm 0 0 c)"

definition sys_cat :: "u32 \<Rightarrow> cpu \<Rightarrow> cpu" where
  "sys_cat nm c = invoke_syscall (pass_args SYSCALL_FS_CAT nm 0 0 c)"

definition sys_find :: "u32 \<Rightarrow> u32 \<Rightarrow> cpu \<Rightarrow> cpu" where
  "sys_find path nm c = invoke_syscall (pass_args SYSCALL_FS_FIND path nm 0 c)"

definition sys_rename :: "u32 \<Rightarrow> u32 \<Rightarrow> cpu \<Rightarrow> cpu" where
  "sys_rename old_name new_name c = invoke_syscall (pass_args SYSCALL_FS_RENAME old_name new_name 0 c)"

definition sys_link :: "u32 \<Rightarrow> u32 \<Rightarrow> cpu \<Rightarrow> cpu" where
  "sys_link src_path new_path c = invoke_syscall (pass_args SYSCALL_FS_LINK src_path new_path 0 c)"

definition sys_symlink :: "u32 \<Rightarrow> u32 \<Rightarrow> cpu \<Rightarrow> cpu" where
  "sys_symlink src_path new_path c = invoke_syscall (pass_args SYSCALL_FS_SYM_LINK src_path new_path 0 c)"

definition sys_pwd :: "cpu \<Rightarrow> cpu" where
  "sys_pwd c = invoke_syscall (pass_args SYSCALL_FS_PWD 0 0 0 c)"

definition sys_man :: "u32 \<Rightarrow> cpu \<Rightarrow> cpu" where
  "sys_man command c = invoke_syscall (pass_args SYSCAL_FS_MAN command 0 0 c)"

definition sys_du :: "cpu \<Rightarrow> cpu" where
  "sys_du c = invoke_syscall (pass_args SYSCALL_FS_DU 0 0 0 c)"

definition sys_df :: "cpu \<Rightarrow> cpu" where
  "sys_df c = invoke_syscall (pass_args SYSCALL_FS_DF 0 0 0 c)"

definition sys_diff :: "u32 \<Rightarrow> u32 \<Rightarrow> cpu \<Rightarrow> cpu" where
  "sys_diff name_1 name_2 c = invoke_syscall (pass_args SYSCALL_FS_DIFF name_1 name_2 0 c)"

definition sys_wc :: "u32 \<Rightarrow> cpu \<Rightarrow> cpu" where
  "sys_wc nm c = invoke_syscall (pass_args SYSCALL_FS_WC nm 0 0 c)"

definition sys_rm :: "u32 \<Rightarrow> cpu \<Rightarrow> cpu" where
  "sys_rm nm c = invoke_syscall (pass_args SYSCALL_FS_RM nm 0 0 c)"

definition sys_mv :: "u32 \<Rightarrow> u32 \<Rightarrow> cpu \<Rightarrow> cpu" where
  "sys_mv path_1 path_2 c = invoke_syscall (pass_args SYSCALL_FS_MV path_1 path_2 0 c)"

definition sys_cp :: "u32 \<Rightarrow> u32 \<Rightarrow> cpu \<Rightarrow> cpu" where
  "sys_cp path_1 path_2 c = invoke_syscall (pass_args SYSCALL_FS_CP path_1 path_2 0 c)"

definition sys_chmod :: "u32 \<Rightarrow> cpu \<Rightarrow> cpu" where
  "sys_chmod nm c = invoke_syscall (pass_args SYSCALL_FS_CHMOD nm 0 0 c)"

section \<open>The handler\<close>

text \<open>The instruction \<^verbatim>\<open>syscall\<close> at the address \<open>ia\<close>: exception code 8, exception level set.\<close>

definition trap :: "u32 \<Rightarrow> cpu \<Rightarrow> cpu" where
  "trap ia c = c\<lparr>CP0_EPC := ia, CP0_CAUSE := (CP0_CAUSE c AND NOT 0x7c) OR 0x20, CP0_STATUS := CP0_STATUS c OR 2\<rparr>"

definition call_entry ::
    "table \<Rightarrow> (handler \<Rightarrow> u32 \<Rightarrow> u32 \<Rightarrow> u32 \<Rightarrow> kernel \<Rightarrow> (u32 \<times> kernel) option) \<Rightarrow>
     u32 \<Rightarrow> u32 \<Rightarrow> u32 \<Rightarrow> u32 \<Rightarrow> kernel \<Rightarrow> (u32 \<times> kernel) option" where
  "call_entry tab run fn arg1 arg2 arg3 s =
     (case tab (unat fn) of None \<Rightarrow> None | Some h \<Rightarrow> run h arg1 arg2 arg3 s)"

text \<open>
  \<^verbatim>\<open>handle_syscall\<close> of \<^verbatim>\<open>entry.S\<close>; \<open>body\<close> is what the compiled code of \<^verbatim>\<open>system_call_helper\<close> leaves in the
  registers. The result is the address at which the program goes on, with the registers.
\<close>

definition handle_syscall_code ::
    "table \<Rightarrow> (handler \<Rightarrow> u32 \<Rightarrow> u32 \<Rightarrow> u32 \<Rightarrow> kernel \<Rightarrow> (u32 \<times> kernel) option) \<Rightarrow> (cpu \<Rightarrow> cpu) \<Rightarrow>
     (pcb_id \<Rightarrow> u32) \<Rightarrow> cpu \<times> kernel \<Rightarrow> ((u32 \<times> cpu) \<times> kernel) option" where
  "handle_syscall_code tab run body addr m = do {
     let (c, s) = save_user addr m;
     let c = set_gpr 7 (get_gpr 6 c) c;
     let c = set_gpr 6 (get_gpr 5 c) c;
     let c = set_gpr 5 (get_gpr 4 c) c;
     let c = set_gpr 4 (get_gpr 2 c) c;
     let c = set_gpr K1 (CP0_EPC c) c;
     s \<leftarrow> system_call_helper (call_entry tab run (get_gpr 4 c) (get_gpr 5 c) (get_gpr 6 c) (get_gpr 7 c)) s;
     let c = body c;
     let c = set_gpr K1 (CP0_EPC c) c;
     let (c, s) = restore_user addr (c, s);
     let c = set_gpr K1 (CP0_EPC c) c;
     Some (return_from_exception c, s)
   }"

text \<open>From the instruction to the return, through the dispatch of exceptions.\<close>

definition system_call ::
    "table \<Rightarrow> (handler \<Rightarrow> u32 \<Rightarrow> u32 \<Rightarrow> u32 \<Rightarrow> kernel \<Rightarrow> (u32 \<times> kernel) option) \<Rightarrow> (cpu \<Rightarrow> cpu) \<Rightarrow>
     (pcb_id \<Rightarrow> u32) \<Rightarrow> u32 \<Rightarrow> cpu \<times> kernel \<Rightarrow> ((u32 \<times> cpu) \<times> kernel) option" where
  "system_call tab run body addr ia = (\<lambda>(c, s). do {
     (h, c) \<leftarrow> exception_handler_entry init_exception_handler (trap ia c);
     guard (h = handle_syscall);
     handle_syscall_code tab run body addr (c, s)
   })"

section \<open>The table\<close>

text \<open>Every function of the interface, the handler it is meant for and the arguments it passes.\<close>

definition user_calls :: "u32 \<Rightarrow> u32 \<Rightarrow> u32 \<Rightarrow> ((cpu \<Rightarrow> cpu) \<times> handler \<times> u32 \<times> u32 \<times> u32) list" where
  "user_calls x y z = [
    (sys_sleep x, Task fn_do_sleep, x, 0, 0),
    (sys_block x, Task fn_do_block, x, 0, 0),
    (sys_unblock_one x, Task fn_do_unblock_one, x, 0, 0),
    (sys_unblock_all x, Task fn_do_unblock_all, x, 0, 0),
    (sys_write x, Console fn_do_write, x, 0, 0),
    (sys_reflush, Console fn_screen_reflush, 0, 0, 0),
    (sys_move_cursor x y, Console fn_screen_move_cursor, x, y, 0),
    (sys_screen_clear, Console fn_screen_clear, 0, 0, 0),
    (mutex_lock_init x, Sync fn_do_mutex_lock_init, x, 0, 0),
    (mutex_lock_acquire x, Sync fn_do_mutex_lock_acquire, x, 0, 0),
    (mutex_lock_release x, Sync fn_do_mutex_lock_release, x, 0, 0),
    (semaphore_init x y, Sync fn_do_semaphore_init, x, y, 0),
    (semaphore_up x, Sync fn_do_semaphore_up, x, 0, 0),
    (semaphore_down x, Sync fn_do_semaphore_down, x, 0, 0),
    (condition_init x, Sync fn_do_condition_init, x, 0, 0),
    (condition_wait x y, Sync fn_do_condition_wait, x, y, 0),
    (condition_signal x, Sync fn_do_condition_signal, x, 0, 0),
    (condition_broadcast x, Sync fn_do_condition_broadcast, x, 0, 0),
    (barrier_init x y, Sync fn_do_barrier_init, x, y, 0),
    (barrier_wait x, Sync fn_do_barrier_wait, x, 0, 0),
    (sys_spawn x, Task fn_do_spawn, x, 0, 0),
    (sys_exit, Task fn_do_exit, 0, 0, 0),
    (sys_getpid, Task fn_do_getpid, 0, 0, 0),
    (sys_waitpid x, Task fn_do_waitpid, x, 0, 0),
    (sys_kill x, Task fn_do_kill, x, 0, 0),
    (sys_ps, Task fn_do_ps, 0, 0, 0),
    (sys_scanf x, Console fn_do_scanf, x, 0, 0),
    (sys_init_mac, Net fn_do_init_mac, 0, 0, 0),
    (sys_net_send x y, Net fn_do_net_send, x, y, 0),
    (sys_net_recv x y z, Net fn_do_net_recv, x, y, z),
    (sys_wait_recv_package, Net fn_do_wait_recv_package, 0, 0, 0),
    (sys_net_fast_recv x y z, Net fn_do_net_fast_recv, x, y, z),
    (sys_fopen x y, File fn_do_fopen, x, y, 0),
    (sys_fwrite x y z, File fn_do_fwrite, x, y, z),
    (sys_fread x y z, File fn_do_fread, x, y, z),
    (sys_fclose x, File fn_do_fclose, x, 0, 0),
    (sys_mkfs, Fs fn_do_mkfs, 0, 0, 0),
    (sys_statfs, Fs fn_do_statfs, 0, 0, 0),
    (sys_mkdir x, Fs fn_do_mkdir, x, 0, 0),
    (sys_rmdir x, Fs fn_do_rmdir, x, 0, 0),
    (sys_cd x, Fs fn_do_cd, x, 0, 0),
    (sys_ls, Fs fn_do_ls, 0, 0, 0),
    (sys_touch x, File fn_do_touch, x, 0, 0),
    (sys_cat x, File fn_do_cat, x, 0, 0),
    (sys_find x y, File fn_do_find, x, y, 0),
    (sys_rename x y, File fn_do_rename, x, y, 0),
    (sys_link x y, File fn_do_link, x, y, 0),
    (sys_symlink x y, File fn_do_symlink, x, y, 0),
    (sys_pwd, Fs fn_do_pwd, 0, 0, 0),
    (sys_man x, Fs fn_do_man, x, 0, 0),
    (sys_du, Fs fn_do_du, 0, 0, 0),
    (sys_df, Fs fn_do_df, 0, 0, 0),
    (sys_diff x y, File fn_do_diff, x, y, 0),
    (sys_wc x, File fn_do_wc, x, 0, 0),
    (sys_rm x, File fn_do_rm, x, 0, 0),
    (sys_mv x y, File fn_do_mv, x, y, 0),
    (sys_cp x y, File fn_do_cp, x, y, 0),
    (sys_chmod x, File fn_do_chmod, x, 0, 0)]"

lemmas interface_defs =
  sys_sleep_def sys_block_def sys_unblock_one_def sys_unblock_all_def sys_write_def
  sys_reflush_def sys_move_cursor_def sys_screen_clear_def mutex_lock_init_def mutex_lock_acquire_def
  mutex_lock_release_def semaphore_init_def semaphore_up_def semaphore_down_def condition_init_def
  condition_wait_def condition_signal_def condition_broadcast_def barrier_init_def barrier_wait_def
  sys_spawn_def sys_exit_def sys_getpid_def sys_waitpid_def sys_kill_def
  sys_ps_def sys_scanf_def sys_init_mac_def sys_net_send_def sys_net_recv_def
  sys_wait_recv_package_def sys_net_fast_recv_def sys_fopen_def sys_fwrite_def sys_fread_def
  sys_fclose_def sys_mkfs_def sys_statfs_def sys_mkdir_def sys_rmdir_def
  sys_cd_def sys_ls_def sys_touch_def sys_cat_def sys_find_def
  sys_rename_def sys_link_def sys_symlink_def sys_pwd_def sys_man_def
  sys_du_def sys_df_def sys_diff_def sys_wc_def sys_rm_def
  sys_mv_def sys_cp_def sys_chmod_def

lemma table_fold:
  "distinct (map fst es) \<Longrightarrow> (n, h) \<in> set es \<Longrightarrow> fold (\<lambda>(n, h) m. m(n := Some h)) es m n = Some h"
proof (induction es rule: rev_induct)
  case (snoc e es)
  then show ?case by (cases "e = (n, h)") (auto simp: case_prod_beta image_iff)
qed simp

lemma table_fold_other: "n \<notin> fst ` set es \<Longrightarrow> fold (\<lambda>(n, h) m. m(n := Some h)) es m n = m n"
  by (induction es rule: rev_induct) (auto simp: case_prod_beta)

lemma distinct_entries: "distinct (map fst syscall_entries)"
  by (simp add: syscall_entries_def)

lemma init_syscall_entry: "(n, h) \<in> set syscall_entries \<Longrightarrow> init_syscall m n = Some h"
  unfolding init_syscall_def by (rule table_fold [OF distinct_entries])

definition call_numbers :: "nat list" where
  "call_numbers = [
    SYSCALL_SLEEP, SYSCALL_BLOCK, SYSCALL_UNBLOCK_ONE, SYSCALL_UNBLOCK_ALL, SYSCALL_WRITE,
    SYSCALL_REFLUSH, SYSCALL_CURSOR, SYSCALL_SCREEN_CLEAR, SYSCALL_MUTEX_LOCK_INIT, SYSCALL_MUTEX_LOCK_ACQUIRE,
    SYSCALL_MUTEX_LOCK_RELEASE, SYSCALL_SEMAPHORE_INIT, SYSCALL_SEMAPHORE_UP, SYSCALL_SEMAPHORE_DOWN, SYSCALL_CONDITION_INIT,
    SYSCALL_CONDITION_WAIT, SYSCALL_CONDITION_SIGNAL, SYSCALL_CONDITION_BROADCAST, SYSCALL_BARRIER_INIT, SYSCALL_BARRIER_WAIT,
    SYSCALL_SPAWN, SYSCALL_EXIT, SYSCALL_GETPID, SYSCALL_WAITPID, SYSCALL_KILL,
    SYSCALL_PS, SYSCALL_SCANF, SYSCALL_INIT_MAC, SYSCALL_NET_SEND, SYSCALL_NET_RECV,
    SYSCALL_WAIT_RECV_PACKAGE, SYSCALL_NET_FAST_RECV, SYSCALL_FS_OPEN, SYSCALL_FS_WRITE, SYSCALL_FS_READ,
    SYSCALL_FS_CLOSE, SYSCALL_FS_MKFS, SYSCALL_FS_STATFS, SYSCALL_FS_MKDIR, SYSCALL_FS_RMDIR,
    SYSCALL_FS_CD, SYSCALL_FS_LS, SYSCALL_FS_TOUCH, SYSCALL_FS_CAT, SYSCALL_FS_FIND,
    SYSCALL_FS_RENAME, SYSCALL_FS_LINK, SYSCALL_FS_SYM_LINK, SYSCALL_FS_PWD, SYSCAL_FS_MAN,
    SYSCALL_FS_DU, SYSCALL_FS_DF, SYSCALL_FS_DIFF, SYSCALL_FS_WC, SYSCALL_FS_RM,
    SYSCALL_FS_MV, SYSCALL_FS_CP, SYSCALL_FS_CHMOD]"

lemma interface_numbers: "map (map_of syscall_entries) call_numbers = map (\<lambda>(w, h, a, b, d). Some h) (user_calls x y z)"
  by code_simp

lemma interface_regs:
  "list_all2 (\<lambda>(w, h, a, b, d) n. n < 81 \<and> (\<forall>c. w c = invoke_syscall (pass_args n a b d c)))
     (user_calls x y z) call_numbers"
  by (simp add: user_calls_def call_numbers_def interface_defs)

lemma interface_entry:
  assumes "(w, h, a, b, d) \<in> set (user_calls x y z)"
  shows "\<exists>n. (n, h) \<in> set syscall_entries \<and> n < 81 \<and> (\<forall>c. w c = invoke_syscall (pass_args n a b d c))"
proof -
  obtain i where i: "i < length (user_calls x y z)" "user_calls x y z ! i = (w, h, a, b, d)"
    using assms by (auto simp: in_set_conv_nth)
  have "length call_numbers = length (user_calls x y z)" using interface_regs [of x y z] by (simp add: list_all2_lengthD)
  then have "map_of syscall_entries (call_numbers ! i) = Some h"
    using i arg_cong [OF interface_numbers [of x y z], of "\<lambda>l. l ! i"] by simp
  moreover have "call_numbers ! i < 81 \<and> (\<forall>c. w c = invoke_syscall (pass_args (call_numbers ! i) a b d c))"
    using list_all2_nthD [OF interface_regs i(1)] i(2) by simp
  ultimately show ?thesis by (blast dest: map_of_SomeD)
qed

lemma invoke_regs:
  fixes c :: cpu and a b d :: u32 and n :: nat
  defines "c' \<equiv> invoke_syscall (pass_args n a b d c)"
  shows "get_gpr 2 c' = of_nat n" "get_gpr 4 c' = a" "get_gpr 5 c' = b" "get_gpr 6 c' = d"
    "i \<notin> {2, 4, 5, 6, 7} \<Longrightarrow> get_gpr i c' = get_gpr i c"
    "CP0_STATUS c' = CP0_STATUS c" "CP0_CAUSE c' = CP0_CAUSE c"
  by (simp_all add: c'_def invoke_syscall_def pass_args_def Let_def)

text \<open>The entries from 64 on are behind the end of the array, and are written all the same.\<close>

lemma init_syscall_leaves_array:
  "64 \<le> n \<Longrightarrow> n \<le> 80 \<Longrightarrow> init_syscall (\<lambda>_. None) n \<noteq> None" "80 < n \<Longrightarrow> init_syscall m n = m n"
proof -
  have "fst ` set syscall_entries \<subseteq> {..80}" by (simp add: syscall_entries_def)
  moreover have "fold (\<lambda>fn m. m(fn := Some fn_invalid_syscall)) ks m n = m n" if "n \<notin> set ks" for ks m
    using that by (induction ks arbitrary: m) auto
  ultimately show "80 < n \<Longrightarrow> init_syscall m n = m n"
    unfolding init_syscall_def by (subst table_fold_other) auto
  assume n: "64 \<le> n" "n \<le> 80"
  have "list_all (\<lambda>n. n \<in> set (map fst syscall_entries)) [64..<81]" by (simp add: syscall_entries_def upt_conv_Cons)
  moreover have "n \<in> set [64..<81]" using n by (simp del: upt_rec_numeral)
  ultimately have "n \<in> fst ` set syscall_entries" by (simp add: list_all_iff del: set_upt upt_rec_numeral)
  then obtain h where "(n, h) \<in> set syscall_entries" by auto
  then show "init_syscall (\<lambda>_. None) n \<noteq> None" by (simp add: init_syscall_entry)
qed

section \<open>A system call from end to end\<close>

lemma trap_dispatch:
  "\<exists>c'. exception_handler_entry init_exception_handler (trap ia c) = Some (handle_syscall, c') \<and>
     CP0_EPC c' = ia \<and> (\<forall>i. i \<noteq> 26 \<and> i \<noteq> 27 \<longrightarrow> get_gpr i c' = get_gpr i c)"
proof -
  have "(x AND NOT m OR v) AND m = v AND m" for x m v :: u32
    by (rule bit_word_eqI) (auto simp: bit_simps)
  from this [of _ "0x7c" "0x20"] have cause: "CP0_CAUSE (trap ia c) AND 0x7c = 0x20" by (simp add: trap_def)
  have "get_gpr i (trap ia c) = get_gpr i c" for i by (simp add: trap_def get_gpr_def)
  then show ?thesis
    using handler_table [of 8] cause
    by (simp add: exception_handler_entry_def CLI_def Let_def) (simp add: trap_def)
qed


lemma restore_reg:
  assumes "(i, r) \<in> set context_slots" "r \<noteq> 0"
  shows "get_gpr r (RESTORE_CONTEXT b x d) = regs x ! i"
proof -
  have "r \<noteq> K0" "r \<noteq> K1" using assms(1) by (auto simp: context_slots_def)
  then show ?thesis
    using fold_lw_in [OF distinct_slots(2) assms] by (simp add: RESTORE_CONTEXT_def Let_def)
qed

lemma save_reg:
  assumes "SAVE_CONTEXT base c x = (c', x')" "(i, r) \<in> set context_slots" "length (regs x) = 32"
  shows "regs x' ! i = get_gpr r c"
proof -
  have "r \<noteq> K0" "i < 32" using assms(2) by (auto simp: context_slots_def)
  then show ?thesis
    using assms(1,3) fold_sw_in [OF distinct_slots(1) assms(2), of "regs x"]
    by (auto simp: SAVE_CONTEXT_def Let_def)
qed

text \<open>The saved context, with a result in word 2 and the exception address moved on, restored.\<close>

lemma restore_result:
  fixes b ret e :: u32 and d :: cpu
  assumes "SAVE_CONTEXT base c x = (c', x')" "length (regs x) = 32"
  defines "r \<equiv> RESTORE_CONTEXT b (x'\<lparr>regs := (regs x')[2 := ret], cp0_epc := e\<rparr>) d"
  shows "get_gpr 2 r = ret" "CP0_EPC r = e"
    "i < 32 \<Longrightarrow> i \<notin> {2, 26, 27} \<Longrightarrow> get_gpr i r = get_gpr i c"
proof -
  have l: "length (regs x') = 32" using save_keeps(8) [OF assms(1)] assms(2) by simp
  have "(2, 2) \<in> set context_slots" by (simp add: context_slots_def)
  then show "get_gpr 2 r = ret" using restore_reg [of 2 2] l by (simp add: r_def)
  show "CP0_EPC r = e" by (simp add: r_def RESTORE_CONTEXT_def Let_def)
  assume i: "i < 32" "i \<notin> {2, 26, 27}"
  show "get_gpr i r = get_gpr i c"
  proof (cases "i = 0")
    case False
    obtain k where k: "(k, i) \<in> set context_slots" using kept_slot [of i] i by (auto simp: kept_regs_def)
    then have "k \<noteq> 2" using i(2) by (auto simp: context_slots_def)
    then show ?thesis
      using restore_reg [OF k False] save_reg [OF assms(1) k assms(2)] by (simp add: r_def)
  qed (simp add: get_gpr_def)
qed

lemma return_sel [simp]:
  "fst (return_from_exception c) = CP0_EPC c" "i \<noteq> 26 \<Longrightarrow> i \<noteq> 27 \<Longrightarrow> get_gpr i (snd (return_from_exception c)) = get_gpr i c"
  by (simp_all add: return_from_exception_def STI_def Let_def get_gpr_def set_gpr_def)

text \<open>The state in which the handler runs.\<close>

definition in_kernel :: "regs_context_t \<Rightarrow> kernel \<Rightarrow> kernel" where
  "in_kernel x s = upd_pcb (current_running s) (\<lambda>t. t\<lparr>mode := KERNEL_MODE\<rparr>)
     (upd_pcb (current_running s) (\<lambda>t. t\<lparr>user_context := x\<rparr>) s)"



text \<open>A program that asks for its process number, with the handler of the process component.\<close>

definition sample_run :: "handler \<Rightarrow> u32 \<Rightarrow> u32 \<Rightarrow> u32 \<Rightarrow> kernel \<Rightarrow> (u32 \<times> kernel) option" where
  "sample_run h a b d s = (if h = Task fn_do_getpid then Some (do_getpid s, s) else None)"


definition sample_kernel :: kernel where
  "sample_kernel = upd_pcb PcbInit (\<lambda>t. t\<lparr>pid := 7\<rparr>) zero_kernel"

lemma sample_call: "(sys_getpid, Task fn_do_getpid, 0, 0, 0) \<in> set (user_calls 0 0 0)"
  unfolding user_calls_def by (simp only: list.set insert_iff prod.inject handler.distinct handler.inject task_fn.distinct simp_thms)

lemma sample_kernel_ok:
  "PcbInit = current_running sample_kernel" "length (regs (user_context (pcbs sample_kernel PcbInit))) = 32"
  "pid (pcbs sample_kernel PcbInit) = 7"
  by (simp_all add: sample_kernel_def zero_kernel_def zero_pcb_def zero_context_def upd_pcb_def)


end
