(* ===== verification/Boot.thy ===== *)
theory Boot
  imports Fs_Main Screen Syscall
begin

text \<open>
  The start of the system, \<^verbatim>\<open>_start\<close> of \<^verbatim>\<open>init/main.c\<close>, which calls the initialisation of every component,
  over the states of all of them; the machine code of the exception handler, which it copies to
  the exception vectors, is an argument. \<open>os_boots\<close> puts the results of the components together.
\<close>

record 'c machine =
  processor :: cpu
  memory :: "u32 \<Rightarrow> u8"
  exception_handlers :: "exc_handler list"
  syscall_table :: table
  kernel_data :: kernel
  screen_data :: screen
  fs_data :: "'c fs_state"

abbreviation (input) "EBASE \<equiv> 0xbfc00000 :: u32"
abbreviation (input) "EBASE_OFFSET \<equiv> 0x380 :: u32"

definition CLOSE_INTERRUPT :: "cpu \<Rightarrow> cpu" where
  "CLOSE_INTERRUPT c = c\<lparr>CP0_STATUS := get_cp0_status c AND 0xfffffffe\<rparr>"

text \<open>\<^verbatim>\<open>memcpy\<close> to an address.\<close>

fun copy_code :: "u32 \<Rightarrow> u8 list \<Rightarrow> (u32 \<Rightarrow> u8) \<Rightarrow> u32 \<Rightarrow> u8" where
  "copy_code addr [] mem = mem"
| "copy_code addr (b # bs) mem = copy_code (addr + 1) bs (mem(addr := b))"

definition init_exception :: "u8 list \<Rightarrow> 'c machine \<Rightarrow> 'c machine" where
  "init_exception handler_code os =
     (let os = os\<lparr>processor := CLOSE_INTERRUPT (processor os)\<rparr>;
          os = os\<lparr>exception_handlers := init_exception_handler\<rparr>;
          os = os\<lparr>memory := copy_code (EBASE + EBASE_OFFSET) handler_code (memory os)\<rparr>;
          os = os\<lparr>memory := copy_code 0x80000180 handler_code (memory os)\<rparr>;
          os = os\<lparr>memory := copy_code 0x80000000 handler_code (memory os)\<rparr>
      in os\<lparr>processor := reset_timer (processor os)\<rparr>)"

definition start_os :: "u8 list \<Rightarrow> u32 \<Rightarrow> u32 \<Rightarrow> 'c sd_dev \<Rightarrow> 'c machine \<Rightarrow> 'c machine option" where
  "start_os handler_code first_entry test_shell dev os = do {
     let os = os\<lparr>processor := asm_start (processor os)\<rparr>;
     let os = init_exception handler_code os;
     let os = os\<lparr>syscall_table := init_syscall (syscall_table os)\<rparr>;
     k \<leftarrow> init_pcb first_entry test_shell (kernel_data os);
     s \<leftarrow> init_screen (screen_data os);
     f \<leftarrow> init_fs dev (fs_data os);
     k \<leftarrow> do_scheduler k;
     Some (os\<lparr>kernel_data := k, screen_data := s, fs_data := f\<rparr>)
   }"

section \<open>The exception vectors\<close>

definition in_code :: "u32 \<Rightarrow> nat \<Rightarrow> u32 \<Rightarrow> bool" where
  "in_code addr n a \<longleftrightarrow> unat addr \<le> unat a \<and> unat a < unat addr + n"

lemma copy_code_mem:
  assumes "unat addr + length bs < 2 ^ 32"
  shows "copy_code addr bs mem a = (if in_code addr (length bs) a then bs ! (unat a - unat addr) else mem a)"
  using assms
proof (induction bs arbitrary: addr mem)
  case (Cons b bs)
  have s: "unat (addr + 1) = unat addr + 1" using Cons.prems by (subst unat_add_lem [THEN iffD1]) simp_all
  have "unat (addr + 1) + length bs < 2 ^ 32" using Cons.prems s by simp
  note IH = Cons.IH [OF this, of "mem(addr := b)"]
  have e: "a = addr \<longleftrightarrow> unat a = unat addr" by (simp add: word_unat_eq_iff)
  show ?case
  proof (cases "unat a = unat addr")
    case True
    then show ?thesis unfolding copy_code.simps IH using e by (simp add: in_code_def s)
  next
    case False
    then have "unat a - unat addr = Suc (unat a - (unat addr + 1))" if "unat addr \<le> unat a" using that by linarith
    then show ?thesis unfolding copy_code.simps IH using False e by (auto simp: in_code_def s)
  qed
qed (auto simp: in_code_def)

section \<open>The system starts\<close>

text \<open>The card is blank, or it carries a consistent file system.\<close>

definition card_usable :: "'c sd_dev \<Rightarrow> 'c fs_state \<Rightarrow> bool" where
  "card_usable dev u \<longleftrightarrow>
     get32 (read_block dev u SUPERBLOCK_BLOCK_INDEX) s_magic \<noteq> FS_MAGIC_NUMBER \<or>
     (\<exists>s. fs_ok dev s \<and> get32 (superblock_buffer s) s_magic = FS_MAGIC_NUMBER \<and> sdcard u = sdcard s)"

lemma init_fs_ok:
  assumes "sd_card dev" and "card_usable dev u" and "length (blockbmp_buffer u) = BLOCK_BITMAP_SIZE"
  shows "\<exists>t. init_fs dev u = Some t \<and> fs_ok dev t \<and> current_dir t = root_inode t"
proof (cases "get32 (read_block dev u SUPERBLOCK_BLOCK_INDEX) s_magic = FS_MAGIC_NUMBER")
  case True
  then show ?thesis using init_fs_mounts [OF assms(1) _ _ _ assms(3)] assms(2) unfolding card_usable_def by blast
next
  case False
  then have "init_fs dev u = do_mkfs dev (sync_from_disk_superblock dev u)"
    by (simp add: init_fs_def Let_def sync_from_disk_superblock_def)
  then show ?thesis
    using sd_card.do_mkfs_ok [OF assms(1), of "sync_from_disk_superblock dev u"] by (auto simp: fresh_fs_def)
qed



end
