(* ===== verification/Spec2Isabelle.thy ===== *)
theory Spec2Isabelle
  imports Memory Mac Mailbox Shell Scanf Image Boot
begin

text \<open>
  \<^bold>\<open>A verification development for UCAS-OS\<close>, a teaching kernel for a MIPS board (Loongson 1C) and QEMU.
  Paths below are relative to \<^verbatim>\<open>src/src\<close>; the SD card library is in \<^verbatim>\<open>src/other/libepmon\<close>.

  \<^bold>\<open>The program and its parts.\<close> The host program \<^verbatim>\<open>createimage\<close> lays out the boot block and the kernel; the
  boot block reads the kernel from the SD card and jumps to \<^verbatim>\<open>_start\<close>. \<^verbatim>\<open>_start\<close> fills the exception
  vectors and the table of system calls, prepares tasks and screen, mounts the file system and calls
  the scheduler, which starts the shell. From then on the kernel runs on exceptions: the timer
  interrupt preempts, system calls reach the table, TLB faults reach the memory manager. Tasks are
  linked into queues (ready, sleeping, one per synchronisation object, one per task waited for); the
  scheduler takes from the ready queue; locks, semaphores, conditions, barriers and mailboxes block
  and wake tasks through the same queues. The file system works on blocks of the card through
  \<^verbatim>\<open>sdread\<close> and \<^verbatim>\<open>sdwrite\<close>. Output goes through the formatter, either to the serial line or to the
  screen buffer that is sent as VT100 sequences.

  \<^bold>\<open>How the code is modelled.\<close> A C function is a function on an explicit state; \<^verbatim>\<open>uint8_t\<close>,
  \<^verbatim>\<open>uint16_t\<close>, \<^verbatim>\<open>uint32_t\<close> and \<^verbatim>\<open>int\<close> are words of their width that wrap around (\<open>sint\<close> where a
  comparison is signed); an array or buffer is a list; a null pointer is \<open>None\<close>. The result is an
  option: \<open>None\<close> stands for an access outside an object, a null dereference, a missing return value
  that is used, and a loop that does not end. Loops with a bound in the code are \<open>for_range\<close>, \<open>scan_up\<close>
  or a structural recursion on the number of steps the code itself allows; a loop without a bound is
  a \<open>partial_function (option)\<close>, so that a theorem that it returns is a theorem that the result is
  \<open>Some\<close>. No fuel is used anywhere.
  Routines in the ROM of the board and the registers of devices are parameters; what the code relies
  on is the assumption of a locale, and each locale is interpreted on a definition of the development.

  \<^bold>\<open>The theories.\<close>
  \<^item> \<open>Prelude\<close>: machine types, reads and writes of C objects, the loop combinators, little-endian integers.
  \<^item> \<open>CString\<close> (\<^verbatim>\<open>libs/string.c\<close>): \<^verbatim>\<open>memcpy\<close>, \<^verbatim>\<open>strcmp\<close>, \<^verbatim>\<open>strtok\<close>, \<^verbatim>\<open>itoa\<close>, \<^verbatim>\<open>atoi\<close> and the others. Shown:
    what \<^verbatim>\<open>strtok\<close> cuts, and that printing and reading numbers are inverse.
  \<^item> \<open>Bitmap\<close> (\<^verbatim>\<open>libs/bitmap.c\<close>): refines sets of numbers; the locale \<open>bit_search\<close> is the search for a
    clear bit, used for blocks and inodes.
  \<^item> \<open>Queue\<close> (\<^verbatim>\<open>kernel/sched/queue.c\<close>, types of \<^verbatim>\<open>include/os/sched.h\<close>): the linked queues at the level of
    pointers. Shown: under the representation \<open>queues_rep\<close> each operation is the list operation of its
    name; the locale \<open>task_queues\<close> is this contract, and the later theories use it.
  \<^item> \<open>Sched\<close> (\<^verbatim>\<open>kernel/sched/sched.c\<close>, \<^verbatim>\<open>time.c\<close>): sleeping, waking, choice of the next task, blocking.
  \<^item> \<open>Locking\<close> (\<^verbatim>\<open>kernel/locking\<close>): mutexes, semaphores, conditions, barriers.
  \<^item> \<open>Process\<close> (rest of \<^verbatim>\<open>sched.c\<close>, \<^verbatim>\<open>init_pcb\<close> of \<^verbatim>\<open>init/main.c\<close>): spawn, exit, kill, waitpid, the timer
    interrupt, and the relation \<open>reachable\<close> of all interleavings of these operations from the start.
    Shown: the invariant of every reachable state, mutual exclusion, which task the scheduler selects,
    the contracts of semaphores, barriers, release and kill.
  \<^item> \<open>Mailbox\<close> (\<^verbatim>\<open>libs/mailbox.c\<close>): send and receive as sequences of statements, so that tasks interleave
    between any two of them. Shown: every interleaving is a run of a bounded stack, through the locale
    \<open>sync_kernel\<close>, the contract of the synchronisation operations, interpreted on the kernel.
  \<^item> \<open>Entry\<close> (\<^verbatim>\<open>arch/mips/kernel/entry.S\<close>): registers, contexts, the exception path, CP0 and the TLB. Shown: a task
    that is switched away and back finds its registers; every exception code reaches its handler.
  \<^item> \<open>Memory\<close> (\<^verbatim>\<open>kernel/mm/memory.c\<close>): frames, page table, TLB handling, clock replacement. Shown: faults keep
    frames, page table and TLB consistent; a faulting program resumes; where it does not.
  \<^item> \<open>Libepmon\<close>: the card library, on the board and under QEMU; shown to be a block device for every
    \<open>boot_rom\<close>. \<open>Fs_Layout\<close> (\<^verbatim>\<open>include/os/fs.h\<close>) and \<open>Fs_Disk\<close>: the structures on the card and the transfers, over the
    locale \<open>sd_card\<close>. \<open>Fs_Alloc\<close>, \<open>Fs_Inode\<close>, \<open>Fs_Dir\<close>, \<open>Fs_Ops\<close>, \<open>Fs_Mkfs\<close> (\<^verbatim>\<open>kernel/fs/fs.c\<close>): allocation,
    block pointers, directories and paths, the operations behind the system calls, making a file
    system. \<open>Fs_Props\<close> and \<open>Fs_Main\<close>: making and mounting, creating and finding, writing and reading
    back, for every \<open>sd_card\<close>, and the limits the code has (first block of a directory, second
    pointer level).
  \<^item> \<open>Printk\<close> (\<^verbatim>\<open>libs/printk.c\<close>, \<^verbatim>\<open>arch/mips/pmon/common.c\<close>): the formatter never leaves its buffer. \<open>Screen\<close>
    (\<^verbatim>\<open>drivers/screen.c\<close>): writing stays on the screen; after a reflush every \<open>vt100_terminal\<close> shows the
    buffer. \<open>Scanf\<close> (\<^verbatim>\<open>libs/scanf.c\<close>): reading a hexadecimal number, character by character.
  \<^item> \<open>Syscall\<close> (\<^verbatim>\<open>kernel/syscall/syscall.c\<close>, \<^verbatim>\<open>arch/mips/kernel/syscall.S\<close>, \<^verbatim>\<open>init_syscall\<close>): the path from the user's call to
    the handler and back. \<open>Shell\<close> (\<^verbatim>\<open>test/test_shell.c\<close>): a typed line makes the call that it names.
  \<^item> \<open>Mac\<close> (\<^verbatim>\<open>drivers/mac.c\<close>): registers and descriptor rings of the network controller, over the locale \<open>transmitter\<close>.
  \<^item> \<open>Image\<close> (\<^verbatim>\<open>tools/createimage.c\<close>, \<^verbatim>\<open>arch/mips/boot/bootblock.S\<close>): what the boot block loads is what
    \<^verbatim>\<open>createimage\<close> wrote. \<open>Boot\<close> (\<^verbatim>\<open>init/main.c\<close>): \<^verbatim>\<open>_start\<close>, composed of the models above, reaches the
    shell with every component initialised.

  \<^bold>\<open>Bounds.\<close> The sizes are those of the code: 40 tasks, 32 mailboxes of 32 messages, 32 TLB lines, blocks
  of 4096 bytes, a screen of 80 by 60 cells, an input buffer of 1000 characters. Where a theorem needs
  a size hypothesis (a file of less than a block, an image of less than 1 GB) it is in its statement.

  \<^bold>\<open>Not modelled.\<close> The test tasks under \<^verbatim>\<open>test\<close> other than the shell and the set-up of the network
  test: they are user programs that call the modelled system calls in a loop. The packet tools under
  \<^verbatim>\<open>src/other/net-software\<close>: raw-socket programs for another machine. \<^verbatim>\<open>kernel/irq/irq.c\<close>, \<^verbatim>\<open>do_pwd\<close> and the
  other operations at the end of \<^verbatim>\<open>fs.c\<close>, \<^verbatim>\<open>swap_process\<close> and \<^verbatim>\<open>sys_read\<close>: their bodies are empty. The
  register dumps of \<^verbatim>\<open>mac.c\<close>, the debug prints of \<^verbatim>\<open>memory.c\<close>, and the bit-level card protocol and the
  serial routines of the card library: device output only. \<^verbatim>\<open>latency\<close>: a wait for real time. In
  \<^verbatim>\<open>entry.S\<close> the labels \<^verbatim>\<open>handle_others\<close>, \<^verbatim>\<open>first_entry\<close> and the path of \<^verbatim>\<open>handle_int\<close> that is not the timer have no
  definition of their own; the macros and routines they consist of have. Code that is commented out or excluded by the preprocessor.
\<close>

end
